(* ===== verification/Go_Prelude.thy ===== *)
theory Go_Prelude
  imports Main "HOL-Library.Word" "HOL-Library.Sublist"
begin

text \<open>
  Shared vocabulary of the development: the Go types and the parts of Go's standard library
  that the panel's own code calls (package strings, strconv and math/rand), byte strings,
  length-prefixed wire parsers, and the generic lemmas about them.

  \<^item> A Go string is a list of bytes; \<open>string\<close> (a \<open>char list\<close>) is exactly that, and
    \<open>[]byte(s)\<close> is \<open>bytes_of s\<close>.
  \<^item> A source of randomness is the list of the numbers it is going to yield, continued by zeros
    for ever (\<open>rng\<close>).  A statement about every \<open>rng\<close> is a statement about every
    outcome of the draws.
  \<^item> An \<open>'a parser\<close> consumes a prefix of its input, and a \<open>wire_codec\<close> is a printer
    with a parser that undoes it, whatever follows.
\<close>

section \<open>Types and collections\<close>

type_synonym byte = "8 word"
type_synonym u16 = "16 word"
type_synonym rng = "nat list"

named_theorems go_defs \<open>definitions of the Go library functions\<close>
named_theorems wire_simps \<open>rewriting rules of the byte-level parsers and printers\<close>

section \<open>Lists\<close>

lemma concat_map_length_ge:
  "(\<And>x. x \<in> set xs \<Longrightarrow> 1 \<le> length (f x)) \<Longrightarrow> length xs \<le> length (concat (map f xs))"
proof (induction xs)
  case Nil
  then show ?case by simp
next
  case (Cons a xs)
  then have "1 \<le> length (f a)" and "length xs \<le> length (concat (map f xs))" by simp_all
  then show ?case by simp
qed

lemma pad_up_mod: "(n + (512 - n mod 512)) mod 512 = (0::nat)"
proof -
  have "n + (512 - n mod 512) = n div 512 * 512 + 512"
    using div_mult_mod_eq [of n 512] mod_less_divisor [of 512 n] by linarith
  then show ?thesis by simp
qed

section \<open>Bytes\<close>

definition bytes_of :: "string \<Rightarrow> byte list" where
  "bytes_of s = map (\<lambda>c. word_of_nat (of_char c)) s"

definition string_of_bytes :: "byte list \<Rightarrow> string" where
  "string_of_bytes bs = map (\<lambda>b. char_of (unat b)) bs"

lemma length_bytes_of [simp]: "length (bytes_of s) = length s"
  by (simp add: bytes_of_def)

lemma bytes_of_append [simp]: "bytes_of (s @ t) = bytes_of s @ bytes_of t"
  by (simp add: bytes_of_def)

lemma unat_byte_of_nat [simp]: "unat (word_of_nat n :: byte) = n mod 256"
  by (simp add: unat_of_nat)

lemma unat_byte_less [simp]: "unat (b :: byte) < 256"
  using unsigned_less [of b, where ?'a = nat] by simp

lemma string_of_bytes_of [simp]: "string_of_bytes (bytes_of s) = s"
  by (simp add: string_of_bytes_def bytes_of_def o_def)

text \<open>Big-endian fixed-width integers, as \<open>binary.BigEndian.PutUint16\<close> writes them after the
  conversion \<open>uint16(x)\<close>, which keeps the low 16 bits.\<close>

definition be16 :: "nat \<Rightarrow> byte list" where
  "be16 v = [word_of_nat (v div 256), word_of_nat v]"

definition be24 :: "nat \<Rightarrow> byte list" where
  "be24 v = [word_of_nat (v div 65536), word_of_nat (v div 256), word_of_nat v]"

definition be32 :: "nat \<Rightarrow> byte list" where
  "be32 v = [word_of_nat (v div 16777216), word_of_nat (v div 65536), word_of_nat (v div 256),
     word_of_nat v]"

lemma length_be [simp]:
  "length (be16 v) = 2" "length (be24 v) = 3" "length (be32 v) = 4"
  by (simp_all add: be16_def be24_def be32_def)

section \<open>Randomness\<close>

text \<open>\<open>rng.Intn(n)\<close> for positive \<open>n\<close>, and \<open>n\<close> bytes of \<open>crypto/rand\<close>.\<close>

fun intn :: "nat \<Rightarrow> rng \<Rightarrow> nat \<times> rng" where
  "intn n [] = (0, [])"
| "intn n (r # rs) = (r mod n, rs)"

lemma intn_less [simp]: "0 < n \<Longrightarrow> fst (intn n rs) < n"
  by (cases rs) auto

lemma intn_lessD: "intn n rs = (k, rs') \<Longrightarrow> 0 < n \<Longrightarrow> k < n"
  using intn_less [of n rs] by simp

fun randomBytes :: "nat \<Rightarrow> rng \<Rightarrow> byte list \<times> rng" where
  "randomBytes 0 rs = ([], rs)"
| "randomBytes (Suc n) rs =
     (let (b, rs1) = intn 256 rs; (bs, rs2) = randomBytes n rs1 in (word_of_nat b # bs, rs2))"

lemma length_randomBytes [simp]: "length (fst (randomBytes n rs)) = n"
  by (induction n arbitrary: rs) (auto simp: Let_def split: prod.splits, metis fst_conv)

lemma randomBytes_length: "randomBytes n rs = (bs, rs') \<Longrightarrow> length bs = n"
  using length_randomBytes [of n rs] by simp

lemma intn_eq: "intn n rs = (if rs = [] then 0 else hd rs mod n, drop 1 rs)"
  by (cases rs) simp_all

lemma randomBytes_rest: "snd (randomBytes n rs) = drop n rs"
proof (induction n arbitrary: rs)
  case (Suc n)
  from Suc [of "drop 1 rs"] show ?case
    by (simp add: intn_eq Let_def case_prod_unfold)
qed simp

lemma randomBytes_eq: "randomBytes n rs = (fst (randomBytes n rs), drop n rs)"
  by (simp add: randomBytes_rest [symmetric])

section \<open>Wire parsers\<close>

type_synonym ('c, 'a) parser = "'c list \<Rightarrow> ('a \<times> 'c list) option"

definition take_n :: "nat \<Rightarrow> ('c, 'c list) parser" where
  "take_n n bs = (if n \<le> length bs then Some (take n bs, drop n bs) else None)"

definition p_u8 :: "(byte, nat) parser" where
  "p_u8 bs = (case bs of a # r \<Rightarrow> Some (unat a, r) | _ \<Rightarrow> None)"

definition p_u16 :: "(byte, nat) parser" where
  "p_u16 bs = (case bs of a # b # r \<Rightarrow> Some (unat a * 256 + unat b, r) | _ \<Rightarrow> None)"

definition p_u24 :: "(byte, nat) parser" where
  "p_u24 bs = (case bs of a # b # c # r \<Rightarrow> Some (unat a * 65536 + unat b * 256 + unat c, r)
     | _ \<Rightarrow> None)"

definition p_u32 :: "(byte, nat) parser" where
  "p_u32 bs = (case bs of a # b # c # d # r \<Rightarrow>
       Some (unat a * 16777216 + unat b * 65536 + unat c * 256 + unat d, r)
     | _ \<Rightarrow> None)"

definition p_vec :: "(byte, nat) parser \<Rightarrow> (byte, byte list) parser" where
  "p_vec plen bs = Option.bind (plen bs) (\<lambda>(n, r). take_n n r)"

text \<open>Items up to the end of the input.  Every item consumes something, so the length of the
  input is fuel enough.\<close>

fun many :: "('c, 'a) parser \<Rightarrow> nat \<Rightarrow> 'c list \<Rightarrow> 'a list option" where
  "many p fuel [] = Some []"
| "many p 0 (c # cs) = None"
| "many p (Suc fuel) (c # cs) =
     (case p (c # cs) of None \<Rightarrow> None
      | Some (x, rest) \<Rightarrow> map_option (Cons x) (many p fuel rest))"

abbreviation many_all :: "('c, 'a) parser \<Rightarrow> 'c list \<Rightarrow> 'a list option" where
  "many_all p bs \<equiv> many p (length bs) bs"

lemma take_n_append [wire_simps]: "length xs = n \<Longrightarrow> take_n n (xs @ ys) = Some (xs, ys)"
  by (simp add: take_n_def)

lemma take_n_all [wire_simps]: "length xs = n \<Longrightarrow> take_n n xs = Some (xs, [])"
  by (simp add: take_n_def)

lemma p_u8_Cons [wire_simps]: "p_u8 (b # r) = Some (unat b, r)"
  by (simp add: p_u8_def)

lemma p_u16_be16 [wire_simps]: "v < 65536 \<Longrightarrow> p_u16 (be16 v @ r) = Some (v, r)"
  by (simp add: p_u16_def be16_def)

lemma be_split3: "v div 65536 * 65536 + v div 256 mod 256 * 256 + v mod 256 = (v::nat)"
proof -
  have "v div 65536 = v div 256 div 256" by (simp add: div_mult2_eq [symmetric])
  then show ?thesis
    using div_mult_mod_eq [of v 256] div_mult_mod_eq [of "v div 256" 256] by linarith
qed

lemma be_split4:
  "v div 16777216 * 16777216 + v div 65536 mod 256 * 65536 + v div 256 mod 256 * 256 + v mod 256
     = (v::nat)"
proof -
  have "v div 16777216 = v div 65536 div 256" by (simp add: div_mult2_eq [symmetric])
  then show ?thesis
    using div_mult_mod_eq [of "v div 65536" 256] be_split3 [of v] by linarith
qed

lemma p_u24_be24 [wire_simps]: "v < 16777216 \<Longrightarrow> p_u24 (be24 v @ r) = Some (v, r)"
proof -
  assume "v < 16777216"
  then have "v div 65536 mod 256 = v div 65536" by simp
  with be_split3 [of v] show ?thesis by (simp add: p_u24_def be24_def)
qed

lemma p_u32_be32 [wire_simps]: "v < 4294967296 \<Longrightarrow> p_u32 (be32 v @ r) = Some (v, r)"
proof -
  assume "v < 4294967296"
  then have "v div 16777216 mod 256 = v div 16777216" by simp
  with be_split4 [of v] show ?thesis by (simp add: p_u32_def be32_def)
qed

lemma p_vec_u8 [wire_simps]:
  "length xs < 256 \<Longrightarrow> p_vec p_u8 (word_of_nat (length xs) # xs @ r) = Some (xs, r)"
  by (simp add: p_vec_def wire_simps)

lemma p_vec_u16 [wire_simps]:
  "length xs = n \<Longrightarrow> n < 65536 \<Longrightarrow> p_vec p_u16 (be16 n @ xs @ r) = Some (xs, r)"
  by (simp add: p_vec_def wire_simps)

lemma p_vec_u16_end [wire_simps]:
  "length xs = n \<Longrightarrow> n < 65536 \<Longrightarrow> p_vec p_u16 (be16 n @ xs) = Some (xs, [])"
  using p_vec_u16 [of xs n "[]"] by simp

lemma p_vec_u24_end [wire_simps]:
  "length xs = n \<Longrightarrow> n < 16777216 \<Longrightarrow> p_vec p_u24 (be24 n @ xs) = Some (xs, [])"
  by (simp add: p_vec_def wire_simps)

text \<open>The contract between a printer and the parser that reads it back.  Its consequence for
  sequences is proved once and used for the extension blocks and cipher lists of a ClientHello,
  the labels of a DNS name and the tags of a descriptor.\<close>

locale wire_codec =
  fixes enc :: "'a \<Rightarrow> 'c list"
    and dec :: "'c list \<Rightarrow> ('a \<times> 'c list) option"
    and ok :: "'a \<Rightarrow> bool"
  assumes dec_enc: "ok x \<Longrightarrow> dec (enc x @ rest) = Some (x, rest)"
    and enc_nonempty: "ok x \<Longrightarrow> enc x \<noteq> []"
begin

lemma many_enc:
  assumes "list_all ok xs" and "length (concat (map enc xs)) \<le> fuel"
  shows "many dec fuel (concat (map enc xs)) = Some xs"
  using assms
proof (induction xs arbitrary: fuel)
  case Nil
  then show ?case by simp
next
  case (Cons x xs)
  then have ok: "ok x" by simp
  then obtain c cs where c: "enc x = c # cs"
    using enc_nonempty by (cases "enc x") auto
  from Cons.prems(2) obtain n where n: "fuel = Suc n"
    by (cases fuel) (simp_all add: c)
  from Cons.prems(2) have "length (concat (map enc xs)) \<le> n"
    by (simp add: c n)
  with Cons have "many dec n (concat (map enc xs)) = Some xs" by simp
  with dec_enc [OF ok, of "concat (map enc xs)"] show ?case
    by (simp add: n c)
qed

lemma many_all_enc: "list_all ok xs \<Longrightarrow> many_all dec (concat (map enc xs)) = Some xs"
  by (rule many_enc) simp_all

lemma enc_inj:
  assumes "ok x" and "ok y" and "enc x = enc y"
  shows "x = y"
  using dec_enc [of x "[]"] dec_enc [of y "[]"] assms by simp

lemma concat_enc_inj:
  assumes "list_all ok xs" and "list_all ok ys" and "concat (map enc xs) = concat (map enc ys)"
  shows "xs = ys"
  using many_all_enc [OF assms(1)] many_all_enc [OF assms(2)] unfolding assms(3) by (rule option.inject [THEN iffD1, OF trans, OF sym])

end

interpretation u16_codec: wire_codec be16 p_u16 "\<lambda>v. v < 65536"
  by unfold_locales (simp_all add: wire_simps, simp add: be16_def)

end
