(* ===== verification/Cps_Hello.thy ===== *)
theory Cps_Hello
  imports Go_Prelude
begin

text \<open>
  The ClientHello builders of \<open>internal/awg/cps/cps.go\<close>: three browser-shaped TLS ClientHello
  messages, assembled byte by byte into a \<open>bytes.Buffer\<close>.  A buffer is a byte list and a
  \<open>write\<dots>\<close> function returns the buffer it was given with its bytes appended; the random
  draws are threaded through as an \<open>rng\<close>.  Constants are written as in the source.

  The second half is the specification side: a strict reader of a ClientHello (RFC 8446, section
  4.1.2), which accepts a message only when every length field is exact and no extension type
  occurs twice, and the lemmas that it reads each builder's output back.
\<close>

section \<open>Primitive writers\<close>

definition writeLen16 :: "byte list \<Rightarrow> nat \<Rightarrow> byte list" where
  "writeLen16 b v = b @ be16 v"

definition writeUint24BE :: "byte list \<Rightarrow> nat \<Rightarrow> byte list" where
  "writeUint24BE b v = b @ [word_of_nat (v div 65536), word_of_nat (v div 256), word_of_nat v]"

definition writeByte :: "byte list \<Rightarrow> nat \<Rightarrow> byte list" where
  "writeByte b v = b @ [word_of_nat v]"

text \<open>\<open>for _, g := range xs \<open>{\<close> writeLen16(&list, g) \<open>}\<close>\<close>\<close>

fun writeLoop16 :: "byte list \<Rightarrow> nat list \<Rightarrow> byte list" where
  "writeLoop16 b [] = b"
| "writeLoop16 b (x # xs) = writeLoop16 (writeLen16 b x) xs"

fun writeZeros :: "byte list \<Rightarrow> nat \<Rightarrow> byte list" where
  "writeZeros b 0 = b"
| "writeZeros b (Suc n) = writeZeros (writeByte b 0) n"

definition greaseValues :: "nat list" where
  "greaseValues = [0x0A0A, 0x1A1A, 0x2A2A, 0x3A3A, 0x4A4A, 0x5A5A, 0x6A6A, 0x7A7A, 0x8A8A,
     0x9A9A, 0xAAAA, 0xBABA, 0xCACA, 0xDADA, 0xEAEA, 0xFAFA]"

definition greaseValue :: "rng \<Rightarrow> nat \<times> rng" where
  "greaseValue rs = (let (i, rs1) = intn (length greaseValues) rs in (greaseValues ! i, rs1))"

text \<open>\<open>for greaseExt2 == greaseExt1 \<open>{\<close> greaseExt2 = greaseValue() \<open>}\<close>\<close>: with a source that
  yields the same value for ever the loop does not end, which is \<open>None\<close>.  An exhausted list
  stands for zeros, so the loop is stuck exactly when \<open>greaseExt1\<close> is the first value.\<close>

fun redrawGrease :: "nat \<Rightarrow> nat \<Rightarrow> rng \<Rightarrow> (nat \<times> rng) option" where
  "redrawGrease g1 g2 rs =
     (if g2 \<noteq> g1 then Some (g2, rs)
      else case rs of
          [] \<Rightarrow> (if greaseValues ! 0 = g1 then None else Some (greaseValues ! 0, []))
        | r # rs' \<Rightarrow> redrawGrease g1 (greaseValues ! (r mod length greaseValues)) rs')"

declare redrawGrease.simps [simp del]

section \<open>Extensions\<close>

definition writeServerNameExt :: "byte list \<Rightarrow> byte list \<Rightarrow> byte list" where
  "writeServerNameExt b host =
     (let name = writeByte [] 0x00;
          name = writeLen16 name (length host);
          name = name @ host;
          list = writeLen16 [] (length name);
          list = list @ name;
          b = writeLen16 b 0x0000;
          b = writeLen16 b (length list)
      in b @ list)"

definition writeSupportedGroupsExt :: "byte list \<Rightarrow> bool \<Rightarrow> rng \<Rightarrow> byte list \<times> rng" where
  "writeSupportedGroupsExt b grease rs =
     (let groups = [0x001D, 0x0017, 0x0018];
          (list, rs) = (if grease then let (g, rs1) = greaseValue rs in (writeLen16 [] g, rs1)
                        else ([], rs));
          list = writeLoop16 list groups;
          b = writeLen16 b 0x000A;
          b = writeLen16 b (length list + 2);
          b = writeLen16 b (length list)
      in (b @ list, rs))"

definition writeSupportedGroupsExtSafari :: "byte list \<Rightarrow> byte list" where
  "writeSupportedGroupsExtSafari b =
     (let groups = [0x001D, 0x0017, 0x0018, 0x0019];
          list = writeLoop16 [] groups;
          b = writeLen16 b 0x000A;
          b = writeLen16 b (length list + 2);
          b = writeLen16 b (length list)
      in b @ list)"

definition writeALPNExt :: "byte list \<Rightarrow> byte list" where
  "writeALPNExt b =
     (let protos = foldl (\<lambda>ps p. writeByte ps (length p) @ bytes_of p) [] [''h2'', ''http/1.1''];
          b = writeLen16 b 0x0010;
          b = writeLen16 b (length protos + 2);
          b = writeLen16 b (length protos)
      in b @ protos)"

definition writeSigAlgsExt :: "byte list \<Rightarrow> nat list \<Rightarrow> byte list" where
  "writeSigAlgsExt b algs =
     (let list = writeLoop16 [] algs;
          b = writeLen16 b 0x000D;
          b = writeLen16 b (length list + 2);
          b = writeLen16 b (length list)
      in b @ list)"

definition writeDelegatedCredentialsExt :: "byte list \<Rightarrow> byte list" where
  "writeDelegatedCredentialsExt b =
     (let algs = [0x0403, 0x0503, 0x0603, 0x0804, 0x0805, 0x0806, 0x0401, 0x0501, 0x0201];
          list = writeLoop16 [] algs;
          b = writeLen16 b 0x0022;
          b = writeLen16 b (length list + 2);
          b = writeLen16 b (length list)
      in b @ list)"

definition writeSupportedVersionsExt :: "byte list \<Rightarrow> bool \<Rightarrow> rng \<Rightarrow> byte list \<times> rng" where
  "writeSupportedVersionsExt b grease rs =
     (let (list, rs) = (if grease then let (g, rs1) = greaseValue rs in (writeLen16 [] g, rs1)
                        else ([], rs));
          list = writeLen16 list 0x0304;
          list = writeLen16 list 0x0303;
          b = writeLen16 b 0x002B;
          b = writeLen16 b (length list + 1);
          b = writeByte b (length list)
      in (b @ list, rs))"

definition writeSupportedVersionsExtSafari :: "byte list \<Rightarrow> byte list" where
  "writeSupportedVersionsExtSafari b =
     (let list = writeLen16 [] 0x0304;
          list = writeLen16 list 0x0303;
          list = writeLen16 list 0x0302;
          b = writeLen16 b 0x002B;
          b = writeLen16 b (length list + 1);
          b = writeByte b (length list)
      in b @ list)"

definition writeKeyShareExt :: "byte list \<Rightarrow> bool \<Rightarrow> rng \<Rightarrow> byte list \<times> rng" where
  "writeKeyShareExt b grease rs =
     (let (ks, rs) = (if grease then
                        (let (g, rs1) = greaseValue rs;
                             ks = writeLen16 [] g;
                             ks = writeLen16 ks 1;
                             ks = writeByte ks 0x00
                         in (ks, rs1))
                      else ([], rs));
          ks = writeLen16 ks 0x001D;
          ks = writeLen16 ks 32;
          (key, rs) = randomBytes 32 rs;
          ks = ks @ key;
          b = writeLen16 b 0x0033;
          b = writeLen16 b (length ks + 2);
          b = writeLen16 b (length ks)
      in (b @ ks, rs))"

definition writeKeyShareExtSafari :: "byte list \<Rightarrow> rng \<Rightarrow> byte list \<times> rng" where
  "writeKeyShareExtSafari b rs =
     (let ks = writeLen16 [] 0x001D;
          ks = writeLen16 ks 32;
          (key, rs) = randomBytes 32 rs;
          ks = ks @ key;
          ks = writeLen16 ks 0x0017;
          ks = writeLen16 ks 65;
          ks = writeByte ks 0x04;
          (point, rs) = randomBytes 64 rs;
          ks = ks @ point;
          b = writeLen16 b 0x0033;
          b = writeLen16 b (length ks + 2);
          b = writeLen16 b (length ks)
      in (b @ ks, rs))"

text \<open>\<open>padTo512\<close> computes on \<open>int\<close>; every quantity is a length, and \<open>current % target\<close> is below
  \<open>target\<close>, so the source's two clamps never act but are kept.\<close>

definition padTo512 :: "byte list \<Rightarrow> nat \<Rightarrow> byte list" where
  "padTo512 ext bodyLen =
     (let target = 512 :: int;
          current = int (4 + bodyLen + 2 + length ext + 4);
          pad = target - current mod target;
          pad = (if pad < 0 then pad + target else pad);
          pad = (if pad > 0xFFFF then 0xFFFF else pad);
          ext = writeLen16 ext 0x0015;
          ext = writeLen16 ext (nat pad)
      in writeZeros ext (nat pad))"

section \<open>The three hellos\<close>

definition chromeSigAlgs :: "nat list" where
  "chromeSigAlgs = [0x0403, 0x0804, 0x0401, 0x0503, 0x0805, 0x0203, 0x0806, 0x0402, 0x0201]"

definition firefoxSigAlgs :: "nat list" where
  "firefoxSigAlgs = [0x0403, 0x0503, 0x0603, 0x0804, 0x0805, 0x0806, 0x0401, 0x0501, 0x0203, 0x0201]"

definition safariSigAlgs :: "nat list" where
  "safariSigAlgs = [0x0403, 0x0804, 0x0401, 0x0503, 0x0805, 0x0501, 0x0806, 0x0201]"

definition wrapHandshake :: "byte list \<Rightarrow> byte list" where
  "wrapHandshake body =
     (let rec = writeByte [] 0x01;
          rec = writeUint24BE rec (length body)
      in rec @ body)"

definition chromeCiphers :: "nat list" where
  "chromeCiphers = [0x1301, 0x1302, 0x1303, 0xC02B, 0xC02F, 0xC02C, 0xC030,
     0xCCA9, 0xCCA8, 0xC013, 0xC014, 0x009C, 0x009D, 0x002F, 0x0035]"

definition firefoxCiphers :: "nat list" where
  "firefoxCiphers = [0x1301, 0x1302, 0x1303, 0xC02B, 0xC02C, 0xC02F, 0xC030, 0xCCA9, 0xCCA8,
     0xC008, 0xC009, 0xC00A, 0xC013, 0xC014, 0xC012, 0x009C, 0x009D, 0x002F, 0x0035, 0x000A]"

definition safariCiphers :: "nat list" where
  "safariCiphers = [0x1301, 0x1302, 0x1303, 0xC02C, 0xC02B, 0xC030, 0xC02F, 0xCCA9, 0xCCA8,
     0xC024, 0xC023, 0xC00A, 0xC009, 0xC008, 0xC028, 0xC027, 0xC014, 0xC013, 0xC012,
     0x009D, 0x009C, 0x003D, 0x003C, 0x0035, 0x002F, 0x00FF]"

text \<open>The fixed head of the body, the same statements in the three builders: legacy version,
  random and session id.\<close>

definition helloHead :: "rng \<Rightarrow> byte list \<times> rng" where
  "helloHead rs =
     (let hs = writeLen16 [] 0x0303;
          (random, rs) = randomBytes 32 rs;
          hs = hs @ random;
          (sid, rs) = randomBytes 32 rs;
          hs = writeByte hs (length sid);
          hs = hs @ sid
      in (hs, rs))"

definition buildChromeHello :: "byte list \<Rightarrow> rng \<Rightarrow> (byte list \<times> rng) option" where
  "buildChromeHello host rs =
     (let (hs, rs) = helloHead rs;
          cs = [0x00, 0x00];
          cs = writeLoop16 cs chromeCiphers;
          (grease, rs) = greaseValue rs;
          cs = cs[0 := word_of_nat (grease div 256)];
          cs = cs[1 := word_of_nat grease];
          hs = writeLen16 hs (length cs);
          hs = hs @ cs;
          hs = writeByte hs 0x01;
          hs = writeByte hs 0x00;
          ext = [];
          (greaseExt1, rs) = greaseValue rs;
          (greaseExt2, rs) = greaseValue rs
      in case redrawGrease greaseExt1 greaseExt2 rs of None \<Rightarrow> None | Some (greaseExt2, rs) \<Rightarrow>
      (let ext = writeLen16 ext greaseExt1;
          ext = writeLen16 ext 0;
          ext = writeServerNameExt ext host;
          ext = writeLen16 ext 0x0017;
          ext = writeLen16 ext 0;
          ext = writeLen16 ext 0xFF01;
          ext = writeLen16 ext 1;
          ext = writeByte ext 0x00;
          (ext, rs) = writeSupportedGroupsExt ext True rs;
          ext = writeLen16 ext 0x000B;
          ext = writeLen16 ext 2;
          ext = writeByte ext 1;
          ext = writeByte ext 0x00;
          ext = writeLen16 ext 0x0023;
          ext = writeLen16 ext 0;
          ext = writeALPNExt ext;
          ext = writeLen16 ext 0x0005;
          ext = writeLen16 ext 5;
          ext = writeByte ext 0x01;
          ext = writeLen16 ext 0;
          ext = writeLen16 ext 0;
          ext = writeSigAlgsExt ext chromeSigAlgs;
          ext = writeLen16 ext 0x0012;
          ext = writeLen16 ext 0;
          (ext, rs) = writeSupportedVersionsExt ext True rs;
          (ext, rs) = writeKeyShareExt ext True rs;
          ext = writeLen16 ext 0x002D;
          ext = writeLen16 ext 2;
          ext = writeByte ext 1;
          ext = writeByte ext 0x01;
          ext = writeLen16 ext 0x001B;
          ext = writeLen16 ext 3;
          ext = writeByte ext 0x02;
          ext = writeLen16 ext 0x0002;
          ext = writeLen16 ext 0x4469;
          ext = writeLen16 ext 4;
          ext = writeLen16 ext 2;
          ext = writeByte ext 0x68;
          ext = writeByte ext 0x32;
          ext = writeLen16 ext greaseExt2;
          ext = writeLen16 ext 0;
          (pad, rs) = intn 49 rs;
          ext = writeLen16 ext 0x0015;
          ext = writeLen16 ext pad;
          ext = writeZeros ext pad;
          hs = writeLen16 hs (length ext);
          hs = hs @ ext
      in Some (wrapHandshake hs, rs)))"

definition buildFirefoxHello :: "byte list \<Rightarrow> rng \<Rightarrow> byte list \<times> rng" where
  "buildFirefoxHello host rs =
     (let (hs, rs) = helloHead rs;
          cs = writeLoop16 [] firefoxCiphers;
          hs = writeLen16 hs (length cs);
          hs = hs @ cs;
          hs = writeByte hs 0x01;
          hs = writeByte hs 0x00;
          ext = [];
          ext = writeServerNameExt ext host;
          ext = writeLen16 ext 0x0017;
          ext = writeLen16 ext 0;
          ext = writeLen16 ext 0xFF01;
          ext = writeLen16 ext 1;
          ext = writeByte ext 0x00;
          (ext, rs) = writeSupportedGroupsExt ext False rs;
          ext = writeLen16 ext 0x000B;
          ext = writeLen16 ext 2;
          ext = writeByte ext 1;
          ext = writeByte ext 0x00;
          ext = writeLen16 ext 0x0023;
          ext = writeLen16 ext 0;
          ext = writeALPNExt ext;
          ext = writeLen16 ext 0x0005;
          ext = writeLen16 ext 5;
          ext = writeByte ext 0x01;
          ext = writeLen16 ext 0;
          ext = writeLen16 ext 0;
          (ext, rs) = writeKeyShareExt ext False rs;
          (ext, rs) = writeSupportedVersionsExt ext False rs;
          ext = writeSigAlgsExt ext firefoxSigAlgs;
          ext = writeLen16 ext 0x0012;
          ext = writeLen16 ext 0;
          ext = writeDelegatedCredentialsExt ext;
          ext = writeLen16 ext 0x002D;
          ext = writeLen16 ext 2;
          ext = writeByte ext 1;
          ext = writeByte ext 0x01;
          ext = padTo512 ext (length hs);
          hs = writeLen16 hs (length ext);
          hs = hs @ ext
      in (wrapHandshake hs, rs))"

definition buildSafariHello :: "byte list \<Rightarrow> rng \<Rightarrow> byte list \<times> rng" where
  "buildSafariHello host rs =
     (let (hs, rs) = helloHead rs;
          cs = writeLoop16 [] safariCiphers;
          hs = writeLen16 hs (length cs);
          hs = hs @ cs;
          hs = writeByte hs 0x01;
          hs = writeByte hs 0x00;
          ext = [];
          ext = writeServerNameExt ext host;
          ext = writeLen16 ext 0x000B;
          ext = writeLen16 ext 2;
          ext = writeByte ext 1;
          ext = writeByte ext 0x00;
          ext = writeLen16 ext 0x0017;
          ext = writeLen16 ext 0;
          ext = writeLen16 ext 0xFF01;
          ext = writeLen16 ext 1;
          ext = writeByte ext 0x00;
          ext = writeSupportedGroupsExtSafari ext;
          ext = writeLen16 ext 0x0023;
          ext = writeLen16 ext 0;
          ext = writeLen16 ext 0x0005;
          ext = writeLen16 ext 5;
          ext = writeByte ext 0x01;
          ext = writeLen16 ext 0;
          ext = writeLen16 ext 0;
          ext = writeSigAlgsExt ext safariSigAlgs;
          ext = writeSupportedVersionsExtSafari ext;
          ext = writeLen16 ext 0x002D;
          ext = writeLen16 ext 2;
          ext = writeByte ext 1;
          ext = writeByte ext 0x01;
          (ext, rs) = writeKeyShareExtSafari ext rs;
          ext = writeALPNExt ext;
          ext = writeLen16 ext 0x0012;
          ext = writeLen16 ext 0;
          hs = writeLen16 hs (length ext);
          hs = hs @ ext
      in (wrapHandshake hs, rs))"

section \<open>A strict reader\<close>

type_synonym extension = "nat \<times> byte list"

record client_hello =
  ch_version :: nat
  ch_random :: "byte list"
  ch_session :: "byte list"
  ch_ciphers :: "nat list"
  ch_compression :: "byte list"
  ch_extensions :: "extension list"

definition enc_ext :: "extension \<Rightarrow> byte list" where
  "enc_ext e = be16 (fst e) @ be16 (length (snd e)) @ snd e"

definition p_ext :: "(byte, extension) parser" where
  "p_ext bs = Option.bind (p_u16 bs) (\<lambda>(t, r).
     Option.bind (p_vec p_u16 r) (\<lambda>(body, r). Some ((t, body), r)))"

definition ext_fits :: "extension \<Rightarrow> bool" where
  "ext_fits e \<longleftrightarrow> fst e < 65536 \<and> length (snd e) < 65536"

lemma length_enc_ext: "length (enc_ext e) = 4 + length (snd e)"
  by (simp add: enc_ext_def)

text \<open>A vector that fills the whole body, and vectors of items.\<close>

definition whole :: "(byte, 'a) parser \<Rightarrow> byte list \<Rightarrow> 'a option" where
  "whole p bs = (case p bs of Some (x, []) \<Rightarrow> Some x | _ \<Rightarrow> None)"

definition items_ok :: "(byte, byte list) parser \<Rightarrow> (byte, 'a) parser \<Rightarrow> ('a \<Rightarrow> bool) \<Rightarrow> byte list \<Rightarrow> bool"
  where "items_ok pvec pitem good bs =
     (case whole pvec bs of None \<Rightarrow> False
      | Some v \<Rightarrow> v \<noteq> [] \<and>
          (case many_all pitem v of None \<Rightarrow> False | Some xs \<Rightarrow> list_all good xs))"

definition p_share :: "(byte, extension) parser" where
  "p_share = p_ext"

definition p_status :: "(byte, byte list \<times> byte list) parser" where
  "p_status bs = Option.bind (p_u8 bs) (\<lambda>(t, r). if t \<noteq> 1 then None else
     Option.bind (p_vec p_u16 r) (\<lambda>(ids, r).
     Option.bind (p_vec p_u16 r) (\<lambda>(exts, r). Some ((ids, exts), r))))"

definition p_name :: "(byte, nat \<times> byte list) parser" where
  "p_name bs = Option.bind (p_u8 bs) (\<lambda>(t, r).
     Option.bind (p_vec p_u16 r) (\<lambda>(n, r). Some ((t, n), r)))"

text \<open>The body of an extension type whose syntax the reader knows; any other body is opaque.\<close>

definition ext_body_ok :: "extension \<Rightarrow> bool" where
  "ext_body_ok e = (let t = fst e; bs = snd e in
     if t = 0x0000 then items_ok (p_vec p_u16) p_name (\<lambda>(ty, n). ty = 0 \<and> n \<noteq> []) bs
     else if t = 0x000A \<or> t = 0x000D \<or> t = 0x0022 then items_ok (p_vec p_u16) p_u16 (\<lambda>_. True) bs
     else if t = 0x0010 then items_ok (p_vec p_u16) (p_vec p_u8) (\<lambda>n. n \<noteq> []) bs
     else if t = 0x000B \<or> t = 0x002D then items_ok (p_vec p_u8) p_u8 (\<lambda>_. True) bs
     else if t = 0x002B \<or> t = 0x001B then items_ok (p_vec p_u8) p_u16 (\<lambda>_. True) bs
     else if t = 0x0033 then items_ok (p_vec p_u16) p_share (\<lambda>s. snd s \<noteq> []) bs
     else if t = 0x0005 then whole p_status bs \<noteq> None
     else True)"

definition parse_hello :: "byte list \<Rightarrow> client_hello option" where
  "parse_hello bs =
     Option.bind (p_u8 bs) (\<lambda>(ty, r). if ty \<noteq> 1 then None else
     Option.bind (whole (p_vec p_u24) r) (\<lambda>body.
     Option.bind (p_u16 body) (\<lambda>(ver, r).
     Option.bind (take_n 32 r) (\<lambda>(random, r).
     Option.bind (p_vec p_u8 r) (\<lambda>(sid, r).
     Option.bind (p_vec p_u16 r) (\<lambda>(cs, r).
     Option.bind (many_all p_u16 cs) (\<lambda>ciphers.
     Option.bind (p_vec p_u8 r) (\<lambda>(comp, r).
     Option.bind (whole (p_vec p_u16) r) (\<lambda>es.
     Option.bind (many_all p_ext es) (\<lambda>exts.
     if \<not> distinct (map fst exts) then None
     else Some \<lparr>ch_version = ver, ch_random = random, ch_session = sid, ch_ciphers = ciphers,
                ch_compression = comp, ch_extensions = exts\<rparr>))))))))))"

text \<open>The host name a server reads out of the hello.\<close>

definition server_name :: "client_hello \<Rightarrow> byte list option" where
  "server_name ch = (case map_of (ch_extensions ch) 0x0000 of None \<Rightarrow> None
     | Some body \<Rightarrow> Option.bind (whole (p_vec p_u16) body) (\<lambda>v.
         Option.bind (whole p_name v) (\<lambda>(ty, n). if ty = 0 then Some n else None)))"

section \<open>The builders print lists of extensions\<close>

interpretation ext_codec: wire_codec enc_ext p_ext ext_fits
proof
  fix e :: extension and rest assume "ext_fits e"
  then show "p_ext (enc_ext e @ rest) = Some (e, rest)"
    by (simp add: p_ext_def enc_ext_def ext_fits_def wire_simps)
qed (simp add: enc_ext_def be16_def)

lemma writeLoop16_eq [simp]: "writeLoop16 b xs = b @ concat (map be16 xs)"
  by (induction xs arbitrary: b) (simp_all add: writeLen16_def)

lemma writeZeros_eq [simp]: "writeZeros b n = b @ replicate n 0"
  by (induction n arbitrary: b) (simp_all add: writeByte_def replicate_append_same)

lemma length_concat_be16 [simp]: "length (concat (map be16 xs)) = 2 * length xs"
  by (induction xs) simp_all

definition sni_body :: "byte list \<Rightarrow> byte list" where
  "sni_body host = be16 (3 + length host) @ word_of_nat 0 # be16 (length host) @ host"

lemma writeServerNameExt_eq: "writeServerNameExt b host = b @ enc_ext (0x0000, sni_body host)"
  by (simp add: writeServerNameExt_def writeLen16_def writeByte_def enc_ext_def sni_body_def; simp add: numeral_eq_Suc)

definition vec16_u16s :: "nat list \<Rightarrow> byte list" where
  "vec16_u16s xs = be16 (2 * length xs) @ concat (map be16 xs)"

definition vec8_u16s :: "nat list \<Rightarrow> byte list" where
  "vec8_u16s xs = word_of_nat (2 * length xs) # concat (map be16 xs)"

definition alpn_body :: "byte list" where
  "alpn_body = be16 12 @ word_of_nat 2 # bytes_of ''h2'' @ word_of_nat 8 # bytes_of ''http/1.1''"

definition share_body :: "extension list \<Rightarrow> byte list" where
  "share_body ks = be16 (length (concat (map enc_ext ks))) @ concat (map enc_ext ks)"

lemmas write_defs = writeLen16_def writeByte_def enc_ext_def Let_def

lemma writeSupportedGroupsExt_eq:
  "writeSupportedGroupsExt b grease rs =
     (let (gs, rs') = (if grease then let (g, rs1) = greaseValue rs in ([g], rs1) else ([], rs))
      in (b @ enc_ext (0x000A, vec16_u16s (gs @ [0x001D, 0x0017, 0x0018])), rs'))"
  by (simp add: writeSupportedGroupsExt_def vec16_u16s_def write_defs split: prod.split; simp add: numeral_eq_Suc)

lemma writeSupportedGroupsExtSafari_eq:
  "writeSupportedGroupsExtSafari b
     = b @ enc_ext (0x000A, vec16_u16s [0x001D, 0x0017, 0x0018, 0x0019])"
  by (simp add: writeSupportedGroupsExtSafari_def vec16_u16s_def write_defs)

lemma writeALPNExt_eq: "writeALPNExt b = b @ enc_ext (0x0010, alpn_body)"
  by (simp add: writeALPNExt_def alpn_body_def write_defs; simp add: numeral_eq_Suc)

lemma writeSigAlgsExt_eq: "writeSigAlgsExt b algs = b @ enc_ext (0x000D, vec16_u16s algs)"
  by (simp add: writeSigAlgsExt_def vec16_u16s_def write_defs)

lemma writeDelegatedCredentialsExt_eq:
  "writeDelegatedCredentialsExt b = b @ enc_ext (0x0022, vec16_u16s
     [0x0403, 0x0503, 0x0603, 0x0804, 0x0805, 0x0806, 0x0401, 0x0501, 0x0201])"
  by (simp add: writeDelegatedCredentialsExt_def vec16_u16s_def write_defs)

lemma writeSupportedVersionsExt_eq:
  "writeSupportedVersionsExt b grease rs =
     (let (gs, rs') = (if grease then let (g, rs1) = greaseValue rs in ([g], rs1) else ([], rs))
      in (b @ enc_ext (0x002B, vec8_u16s (gs @ [0x0304, 0x0303])), rs'))"
  by (simp add: writeSupportedVersionsExt_def vec8_u16s_def write_defs split: prod.split; simp add: numeral_eq_Suc)

lemma writeSupportedVersionsExtSafari_eq:
  "writeSupportedVersionsExtSafari b = b @ enc_ext (0x002B, vec8_u16s [0x0304, 0x0303, 0x0302])"
  by (simp add: writeSupportedVersionsExtSafari_def vec8_u16s_def write_defs)

lemma writeKeyShareExt_eq:
  "writeKeyShareExt b grease rs =
     (let (gs, rs1) = (if grease then let (g, rs1) = greaseValue rs in ([(g, [0])], rs1)
                       else ([], rs));
          (key, rs2) = randomBytes 32 rs1
      in (b @ enc_ext (0x0033, share_body (gs @ [(0x001D, key)])), rs2))"
  by (auto simp: writeKeyShareExt_def share_body_def write_defs randomBytes_length split: prod.split)

lemma writeKeyShareExtSafari_eq:
  "writeKeyShareExtSafari b rs =
     (let (key, rs1) = randomBytes 32 rs; (point, rs2) = randomBytes 64 rs1
      in (b @ enc_ext (0x0033, share_body [(0x001D, key), (0x0017, word_of_nat 4 # point)]), rs2))"
  by (auto simp: writeKeyShareExtSafari_def share_body_def write_defs randomBytes_length split: prod.split)

lemmas ext_writers = writeServerNameExt_eq writeSupportedGroupsExt_eq
  writeSupportedGroupsExtSafari_eq writeALPNExt_eq writeSigAlgsExt_eq
  writeDelegatedCredentialsExt_eq writeSupportedVersionsExt_eq writeSupportedVersionsExtSafari_eq
  writeKeyShareExt_eq writeKeyShareExtSafari_eq

definition hello_body :: "byte list \<Rightarrow> byte list \<Rightarrow> nat list \<Rightarrow> extension list \<Rightarrow> byte list" where
  "hello_body random sid ciphers exts =
     be16 0x0303 @ random @ word_of_nat (length sid) # sid
     @ be16 (2 * length ciphers) @ concat (map be16 ciphers)
     @ word_of_nat 1 # word_of_nat 0
     # be16 (length (concat (map enc_ext exts))) @ concat (map enc_ext exts)"

definition chrome_exts ::
  "byte list \<Rightarrow> nat \<Rightarrow> nat \<Rightarrow> nat \<Rightarrow> nat \<Rightarrow> nat \<Rightarrow> byte list \<Rightarrow> nat \<Rightarrow> extension list" where
  "chrome_exts host g1 g2 gg gv gk key pad =
     [(g1, []), (0x0000, sni_body host), (0x0017, []), (0xFF01, [0]),
      (0x000A, vec16_u16s [gg, 0x001D, 0x0017, 0x0018]), (0x000B, [1, 0]), (0x0023, []),
      (0x0010, alpn_body), (0x0005, [1, 0, 0, 0, 0]), (0x000D, vec16_u16s chromeSigAlgs),
      (0x0012, []), (0x002B, vec8_u16s [gv, 0x0304, 0x0303]),
      (0x0033, share_body [(gk, [0]), (0x001D, key)]), (0x002D, [1, 1]),
      (0x001B, vec8_u16s [0x0002]), (0x4469, [0, 2, 0x68, 0x32]), (g2, []),
      (0x0015, replicate pad 0)]"

definition firefox_exts :: "byte list \<Rightarrow> byte list \<Rightarrow> nat \<Rightarrow> extension list" where
  "firefox_exts host key pad =
     [(0x0000, sni_body host), (0x0017, []), (0xFF01, [0]),
      (0x000A, vec16_u16s [0x001D, 0x0017, 0x0018]), (0x000B, [1, 0]), (0x0023, []),
      (0x0010, alpn_body), (0x0005, [1, 0, 0, 0, 0]), (0x0033, share_body [(0x001D, key)]),
      (0x002B, vec8_u16s [0x0304, 0x0303]), (0x000D, vec16_u16s firefoxSigAlgs), (0x0012, []),
      (0x0022, vec16_u16s [0x0403, 0x0503, 0x0603, 0x0804, 0x0805, 0x0806, 0x0401, 0x0501, 0x0201]),
      (0x002D, [1, 1]), (0x0015, replicate pad 0)]"

definition safari_exts :: "byte list \<Rightarrow> byte list \<Rightarrow> byte list \<Rightarrow> extension list" where
  "safari_exts host key point =
     [(0x0000, sni_body host), (0x000B, [1, 0]), (0x0017, []), (0xFF01, [0]),
      (0x000A, vec16_u16s [0x001D, 0x0017, 0x0018, 0x0019]), (0x0023, []),
      (0x0005, [1, 0, 0, 0, 0]), (0x000D, vec16_u16s safariSigAlgs),
      (0x002B, vec8_u16s [0x0304, 0x0303, 0x0302]), (0x002D, [1, 1]),
      (0x0033, share_body [(0x001D, key), (0x0017, word_of_nat 4 # point)]),
      (0x0010, alpn_body), (0x0012, [])]"

text \<open>The extensions the builders write inline.\<close>

lemma inline_writers:
  "t \<noteq> 0 \<Longrightarrow> writeLen16 (writeLen16 b t) 0 = b @ enc_ext (t, [])"
  "writeByte (writeLen16 (writeLen16 b t) (Suc 0)) x = b @ enc_ext (t, [word_of_nat x])"
  "t \<noteq> 4 \<Longrightarrow> writeByte (writeByte (writeLen16 (writeLen16 b t) 2) x) y
     = b @ enc_ext (t, [word_of_nat x, word_of_nat y])"
  "writeLen16 (writeLen16 (writeByte (writeLen16 (writeLen16 b t) 5) x) 0) 0
     = b @ enc_ext (t, [word_of_nat x, 0, 0, 0, 0])"
  "writeLen16 (writeByte (writeLen16 (writeLen16 b t) 3) 2) v = b @ enc_ext (t, vec8_u16s [v])"
  "writeByte (writeByte (writeLen16 (writeLen16 (writeLen16 b t) 4) 2) x) y
     = b @ enc_ext (t, [0, 2, word_of_nat x, word_of_nat y])"
  "writeLen16 (writeLen16 b t) n @ replicate n z = b @ enc_ext (t, replicate n z)"
  by (simp_all add: writeLen16_def writeByte_def enc_ext_def vec8_u16s_def be16_def)

lemma helloHead_eq:
  obtains random sid rs' where "length random = 32" and "length sid = 32"
    and "helloHead rs = (be16 0x0303 @ random @ word_of_nat (length sid) # sid, rs')"
proof -
  obtain random rs1 where r: "randomBytes 32 rs = (random, rs1)" by fastforce
  obtain sid rs2 where s: "randomBytes 32 rs1 = (sid, rs2)" by fastforce
  show ?thesis
    using r s randomBytes_length [OF r] randomBytes_length [OF s]
    by (intro that [of random sid rs2]) (simp_all add: helloHead_def writeLen16_def writeByte_def)
qed

lemma safari_hello_eq:
  obtains random sid key point where "length random = 32" and "length sid = 32"
    and "length key = 32" and "length point = 64"
    and "fst (buildSafariHello host rs)
      = wrapHandshake (hello_body random sid safariCiphers (safari_exts host key point))"
proof -
  obtain random sid rs1 where len: "length random = 32" "length sid = 32"
    and h: "helloHead rs = (be16 0x0303 @ random @ word_of_nat (length sid) # sid, rs1)"
    by (rule helloHead_eq)
  obtain key rs2 where k: "randomBytes 32 rs1 = (key, rs2)" by fastforce
  obtain point rs3 where p: "randomBytes 64 rs2 = (point, rs3)" by fastforce
  have "fst (buildSafariHello host rs)
      = wrapHandshake (hello_body random sid safariCiphers (safari_exts host key point))"
    by (simp add: buildSafariHello_def h k p ext_writers inline_writers hello_body_def
        safari_exts_def) (simp add: writeLen16_def writeByte_def add.assoc)
  with len randomBytes_length [OF k] randomBytes_length [OF p] show ?thesis by (intro that)
qed

definition ff_pad :: "nat \<Rightarrow> nat" where
  "ff_pad n = 512 - n mod 512"

lemma padTo512_eq:
  "padTo512 ext n = ext @ enc_ext (0x0015, replicate (ff_pad (10 + n + length ext)) 0)"
proof -
  let ?m = "10 + n + length ext"
  have "int (4 + n + 2 + length ext + 4) mod 512 = int (?m mod 512)"
    by (simp add: zmod_int ac_simps)
  moreover have "?m mod 512 < 512" by simp
  ultimately have "(512 :: int) - int (4 + n + 2 + length ext + 4) mod 512 = int (ff_pad ?m)"
    unfolding ff_pad_def by linarith
  moreover have "int (ff_pad ?m) \<le> 512" and "0 \<le> int (ff_pad ?m)"
    by (simp_all add: ff_pad_def)
  ultimately show ?thesis
    by (simp add: padTo512_def Let_def writeLen16_def enc_ext_def)
qed

lemma firefox_hello_eq:
  obtains random sid key pad where "length random = 32" and "length sid = 32"
    and "length key = 32"
    and "pad = ff_pad (10 + (71 + 2 * length firefoxCiphers)
      + length (concat (map enc_ext (butlast (firefox_exts host key pad)))))"
    and "fst (buildFirefoxHello host rs)
      = wrapHandshake (hello_body random sid firefoxCiphers (firefox_exts host key pad))"
proof -
  obtain random sid rs1 where len: "length random = 32" "length sid = 32"
    and h: "helloHead rs = (be16 0x0303 @ random @ word_of_nat (length sid) # sid, rs1)"
    by (rule helloHead_eq)
  obtain key rs2 where k: "randomBytes 32 rs1 = (key, rs2)" by fastforce
  define pad where "pad = ff_pad (10 + (71 + 2 * length firefoxCiphers)
      + length (concat (map enc_ext (butlast (firefox_exts host key 0)))))"
  have "fst (buildFirefoxHello host rs)
      = wrapHandshake (hello_body random sid firefoxCiphers (firefox_exts host key pad))"
    by (simp add: buildFirefoxHello_def h k ext_writers inline_writers hello_body_def padTo512_eq
        firefox_exts_def pad_def) (simp add: writeLen16_def writeByte_def len add.assoc)
  moreover have "pad = ff_pad (10 + (71 + 2 * length firefoxCiphers)
      + length (concat (map enc_ext (butlast (firefox_exts host key pad)))))"
    unfolding pad_def by (simp add: firefox_exts_def)
  ultimately show ?thesis using len randomBytes_length [OF k] by (intro that)
qed

lemma grease_nth: "i < 16 \<Longrightarrow> greaseValues ! i \<in> set greaseValues"
  by (rule nth_mem) (simp add: greaseValues_def)

lemma grease_nonzero: "0 \<notin> set greaseValues"
  by (simp add: greaseValues_def)

lemma length_grease [simp]: "length greaseValues = 16"
  by (simp add: greaseValues_def)

lemma greaseValue_mem: "greaseValue rs = (g, rs') \<Longrightarrow> g \<in> set greaseValues"
  by (auto simp: greaseValue_def split: prod.splits dest!: intn_lessD intro!: grease_nth)

lemma redrawGrease_mem:
  "redrawGrease g1 g2 rs = Some (g, rs') \<Longrightarrow> g2 \<in> set greaseValues \<Longrightarrow>
     g \<in> set greaseValues \<and> g \<noteq> g1"
proof (induction g1 g2 rs rule: redrawGrease.induct)
  case (1 g1 g2 rs)
  show ?case
  proof (cases "g2 = g1")
    case False
    with 1 show ?thesis by (simp add: redrawGrease.simps [of g1 g2])
  next
    case eq: True
    show ?thesis
    proof (cases rs)
      case Nil
      with 1 eq show ?thesis
        by (auto simp: redrawGrease.simps [of g1 _ "[]"] grease_nth split: if_splits)
    next
      case (Cons r rs1)
      with 1 eq show ?thesis by (simp add: redrawGrease.simps [of g1 g1 "r # rs1"] grease_nth)
    qed
  qed
qed

lemma redraw_None_iff:
  assumes "helloHead rs = (hs, rs1)" and "greaseValue rs1 = (g0, rs2)"
    and "greaseValue rs2 = (g1, rs3)" and "greaseValue rs3 = (g2, rs4)"
  shows "buildChromeHello host rs = None \<longleftrightarrow> redrawGrease g1 g2 rs4 = None"
proof (cases "redrawGrease g1 g2 rs4")
  case None
  then show ?thesis by (simp add: buildChromeHello_def assms Let_def)
next
  case (Some r)
  then show ?thesis
    by (cases r) (simp add: buildChromeHello_def assms Let_def case_prod_unfold)
qed

lemma chrome_hello_eq:
  assumes "buildChromeHello host rs = Some (hello, rs')"
  obtains random sid g0 g1 g2 gg gv gk key pad where "length random = 32" and "length sid = 32"
    and "length key = 32" and "pad < 49" and "g1 \<noteq> g2"
    and "{g0, g1, g2, gg, gv, gk} \<subseteq> set greaseValues"
    and "hello = wrapHandshake (hello_body random sid (g0 # chromeCiphers)
      (chrome_exts host g1 g2 gg gv gk key pad))"
proof -
  obtain random sid rs1 where len: "length random = 32" "length sid = 32"
    and h: "helloHead rs = (be16 0x0303 @ random @ word_of_nat (length sid) # sid, rs1)"
    by (rule helloHead_eq)
  obtain g0 rs2 where g0: "greaseValue rs1 = (g0, rs2)" by fastforce
  obtain g1 rs3 where g1: "greaseValue rs2 = (g1, rs3)" by fastforce
  obtain g2' rs4 where g2': "greaseValue rs3 = (g2', rs4)" by fastforce
  obtain g2 rs5 where g2: "redrawGrease g1 g2' rs4 = Some (g2, rs5)"
    using assms redraw_None_iff [OF h g0 g1 g2', of host]
    by (cases "redrawGrease g1 g2' rs4") auto
  obtain gg rs6 where gg: "greaseValue rs5 = (gg, rs6)" by fastforce
  obtain gv rs7 where gv: "greaseValue rs6 = (gv, rs7)" by fastforce
  obtain gk rs8 where gk: "greaseValue rs7 = (gk, rs8)" by fastforce
  obtain key rs9 where k: "randomBytes 32 rs8 = (key, rs9)" by fastforce
  obtain pad rs10 where p: "intn 49 rs9 = (pad, rs10)" by fastforce
  note gs = greaseValue_mem [OF g0] greaseValue_mem [OF g1] greaseValue_mem [OF gg]
    greaseValue_mem [OF gv] greaseValue_mem [OF gk] redrawGrease_mem [OF g2 greaseValue_mem [OF g2']]
  then have nz: "g1 \<noteq> 0" "g2 \<noteq> 0" using grease_nonzero by metis+
  have be: "word_of_nat (g0 div 256) # word_of_nat g0 # r = be16 g0 @ r" for r
    by (simp add: be16_def)
  have "buildChromeHello host rs = Some (wrapHandshake (hello_body random sid (g0 # chromeCiphers)
      (chrome_exts host g1 g2 gg gv gk key pad)), rs10)"
    by (simp add: buildChromeHello_def h g0 g1 g2' g2 gg gv gk k p nz be ext_writers inline_writers
        hello_body_def chrome_exts_def)
      (simp add: writeLen16_def writeByte_def length_enc_ext add.assoc)
  with assms have "hello = wrapHandshake (hello_body random sid (g0 # chromeCiphers)
      (chrome_exts host g1 g2 gg gv gk key pad))" by simp
  then show ?thesis
    using len randomBytes_length [OF k] intn_lessD [OF p] gs by (intro that) auto
qed

section \<open>Reading the hellos back\<close>

lemma many_u16s [wire_simps]:
  "list_all (\<lambda>v. v < 65536) xs \<Longrightarrow> many p_u16 (2 * length xs) (concat (map be16 xs)) = Some xs"
  by (rule u16_codec.many_enc) simp_all

lemma whole_vec_u16 [wire_simps]: "length xs = n \<Longrightarrow> n < 65536 \<Longrightarrow> whole (p_vec p_u16) (be16 n @ xs) = Some xs"
  by (simp add: whole_def wire_simps)

lemma whole_vec_u24 [wire_simps]:
  "length xs < 16777216 \<Longrightarrow> whole (p_vec p_u24) (be24 (length xs) @ xs) = Some xs"
  by (simp add: whole_def wire_simps)

lemma whole_vec_u8 [wire_simps]:
  "length xs = n \<Longrightarrow> n < 256 \<Longrightarrow> whole (p_vec p_u8) (word_of_nat n # xs) = Some xs"
  using p_vec_u8 [of xs "[]"] by (simp add: whole_def)

lemma p_vec_u8_one [wire_simps]: "p_vec p_u8 (1 # x # r) = Some ([x], r)"
  by (simp add: p_vec_def wire_simps take_n_def)

lemma wrapHandshake_eq: "wrapHandshake body = 1 # be24 (length body) @ body"
  by (simp add: wrapHandshake_def writeByte_def writeUint24BE_def be24_def)

theorem parse_hello_wrap:
  assumes "length random = 32" and "length sid < 256"
    and "list_all (\<lambda>v. v < 65536) ciphers" and "length ciphers < 32768"
    and "list_all ext_fits exts" and "length (concat (map enc_ext exts)) < 65536"
    and "distinct (map fst exts)"
  shows "parse_hello (wrapHandshake (hello_body random sid ciphers exts)) =
    Some \<lparr>ch_version = 0x0303, ch_random = random, ch_session = sid, ch_ciphers = ciphers,
      ch_compression = [0], ch_extensions = exts\<rparr>"
proof -
  have "length (hello_body random sid ciphers exts) < 16777216"
    using assms by (simp add: hello_body_def)
  then show ?thesis
    using assms ext_codec.many_all_enc [OF assms(5)]
    by (simp add: parse_hello_def wrapHandshake_eq wire_simps)
      (simp add: hello_body_def wire_simps)
qed

lemma p_name_sni [wire_simps]:
  "length host < 65536 \<Longrightarrow> p_name (0 # be16 (length host) @ host) = Some ((0, host), [])"
  by (simp add: p_name_def wire_simps)

lemma whole_sni: "length host < 65000 \<Longrightarrow>
    whole (p_vec p_u16) (sni_body host) = Some (0 # be16 (length host) @ host)"
  unfolding sni_body_def by (subst whole_vec_u16) simp_all

lemma items_okI:
  "whole pvec bs = Some v \<Longrightarrow> v \<noteq> [] \<Longrightarrow> many pitem (length v) v = Some xs \<Longrightarrow> list_all good xs
     \<Longrightarrow> items_ok pvec pitem good bs"
  by (simp add: items_ok_def)

lemma sni_ok: "0 < length host \<Longrightarrow> length host < 65000 \<Longrightarrow> ext_body_ok (0x0000, sni_body host)"
  by (auto simp: ext_body_ok_def wire_simps intro!: items_okI [OF whole_sni])

lemma concat_be16_ne: "xs \<noteq> [] \<Longrightarrow> concat (map be16 xs) \<noteq> []"
  by (cases xs) (simp_all add: be16_def)

lemma vec16_u16s_ok:
  assumes "list_all (\<lambda>v. v < 65536) xs" and "xs \<noteq> []" and "length xs < 32768"
  shows "items_ok (p_vec p_u16) p_u16 (\<lambda>_. True) (vec16_u16s xs)"
proof (rule items_okI)
  show "whole (p_vec p_u16) (vec16_u16s xs) = Some (concat (map be16 xs))"
    using assms(3) by (simp add: vec16_u16s_def whole_vec_u16)
  show "many p_u16 (length (concat (map be16 xs))) (concat (map be16 xs)) = Some xs"
    using assms(1) by (simp add: many_u16s)
  show "concat (map be16 xs) \<noteq> []" by (rule concat_be16_ne [OF assms(2)])
qed (simp add: list_all_iff)

lemma vec8_u16s_ok:
  assumes "list_all (\<lambda>v. v < 65536) xs" and "xs \<noteq> []" and "length xs < 128"
  shows "items_ok (p_vec p_u8) p_u16 (\<lambda>_. True) (vec8_u16s xs)"
proof (rule items_okI)
  show "whole (p_vec p_u8) (vec8_u16s xs) = Some (concat (map be16 xs))"
    unfolding vec8_u16s_def using assms(3) by (intro whole_vec_u8) simp_all
  show "many p_u16 (length (concat (map be16 xs))) (concat (map be16 xs)) = Some xs"
    using assms(1) by (simp add: many_u16s)
  show "concat (map be16 xs) \<noteq> []" by (rule concat_be16_ne [OF assms(2)])
qed (simp add: list_all_iff)

lemma share_ok:
  assumes "list_all ext_fits ks" and "ks \<noteq> []" and "list_all (\<lambda>s. snd s \<noteq> []) ks"
    and "length (concat (map enc_ext ks)) < 65536"
  shows "items_ok (p_vec p_u16) p_share (\<lambda>s. snd s \<noteq> []) (share_body ks)"
proof (rule items_okI)
  show "whole (p_vec p_u16) (share_body ks) = Some (concat (map enc_ext ks))"
    using assms(4) by (simp add: share_body_def wire_simps)
  show "concat (map enc_ext ks) \<noteq> []"
    using assms(2) by (cases ks) (simp_all add: enc_ext_def be16_def)
  show "many p_share (length (concat (map enc_ext ks))) (concat (map enc_ext ks)) = Some ks"
    unfolding p_share_def by (rule ext_codec.many_all_enc [OF assms(1)])
qed (rule assms(3))

lemma alpn_ok: "ext_body_ok (0x0010, alpn_body)"
  by code_simp

lemma fixed_bodies_ok:
  "ext_body_ok (0x0005, [1, 0, 0, 0, 0])" "ext_body_ok (0x000B, [1, 0])" "ext_body_ok (0x002D, [1, 1])"
  by code_simp+

lemma length_sni_body [simp]: "length (sni_body host) = 5 + length host"
  by (simp add: sni_body_def)

lemma length_vec_u16s [simp]:
  "length (vec16_u16s xs) = 2 + 2 * length xs" "length (vec8_u16s xs) = 1 + 2 * length xs"
  by (simp_all add: vec16_u16s_def vec8_u16s_def)

lemma length_alpn_body [simp]: "length alpn_body = 14"
  by (simp add: alpn_body_def)

lemma length_share_body [simp]:
  "length (share_body ks) = 2 + sum_list (map (\<lambda>k. 4 + length (snd k)) ks)"
  by (simp add: share_body_def length_concat length_enc_ext o_def)

lemmas body_ok = sni_ok vec16_u16s_ok vec8_u16s_ok share_ok alpn_ok fixed_bodies_ok

text \<open>What a reader sees of a well-formed hello for a host.\<close>

definition hello_for :: "byte list \<Rightarrow> nat list \<Rightarrow> client_hello \<Rightarrow> bool" where
  "hello_for host ciphers ch \<longleftrightarrow>
     ch_version ch = 0x0303 \<and> ch_ciphers ch = ciphers \<and> server_name ch = Some host \<and>
     list_all ext_body_ok (ch_extensions ch)"

definition exts_sound :: "byte list \<Rightarrow> extension list \<Rightarrow> bool" where
  "exts_sound host exts \<longleftrightarrow> list_all ext_fits exts \<and> length (concat (map enc_ext exts)) < 65536 \<and>
     distinct (map fst exts) \<and> map_of exts 0x0000 = Some (sni_body host) \<and> list_all ext_body_ok exts"

lemma parse_hello_sound:
  assumes "exts_sound host exts" and "length host < 65000" and "length random = 32"
    and "length sid < 256" and "list_all (\<lambda>v. v < 65536) ciphers" and "length ciphers < 32768"
  shows "\<exists>ch. parse_hello (wrapHandshake (hello_body random sid ciphers exts)) = Some ch \<and>
    hello_for host ciphers ch"
proof -
  let ?ch = "\<lparr>ch_version = 0x0303, ch_random = random, ch_session = sid, ch_ciphers = ciphers,
      ch_compression = [0], ch_extensions = exts\<rparr>"
  have "parse_hello (wrapHandshake (hello_body random sid ciphers exts)) = Some ?ch"
    using assms by (intro parse_hello_wrap) (auto simp: exts_sound_def)
  moreover have "hello_for host ciphers ?ch"
    using assms by (simp add: hello_for_def exts_sound_def server_name_def whole_sni wire_simps
        whole_def [of p_name])
  ultimately show ?thesis by blast
qed

lemma safari_exts_sound:
  assumes "0 < length host" "length host < 65000" "length key = 32" "length point = 64"
  shows "exts_sound host (safari_exts host key point)"
proof -
  from assms(3) have "key \<noteq> []" by auto
  then have "items_ok (p_vec p_u16) p_share (\<lambda>s. snd s \<noteq> []) (share_body [(29, key), (23, 4 # point)])"
    using assms by (intro share_ok) (simp_all add: ext_fits_def length_enc_ext)
  with assms show ?thesis
    by (simp add: exts_sound_def safari_exts_def ext_fits_def length_enc_ext body_ok safariSigAlgs_def)
      (simp add: ext_body_ok_def body_ok)
qed

lemma firefox_exts_sound:
  assumes "0 < length host" "length host < 64000" "length key = 32" "pad \<le> 512"
  shows "exts_sound host (firefox_exts host key pad)"
proof -
  from assms(3) have "key \<noteq> []" by auto
  then have "items_ok (p_vec p_u16) p_share (\<lambda>s. snd s \<noteq> []) (share_body [(29, key)])"
    using assms by (intro share_ok) (simp_all add: ext_fits_def length_enc_ext)
  with assms show ?thesis
    by (simp add: exts_sound_def firefox_exts_def ext_fits_def length_enc_ext body_ok firefoxSigAlgs_def)
      (simp add: ext_body_ok_def body_ok)
qed

lemma grease_props:
  "g \<in> set greaseValues \<Longrightarrow> g < 65536 \<and> ext_body_ok (g, []) \<and>
     g \<notin> {0x0000, 0x0017, 0xFF01, 0x000A, 0x000B, 0x0023, 0x0010, 0x0005, 0x000D, 0x0012, 0x002B,
       0x0033, 0x002D, 0x001B, 0x4469, 0x0015}"
  by (simp add: greaseValues_def ext_body_ok_def) (elim disjE; simp)

lemma chrome_exts_sound:
  assumes "0 < length host" "length host < 65000" "length key = 32" "pad < 49" "g1 \<noteq> g2"
    "{g1, g2, gg, gv, gk} \<subseteq> set greaseValues"
  shows "exts_sound host (chrome_exts host g1 g2 gg gv gk key pad)"
proof -
  have g: "g1 \<in> set greaseValues" "g2 \<in> set greaseValues" "gg \<in> set greaseValues"
    "gv \<in> set greaseValues" "gk \<in> set greaseValues" using assms(6) by simp_all
  note p1 = grease_props [OF g(1)] and p2 = grease_props [OF g(2)]
  have lt: "gg < 65536" "gv < 65536" "gk < 65536" using g(3-5) grease_props by blast+
  from assms(3) have "key \<noteq> []" by auto
  then have share: "items_ok (p_vec p_u16) p_share (\<lambda>s. snd s \<noteq> []) (share_body [(gk, [0]), (29, key)])"
    using assms lt by (intro share_ok) (simp_all add: ext_fits_def length_enc_ext)
  have fits: "list_all ext_fits (chrome_exts host g1 g2 gg gv gk key pad)"
    using assms p1 p2 by (simp add: chrome_exts_def ext_fits_def chromeSigAlgs_def)
  have len: "length (concat (map enc_ext (chrome_exts host g1 g2 gg gv gk key pad))) < 65536"
    using assms by (simp add: chrome_exts_def length_enc_ext chromeSigAlgs_def)
  have dist: "distinct (map fst (chrome_exts host g1 g2 gg gv gk key pad))"
    using assms(5) p1 p2 by (simp add: chrome_exts_def)
  have sni: "map_of (chrome_exts host g1 g2 gg gv gk key pad) 0x0000 = Some (sni_body host)"
    using p1 by (simp add: chrome_exts_def)
  have "list_all ext_body_ok (chrome_exts host g1 g2 gg gv gk key pad)"
    using assms p1 p2 share lt
    by (simp add: chrome_exts_def body_ok chromeSigAlgs_def) (simp add: ext_body_ok_def body_ok)
  with fits len dist sni show ?thesis by (simp add: exts_sound_def)
qed

lemma length_hello_body:
  "length random = 32 \<Longrightarrow> length sid = 32 \<Longrightarrow> length (hello_body random sid ciphers exts)
     = 73 + 2 * length ciphers + length (concat (map enc_ext exts))"
  by (simp add: hello_body_def)

lemma redrawGrease_stuck:
  assumes "g1 \<in> set greaseValues"
  shows "redrawGrease g1 g2 rs = None \<longleftrightarrow> g2 = g1 \<and> g1 = greaseValues ! 0 \<and>
    list_all (\<lambda>r. greaseValues ! (r mod 16) = g1) rs"
  using assms
proof (induction rs arbitrary: g2)
  case Nil
  show ?case by (auto simp: redrawGrease.simps)
next
  case (Cons r rs)
  then show ?case by (auto simp: redrawGrease.simps [of g1 g2 "r # rs"])
qed

lemma grease_first: "i < 16 \<Longrightarrow> greaseValues ! i = greaseValues ! 0 \<longleftrightarrow> i = 0"
  using nth_eq_iff_index_eq [of greaseValues i 0] by (simp add: greaseValues_def)

lemma helloHead_rest: "snd (helloHead rs) = drop 64 rs"
  by (subst helloHead_def, subst randomBytes_eq, simp, subst randomBytes_eq, simp)

lemma greaseValue_eq:
  "greaseValue rs = (greaseValues ! (if rs = [] then 0 else hd rs mod 16), drop 1 rs)"
  by (simp add: greaseValue_def intn_eq)

lemma buildChromeHello_stuck:
  fixes rs :: rng
  defines "rs1 \<equiv> drop 65 rs"
  shows "buildChromeHello host rs = None \<longleftrightarrow>
    redrawGrease (fst (greaseValue rs1)) (fst (greaseValue (drop 1 rs1))) (drop 2 rs1) = None"
proof -
  obtain hs rs0 where h: "helloHead rs = (hs, rs0)" by fastforce
  then have rs0: "rs0 = drop 64 rs" using helloHead_rest [of rs] by simp
  obtain g0 where g0: "greaseValue rs0 = (g0, rs1)"
    by (simp add: greaseValue_eq rs0 rs1_def)
  obtain g1 where g1: "greaseValue rs1 = (g1, drop 1 rs1)"
    by (simp add: greaseValue_eq)
  obtain g2 where g2: "greaseValue (drop 1 rs1) = (g2, drop 2 rs1)"
    by (simp add: greaseValue_eq numeral_2_eq_2)
  show ?thesis
    using redraw_None_iff [OF h g0 g1 g2, of host] g1 g2 by simp
qed

section \<open>Properties\<close>

text \<open>the Firefox-shaped hello is padded to a multiple of 512 bytes, whatever the host name and
  the random draws.\<close>

theorem firefox_hello_512: "length (fst (buildFirefoxHello host rs)) mod 512 = 0"
proof -
  obtain random sid key pad where len: "length random = 32" "length sid = 32"
    and pad: "pad = ff_pad (10 + (71 + 2 * length firefoxCiphers)
      + length (concat (map enc_ext (butlast (firefox_exts host key pad)))))"
    and eq: "fst (buildFirefoxHello host rs)
      = wrapHandshake (hello_body random sid firefoxCiphers (firefox_exts host key pad))"
    by (rule firefox_hello_eq)
  let ?n = "81 + 2 * length firefoxCiphers
      + length (concat (map enc_ext (butlast (firefox_exts host key pad))))"
  have "length (fst (buildFirefoxHello host rs)) = ?n + pad"
    by (simp add: eq wrapHandshake_eq length_hello_body [OF len] firefox_exts_def length_enc_ext)
  also have "\<dots> = ?n + (512 - ?n mod 512)"
    using pad by (simp add: ff_pad_def add.assoc)
  also have "\<dots> mod 512 = 0" by (rule pad_up_mod)
  finally show ?thesis .
qed

text \<open>the Chrome builder redraws its second GREASE extension type until it differs from the
  first.  It returns a hello exactly when, after the 65 draws before that choice, the source yields
  some number that is not a multiple of 16; a source stuck on the first GREASE value is the only way
  to hang it.\<close>

theorem chrome_hello_returns:
  "(\<exists>hello rs'. buildChromeHello host rs = Some (hello, rs')) \<longleftrightarrow>
     list_ex (\<lambda>r. r mod 16 \<noteq> 0) (drop 65 rs)"
proof -
  define rs1 where "rs1 = drop 65 rs"
  have "buildChromeHello host rs = None \<longleftrightarrow> list_all (\<lambda>r. r mod 16 = 0) rs1"
  proof (cases rs1)
    case Nil
    then show ?thesis
      by (simp add: buildChromeHello_stuck rs1_def greaseValue_eq redrawGrease.simps)
  next
    case (Cons a as)
    then show ?thesis
      using redrawGrease_stuck [OF grease_nth [of "a mod 16"]]
      by (cases as) (auto simp: buildChromeHello_stuck rs1_def [symmetric] greaseValue_eq
          grease_first)
  qed
  then show ?thesis by (auto simp: rs1_def list_all_iff list_ex_iff)
qed

end
