(* ===== verification/Go_Strings.thy ===== *)
theory Go_Strings
  imports Go_Prelude "HOL-Library.Char_ord"
begin

text \<open>
  The parts of the Go packages \<open>strings\<close>, \<open>strconv\<close> and \<open>encoding/hex\<close> the modelled code
  uses, on byte strings.  White space is Unicode white space in its UTF-8 encoding, as
  \<open>strings.TrimSpace\<close> and \<open>strings.Fields\<close> define it; decimal numbers are parsed as
  \<open>strconv.ParseInt(s, 10, 64)\<close> does, sign and range included.
\<close>

section \<open>White space\<close>

definition unicode_spaces :: "string list" where
  "unicode_spaces =
     [[CHR 0x09], [CHR 0x0A], [CHR 0x0B], [CHR 0x0C], [CHR 0x0D], [CHR 0x20],
      [CHR 0xC2, CHR 0x85], [CHR 0xC2, CHR 0xA0], [CHR 0xE1, CHR 0x9A, CHR 0x80],
      [CHR 0xE2, CHR 0x80, CHR 0x80], [CHR 0xE2, CHR 0x80, CHR 0x81], [CHR 0xE2, CHR 0x80, CHR 0x82],
      [CHR 0xE2, CHR 0x80, CHR 0x83], [CHR 0xE2, CHR 0x80, CHR 0x84], [CHR 0xE2, CHR 0x80, CHR 0x85],
      [CHR 0xE2, CHR 0x80, CHR 0x86], [CHR 0xE2, CHR 0x80, CHR 0x87], [CHR 0xE2, CHR 0x80, CHR 0x88],
      [CHR 0xE2, CHR 0x80, CHR 0x89], [CHR 0xE2, CHR 0x80, CHR 0x8A], [CHR 0xE2, CHR 0x80, CHR 0xA8],
      [CHR 0xE2, CHR 0x80, CHR 0xA9], [CHR 0xE2, CHR 0x80, CHR 0xAF], [CHR 0xE2, CHR 0x81, CHR 0x9F],
      [CHR 0xE3, CHR 0x80, CHR 0x80]]"

definition space_prefix :: "string list \<Rightarrow> string \<Rightarrow> nat" where
  "space_prefix ws s = (case find (\<lambda>w. prefix w s) ws of None \<Rightarrow> 0 | Some w \<Rightarrow> length w)"

function strip_left :: "string list \<Rightarrow> string \<Rightarrow> string" where
  "strip_left ws s = (if space_prefix ws s = 0 \<or> s = [] then s
     else strip_left ws (drop (space_prefix ws s) s))"
  by pat_completeness auto
termination by (relation "measure (\<lambda>(ws, s). length s)") auto

declare strip_left.simps [simp del]

definition trim_space :: "string \<Rightarrow> string" where
  "trim_space s = rev (strip_left (map rev unicode_spaces) (rev (strip_left unicode_spaces s)))"

text \<open>A byte that neither starts nor ends an encoded space: every printable ASCII character.\<close>

definition graphic :: "char \<Rightarrow> bool" where
  "graphic c \<longleftrightarrow> CHR 0x21 \<le> c \<and> c \<le> CHR 0x7E"

lemma prefix_Cons_neq: "prefix (a # w) (c # s) \<Longrightarrow> a = c"
  by (simp add: prefix_def)

lemma space_prefix_graphic:
  assumes "graphic c"
  shows "space_prefix unicode_spaces (c # s) = 0"
    and "space_prefix (map rev unicode_spaces) (c # s) = 0"
proof -
  have c: "CHR 0x21 \<le> c" "c \<le> CHR 0x7E" using assms by (simp_all add: graphic_def)
  have neq: "c \<noteq> d" if "d < CHR 0x21 \<or> CHR 0x7E < d" for d
    using that c by auto
  show "space_prefix unicode_spaces (c # s) = 0"
    by (simp add: space_prefix_def unicode_spaces_def neq [symmetric] less_char_def)
  show "space_prefix (map rev unicode_spaces) (c # s) = 0"
    by (simp add: space_prefix_def unicode_spaces_def neq [symmetric] less_char_def)
qed

lemma trim_space_graphic:
  assumes "s \<noteq> []" and "graphic (hd s)" and "graphic (last s)"
  shows "trim_space s = s"
proof -
  obtain c cs where s: "s = c # cs" using assms(1) by (cases s) auto
  obtain d ds where r: "rev s = d # ds" using assms(1) by (cases "rev s") auto
  then have "d = last s" by (metis hd_rev list.sel(1))
  with assms(3) have "strip_left (map rev unicode_spaces) (rev s) = rev s"
    by (subst strip_left.simps) (simp add: r space_prefix_graphic)
  moreover have "strip_left unicode_spaces s = s"
    using assms(2) by (subst strip_left.simps) (simp add: s space_prefix_graphic)
  ultimately show ?thesis by (simp add: trim_space_def)
qed

lemma trim_space_Nil [simp]: "trim_space [] = []"
  by (simp add: trim_space_def strip_left.simps)

text \<open>\<open>strings.Fields\<close>: the maximal runs of non-space bytes.\<close>

function fields_acc :: "string \<Rightarrow> string \<Rightarrow> string list" where
  "fields_acc cur s =
     (if s = [] then (if cur = [] then [] else [rev cur])
      else if space_prefix unicode_spaces s = 0 then fields_acc (hd s # cur) (tl s)
      else (if cur = [] then [] else [rev cur])
        @ fields_acc [] (drop (space_prefix unicode_spaces s) s))"
  by pat_completeness auto
termination by (relation "measure (\<lambda>(cur, s). length s)") auto

declare fields_acc.simps [simp del]

definition fields :: "string \<Rightarrow> string list" where
  "fields s = fields_acc [] s"

section \<open>Cutting and splitting at a byte\<close>

text \<open>\<open>strings.Cut(s, string(c))\<close>: the parts before and after the first \<open>c\<close>, if there is one.\<close>

definition cut :: "char \<Rightarrow> string \<Rightarrow> (string \<times> string) option" where
  "cut c s = (if c \<in> set s
     then Some (takeWhile (\<lambda>x. x \<noteq> c) s, tl (dropWhile (\<lambda>x. x \<noteq> c) s)) else None)"

fun split_on :: "char \<Rightarrow> string \<Rightarrow> string list" where
  "split_on c [] = [[]]"
| "split_on c (x # xs) = (if x = c then [] # split_on c xs
     else case split_on c xs of [] \<Rightarrow> [[x]] | p # ps \<Rightarrow> (x # p) # ps)"

definition replace_char :: "char \<Rightarrow> string \<Rightarrow> string \<Rightarrow> string" where
  "replace_char c r s = concat (map (\<lambda>x. if x = c then r else [x]) s)"

lemma cut_append: "c \<notin> set a \<Longrightarrow> cut c (a @ c # b) = Some (a, b)"
  by (simp add: cut_def takeWhile_append dropWhile_append)

lemma cut_None: "c \<notin> set s \<Longrightarrow> cut c s = None"
  by (simp add: cut_def)

text \<open>\<open>strings.ToLower\<close>; only the letters of ASCII change.\<close>

definition lower :: "string \<Rightarrow> string" where
  "lower s = map (\<lambda>c. if CHR ''A'' \<le> c \<and> c \<le> CHR ''Z'' then char_of (of_char c + (32 :: nat)) else c) s"

section \<open>Decimal numbers\<close>

definition digit_char :: "nat \<Rightarrow> char" where
  "digit_char d = char_of (48 + d)"

definition is_digit :: "char \<Rightarrow> bool" where
  "is_digit c \<longleftrightarrow> CHR ''0'' \<le> c \<and> c \<le> CHR ''9''"

definition digit_val :: "char \<Rightarrow> nat" where
  "digit_val c = of_char c - 48"

fun itoa_nat :: "nat \<Rightarrow> string" where
  "itoa_nat n = (if n < 10 then [digit_char n] else itoa_nat (n div 10) @ [digit_char (n mod 10)])"

declare itoa_nat.simps [simp del]

text \<open>\<open>strconv.Itoa\<close>, which is also what \<open>fmt.Sprintf("%d", n)\<close> prints.\<close>

definition itoa :: "int \<Rightarrow> string" where
  "itoa n = (if n < 0 then CHR ''-'' # itoa_nat (nat (- n)) else itoa_nat (nat n))"

definition num_of_digits :: "string \<Rightarrow> nat" where
  "num_of_digits s = foldl (\<lambda>n c. 10 * n + digit_val c) 0 s"

definition parse_nat :: "string \<Rightarrow> nat option" where
  "parse_nat s = (if s \<noteq> [] \<and> list_all is_digit s then Some (num_of_digits s) else None)"

text \<open>\<open>strconv.ParseInt(s, 10, 64)\<close> and \<open>strconv.Atoi\<close> on a 64-bit platform: an optional sign,
  at least one digit, nothing else, and the value within \<open>int64\<close>.\<close>

definition parse_int64 :: "string \<Rightarrow> int option" where
  "parse_int64 s =
     (let (neg, ds) = (case s of [] \<Rightarrow> (False, []) | c # r \<Rightarrow>
            if c = CHR ''-'' then (True, r) else if c = CHR ''+'' then (False, r) else (False, s))
      in case parse_nat ds of None \<Rightarrow> None
         | Some n \<Rightarrow> let v = (if neg then - int n else int n)
             in if - (2 ^ 63) \<le> v \<and> v < 2 ^ 63 then Some v else None)"

lemma of_char_digit_char [simp]: "d < 10 \<Longrightarrow> (of_char (digit_char d) :: nat) = 48 + d"
  by (simp add: digit_char_def)

lemma digit_val_char [simp]: "d < 10 \<Longrightarrow> digit_val (digit_char d) = d"
  by (simp add: digit_val_def)

lemma is_digit_char [simp]: "d < 10 \<Longrightarrow> is_digit (digit_char d)"
  by (simp add: is_digit_def less_eq_char_def)

lemma itoa_nat_digits: "list_all is_digit (itoa_nat n)"
  by (induction n rule: itoa_nat.induct) (subst itoa_nat.simps, simp)

lemma itoa_nat_nonempty [simp]: "itoa_nat n \<noteq> []"
  by (subst itoa_nat.simps) simp

lemma num_of_digits_snoc: "num_of_digits (s @ [c]) = 10 * num_of_digits s + digit_val c"
  by (simp add: num_of_digits_def)

lemma num_of_itoa [simp]: "num_of_digits (itoa_nat n) = n"
proof (induction n rule: itoa_nat.induct)
  case (1 n)
  show ?case
  proof (cases "n < 10")
    case True
    then show ?thesis by (subst itoa_nat.simps) (simp add: num_of_digits_def)
  next
    case False
    with 1 show ?thesis by (subst itoa_nat.simps) (simp add: num_of_digits_snoc)
  qed
qed

lemma parse_nat_itoa [simp]: "parse_nat (itoa_nat n) = Some n"
  by (simp add: parse_nat_def itoa_nat_digits)

lemma is_digit_graphic: "is_digit c \<Longrightarrow> graphic c \<and> c \<noteq> CHR ''-'' \<and> c \<noteq> CHR ''+''"
  by (auto simp: is_digit_def graphic_def less_eq_char_def)

lemma itoa_nat_hd: "is_digit (hd (itoa_nat n))" and itoa_nat_last: "is_digit (last (itoa_nat n))"
  using itoa_nat_digits [of n] by (simp_all add: list_all_iff)

lemma parse_int64_itoa_nat: "n < 2 ^ 63 \<Longrightarrow> parse_int64 (itoa_nat n) = Some (int n)"
proof -
  assume n: "n < 2 ^ 63"
  obtain c r where cr: "itoa_nat n = c # r" by (cases "itoa_nat n") auto
  with itoa_nat_hd [of n] is_digit_graphic [of c] have "c \<noteq> CHR ''-''" "c \<noteq> CHR ''+''" by simp_all
  then show ?thesis using parse_nat_itoa [of n] n by (simp add: parse_int64_def cr Let_def)
qed

lemma itoa_int [simp]: "itoa (int n) = itoa_nat n"
  by (simp add: itoa_def)

lemma trim_itoa_nat [simp]: "trim_space (itoa_nat n) = itoa_nat n"
  using itoa_nat_hd itoa_nat_last is_digit_graphic by (intro trim_space_graphic) auto

lemma minus_notin_itoa: "CHR ''-'' \<notin> set (itoa_nat n)"
  using itoa_nat_digits [of n] is_digit_graphic by (auto simp: list_all_iff)

section \<open>Hexadecimal\<close>

definition hex_digit :: "nat \<Rightarrow> char" where
  "hex_digit d = (if d < 10 then char_of (48 + d) else char_of (87 + d))"

definition hex_encode :: "byte list \<Rightarrow> string" where
  "hex_encode bs = concat (map (\<lambda>b. [hex_digit (unat b div 16), hex_digit (unat b mod 16)]) bs)"

definition hex_val :: "char \<Rightarrow> nat option" where
  "hex_val c = (let n = of_char c in
     if 48 \<le> n \<and> n \<le> 57 then Some (n - 48)
     else if 97 \<le> n \<and> n \<le> 102 then Some (n - 87)
     else if 65 \<le> n \<and> n \<le> 70 then Some (n - 55) else None)"

fun hex_decode :: "string \<Rightarrow> byte list option" where
  "hex_decode [] = Some []"
| "hex_decode [c] = None"
| "hex_decode (c # d # r) = (case (hex_val c, hex_val d) of
     (Some a, Some b) \<Rightarrow> map_option (Cons (word_of_nat (16 * a + b))) (hex_decode r)
   | _ \<Rightarrow> None)"

lemma hex_val_digit [simp]: "d < 16 \<Longrightarrow> hex_val (hex_digit d) = Some d"
  by (auto simp: hex_val_def hex_digit_def Let_def)

lemma hex_decode_encode [simp]: "hex_decode (hex_encode bs) = Some bs"
proof (induction bs)
  case Nil
  then show ?case by (simp add: hex_encode_def)
next
  case (Cons b bs)
  have "unat b div 16 < 16" using unat_byte_less [of b] by linarith
  with Cons show ?case by (simp add: hex_encode_def)
qed

lemma length_hex_encode [simp]: "length (hex_encode bs) = 2 * length bs"
  by (induction bs) (simp_all add: hex_encode_def)

lemma hex_encode_graphic: "c \<in> set (hex_encode bs) \<Longrightarrow> hex_val c \<noteq> None"
proof -
  assume "c \<in> set (hex_encode bs)"
  then have "\<exists>b. c = hex_digit (unat (b :: byte) div 16) \<or> c = hex_digit (unat b mod 16)"
    by (auto simp: hex_encode_def)
  then obtain b :: byte where "c = hex_digit (unat b div 16) \<or> c = hex_digit (unat b mod 16)" by blast
  moreover have "unat b div 16 < 16" using unat_byte_less [of b] by linarith
  ultimately show ?thesis by auto
qed

end
