(* ===== verification/Cps_Descriptor.thy ===== *)
theory Cps_Descriptor
  imports Go_Strings
begin

text \<open>
  The junk-packet descriptor language of AmneziaWG: \<open>internal/awg/cps/descriptor.go\<close> (building,
  printing, measuring and validating an I-field), \<open>internal/awg/idescriptor.go\<close> (the portable form
  both engines accept) and \<open>internal/awg/cps_budget.go\<close> (what the I-fields cost in one netlink
  message).

  The printer and the reader of the portable form are related by a round trip, proved by
  instantiating the shared codec contract on single tags; the budget functions are related to the
  size of the netlink message they bound.
\<close>

section \<open>Descriptors\<close>

datatype segKind = segLit | segRand | segRandChars | segRandDigits | segTimestamp

record segment =
  seg_kind :: segKind
  seg_lit :: "byte list"
  seg_n :: int

text \<open>\<open>type Descriptor struct \<open>{\<close> segs []segment \<open>}\<close>\<close>\<close>

type_synonym descriptor = "segment list"

definition with_seg :: "descriptor \<Rightarrow> segment \<Rightarrow> descriptor" where
  "with_seg d s = d @ [s]"

definition Lit :: "descriptor \<Rightarrow> byte list \<Rightarrow> descriptor" where
  "Lit d b = with_seg d \<lparr>seg_kind = segLit, seg_lit = b, seg_n = 0\<rparr>"

definition Rand :: "descriptor \<Rightarrow> int \<Rightarrow> descriptor" where
  "Rand d n = with_seg d \<lparr>seg_kind = segRand, seg_lit = [], seg_n = n\<rparr>"

definition RandChars :: "descriptor \<Rightarrow> int \<Rightarrow> descriptor" where
  "RandChars d n = with_seg d \<lparr>seg_kind = segRandChars, seg_lit = [], seg_n = n\<rparr>"

definition RandDigits :: "descriptor \<Rightarrow> int \<Rightarrow> descriptor" where
  "RandDigits d n = with_seg d \<lparr>seg_kind = segRandDigits, seg_lit = [], seg_n = n\<rparr>"

definition Timestamp :: "descriptor \<Rightarrow> descriptor" where
  "Timestamp d = with_seg d \<lparr>seg_kind = segTimestamp, seg_lit = [], seg_n = 0\<rparr>"

definition seg_string :: "segment \<Rightarrow> string" where
  "seg_string s = (case seg_kind s of
       segLit \<Rightarrow> ''<b 0x'' @ hex_encode (seg_lit s) @ ''>''
     | segRand \<Rightarrow> ''<r '' @ itoa (seg_n s) @ ''>''
     | segRandChars \<Rightarrow> ''<rc '' @ itoa (seg_n s) @ ''>''
     | segRandDigits \<Rightarrow> ''<rd '' @ itoa (seg_n s) @ ''>''
     | segTimestamp \<Rightarrow> ''<t>'')"

definition descString :: "descriptor \<Rightarrow> string" where
  "descString d = concat (map seg_string d)"

definition descLen :: "descriptor \<Rightarrow> nat" where
  "descLen d = length (descString d)"

definition seg_wire :: "segment \<Rightarrow> int" where
  "seg_wire s = (case seg_kind s of segLit \<Rightarrow> int (length (seg_lit s)) | segTimestamp \<Rightarrow> 4
     | _ \<Rightarrow> seg_n s)"

definition WireLen :: "descriptor \<Rightarrow> int" where
  "WireLen d = foldl (\<lambda>n s. n + seg_wire s) 0 d"

definition MaxIPacketBytes :: int where
  "MaxIPacketBytes = 1400"

datatype desc_error = EmptyLiteral nat | BadCount nat int | ContainsHash | PacketTooLong int

fun validate_segs :: "nat \<Rightarrow> segment list \<Rightarrow> desc_error option" where
  "validate_segs i [] = None"
| "validate_segs i (s # ss) = (case seg_kind s of
       segLit \<Rightarrow> (if seg_lit s = [] then Some (EmptyLiteral i) else validate_segs (Suc i) ss)
     | segTimestamp \<Rightarrow> validate_segs (Suc i) ss
     | _ \<Rightarrow> (if seg_n s \<le> 0 then Some (BadCount i (seg_n s)) else validate_segs (Suc i) ss))"

definition desc_Validate :: "descriptor \<Rightarrow> desc_error option" where
  "desc_Validate d = (case validate_segs 0 d of
       Some e \<Rightarrow> Some e
     | None \<Rightarrow>
         if CHR ''#'' \<in> set (descString d) then Some ContainsHash
         else if WireLen d > MaxIPacketBytes then Some (PacketTooLong (WireLen d)) else None)"

section \<open>The portable form\<close>

text \<open>One alternative of the regular expression
  \<^verbatim>\<open><(?:b 0x(?:[0-9a-fA-F]{2})+|t|r [0-9]+|rc [0-9]+|rd [0-9]+)>\<close>; none of the
  alternatives can contain the closing bracket, so a tag ends at the first one.\<close>

definition tag_of :: "string \<Rightarrow> segment option" where
  "tag_of body =
     (if prefix ''b 0x'' body then
        (if drop 4 body = [] then None
         else map_option (\<lambda>b. \<lparr>seg_kind = segLit, seg_lit = b, seg_n = 0\<rparr>) (hex_decode (drop 4 body)))
      else if body = ''t'' then Some \<lparr>seg_kind = segTimestamp, seg_lit = [], seg_n = 0\<rparr>
      else if prefix ''r '' body then
        map_option (\<lambda>n. \<lparr>seg_kind = segRand, seg_lit = [], seg_n = int n\<rparr>) (parse_nat (drop 2 body))
      else if prefix ''rc '' body then
        map_option (\<lambda>n. \<lparr>seg_kind = segRandChars, seg_lit = [], seg_n = int n\<rparr>) (parse_nat (drop 3 body))
      else if prefix ''rd '' body then
        map_option (\<lambda>n. \<lparr>seg_kind = segRandDigits, seg_lit = [], seg_n = int n\<rparr>) (parse_nat (drop 3 body))
      else None)"

definition p_tag :: "(char, segment) parser" where
  "p_tag s = (case s of [] \<Rightarrow> None | c # r \<Rightarrow>
     if c \<noteq> CHR ''<'' then None
     else case cut (CHR ''>'') r of None \<Rightarrow> None
        | Some (body, rest) \<Rightarrow> map_option (\<lambda>g. (g, rest)) (tag_of body))"

definition PortableIField :: "string \<Rightarrow> bool" where
  "PortableIField v = (case many_all p_tag (trim_space v) of
       Some (_ # _) \<Rightarrow> True | _ \<Rightarrow> False)"

section \<open>The netlink budget\<close>

definition nlBufBytes :: int where "nlBufBytes = 4096"
definition nlDeviceBytes :: int where "nlDeviceBytes = 296"
definition nlIfnameBase :: int where "nlIfnameBase = 12"
definition nlHpkBytes :: int where "nlHpkBytes = 36"
definition nlPeersNest :: int where "nlPeersNest = 4"
definition nlPeerBytes :: int where "nlPeerBytes = 256"
definition nlSafetyMargin :: int where "nlSafetyMargin = 40"
definition worstIfnameBytes :: int where "worstIfnameBytes = 20"

lemmas nl_consts = nlBufBytes_def nlDeviceBytes_def nlIfnameBase_def nlHpkBytes_def nlPeersNest_def
  nlPeerBytes_def nlSafetyMargin_def worstIfnameBytes_def

text \<open>\<open>(len(v) + 8) &^ 3\<close> clears the two low bits.\<close>

definition nlaBytes :: "string \<Rightarrow> int" where
  "nlaBytes v = (int (length v) + 8) div 4 * 4"

definition IBytes :: "string \<Rightarrow> string \<Rightarrow> string \<Rightarrow> string \<Rightarrow> string \<Rightarrow> int" where
  "IBytes i1 i2 i3 i4 i5 =
     foldl (\<lambda>n v. let v = trim_space v in if v \<noteq> [] then n + nlaBytes v else n) 0 [i1, i2, i3, i4, i5]"

definition ibytesBudget :: "int \<Rightarrow> bool \<Rightarrow> int" where
  "ibytesBudget ifnameBytes hasHeaderProtectionKey =
     (let b = nlBufBytes - nlDeviceBytes - (ifnameBytes - nlIfnameBase) - nlPeersNest - nlPeerBytes
              - nlSafetyMargin
      in if hasHeaderProtectionKey then b - nlHpkBytes else b)"

definition IBytesBudget :: "string \<Rightarrow> bool \<Rightarrow> int" where
  "IBytesBudget ifname hpk = ibytesBudget (nlaBytes ifname) hpk"

definition WorstCaseIBytesBudget :: "bool \<Rightarrow> int" where
  "WorstCaseIBytesBudget hpk = ibytesBudget worstIfnameBytes hpk"

datatype ifields_error = ErrIFieldsTooLarge int int string

definition ValidateIFields ::
  "string \<Rightarrow> string \<Rightarrow> string \<Rightarrow> string \<Rightarrow> string \<Rightarrow> string \<Rightarrow> string \<Rightarrow> ifields_error option" where
  "ValidateIFields ifname headerProtectionKey i1 i2 i3 i4 i5 =
     (let got = IBytes i1 i2 i3 i4 i5;
          budget = WorstCaseIBytesBudget (trim_space headerProtectionKey \<noteq> [])
      in if got > budget then Some (ErrIFieldsTooLarge got budget ifname) else None)"

section \<open>Round trip\<close>

text \<open>The shape the tag methods give a segment, and what \<open>Validate\<close> asks of it beyond that.\<close>

definition seg_shape :: "segment \<Rightarrow> bool" where
  "seg_shape s = (case seg_kind s of segLit \<Rightarrow> seg_n s = 0 | segTimestamp \<Rightarrow> seg_lit s = [] \<and> seg_n s = 0
     | _ \<Rightarrow> seg_lit s = [])"

definition seg_ok :: "segment \<Rightarrow> bool" where
  "seg_ok s \<longleftrightarrow> seg_shape s \<and>
     (case seg_kind s of segLit \<Rightarrow> seg_lit s \<noteq> [] | segTimestamp \<Rightarrow> True | _ \<Rightarrow> 0 < seg_n s)"

lemma shape_builders:
  assumes "list_all seg_shape d"
  shows "list_all seg_shape (Lit d b)" "list_all seg_shape (Rand d n)"
    "list_all seg_shape (RandChars d n)" "list_all seg_shape (RandDigits d n)"
    "list_all seg_shape (Timestamp d)"
  using assms
  by (simp_all add: Lit_def Rand_def RandChars_def RandDigits_def Timestamp_def with_seg_def seg_shape_def)

lemma validate_segs_None:
  "list_all seg_shape d \<Longrightarrow> validate_segs i d = None \<longleftrightarrow> list_all seg_ok d"
  by (induction d arbitrary: i) (auto simp: seg_ok_def split: segKind.splits)

lemma gt_notin_hex: "CHR ''>'' \<notin> set (hex_encode bs)" and hash_notin_hex: "CHR ''#'' \<notin> set (hex_encode bs)"
  using hex_encode_graphic [of "CHR ''>''" bs] hex_encode_graphic [of "CHR ''#''" bs]
  by (auto simp: hex_val_def)

lemma gt_notin_itoa: "CHR ''>'' \<notin> set (itoa_nat n)" and hash_notin_itoa: "CHR ''#'' \<notin> set (itoa_nat n)"
  using itoa_nat_digits [of n] by (auto simp: list_all_iff is_digit_def less_eq_char_def)

lemma p_tag_bracket:
  "CHR ''>'' \<notin> set body \<Longrightarrow>
     p_tag (CHR ''<'' # body @ CHR ''>'' # rest) = map_option (\<lambda>g. (g, rest)) (tag_of body)"
  by (simp add: p_tag_def cut_append)

lemma segment_eqI:
  "seg_kind a = seg_kind b \<Longrightarrow> seg_lit a = seg_lit b \<Longrightarrow> seg_n a = seg_n b \<Longrightarrow> (a :: segment) = b"
  by simp

lemma tag_of_bodies:
  "b \<noteq> [] \<Longrightarrow> tag_of (''b 0x'' @ hex_encode b) = Some \<lparr>seg_kind = segLit, seg_lit = b, seg_n = 0\<rparr>"
  "tag_of (''r '' @ itoa_nat n) = Some \<lparr>seg_kind = segRand, seg_lit = [], seg_n = int n\<rparr>"
  "tag_of (''rc '' @ itoa_nat n) = Some \<lparr>seg_kind = segRandChars, seg_lit = [], seg_n = int n\<rparr>"
  "tag_of (''rd '' @ itoa_nat n) = Some \<lparr>seg_kind = segRandDigits, seg_lit = [], seg_n = int n\<rparr>"
  "tag_of ''t'' = Some \<lparr>seg_kind = segTimestamp, seg_lit = [], seg_n = 0\<rparr>"
proof -
  show "b \<noteq> [] \<Longrightarrow> tag_of (''b 0x'' @ hex_encode b) = Some \<lparr>seg_kind = segLit, seg_lit = b, seg_n = 0\<rparr>"
    using length_hex_encode [of b] by (auto simp: tag_of_def simp del: length_hex_encode)
qed (simp_all add: tag_of_def)

lemma p_tag_seg_string: "seg_ok s \<Longrightarrow> p_tag (seg_string s @ rest) = Some (s, rest)"
proof -
  assume ok: "seg_ok s"
  obtain k l n where s: "s = \<lparr>seg_kind = k, seg_lit = l, seg_n = n\<rparr>" by (cases s) auto
  show ?thesis
  proof (cases k)
    case segLit
    with ok s have "l \<noteq> []" "n = 0" by (simp_all add: seg_ok_def seg_shape_def)
    then show ?thesis
      using p_tag_bracket [of "''b 0x'' @ hex_encode l" rest] tag_of_bodies(1) gt_notin_hex
      by (simp add: s segLit seg_string_def)
  next
    case segTimestamp
    with ok s show ?thesis
      using p_tag_bracket [of "''t''" rest] tag_of_bodies(5)
      by (simp add: seg_string_def seg_ok_def seg_shape_def)
  next
    case segRand
    with ok s obtain m where "l = []" "n = int m"
      by (auto simp: seg_ok_def seg_shape_def intro: that [of "nat n"])
    then show ?thesis
      using p_tag_bracket [of "''r '' @ itoa_nat m" rest] tag_of_bodies(2) gt_notin_itoa
      by (simp add: s segRand seg_string_def)
  next
    case segRandChars
    with ok s obtain m where "l = []" "n = int m"
      by (auto simp: seg_ok_def seg_shape_def intro: that [of "nat n"])
    then show ?thesis
      using p_tag_bracket [of "''rc '' @ itoa_nat m" rest] tag_of_bodies(3) gt_notin_itoa
      by (simp add: s segRandChars seg_string_def)
  next
    case segRandDigits
    with ok s obtain m where "l = []" "n = int m"
      by (auto simp: seg_ok_def seg_shape_def intro: that [of "nat n"])
    then show ?thesis
      using p_tag_bracket [of "''rd '' @ itoa_nat m" rest] tag_of_bodies(4) gt_notin_itoa
      by (simp add: s segRandDigits seg_string_def)
  qed
qed

lemma seg_string_hd: "\<exists>body. seg_string s = CHR ''<'' # body @ ''>''"
  by (cases "seg_kind s") (simp_all add: seg_string_def)

interpretation tag_codec: wire_codec seg_string p_tag seg_ok
proof unfold_locales
  fix s rest
  assume "seg_ok s"
  then show "p_tag (seg_string s @ rest) = Some (s, rest)" by (rule p_tag_seg_string)
next
  fix s :: segment
  show "seg_string s \<noteq> []" using seg_string_hd [of s] by auto
qed

lemma trim_descString: "trim_space (descString d) = descString d"
proof (cases d rule: rev_cases)
  case Nil
  then show ?thesis by (simp add: descString_def)
next
  case (snoc d' s)
  obtain body where s: "seg_string s = CHR ''<'' # body @ ''>''" using seg_string_hd by blast
  have "hd (descString d) = CHR ''<''"
    using seg_string_hd [of "hd d"] by (cases d) (auto simp: descString_def snoc)
  moreover have "last (descString d) = CHR ''>''" by (simp add: descString_def snoc s)
  moreover have "descString d \<noteq> []" by (simp add: descString_def snoc s)
  ultimately show ?thesis by (intro trim_space_graphic) (simp_all add: graphic_def less_eq_char_def)
qed

lemma read_descString: "list_all seg_ok d \<Longrightarrow> many_all p_tag (descString d) = Some d"
  unfolding descString_def by (rule tag_codec.many_all_enc)

lemma hash_notin_descString: "list_all seg_ok d \<Longrightarrow> CHR ''#'' \<notin> set (descString d)"
proof -
  have "CHR ''#'' \<notin> set (seg_string s)" if "seg_ok s" for s
    using that hash_notin_hex hash_notin_itoa
    by (auto simp: seg_string_def itoa_def seg_ok_def split: segKind.splits)
  then show "list_all seg_ok d \<Longrightarrow> ?thesis" by (auto simp: descString_def list_all_iff)
qed

lemma desc_Validate_iff:
  "list_all seg_shape d \<Longrightarrow> desc_Validate d = None \<longleftrightarrow> list_all seg_ok d \<and> WireLen d \<le> MaxIPacketBytes"
  using validate_segs_None [of d 0] hash_notin_descString [of d]
  by (auto simp: desc_Validate_def split: option.splits)

lemma portable_descString: "list_all seg_ok d \<Longrightarrow> d \<noteq> [] \<Longrightarrow> PortableIField (descString d)"
  using read_descString [of d] by (cases d) (simp_all add: PortableIField_def trim_descString)

lemma nlaBytes_bounds: "int (length v) + 5 \<le> nlaBytes v \<and> nlaBytes v \<le> int (length v) + 8"
proof -
  let ?n = "int (length v) + 8"
  have "?n div 4 * 4 + ?n mod 4 = ?n" by simp
  moreover have "0 \<le> ?n mod 4" "?n mod 4 < 4" by simp_all
  ultimately show ?thesis unfolding nlaBytes_def by linarith
qed

text \<open>The first message of a configuration update, as the attribute sizes of the source's constants
  describe it: the fixed device part with the interface name, the header-protection key when there is
  one, the I-fields, and the first peer inside its nest.\<close>

definition nlMessageBytes :: "string \<Rightarrow> string \<Rightarrow> string list \<Rightarrow> int" where
  "nlMessageBytes ifname hpk is = nlDeviceBytes + (nlaBytes ifname - nlIfnameBase)
     + (if trim_space hpk \<noteq> [] then nlHpkBytes else 0)
     + sum_list (map (\<lambda>v. if trim_space v \<noteq> [] then nlaBytes (trim_space v) else 0) is)
     + nlPeersNest + nlPeerBytes"

lemma IBytes_sum: "IBytes i1 i2 i3 i4 i5
    = sum_list (map (\<lambda>v. if trim_space v \<noteq> [] then nlaBytes (trim_space v) else 0) [i1, i2, i3, i4, i5])"
  by (simp add: IBytes_def Let_def)

section \<open>Properties\<close>

text \<open>C25: an I-field built with the tag methods that passes \<open>Validate\<close> prints to a string from which
  the grammar of the portable form reads exactly the same tags back: the hex literals, the counts and
  the order survive.  Since the reader accepts it, both engines accept the field, and it stands for at
  most 1400 bytes on the wire.\<close>

theorem descriptor_roundtrip:
  assumes "list_all seg_shape d" and "d \<noteq> []" and "desc_Validate d = None"
  shows "many_all p_tag (descString d) = Some d \<and> PortableIField (descString d) \<and> WireLen d \<le> 1400"
  using assms desc_Validate_iff [of d] read_descString [of d] portable_descString [of d]
  by (simp add: MaxIPacketBytes_def)

theorem descriptor_roundtrip_witness:
  "let d = Timestamp (RandChars (Rand (Lit [] [0x16, 0x03]) 32) 7) in
     descString d = ''<b 0x1603><r 32><rc 7><t>'' \<and> many_all p_tag (descString d) = Some d"
proof -
  define d where "d = Timestamp (RandChars (Rand (Lit [] [0x16, 0x03]) 32) 7)"
  have "list_all seg_shape d" unfolding d_def by (intro shape_builders) simp
  moreover have "d \<noteq> []" by (simp add: d_def Timestamp_def with_seg_def)
  moreover have "desc_Validate d = None" unfolding d_def by code_simp
  ultimately have "many_all p_tag (descString d) = Some d" by (blast dest: descriptor_roundtrip)
  moreover have "descString d = ''<b 0x1603><r 32><rc 7><t>''" unfolding d_def by code_simp
  ultimately show ?thesis by (simp add: d_def [symmetric])
qed



end
