(* ===== verification/Quic_Initial.thy ===== *)
theory Quic_Initial
  imports Cps_Hello Cps_Descriptor
begin

text \<open>
  \<open>internal/awg/signature/capture.go\<close>: the QUIC v1 Initial packet (RFC 9000, RFC 9001) the panel
  builds around a ClientHello, the minimal ClientHello of a capture, and the conversion of captured
  packets into I-fields; and \<open>writeVarint\<close> of \<open>internal/awg/cps/cps.go\<close>, the second encoder of
  QUIC integers in the repository.

  HKDF, AES and GCM of Go's crypto packages enter as the fields of a record; what is used of them is
  \<open>crypto_laws\<close>.  The specification side is a receiver, \<open>open_initial\<close>: it removes the header
  protection, opens the AEAD and reads the CRYPTO frame, knowing only what the packet carries.
\<close>

unbundle bit_operations_syntax

section \<open>Variable-length integers\<close>

definition be_w16 :: "16 word \<Rightarrow> byte list" where
  "be_w16 w = [ucast (drop_bit 8 w), ucast w]"

definition be_w32 :: "32 word \<Rightarrow> byte list" where
  "be_w32 w = [ucast (drop_bit 24 w), ucast (drop_bit 16 w), ucast (drop_bit 8 w), ucast w]"

definition be_w64 :: "64 word \<Rightarrow> byte list" where
  "be_w64 w = [ucast (drop_bit 56 w), ucast (drop_bit 48 w), ucast (drop_bit 40 w), ucast (drop_bit 32 w),
     ucast (drop_bit 24 w), ucast (drop_bit 16 w), ucast (drop_bit 8 w), ucast w]"

definition writeVarint :: "byte list \<Rightarrow> nat \<Rightarrow> byte list" where
  "writeVarint b v =
     (if v < 64 then b @ [word_of_nat v]
      else if v < 16384 then b @ be_w16 (word_of_nat v OR 0x4000)
      else if v < 1073741824 then b @ be_w32 (word_of_nat v OR 0x80000000)
      else b @ be_w64 (word_of_nat v OR 0xC000000000000000))"

definition appendVarint :: "nat \<Rightarrow> byte list" where
  "appendVarint v =
     (if v < 64 then [word_of_nat v]
      else if v < 16384 then [word_of_nat (drop_bit 8 v) OR 0x40, word_of_nat v]
      else if v < 1073741824 then
        [word_of_nat (drop_bit 24 v) OR 0x80, word_of_nat (drop_bit 16 v), word_of_nat (drop_bit 8 v),
         word_of_nat v]
      else
        [word_of_nat (drop_bit 56 v) OR 0xC0, word_of_nat (drop_bit 48 v), word_of_nat (drop_bit 40 v),
         word_of_nat (drop_bit 32 v), word_of_nat (drop_bit 24 v), word_of_nat (drop_bit 16 v),
         word_of_nat (drop_bit 8 v), word_of_nat v])"

text \<open>RFC 9000, section 16: the two high bits of the first byte give the length.\<close>

definition be_val :: "byte list \<Rightarrow> nat" where
  "be_val bs = foldl (\<lambda>n b. 256 * n + unat b) 0 bs"

definition p_varint :: "(byte, nat) parser" where
  "p_varint bs = (case bs of [] \<Rightarrow> None | b # r \<Rightarrow>
     Option.bind (take_n (2 ^ (unat b div 64) - 1) r) (\<lambda>(bs, r).
       Some (foldl (\<lambda>n b. 256 * n + unat b) (unat b mod 64) bs, r)))"

lemma word_of_nat_byte_shift:
  "ucast (drop_bit k (word_of_nat v :: 'a::len word)) = (word_of_nat (drop_bit k v) :: byte)"
  if "k + 8 \<le> LENGTH('a)"
  using that by (intro bit_word_eqI) (auto simp: bit_ucast_iff bit_drop_bit_eq bit_of_nat_iff bit_simps)

lemma or_tags_upto:
  "\<forall>x\<in>set [0..<64].
     unat (word_of_nat x OR (0x40 :: byte)) div 64 = 1 \<and> unat (word_of_nat x OR (0x40 :: byte)) mod 64 = x \<and>
     unat (word_of_nat x OR (0x80 :: byte)) div 64 = 2 \<and> unat (word_of_nat x OR (0x80 :: byte)) mod 64 = x \<and>
     unat (word_of_nat x OR (0xC0 :: byte)) div 64 = 3 \<and> unat (word_of_nat x OR (0xC0 :: byte)) mod 64 = x"
  by code_simp

lemma or_tags:
  assumes "x < 64"
  shows "unat (word_of_nat x OR (0x40 :: byte)) div 64 = 1" "unat (word_of_nat x OR (0x40 :: byte)) mod 64 = x"
    "unat (word_of_nat x OR (0x80 :: byte)) div 64 = 2" "unat (word_of_nat x OR (0x80 :: byte)) mod 64 = x"
    "unat (word_of_nat x OR (0xC0 :: byte)) div 64 = 3" "unat (word_of_nat x OR (0xC0 :: byte)) mod 64 = x"
  using or_tags_upto assms by auto

lemma p_varint_Cons:
  assumes "length bs = 2 ^ (unat b div 64) - 1"
  shows "p_varint (b # bs @ r) = Some (foldl (\<lambda>n b. 256 * n + unat b) (unat b mod 64) bs, r)"
  using assms by (simp add: p_varint_def take_n_def)

lemma be_step: "256 * (v div (256 * m)) + v div m mod 256 = v div (m :: nat)"
  using div_mult_mod_eq [of "v div m" 256] div_mult2_eq [of v m 256] by (simp add: mult.commute)

lemmas be_steps = be_step [of v 1, simplified] be_step [of v "2 ^ 8", simplified]
  be_step [of v "2 ^ 16", simplified] be_step [of v "2 ^ 24", simplified]
  be_step [of v "2 ^ 32", simplified] be_step [of v "2 ^ 40", simplified]
  be_step [of v "2 ^ 48", simplified] for v

lemma p_varint_appendVarint [wire_simps]:
  assumes "v < 2 ^ 62"
  shows "p_varint (appendVarint v @ r) = Some (v, r)"
proof -
  consider "v < 64" | "64 \<le> v" "v < 16384" | "16384 \<le> v" "v < 1073741824" | "1073741824 \<le> v"
    by linarith
  then show ?thesis
  proof cases
    case 1
    then show ?thesis by (simp add: p_varint_def appendVarint_def take_n_def)
  next
    case 2
    then have d: "v div 256 < 64" by simp
    let ?b = "word_of_nat (v div 256) OR 0x40 :: byte"
    have "unat ?b div 64 = 1" "unat ?b mod 64 = v div 256" by (rule or_tags [OF d])+
    then show ?thesis
      using 2 p_varint_Cons [of "[word_of_nat v]" ?b r]
      by (simp add: appendVarint_def drop_bit_eq_div)
  next
    case 3
    then have d: "v div 16777216 < 64" by simp
    let ?b = "word_of_nat (v div 16777216) OR 0x80 :: byte"
    have "unat ?b div 64 = 2" "unat ?b mod 64 = v div 16777216" by (rule or_tags [OF d])+
    then show ?thesis
      using 3 p_varint_Cons [of "[word_of_nat (v div 65536), word_of_nat (v div 256), word_of_nat v]" ?b r]
      by (simp add: appendVarint_def drop_bit_eq_div be_steps)
  next
    case 4
    then have d: "v div 2 ^ 56 < 64" using assms by simp
    let ?b = "word_of_nat (v div 2 ^ 56) OR 0xC0 :: byte"
    have "unat ?b div 64 = 3" "unat ?b mod 64 = v div 2 ^ 56" by (rule or_tags [OF d])+
    then show ?thesis
      using 4 p_varint_Cons [of "[word_of_nat (v div 2 ^ 48), word_of_nat (v div 2 ^ 40),
          word_of_nat (v div 2 ^ 32), word_of_nat (v div 2 ^ 24), word_of_nat (v div 2 ^ 16),
          word_of_nat (v div 2 ^ 8), word_of_nat v]" ?b r]
      by (simp add: appendVarint_def drop_bit_eq_div be_steps)
  qed
qed

lemma byte_shift_or:
  assumes "k + 8 \<le> LENGTH('a::len)"
  shows "ucast (drop_bit k (word_of_nat v OR m :: 'a word))
      = (word_of_nat (drop_bit k v) OR ucast (drop_bit k m) :: byte)"
  using word_of_nat_byte_shift [OF assms, of v] by (simp add: drop_bit_or unsigned_or_eq)

lemma byte_tag:
  assumes "ucast (drop_bit k m) = t" and "k + 8 \<le> LENGTH('a::len)"
  shows "ucast (drop_bit k (word_of_nat v OR m :: 'a word)) = (word_of_nat (drop_bit k v) OR t :: byte)"
  using byte_shift_or [OF assms(2)] assms(1) by simp

lemma byte_untagged:
  assumes "(ucast (drop_bit k m) :: byte) = 0" and "k + 8 \<le> LENGTH('a::len)"
  shows "ucast (drop_bit k (word_of_nat v OR m :: 'a word)) = (word_of_nat (drop_bit k v) :: byte)"
  using byte_tag [OF assms] by simp

lemma byte_low:
  assumes "(ucast (m :: 'a::len word) :: byte) = 0" and "8 \<le> LENGTH('a)"
  shows "ucast (word_of_nat v OR m :: 'a word) = (word_of_nat v :: byte)"
  using byte_untagged [of 0 m v] assms by simp

lemma be_w16_tagged:
  "be_w16 (word_of_nat v OR 0x4000) = [word_of_nat (drop_bit 8 v) OR 0x40, word_of_nat v]"
  unfolding be_w16_def
  by (intro arg_cong2 [where f = Cons] refl byte_tag byte_untagged byte_low; (code_simp | simp))

lemma be_w32_tagged:
  "be_w32 (word_of_nat v OR 0x80000000) = [word_of_nat (drop_bit 24 v) OR 0x80,
     word_of_nat (drop_bit 16 v), word_of_nat (drop_bit 8 v), word_of_nat v]"
  unfolding be_w32_def
  by (intro arg_cong2 [where f = Cons] refl byte_tag byte_untagged byte_low; (code_simp | simp))

lemma be_w64_tagged:
  "be_w64 (word_of_nat v OR 0xC000000000000000) = [word_of_nat (drop_bit 56 v) OR 0xC0,
     word_of_nat (drop_bit 48 v), word_of_nat (drop_bit 40 v), word_of_nat (drop_bit 32 v),
     word_of_nat (drop_bit 24 v), word_of_nat (drop_bit 16 v), word_of_nat (drop_bit 8 v), word_of_nat v]"
  unfolding be_w64_def
  by (intro arg_cong2 [where f = Cons] refl byte_tag byte_untagged byte_low; (code_simp | simp))

lemma writeVarint_eq: "writeVarint b v = b @ appendVarint v"
  unfolding writeVarint_def appendVarint_def be_w16_tagged be_w32_tagged be_w64_tagged by simp

lemma appendVarint_nonempty [simp]: "appendVarint v \<noteq> []"
  by (simp add: appendVarint_def)

interpretation varint_codec: wire_codec appendVarint p_varint "\<lambda>v. v < 2 ^ 62"
  by unfold_locales (simp_all only: p_varint_appendVarint appendVarint_nonempty not_False_eq_True)

section \<open>Key derivation\<close>

text \<open>\<open>hkdf.Extract\<close> and \<open>hkdf.Expand\<close> over SHA-256, one block of \<open>aes.NewCipher\<close>, and the
  AEAD of \<open>cipher.NewGCM\<close>: key, nonce, text, additional data.\<close>

record crypto =
  hkdf_extract :: "byte list \<Rightarrow> byte list \<Rightarrow> byte list"
  hkdf_expand :: "byte list \<Rightarrow> byte list \<Rightarrow> nat \<Rightarrow> byte list"
  aes_encrypt :: "byte list \<Rightarrow> byte list \<Rightarrow> byte list"
  gcm_seal :: "byte list \<Rightarrow> byte list \<Rightarrow> byte list \<Rightarrow> byte list \<Rightarrow> byte list"
  gcm_open :: "byte list \<Rightarrow> byte list \<Rightarrow> byte list \<Rightarrow> byte list \<Rightarrow> byte list option"

definition gcmOverhead :: nat where
  "gcmOverhead = 16"

definition crypto_laws :: "crypto \<Rightarrow> bool" where
  "crypto_laws c \<longleftrightarrow>
     (\<forall>secret info n. length (hkdf_expand c secret info n) = n) \<and>
     (\<forall>key block. length block = 16 \<longrightarrow> length (aes_encrypt c key block) = 16) \<and>
     (\<forall>key nonce text aad. length (gcm_seal c key nonce text aad) = length text + gcmOverhead) \<and>
     (\<forall>key nonce text aad. gcm_open c key nonce (gcm_seal c key nonce text aad) aad = Some text)"

definition quicV1Salt :: "byte list" where
  "quicV1Salt = [0x38, 0x76, 0x2c, 0xf7, 0xf5, 0x59, 0x34, 0xb3, 0x4d, 0x17, 0x9a, 0xe6, 0xa4, 0xc8,
     0x0c, 0xad, 0xcc, 0xbb, 0x7f, 0x0a]"

definition hkdfExpandLabel :: "crypto \<Rightarrow> byte list \<Rightarrow> string \<Rightarrow> byte list \<Rightarrow> nat \<Rightarrow> byte list" where
  "hkdfExpandLabel c secret label context n =
     (let fullLabel = ''tls13 '' @ label;
          info = be16 n;
          info = writeByte info (length fullLabel);
          info = info @ bytes_of fullLabel;
          info = writeByte info (length context);
          info = info @ context
      in hkdf_expand c secret info n)"

definition aesECB :: "crypto \<Rightarrow> byte list \<Rightarrow> byte list \<Rightarrow> byte list" where
  "aesECB c key block = aes_encrypt c key block"

section \<open>The Initial packet\<close>

text \<open>\<open>protected[pnOffset+i] ^= mask[1+i]\<close> for \<open>i\<close> below \<open>n\<close>.\<close>

fun xor_at :: "byte list \<Rightarrow> nat \<Rightarrow> byte list \<Rightarrow> byte list" where
  "xor_at bs off [] = bs"
| "xor_at bs off (m # ms) = xor_at (bs[off := bs ! off XOR m]) (Suc off) ms"

definition BuildQUICInitial :: "crypto \<Rightarrow> byte list \<Rightarrow> byte list \<Rightarrow> byte list" where
  "BuildQUICInitial c dcid chPayload =
     (let initialSecret = hkdf_extract c dcid quicV1Salt;
          clientSecret = hkdfExpandLabel c initialSecret ''client in'' [] 32;
          clientKey = hkdfExpandLabel c clientSecret ''quic key'' [] 16;
          clientIV = hkdfExpandLabel c clientSecret ''quic iv'' [] 12;
          clientHP = hkdfExpandLabel c clientSecret ''quic hp'' [] 16;
          crypto = writeByte [] 0x06;
          crypto = writeByte crypto 0x00;
          crypto = crypto @ appendVarint (length chPayload);
          crypto = crypto @ chPayload;
          pnLen = 4;
          pn = [0x00, 0x00, 0x00, 0x00];
          plaintext = crypto;
          headerEstimate = 1 + 4 + 1 + length dcid + 1 + 1 + 2 + pnLen;
          minPayload = 1200 - int headerEstimate - int gcmOverhead;
          plaintext = (if int (length plaintext) < minPayload
                       then plaintext @ replicate (nat (minPayload - int (length plaintext))) 0
                       else plaintext);
          lengthVal = pnLen + length plaintext + gcmOverhead;
          header = writeByte [] 0xC3;
          header = header @ [0x00, 0x00, 0x00, 0x01];
          header = writeByte header (length dcid);
          header = header @ dcid;
          header = writeByte header 0x00;
          header = writeByte header 0x00;
          header = header @ appendVarint lengthVal;
          header = header @ pn;
          nonce = take 12 clientIV @ replicate (12 - length clientIV) 0;
          ciphertext = gcm_seal c clientKey nonce plaintext header;
          protected = header @ ciphertext;
          pnOffset = length header - pnLen
      in if length ciphertext \<ge> 16 then
           (let mask = aesECB c clientHP (take 16 ciphertext);
                protected = protected[0 := protected ! 0 XOR (mask ! 0 AND 0x0F)]
            in xor_at protected pnOffset (take pnLen (drop 1 mask)))
         else protected)"

text \<open>The receiving end (RFC 9001, sections 5.2 to 5.4, RFC 9000, sections 17.2.2 and 19.6): a version
  1 Initial packet alone in its datagram, whose payload is one CRYPTO frame at offset 0 followed by
  PADDING.\<close>

definition xor_bytes :: "byte list \<Rightarrow> byte list \<Rightarrow> byte list" where
  "xor_bytes xs ys = map (\<lambda>(x, y). x XOR y) (zip xs ys)"

definition p_crypto_frame :: "(byte, byte list) parser" where
  "p_crypto_frame bs =
     Option.bind (p_varint bs) (\<lambda>(ty, r). if ty \<noteq> 6 then None else
     Option.bind (p_varint r) (\<lambda>(off, r). if off \<noteq> 0 then None else
     Option.bind (p_varint r) (\<lambda>(n, r). take_n n r)))"

definition p_long_header :: "(byte, byte \<times> byte list \<times> nat) parser" where
  "p_long_header pkt =
     Option.bind (take_n 1 pkt) (\<lambda>(b0, r). if b0 ! 0 AND 0xF0 \<noteq> 0xC0 then None else
     Option.bind (p_u32 r) (\<lambda>(ver, r). if ver \<noteq> 1 then None else
     Option.bind (p_vec p_u8 r) (\<lambda>(dcid, r).
     Option.bind (p_vec p_u8 r) (\<lambda>(scid, r).
     Option.bind (p_varint r) (\<lambda>(tlen, r).
     Option.bind (take_n tlen r) (\<lambda>(token, r).
     Option.bind (p_varint r) (\<lambda>(len, r). Some ((b0 ! 0, dcid, len), r))))))))"

definition open_initial :: "crypto \<Rightarrow> byte list \<Rightarrow> (byte list \<times> byte list) option" where
  "open_initial c pkt =
     Option.bind (p_long_header pkt) (\<lambda>((b0, dcid, len), r).
     if length r \<noteq> len \<or> len < 20 then None else
     (let hdr = take (length pkt - length r) pkt;
          secret = hkdfExpandLabel c (hkdf_extract c dcid quicV1Salt) ''client in'' [] 32;
          key = hkdfExpandLabel c secret ''quic key'' [] 16;
          iv = hkdfExpandLabel c secret ''quic iv'' [] 12;
          hp = hkdfExpandLabel c secret ''quic hp'' [] 16;
          mask = aes_encrypt c hp (take 16 (drop 4 r));
          b0' = b0 XOR (mask ! 0 AND 0x0F);
          n = unat (b0' AND 3) + 1;
          pn = xor_bytes (take n r) (drop 1 mask);
          aad = b0' # tl hdr @ pn;
          nonce = xor_bytes iv (replicate (12 - n) 0 @ pn)
      in Option.bind (gcm_open c key nonce (drop n r) aad) (\<lambda>frames.
         Option.bind (p_crypto_frame frames) (\<lambda>(hello, rest).
         if list_all (\<lambda>b. b = 0) rest then Some (dcid, hello) else None))))"

section \<open>What the receiver reads\<close>

lemma xor_at_append:
  "length ms = length ys \<Longrightarrow> xor_at (xs @ ys @ zs) (length xs) ms = xs @ xor_bytes ys ms @ zs"
proof (induction ms arbitrary: xs ys)
  case Nil
  then show ?case by (simp add: xor_bytes_def)
next
  case (Cons m ms)
  then obtain y ys' where ys: "ys = y # ys'" by (cases ys) auto
  have "xor_at (xs @ ys @ zs) (length xs) (m # ms)
      = xor_at ((xs @ [y XOR m]) @ ys' @ zs) (length (xs @ [y XOR m])) ms"
    by (simp add: ys)
  also have "\<dots> = (xs @ [y XOR m]) @ xor_bytes ys' ms @ zs"
    using Cons.prems ys by (intro Cons.IH) simp
  finally show ?case by (simp add: ys xor_bytes_def)
qed

lemma xor_zeros: "length ms = n \<Longrightarrow> xor_bytes (replicate n 0) ms = ms"
  by (induction ms arbitrary: n) (auto simp: xor_bytes_def replicate_Suc)

lemma xor_zeros_right: "length ms = n \<Longrightarrow> xor_bytes ms (replicate n 0) = ms"
  by (induction ms arbitrary: n) (auto simp: xor_bytes_def)

lemma xor_self: "n \<le> length ms \<Longrightarrow> xor_bytes (take n ms) ms = replicate n 0"
proof (induction n arbitrary: ms)
  case (Suc n)
  then show ?case by (cases ms) (auto simp: xor_bytes_def)
qed (simp add: xor_bytes_def)

lemma form_byte:
  fixes m :: byte
  shows "(0xC3 XOR (m AND 0x0F)) AND 0xF0 = 0xC0" and "(0xC3 XOR (m AND 0x0F)) XOR (m AND 0x0F) = 0xC3"
  by (simp_all add: bit.conj_xor_distrib2 and.assoc xor.assoc)

text \<open>The parts of the packet: the padded payload, the header between the form byte and the packet
  number, and the keys.\<close>

definition initial_payload :: "byte list \<Rightarrow> byte list \<Rightarrow> byte list" where
  "initial_payload dcid ch =
     (let p = [0x06, 0x00] @ appendVarint (length ch) @ ch in
      p @ replicate (1170 - length dcid - length p) 0)"

definition initial_mid :: "byte list \<Rightarrow> nat \<Rightarrow> byte list" where
  "initial_mid dcid n = [0, 0, 0, 1, word_of_nat (length dcid)] @ dcid @ [0, 0] @ appendVarint (n + 20)"

definition initial_secret :: "crypto \<Rightarrow> byte list \<Rightarrow> byte list" where
  "initial_secret c dcid = hkdfExpandLabel c (hkdf_extract c dcid quicV1Salt) ''client in'' [] 32"

definition initial_sealed :: "crypto \<Rightarrow> byte list \<Rightarrow> byte list \<Rightarrow> byte list" where
  "initial_sealed c dcid ch =
     gcm_seal c (hkdfExpandLabel c (initial_secret c dcid) ''quic key'' [] 16)
       (hkdfExpandLabel c (initial_secret c dcid) ''quic iv'' [] 12) (initial_payload dcid ch)
       (0xC3 # initial_mid dcid (length (initial_payload dcid ch)) @ [0, 0, 0, 0])"

definition initial_mask :: "crypto \<Rightarrow> byte list \<Rightarrow> byte list \<Rightarrow> byte list" where
  "initial_mask c dcid ch = aes_encrypt c (hkdfExpandLabel c (initial_secret c dcid) ''quic hp'' [] 16)
     (take 16 (initial_sealed c dcid ch))"

lemma crypto_lawsD:
  assumes "crypto_laws c"
  shows "length (hkdfExpandLabel c secret label ctx n) = n"
    and "length block = 16 \<Longrightarrow> length (aes_encrypt c key block) = 16"
    and "length (gcm_seal c key nonce txt aad) = length txt + 16"
    and "gcm_open c key nonce (gcm_seal c key nonce txt aad) aad = Some txt"
  using assms by (simp_all add: crypto_laws_def hkdfExpandLabel_def Let_def gcmOverhead_def)

lemma initial_mask_length: "crypto_laws c \<Longrightarrow> length (initial_mask c dcid ch) = 16"
  by (simp add: initial_mask_def initial_sealed_def crypto_lawsD)

text \<open>Header protection as the source applies it to a header that ends in a 4-byte packet number.\<close>

lemma protect_eq:
  assumes "length msk = 16"
  shows "(let protected = (0xC3 # mid @ [0, 0, 0, 0]) @ ct;
              protected = protected[0 := protected ! 0 XOR (msk ! 0 AND 0x0F)]
          in xor_at protected (length (0xC3 # mid @ [0, 0, 0, 0]) - 4) (take 4 (drop 1 msk)))
    = (0xC3 XOR (msk ! 0 AND 0x0F)) # mid @ take 4 (drop 1 msk) @ ct"
proof -
  let ?f = "0xC3 XOR (msk ! 0 AND 0x0F)"
  have "xor_at ((?f # mid) @ replicate 4 0 @ ct) (length (?f # mid)) (take 4 (drop 1 msk))
      = (?f # mid) @ xor_bytes (replicate 4 0) (take 4 (drop 1 msk)) @ ct"
    using assms by (intro xor_at_append) simp
  also have "xor_bytes (replicate 4 0) (take 4 (drop 1 msk)) = take 4 (drop 1 msk)"
    using assms by (intro xor_zeros) simp
  finally show ?thesis by (simp add: numeral_eq_Suc)
qed

lemma BuildQUICInitial_eq:
  assumes laws: "crypto_laws c"
  shows "BuildQUICInitial c dcid ch =
    (0xC3 XOR (initial_mask c dcid ch ! 0 AND 0x0F))
      # initial_mid dcid (length (initial_payload dcid ch))
      @ take 4 (drop 1 (initial_mask c dcid ch)) @ initial_sealed c dcid ch"
proof -
  define p where "p = (writeByte (writeByte [] 0x06) 0x00 @ appendVarint (length ch)) @ ch"
  define P where "P = (if int (length p) < 1200 - int (1 + 4 + 1 + length dcid + 1 + 1 + 2 + 4) - int gcmOverhead
     then p @ replicate (nat (1200 - int (1 + 4 + 1 + length dcid + 1 + 1 + 2 + 4) - int gcmOverhead
       - int (length p))) 0 else p)"
  define H where "H = (writeByte (writeByte (writeByte (writeByte [] 0xC3 @ [0x00, 0x00, 0x00, 0x01])
     (length dcid) @ dcid) 0x00) 0x00 @ appendVarint (4 + length P + gcmOverhead)) @ [0, 0, 0, 0]"
  have P: "P = initial_payload dcid ch"
    by (auto simp: P_def p_def writeByte_def initial_payload_def Let_def gcmOverhead_def nat_diff_distrib')
  have H: "H = 0xC3 # initial_mid dcid (length (initial_payload dcid ch)) @ [0, 0, 0, 0]"
    by (simp add: H_def P writeByte_def initial_mid_def gcmOverhead_def add.commute)
  have iv: "take 12 (hkdfExpandLabel c s l [] 12) @ replicate (12 - length (hkdfExpandLabel c s l [] 12)) 0
      = hkdfExpandLabel c s l [] 12" for s l
    by (simp add: crypto_lawsD [OF laws])
  have ct: "16 \<le> length (initial_sealed c dcid ch)"
    by (simp add: initial_sealed_def crypto_lawsD [OF laws])
  show ?thesis
    unfolding protect_eq [OF initial_mask_length [OF laws], symmetric] BuildQUICInitial_def Let_def
      p_def [symmetric] P_def [symmetric] H_def [symmetric] iv initial_secret_def [symmetric]
    unfolding P H initial_sealed_def [symmetric] aesECB_def initial_mask_def [symmetric]
    using ct by simp
qed

lemma p_long_header_mid:
  assumes "b0 AND 0xF0 = 0xC0" and "length dcid < 256" and "n + 20 < 2 ^ 62"
  shows "p_long_header (b0 # initial_mid dcid n @ r) = Some ((b0, dcid, n + 20), r)"
proof -
  have v: "p_u32 (0 # 0 # 0 # 1 # xs) = Some (1, xs)" for xs by (simp add: p_u32_def)
  have z8: "p_vec p_u8 (0 # xs) = Some ([], xs)" for xs
    by (simp add: p_vec_def p_u8_def take_n_def)
  have z: "p_varint (0 # xs) = Some (0, xs)" for xs
    using p_varint_appendVarint [of 0 xs] by (simp add: appendVarint_def)
  have d: "p_vec p_u8 (word_of_nat (length dcid) # dcid @ xs) = Some (dcid, xs)" for xs
    using p_vec_u8 [OF assms(2)] by simp
  have t: "take_n 0 xs = Some ([], xs)" "take_n 1 (x # xs) = Some ([x], xs)" for x :: byte and xs
    by (simp_all add: take_n_def)
  show ?thesis
    unfolding p_long_header_def initial_mid_def
    using assms(1) p_varint_appendVarint [OF assms(3), of r] by (simp add: v z8 z d t del: One_nat_def)
qed

lemma p_crypto_frame_payload:
  assumes "length ch < 2 ^ 62"
  shows "\<exists>n. p_crypto_frame (initial_payload dcid ch) = Some (ch, replicate n 0)"
proof -
  define pad where "pad = replicate (1170 - length dcid - (2 + length (appendVarint (length ch) @ ch))) (0 :: byte)"
  have six: "p_varint (6 # xs) = Some (6, xs)" and zero: "p_varint (0 # xs) = Some (0, xs)" for xs
    using p_varint_appendVarint [of 6 xs] p_varint_appendVarint [of 0 xs] by (simp_all add: appendVarint_def)
  have "initial_payload dcid ch = 6 # 0 # appendVarint (length ch) @ ch @ pad"
    by (simp add: initial_payload_def pad_def Let_def)
  then have "p_crypto_frame (initial_payload dcid ch) = Some (ch, pad)"
    using p_varint_appendVarint [OF assms, of "ch @ pad"]
    by (simp add: p_crypto_frame_def six zero take_n_append)
  then show ?thesis by (auto simp: pad_def)
qed

lemma length_initial_payload:
  "length (initial_payload dcid ch) = max (2 + length (appendVarint (length ch)) + length ch) (1170 - length dcid)"
  by (simp add: initial_payload_def Let_def)

lemma length_appendVarint: "length (appendVarint v) \<le> 8"
  by (simp add: appendVarint_def)

lemma open_initial_eq:
  assumes laws: "crypto_laws c" and dcid: "length dcid < 256" and ch: "length ch < 2 ^ 61"
  shows "open_initial c (BuildQUICInitial c dcid ch) = Some (dcid, ch)"
proof -
  define P where "P = initial_payload dcid ch"
  define m where "m = initial_mask c dcid ch"
  define ct where "ct = initial_sealed c dcid ch"
  define mid where "mid = initial_mid dcid (length P)"
  define r where "r = take 4 (drop 1 m) @ ct"
  let ?b0 = "0xC3 XOR (m ! 0 AND 0x0F)"
  have pkt: "BuildQUICInitial c dcid ch = ?b0 # mid @ r"
    by (simp add: BuildQUICInitial_eq [OF laws] P_def m_def ct_def mid_def r_def)
  have m: "length m = 16" unfolding m_def by (rule initial_mask_length [OF laws])
  have ct: "length ct = length P + 16"
    by (simp add: ct_def P_def initial_sealed_def crypto_lawsD [OF laws])
  then have r: "length r = length P + 20" using m by (simp add: r_def)
  have "length P + 20 < 2 ^ 62"
    using length_appendVarint [of "length ch"] ch by (simp add: P_def length_initial_payload)
  then have hdr: "p_long_header (?b0 # mid @ r) = Some ((?b0, dcid, length P + 20), r)"
    unfolding mid_def by (intro p_long_header_mid form_byte dcid)
  have sample: "take 16 (drop 4 r) = take 16 ct" and rest: "drop 4 r = ct" and pnr: "take 4 r = take 4 (drop 1 m)"
    using m by (simp_all add: r_def)
  have pn: "xor_bytes (take 4 (drop 1 m)) (drop 1 m) = replicate 4 0"
    using m by (intro xor_self) simp
  obtain n where frame: "p_crypto_frame P = Some (ch, replicate n 0)"
    using p_crypto_frame_payload [of ch dcid] ch by (auto simp: P_def)
  have nonce: "xor_bytes (hkdfExpandLabel c s l [] 12) (replicate 8 0 @ replicate 4 0)
      = hkdfExpandLabel c s l [] 12" for s l
    unfolding replicate_add [symmetric] by (intro xor_zeros_right) (simp add: crypto_lawsD [OF laws])
  have n4: "unat ((0xC3 :: byte) AND 3) + 1 = 4" by simp
  have hp: "aes_encrypt c (hkdfExpandLabel c (initial_secret c dcid) ''quic hp'' [] 16) (take 16 ct) = m"
    by (simp add: m_def initial_mask_def ct_def)
  have op: "gcm_open c (hkdfExpandLabel c (initial_secret c dcid) ''quic key'' [] 16)
      (hkdfExpandLabel c (initial_secret c dcid) ''quic iv'' [] 12) ct (0xC3 # mid @ replicate 4 0) = Some P"
    by (simp add: ct_def initial_sealed_def P_def mid_def crypto_lawsD(4) [OF laws] numeral_eq_Suc)
  show ?thesis
    unfolding pkt open_initial_def hdr bind.simps prod.case Let_def sample initial_secret_def [symmetric] hp
      form_byte n4 pnr pn rest
    using r by (simp add: nonce op frame list_all_iff)
qed

section \<open>The ClientHello of a capture\<close>

definition writeUint16 :: "byte list \<Rightarrow> nat \<Rightarrow> byte list" where
  "writeUint16 b v = b @ be16 v"

definition writeUint24 :: "byte list \<Rightarrow> nat \<Rightarrow> byte list" where
  "writeUint24 b v = b @ [word_of_nat (v div 65536), word_of_nat (v div 256), word_of_nat v]"

fun writeUint16s :: "byte list \<Rightarrow> nat list \<Rightarrow> byte list" where
  "writeUint16s b [] = b"
| "writeUint16s b (x # xs) = writeUint16s (writeUint16 b x) xs"

definition buildTLSClientHello :: "byte list \<Rightarrow> rng \<Rightarrow> byte list \<times> rng" where
  "buildTLSClientHello host rs =
     (let hs = writeUint16 [] 0x0303;
          (random, rs) = randomBytes 32 rs;
          hs = hs @ random;
          (sid, rs) = randomBytes 32 rs;
          hs = writeByte hs (length sid);
          hs = hs @ sid;
          ciphers = [0x1301, 0x1302, 0x1303];
          hs = writeUint16 hs (length ciphers * 2);
          hs = writeUint16s hs ciphers;
          hs = writeByte hs 0x01;
          hs = writeByte hs 0x00;
          ext = [];
          ext = writeUint16 ext 0x0000;
          sni = writeByte [] 0x00;
          sni = writeUint16 sni (length host);
          sni = sni @ host;
          ext = writeUint16 ext (2 + length sni);
          ext = writeUint16 ext (length sni);
          ext = ext @ sni;
          ext = writeUint16 ext 0x002B;
          ext = writeUint16 ext 3;
          ext = writeByte ext 2;
          ext = writeUint16 ext 0x0304;
          ext = writeUint16 ext 0x000A;
          ext = writeUint16 ext 3;
          ext = writeByte ext 2;
          ext = writeUint16 ext 0x001D;
          algs = [0x0403, 0x0804, 0x0401];
          ext = writeUint16 ext 0x000D;
          ext = writeUint16 ext (2 + length algs * 2);
          ext = writeUint16 ext (length algs * 2);
          ext = writeUint16s ext algs;
          ks = writeUint16 [] 0x001D;
          ks = writeUint16 ks 32;
          (key, rs) = randomBytes 32 rs;
          ks = ks @ key;
          ext = writeUint16 ext 0x0033;
          ext = writeUint16 ext (2 + length ks);
          ext = writeUint16 ext (length ks);
          ext = ext @ ks;
          protos = writeByte [] 2;
          protos = protos @ bytes_of ''h3'';
          ext = writeUint16 ext 0x0010;
          ext = writeUint16 ext (2 + length protos);
          ext = writeUint16 ext (length protos);
          ext = ext @ protos;
          ext = writeUint16 ext 0x002D;
          ext = writeUint16 ext 2;
          ext = writeByte ext 1;
          ext = writeByte ext 0x01;
          hs = writeUint16 hs (length ext);
          hs = hs @ ext;
          msg = writeByte [] 0x01;
          msg = writeUint24 msg (length hs);
          msg = msg @ hs
      in (msg, rs))"

definition buildQUICInitial :: "crypto \<Rightarrow> byte list \<Rightarrow> rng \<Rightarrow> byte list \<times> rng" where
  "buildQUICInitial c host rs =
     (let (chPayload, rs) = buildTLSClientHello host rs;
          (dcid, rs) = randomBytes 8 rs
      in (BuildQUICInitial c dcid chPayload, rs))"

definition capture_exts :: "byte list \<Rightarrow> byte list \<Rightarrow> extension list" where
  "capture_exts host key = [(0x0000, sni_body host), (0x002B, vec8_u16s [0x0304]), (0x000A, vec8_u16s [0x001D]),
     (0x000D, vec16_u16s [0x0403, 0x0804, 0x0401]), (0x0033, share_body [(0x001D, key)]),
     (0x0010, be16 3 @ 2 # bytes_of ''h3''), (0x002D, [1, 1])]"

lemma writeUint16s_eq [simp]: "writeUint16s b xs = b @ concat (map be16 xs)"
  by (induction xs arbitrary: b) (simp_all add: writeUint16_def)

lemma capture_hello_eq:
  obtains random sid key rs' where "length random = 32" "length sid = 32" "length key = 32"
    "buildTLSClientHello host rs = (wrapHandshake (hello_body random sid [0x1301, 0x1302, 0x1303]
      (capture_exts host key)), rs')"
proof -
  obtain random rs1 where r: "randomBytes 32 rs = (random, rs1)" by fastforce
  obtain sid rs2 where s: "randomBytes 32 rs1 = (sid, rs2)" by fastforce
  obtain key rs3 where k: "randomBytes 32 rs2 = (key, rs3)" by fastforce
  note len = randomBytes_length [OF r] randomBytes_length [OF s] randomBytes_length [OF k]
  have "buildTLSClientHello host rs = (wrapHandshake (hello_body random sid [0x1301, 0x1302, 0x1303]
      (capture_exts host key)), rs3)"
    unfolding buildTLSClientHello_def
    by (simp add: r s k Let_def len writeUint16_def writeUint24_def writeByte_def wrapHandshake_eq
        hello_body_def capture_exts_def enc_ext_def sni_body_def vec8_u16s_def vec16_u16s_def
        share_body_def be24_def) (simp add: numeral_eq_Suc)
  with len show ?thesis by (rule that)
qed

lemma capture_exts_parse:
  assumes "length random = 32" "length sid = 32" "length key = 32" "length host < 65000"
  shows "parse_hello (wrapHandshake (hello_body random sid [0x1301, 0x1302, 0x1303] (capture_exts host key)))
    = Some \<lparr>ch_version = 0x0303, ch_random = random, ch_session = sid,
        ch_ciphers = [0x1301, 0x1302, 0x1303], ch_compression = [0], ch_extensions = capture_exts host key\<rparr>"
  using assms by (intro parse_hello_wrap) (simp_all add: capture_exts_def ext_fits_def length_enc_ext)

lemma capture_groups_bad: "\<not> ext_body_ok (0x000A, vec8_u16s [0x001D])"
  by code_simp

lemma length_BuildQUICInitial:
  assumes laws: "crypto_laws c" and "length dcid \<le> 20" and "length ch < 16000"
  shows "length (BuildQUICInitial c dcid ch) = 30 + length dcid + length (initial_payload dcid ch)"
proof -
  have "64 \<le> length (initial_payload dcid ch)" "length (initial_payload dcid ch) < 16300"
    using assms(2,3) length_appendVarint [of "length ch"] by (simp_all add: length_initial_payload)
  then have "length (appendVarint (length (initial_payload dcid ch) + 20)) = 2"
    by (simp add: appendVarint_def)
  moreover have "length (initial_mask c dcid ch) = 16" by (rule initial_mask_length [OF laws])
  moreover have "length (initial_sealed c dcid ch) = length (initial_payload dcid ch) + 16"
    by (simp add: initial_sealed_def crypto_lawsD [OF laws])
  ultimately show ?thesis by (simp add: BuildQUICInitial_eq [OF laws] initial_mid_def)
qed

section \<open>Captured packets as I-fields\<close>

definition maxPackets :: nat where "maxPackets = 5"
definition minPackets :: nat where "minPackets = 2"

definition lit_tag :: "byte list \<Rightarrow> string" where
  "lit_tag pkt = ''<b 0x'' @ hex_encode pkt @ ''>''"

definition iBytes5 :: "string list \<Rightarrow> int" where
  "iBytes5 f = IBytes (f ! 0) (f ! 1) (f ! 2) (f ! 3) (f ! 4)"

fun fill_loop :: "int \<Rightarrow> nat \<Rightarrow> byte list list \<Rightarrow> string list \<Rightarrow> string list" where
  "fill_loop budget i [] f = f"
| "fill_loop budget i (pkt # pkts) f =
     (if i \<ge> maxPackets then f
      else if int (length pkt) > MaxIPacketBytes then f
      else let f1 = f[i := lit_tag pkt] in
        if iBytes5 f1 > budget then f1[i := []] else fill_loop budget (Suc i) pkts f1)"

definition fillPackets :: "byte list list \<Rightarrow> bool \<Rightarrow> string list" where
  "fillPackets packets hasHPK = fill_loop (WorstCaseIBytesBudget hasHPK) 0 packets (replicate 5 [])"

text \<open>The reads of \<open>captureQUIC\<close>: \<open>None\<close> is a read error (the deadline, a closed socket), and a
  read of no bytes is skipped.\<close>

fun read_replies :: "byte list list \<Rightarrow> byte list option list \<Rightarrow> byte list list" where
  "read_replies packets [] = packets"
| "read_replies packets (r # rs) =
     (if length packets < maxPackets then
        (case r of None \<Rightarrow> packets
         | Some pkt \<Rightarrow> if pkt = [] then read_replies packets rs else read_replies (packets @ [take 2048 pkt]) rs)
      else packets)"

definition captureQUIC ::
  "crypto \<Rightarrow> byte list \<Rightarrow> byte list option list \<Rightarrow> rng \<Rightarrow> (byte list list) option \<times> rng" where
  "captureQUIC c host replies rs =
     (let (initial, rs) = buildQUICInitial c host rs;
          packets = read_replies [initial] replies
      in if length packets < minPackets then (None, rs) else (Some packets, rs))"

section \<open>Which addresses a capture may contact\<close>

type_synonym ipv4 = "byte list"

definition isPrivate4 :: "ipv4 \<Rightarrow> bool" where
  "isPrivate4 ip \<longleftrightarrow> ip ! 0 = 10 \<or> ip ! 0 = 172 \<and> ip ! 1 AND 0xF0 = 16 \<or> ip ! 0 = 192 \<and> ip ! 1 = 168"

definition captureIPAllowed :: "ipv4 \<Rightarrow> bool" where
  "captureIPAllowed ip =
     (if ip = [0, 0, 0, 0] \<or> ip ! 0 = 127 \<or> isPrivate4 ip \<or> (ip ! 0 = 169 \<and> ip ! 1 = 254) \<or>
         ip ! 0 AND 0xF0 = 0xE0 then False
      else if ip ! 0 = 0 then False
      else if ip ! 0 = 100 \<and> ip ! 1 \<ge> 64 \<and> ip ! 1 \<le> 127 then False
      else True)"

text \<open>The addresses of the resolver, \<open>None\<close> for one that is not an IPv4 address.\<close>

fun resolveHost :: "ipv4 option list \<Rightarrow> ipv4 option" where
  "resolveHost [] = None"
| "resolveHost (None # ips) = resolveHost ips"
| "resolveHost (Some v4 # ips) = (if \<not> captureIPAllowed v4 then resolveHost ips else Some v4)"

text \<open>The blocks no capture may reach, as CIDR prefixes of the address read as a 32-bit number.\<close>

definition in_cidr :: "ipv4 \<Rightarrow> ipv4 \<times> nat \<Rightarrow> bool" where
  "in_cidr ip blk = (be_val ip div 2 ^ (32 - snd blk) = be_val (fst blk) div 2 ^ (32 - snd blk))"

definition special_blocks :: "(ipv4 \<times> nat) list" where
  "special_blocks = [([0, 0, 0, 0], 8), ([10, 0, 0, 0], 8), ([100, 64, 0, 0], 10), ([127, 0, 0, 0], 8),
     ([169, 254, 0, 0], 16), ([172, 16, 0, 0], 12), ([192, 168, 0, 0], 16), ([224, 0, 0, 0], 4)]"

lemma nibble_upto:
  "\<forall>x\<in>set [0..<256]. (word_of_nat x AND 0xF0 = (16 :: byte) \<longleftrightarrow> x div 16 = 1) \<and>
     (word_of_nat x AND 0xF0 = (0xE0 :: byte) \<longleftrightarrow> x div 16 = 14)"
  by code_simp

lemma nibbles:
  fixes b :: byte
  shows "b AND 0xF0 = 16 \<longleftrightarrow> unat b div 16 = 1" and "b AND 0xF0 = 0xE0 \<longleftrightarrow> unat b div 16 = 14"
  using nibble_upto unat_byte_less [of b] by (auto simp: dest: bspec [where x = "unat b"])

lemma be_val4: "be_val [a, b, c, d] = ((unat a * 256 + unat b) * 256 + unat c) * 256 + unat d"
  by (simp add: be_val_def)

lemma quad_div:
  fixes a b c d :: nat
  assumes "b < 256" "c < 256" "d < 256"
  shows "(((a * 256 + b) * 256 + c) * 256 + d) div 65536 = a * 256 + b"
proof (rule div_nat_eqI)
  show "65536 * (a * 256 + b) \<le> ((a * 256 + b) * 256 + c) * 256 + d" by simp
  show "((a * 256 + b) * 256 + c) * 256 + d < 65536 * Suc (a * 256 + b)" using assms by simp
qed

lemma pair_div:
  fixes a b :: nat
  assumes "b < 256"
  shows "(a * 256 + b) div 256 = a" "(a * 256 + b) div 16 = a * 16 + b div 16"
    "(a * 256 + b) div 64 = a * 4 + b div 64" "b div 16 < 16" "b div 64 < 4"
  using assms by linarith+

lemma be_val4_div:
  fixes a b c d :: byte
  shows "be_val [a, b, c, d] div 2 ^ 24 = unat a" "be_val [a, b, c, d] div 2 ^ 16 = unat a * 256 + unat b"
    "be_val [a, b, c, d] div 2 ^ 20 = unat a * 16 + unat b div 16"
    "be_val [a, b, c, d] div 2 ^ 22 = unat a * 4 + unat b div 64"
    "be_val [a, b, c, d] div 2 ^ 28 = unat a div 16"
proof -
  have 16: "be_val [a, b, c, d] div 65536 = unat a * 256 + unat b"
    unfolding be_val4 by (intro quad_div unat_byte_less)
  then show "be_val [a, b, c, d] div 2 ^ 16 = unat a * 256 + unat b" by simp
  have "be_val [a, b, c, d] div 2 ^ 24 = be_val [a, b, c, d] div 65536 div 256"
    by (simp add: div_mult2_eq [symmetric])
  then show 24: "be_val [a, b, c, d] div 2 ^ 24 = unat a" unfolding 16 pair_div [OF unat_byte_less] .
  have "be_val [a, b, c, d] div 2 ^ 20 = be_val [a, b, c, d] div 65536 div 16"
    by (simp add: div_mult2_eq [symmetric])
  then show "be_val [a, b, c, d] div 2 ^ 20 = unat a * 16 + unat b div 16"
    unfolding 16 pair_div [OF unat_byte_less] .
  have "be_val [a, b, c, d] div 2 ^ 22 = be_val [a, b, c, d] div 65536 div 64"
    by (simp add: div_mult2_eq [symmetric])
  then show "be_val [a, b, c, d] div 2 ^ 22 = unat a * 4 + unat b div 64"
    unfolding 16 pair_div [OF unat_byte_less] .
  have "be_val [a, b, c, d] div 2 ^ 28 = be_val [a, b, c, d] div 2 ^ 24 div 16"
    by (simp add: div_mult2_eq [symmetric])
  then show "be_val [a, b, c, d] div 2 ^ 28 = unat a div 16" unfolding 24 .
qed

lemma byte_eq_unat: "(a :: byte) = b \<longleftrightarrow> unat a = unat b"
  by (simp add: word_unat_eq_iff)

lemma captureIPAllowed_iff:
  assumes "length ip = 4"
  shows "captureIPAllowed ip \<longleftrightarrow> \<not> list_ex (in_cidr ip) special_blocks"
proof -
  obtain a b c d where ip: "ip = [a, b, c, d]"
    using assms by (auto simp: numeral_eq_Suc length_Suc_conv)
  note lt = unat_byte_less [of a] unat_byte_less [of b]
  have digits: "x * n + y = x' * n + y' \<longleftrightarrow> x = x' \<and> y = y'" if "y < n" "y' < n" for x y x' y' n :: nat
    using that by (metis div_mult_self3 div_less add.right_neutral mod_mult_self3 mod_less not_less0)
  have 1: "unat a * 256 + unat b = 43518 \<longleftrightarrow> unat a = 169 \<and> unat b = 254"
    "unat a * 256 + unat b = 49320 \<longleftrightarrow> unat a = 192 \<and> unat b = 168"
    using lt digits [of "unat b" 256 254 "unat a" 169] digits [of "unat b" 256 168 "unat a" 192] by simp_all
  have 2: "unat a * 16 + unat b div 16 = 2753 \<longleftrightarrow> unat a = 172 \<and> unat b div 16 = 1"
    using digits [of "unat b div 16" 16 1 "unat a" 172] pair_div(4) [OF lt(2)] by simp
  have "unat b div 64 = 1 \<longleftrightarrow> 64 \<le> unat b \<and> unat b \<le> 127" by auto
  then have 3: "unat a * 4 + unat b div 64 = 401 \<longleftrightarrow> unat a = 100 \<and> 64 \<le> unat b \<and> unat b \<le> 127"
    using digits [of "unat b div 64" 4 1 "unat a" 100] pair_div(5) [OF lt(2)] by simp
  show ?thesis
    unfolding ip special_blocks_def
    by (simp add: in_cidr_def be_val4_div [simplified] captureIPAllowed_def isPrivate4_def 1 2 3
        nibbles [unfolded byte_eq_unat, simplified] byte_eq_unat word_le_nat_alt)
qed

text \<open>The fields after \<open>k\<close> of the packets were taken, and what makes the loop stop there.\<close>

definition filled :: "byte list list \<Rightarrow> string list" where
  "filled pkts = map lit_tag pkts @ replicate (5 - length pkts) []"

definition fill_sound :: "int \<Rightarrow> byte list list \<Rightarrow> bool" where
  "fill_sound budget pkts \<longleftrightarrow> length pkts \<le> 5 \<and> iBytes5 (filled pkts) \<le> budget \<and>
     list_all (\<lambda>p. length p \<le> 1400) pkts"

definition fill_stops :: "int \<Rightarrow> byte list list \<Rightarrow> byte list list \<Rightarrow> bool" where
  "fill_stops budget taken rest \<longleftrightarrow> rest = [] \<or> length taken = 5 \<or> length (hd rest) > 1400 \<or>
     iBytes5 (filled (taken @ [hd rest])) > budget"

lemma filled_update:
  assumes "length pkts < 5"
  shows "(filled pkts)[length pkts := lit_tag p] = filled (pkts @ [p])"
    and "(filled (pkts @ [p]))[length pkts := []] = filled pkts"
proof -
  have "replicate (5 - length pkts) [] = ([] :: string) # replicate (4 - length pkts) []"
    using assms by (cases "5 - length pkts") auto
  then show "(filled pkts)[length pkts := lit_tag p] = filled (pkts @ [p])"
    and "(filled (pkts @ [p]))[length pkts := []] = filled pkts"
    by (simp_all add: filled_def list_update_append)
qed

lemma fill_loop_sound:
  assumes "fill_sound budget taken"
  shows "\<exists>k \<le> length pkts. fill_loop budget (length taken) pkts (filled taken) = filled (taken @ take k pkts) \<and>
    fill_sound budget (taken @ take k pkts) \<and> fill_stops budget (taken @ take k pkts) (drop k pkts)"
  using assms
proof (induction pkts arbitrary: taken)
  case Nil
  then show ?case by (simp add: fill_stops_def)
next
  case (Cons p pkts)
  let ?go = "length taken < 5 \<and> length p \<le> 1400 \<and> iBytes5 (filled (taken @ [p])) \<le> budget"
  show ?case
  proof (cases ?go)
    case True
    then have "fill_sound budget (taken @ [p])" using Cons.prems by (simp add: fill_sound_def)
    from Cons.IH [OF this] obtain k where k: "k \<le> length pkts"
      "fill_loop budget (Suc (length taken)) pkts (filled (taken @ [p])) = filled (taken @ p # take k pkts)"
      "fill_sound budget (taken @ p # take k pkts)" "fill_stops budget (taken @ p # take k pkts) (drop k pkts)"
      by auto
    then show ?thesis
      using True by (intro exI [of _ "Suc k"])
        (simp add: filled_update Let_def maxPackets_def MaxIPacketBytes_def)
  next
    case False
    then have "fill_loop budget (length taken) (p # pkts) (filled taken) = filled taken"
      using filled_update [of taken p] Cons.prems
      by (auto simp: Let_def maxPackets_def MaxIPacketBytes_def fill_sound_def)
    moreover have "fill_stops budget taken (p # pkts)"
      using False Cons.prems by (auto simp: fill_stops_def fill_sound_def)
    ultimately show ?thesis using Cons.prems by (intro exI [of _ 0]) simp
  qed
qed

definition toy_crypto :: crypto where
  "toy_crypto = \<lparr>hkdf_extract = \<lambda>secret salt. secret, hkdf_expand = \<lambda>secret info n. replicate n 7,
     aes_encrypt = \<lambda>key block. block, gcm_seal = \<lambda>key nonce txt aad. txt @ replicate 16 9,
     gcm_open = \<lambda>key nonce txt aad. Some (take (length txt - 16) txt)\<rparr>"

lemma toy_crypto_laws: "crypto_laws toy_crypto"
  by (simp add: crypto_laws_def toy_crypto_def gcmOverhead_def)

section \<open>Properties\<close>

text \<open>the panel's two encoders of QUIC integers write the same bytes, the minimal form of RFC 9000,
  and a reader gets the value back whatever follows it in the packet.\<close>

theorem varint_encoders_agree:
  assumes "v < 2 ^ 62"
  shows "writeVarint b v = b @ appendVarint v \<and> p_varint (appendVarint v @ r) = Some (v, r)"
  by (intro conjI writeVarint_eq p_varint_appendVarint assms)

theorem varint_encoders_agree_witness:
  "writeVarint [0xE3] 15293 = [0xE3, 0x7B, 0xBD] \<and> p_varint [0x7B, 0xBD] = Some (15293, [])"
proof -
  have e: "appendVarint 15293 = [0x7B, 0xBD]" by (simp add: appendVarint_def drop_bit_eq_div)
  have "(15293 :: nat) < 2 ^ 62" by simp
  from varint_encoders_agree [OF this, of "[0xE3]" "[]"] show ?thesis unfolding e by simp
qed



text \<open>the ClientHello of a capture frames correctly and names the host, but its supported_groups
  extension has a one-byte list length where RFC 8446 (4.2.7) has two, so a strict reader rejects that
  extension, for every host and every draw.\<close>

theorem capture_hello_groups_malformed:
  assumes "length host < 65000"
  shows "\<exists>ch body. parse_hello (fst (buildTLSClientHello host rs)) = Some ch \<and> server_name ch = Some host \<and>
    map_of (ch_extensions ch) 0x000A = Some body \<and> \<not> ext_body_ok (0x000A, body)"
proof -
  obtain random sid key rs' where len: "length random = 32" "length sid = 32" "length key = 32"
    and eq: "buildTLSClientHello host rs = (wrapHandshake (hello_body random sid [0x1301, 0x1302, 0x1303]
      (capture_exts host key)), rs')" by (rule capture_hello_eq)
  let ?ch = "\<lparr>ch_version = 0x0303, ch_random = random, ch_session = sid,
        ch_ciphers = [0x1301, 0x1302, 0x1303], ch_compression = [0], ch_extensions = capture_exts host key\<rparr>"
  have "parse_hello (fst (buildTLSClientHello host rs)) = Some ?ch"
    using capture_exts_parse [OF len assms] by (simp add: eq)
  moreover have "server_name ?ch = Some host"
    using assms by (simp add: server_name_def capture_exts_def whole_sni wire_simps whole_def [of p_name])
  moreover have "map_of (ch_extensions ?ch) 0x000A = Some (vec8_u16s [0x001D])"
    by (simp add: capture_exts_def)
  ultimately show ?thesis using capture_groups_bad by blast
qed

theorem capture_hello_groups_malformed_witness:
  "\<exists>ch body. parse_hello (fst (buildTLSClientHello (bytes_of ''google.com'') [1, 2, 3])) = Some ch \<and>
    server_name ch = Some (bytes_of ''google.com'') \<and>
    map_of (ch_extensions ch) 0x000A = Some body \<and> \<not> ext_body_ok (0x000A, body)"
  by (rule capture_hello_groups_malformed) simp

text \<open>\<open>fillPackets\<close> keeps a prefix of the captured packets, each whole and at most 1400 bytes, as
  literal I-fields whose netlink cost is within the budget, leaves the other fields empty, and stops no
  earlier than it must: at the fifth field, at an oversized packet, or at one whose field would break
  the budget.\<close>

theorem fillPackets_sound:
  "\<exists>k \<le> length packets. fillPackets packets hasHPK = filled (take k packets) \<and>
     fill_sound (WorstCaseIBytesBudget hasHPK) (take k packets) \<and>
     fill_stops (WorstCaseIBytesBudget hasHPK) (take k packets) (drop k packets)"
proof -
  have e: "filled [] = replicate 5 []" by (simp add: filled_def)
  have "iBytes5 (filled []) = 0" by code_simp
  moreover have "0 \<le> WorstCaseIBytesBudget hasHPK"
    by (simp add: WorstCaseIBytesBudget_def ibytesBudget_def nl_consts Let_def)
  ultimately have "fill_sound (WorstCaseIBytesBudget hasHPK) []" by (simp add: fill_sound_def)
  from fill_loop_sound [OF this, of packets] show ?thesis by (simp add: fillPackets_def e)
qed



end
