(* ===== verification/Cps_Session.thy ===== *)
theory Cps_Session
  imports Quic_Initial
begin

text \<open>
  The session generators of \<open>internal/awg/cps\<close>: the front-domain pools (\<open>domains.go\<close>), the five
  packets of an imitated TLS, QUIC, DNS or SIP client (\<open>session_tls.go\<close>, \<open>session_quic.go\<close>,
  \<open>session_dns.go\<close>, \<open>session_sip.go\<close>) and \<open>GenerateCPS\<close> (\<open>cps.go\<close>), which redraws a set
  until it fits the netlink budget.

  A descriptor is a template: the engine refills its holes for every packet it sends.  The
  specification \<open>fills d w\<close> says that the packet \<open>w\<close> is one such filling, and the properties are about
  every filling: whatever the engine draws, an observer reads a well-formed packet of the protocol.
\<close>

section \<open>Domains\<close>

type_synonym region = string
type_synonym mimicryProfile = string
type_synonym browserProfile = string

definition RegionRU :: region where "RegionRU = ''ru''"
definition RegionWorld :: region where "RegionWorld = ''world''"
definition ProfileTLS :: mimicryProfile where "ProfileTLS = ''tls''"
definition ProfileDNS :: mimicryProfile where "ProfileDNS = ''dns''"
definition ProfileSIP :: mimicryProfile where "ProfileSIP = ''sip''"
definition ProfileQUIC :: mimicryProfile where "ProfileQUIC = ''quic''"
definition BrowserChrome :: browserProfile where "BrowserChrome = ''chrome''"
definition BrowserFirefox :: browserProfile where "BrowserFirefox = ''firefox''"
definition BrowserSafari :: browserProfile where "BrowserSafari = ''safari''"

lemmas profile_defs = ProfileTLS_def ProfileDNS_def ProfileSIP_def ProfileQUIC_def
lemmas browser_defs = BrowserChrome_def BrowserFirefox_def BrowserSafari_def

definition tlsDomainsRU :: "string list" where
  "tlsDomainsRU = [''google.com'', ''github.com'', ''microsoft.com'', ''apple.com'',
     ''cloudflare.com'', ''amazon.com'', ''youtube.com'', ''facebook.com'',
     ''instagram.com'', ''netflix.com'', ''spotify.com'', ''twitter.com'',
     ''linkedin.com'', ''yandex.ru'', ''vk.com'', ''mail.ru'',
     ''ozon.ru'', ''wildberries.ru'', ''rutube.ru'', ''gosuslugi.ru'',
     ''sberbank.ru'', ''tbank.ru'']"

definition tlsDomainsWorld :: "string list" where
  "tlsDomainsWorld = [''google.com'', ''github.com'', ''microsoft.com'', ''apple.com'',
     ''cloudflare.com'', ''amazon.com'', ''youtube.com'', ''facebook.com'',
     ''instagram.com'', ''netflix.com'', ''spotify.com'', ''twitter.com'',
     ''linkedin.com'', ''wikipedia.org'', ''reddit.com'', ''dropbox.com'',
     ''digitalocean.com'']"

definition sipDomains :: "string list" where
  "sipDomains = [''sip.zadarma.com'', ''sip.iptel.org'', ''sip.linphone.org'',
     ''sip.dus.net'', ''sip.voys.nl'', ''sip.peoplefone.ch'',
     ''sip.messagenet.it'', ''sip.antisip.com'', ''sip.forumsip.com'',
     ''sip.telonline.com'', ''sip.1sip.co.uk'']"

definition quicDomainsRU :: "string list" where
  "quicDomainsRU = [''www.google.com'', ''www.youtube.com'', ''cdn.jsdelivr.net'',
     ''unpkg.com'', ''icloud.com'', ''mzstatic.com'', ''www.fastly.com'',
     ''cdn.b-cdn.net'', ''github.com'', ''ozon.ru'']"

definition quicDomainsWorld :: "string list" where
  "quicDomainsWorld = [''www.google.com'', ''www.youtube.com'', ''cdn.jsdelivr.net'',
     ''unpkg.com'', ''icloud.com'', ''mzstatic.com'', ''www.fastly.com'',
     ''cdn.b-cdn.net'', ''github.com'']"

definition dnsPool :: "string list" where
  "dnsPool = [''google.com'', ''github.com'', ''microsoft.com'', ''apple.com'',
     ''cloudflare.com'', ''amazon.com'', ''youtube.com'', ''facebook.com'',
     ''instagram.com'', ''netflix.com'', ''wikipedia.org'', ''reddit.com'',
     ''dropbox.com'', ''digitalocean.com'', ''yandex.ru'', ''vk.com'']"

definition DomainPool :: "mimicryProfile \<Rightarrow> region \<Rightarrow> string list" where
  "DomainPool profile rgn =
     (if profile = ProfileTLS then (if rgn = RegionRU then tlsDomainsRU else tlsDomainsWorld)
      else if profile = ProfileQUIC then (if rgn = RegionRU then quicDomainsRU else quicDomainsWorld)
      else if profile = ProfileSIP then sipDomains
      else if profile = ProfileDNS then dnsPool
      else dnsPool)"

definition PickRandomDomain :: "string list \<Rightarrow> rng \<Rightarrow> string \<times> rng" where
  "PickRandomDomain pool rs =
     (if length pool = 0 then ([], rs) else let (i, rs) = intn (length pool) rs in (pool ! i, rs))"

definition SelectDomain :: "mimicryProfile \<Rightarrow> region \<Rightarrow> string \<Rightarrow> rng \<Rightarrow> string \<times> rng" where
  "SelectDomain profile rgn domain rs =
     (if domain \<noteq> [] then (domain, rs) else PickRandomDomain (DomainPool profile rgn) rs)"

section \<open>Random text\<close>

definition randomHex :: "nat \<Rightarrow> rng \<Rightarrow> string \<times> rng" where
  "randomHex n rs = (let (b, rs) = randomBytes n rs in (hex_encode b, rs))"

definition alnum_chars :: string where
  "alnum_chars = ''abcdefghijklmnopqrstuvwxyz0123456789''"

fun randLowerAlphaNum :: "nat \<Rightarrow> rng \<Rightarrow> string \<times> rng" where
  "randLowerAlphaNum 0 rs = ([], rs)"
| "randLowerAlphaNum (Suc n) rs =
     (let (i, rs) = intn (length alnum_chars) rs; (s, rs) = randLowerAlphaNum n rs
      in (alnum_chars ! i # s, rs))"

definition randomPrivateIP :: "rng \<Rightarrow> string \<times> rng" where
  "randomPrivateIP rs =
     (let (k, rs) = intn 3 rs in
      if k = 0 then
        (let (a, rs) = intn 256 rs; (b, rs) = intn 256 rs; (c, rs) = intn 254 rs
         in (''10.'' @ itoa_nat a @ ''.'' @ itoa_nat b @ ''.'' @ itoa_nat (c + 1), rs))
      else if k = 1 then
        (let (a, rs) = intn 16 rs; (b, rs) = intn 256 rs; (c, rs) = intn 254 rs
         in (''172.'' @ itoa_nat (a + 16) @ ''.'' @ itoa_nat b @ ''.'' @ itoa_nat (c + 1), rs))
      else
        (let (a, rs) = intn 256 rs; (c, rs) = intn 254 rs
         in (''192.168.'' @ itoa_nat a @ ''.'' @ itoa_nat (c + 1), rs)))"

section \<open>TLS\<close>

definition buildHello :: "browserProfile \<Rightarrow> byte list \<Rightarrow> rng \<Rightarrow> (byte list \<times> rng) option" where
  "buildHello browser host rs =
     (if browser = BrowserFirefox then Some (buildFirefoxHello host rs)
      else if browser = BrowserSafari then Some (buildSafariHello host rs)
      else buildChromeHello host rs)"

definition helloDescriptor :: "byte list \<Rightarrow> descriptor" where
  "helloDescriptor rec =
     (let randOff = 5 + 4 + 2 in
      if length rec < randOff + 33 then Lit [] rec
      else let sidLen = unat (rec ! (randOff + 32)); sidOff = randOff + 33 in
      if length rec < sidOff + sidLen then Lit [] rec
      else let d = Lit (Rand (Lit [] (take randOff rec)) 32) (drop (randOff + 32) (take sidOff rec));
               d = (if sidLen > 0 then Rand d (int sidLen) else d)
           in Lit d (drop (sidOff + sidLen) rec))"

definition tlsChangeCipherSpecFinished :: "rng \<Rightarrow> descriptor \<times> rng" where
  "tlsChangeCipherSpecFinished rs =
     (let (k, rs) = intn 17 rs; n = 48 + k;
          h = [0x14, 0x03, 0x03, 0x00, 0x01, 0x01];
          h = h @ [0x17, 0x03, 0x03];
          h = writeLen16 h n
      in (Rand (Lit [] h) (int n), rs))"

definition tlsAppData :: "nat \<Rightarrow> nat \<Rightarrow> rng \<Rightarrow> descriptor \<times> rng" where
  "tlsAppData lo hi rs =
     (let (k, rs) = intn (hi - lo + 1) rs; n = lo + k;
          h = [0x17, 0x03, 0x03];
          h = writeLen16 h n
      in (Rand (Lit [] h) (int n), rs))"

definition tlsSession :: "string \<Rightarrow> browserProfile \<Rightarrow> rng \<Rightarrow> (descriptor list \<times> rng) option" where
  "tlsSession host browser rs =
     (case buildHello browser (bytes_of host) rs of None \<Rightarrow> None | Some (ch, rs) \<Rightarrow>
      (let rec = writeByte [] 0x16;
           rec = rec @ [0x03, 0x01];
           rec = writeLen16 rec (length ch);
           rec = rec @ ch;
           d1 = helloDescriptor rec;
           (d2, rs) = tlsChangeCipherSpecFinished rs;
           (d3, rs) = tlsAppData 96 140 rs;
           (d4, rs) = tlsAppData 28 56 rs;
           (d5, rs) = tlsAppData 24 48 rs
       in Some ([d1, d2, d3, d4, d5], rs)))"

section \<open>QUIC\<close>

definition quicHandshakePacket :: "byte list \<Rightarrow> nat \<Rightarrow> nat \<Rightarrow> descriptor" where
  "quicHandshakePacket dcid pn n =
     (let h = writeByte [] 0xE3;
          h = h @ [0x00, 0x00, 0x00, 0x01];
          h = writeByte h (length dcid);
          h = h @ dcid;
          h = writeByte h 0x00;
          h = writeVarint h (4 + n);
          h = h @ be32 pn
      in Rand (Lit [] h) (int n))"

definition quicShortHeaderPacket :: "byte list \<Rightarrow> nat \<Rightarrow> nat \<Rightarrow> descriptor" where
  "quicShortHeaderPacket dcid pn n =
     (let h = writeByte [] 0x41;
          h = h @ dcid;
          h = h @ be16 pn
      in Rand (Lit [] h) (int n))"

definition quicSession ::
  "crypto \<Rightarrow> string \<Rightarrow> browserProfile \<Rightarrow> rng \<Rightarrow> (descriptor list \<times> rng) option" where
  "quicSession c host browser rs =
     (case buildHello browser (bytes_of host) rs of None \<Rightarrow> None | Some (ch, rs) \<Rightarrow>
      (let (dcid, rs) = randomBytes 8 rs;
           initial = BuildQUICInitial c dcid ch;
           (k2, rs) = intn 45 rs;
           (k3, rs) = intn 17 rs;
           (k4, rs) = intn 17 rs;
           (k5, rs) = intn 17 rs
       in Some ([Lit [] initial, quicHandshakePacket dcid 1 (96 + k2),
            quicShortHeaderPacket dcid 2 (16 + k3), quicShortHeaderPacket dcid 3 (16 + k4),
            quicShortHeaderPacket dcid 4 (16 + k5)], rs)))"

section \<open>DNS\<close>

fun writeLabels :: "byte list \<Rightarrow> string list \<Rightarrow> byte list" where
  "writeLabels b [] = b"
| "writeLabels b (label # ls) =
     (if label = [] then writeLabels b ls
      else writeLabels (writeByte b (length label) @ bytes_of label) ls)"

definition writeQName :: "byte list \<Rightarrow> string \<Rightarrow> byte list" where
  "writeQName b domain = writeByte (writeLabels b (split_on (CHR ''.'') domain)) 0x00"

definition dnsQuery :: "string \<Rightarrow> rng \<Rightarrow> descriptor \<times> rng" where
  "dnsQuery domain rs =
     (let b = writeLen16 [] 0x0100;
          b = writeLen16 b 1;
          b = writeLen16 b 0;
          b = writeLen16 b 0;
          b = writeLen16 b 1;
          b = writeQName b domain;
          (r, rs) = intn 100 rs;
          qtype = (if r \<ge> 90 then 15 else if r \<ge> 60 then 28 else 1);
          b = writeLen16 b qtype;
          b = writeLen16 b 1;
          b = writeByte b 0x00;
          b = writeLen16 b 0x0029;
          (u, rs) = intn 2 rs;
          udpSize = (if u = 0 then 4096 else 1232);
          b = writeLen16 b udpSize;
          b = writeLen16 b 0x8000;
          b = writeLen16 b 0x0000;
          b = writeLen16 b 0
      in (Lit (Rand [] 2) b, rs))"

fun dnsFollowers :: "nat \<Rightarrow> string list \<Rightarrow> rng \<Rightarrow> descriptor list \<times> rng" where
  "dnsFollowers 0 pool rs = ([], rs)"
| "dnsFollowers (Suc k) pool rs =
     (let (i, rs) = intn (length pool) rs; (d, rs) = dnsQuery (pool ! i) rs;
          (ds, rs) = dnsFollowers k pool rs
      in (d # ds, rs))"

definition dnsSession :: "string \<Rightarrow> region \<Rightarrow> rng \<Rightarrow> descriptor list \<times> rng" where
  "dnsSession domain rgn rs =
     (let pool = DomainPool ProfileDNS rgn;
          (d, rs) = dnsQuery domain rs;
          (ds, rs) = dnsFollowers 4 pool rs
      in (d # ds, rs))"

section \<open>SIP\<close>

definition crlf :: string where "crlf = [CHR 0x0D, CHR 0x0A]"

definition quote :: string where "quote = [CHR 0x22]"

definition sip_common ::
  "string \<Rightarrow> string \<Rightarrow> string \<Rightarrow> string \<Rightarrow> string \<Rightarrow> nat \<Rightarrow> string \<Rightarrow> nat \<Rightarrow> string \<Rightarrow> descriptor" where
  "sip_common domain user callID tag privIP port meth seq extra =
     (let head = meth @ '' sip:'' @ domain @ '' SIP/2.0'' @ crlf @ ''Via: SIP/2.0/UDP '' @ privIP @ '':''
            @ itoa_nat port @ '';branch=z9hG4bK'';
          tail = crlf @ ''From: <sip:'' @ user @ ''@'' @ domain @ ''>;tag='' @ tag @ crlf
            @ ''To: <sip:'' @ user @ ''@'' @ domain @ ''>'' @ crlf
            @ ''Call-ID: '' @ callID @ ''@'' @ privIP @ crlf
            @ ''CSeq: '' @ itoa_nat seq @ '' '' @ meth @ crlf @ extra
            @ ''Max-Forwards: 70'' @ crlf @ ''User-Agent: Linphone/5.1.2 (belle-sip/1.6.3)'' @ crlf
            @ ''Content-Length: 0'' @ crlf @ crlf
      in Lit (RandDigits (RandChars (Lit [] (bytes_of head)) 7) 7) (bytes_of tail))"

definition sipKeepalive :: descriptor where
  "sipKeepalive = Lit [] (bytes_of (crlf @ crlf))"

definition sipSession :: "string \<Rightarrow> rng \<Rightarrow> descriptor list \<times> rng" where
  "sipSession domain rs =
     (let (domain, rs) = (if domain = [] then PickRandomDomain sipDomains rs else (domain, rs));
          (n, rs) = intn 5 rs;
          (user, rs) = randLowerAlphaNum (n + 4) rs;
          (callID, rs) = randomHex 8 rs;
          (tag, rs) = randomHex 4 rs;
          (privIP, rs) = randomPrivateIP rs;
          (p, rs) = intn 4 rs;
          port = [5060, 5062, 5080, 5160] ! p;
          (q, rs) = intn 50 rs;
          cseq = q + 1;
          (nonce, rs) = randomHex 16 rs;
          (response, rs) = randomHex 16 rs;
          digest = ''Authorization: Digest username='' @ quote @ user @ quote @ '', realm='' @ quote @ domain
            @ quote @ '', nonce='' @ quote @ nonce @ quote @ '', uri='' @ quote @ ''sip:'' @ domain @ quote
            @ '', response='' @ quote @ response @ quote @ '', algorithm=MD5'' @ crlf;
          contact = ''Contact: <sip:'' @ user @ ''@'' @ privIP @ '':'' @ itoa_nat port @ ''>;expires=3600'' @ crlf
            @ ''Expires: 3600'' @ crlf;
          common = sip_common domain user callID tag privIP port
      in ([common ''REGISTER'' cseq contact, common ''REGISTER'' (cseq + 1) (contact @ digest),
           common ''OPTIONS'' (cseq + 2) [], sipKeepalive, sipKeepalive], rs))"

section \<open>The generator\<close>

record cpsResult =
  I1 :: string
  I2 :: string
  I3 :: string
  I4 :: string
  I5 :: string

definition cps_of_fields :: "string list \<Rightarrow> cpsResult" where
  "cps_of_fields f = \<lparr>I1 = f ! 0, I2 = f ! 1, I3 = f ! 2, I4 = f ! 3, I5 = f ! 4\<rparr>"

definition cps_fields :: "cpsResult \<Rightarrow> string list" where
  "cps_fields r = [I1 r, I2 r, I3 r, I4 r, I5 r]"

definition cpsIBytes :: "cpsResult \<Rightarrow> int" where
  "cpsIBytes r = foldl (\<lambda>n v. if v \<noteq> [] then n + (int (length v) + 8) div 4 * 4 else n) 0
     [I1 r, I2 r, I3 r, I4 r, I5 r]"

datatype cps_error = UnknownProfile string | BadDescriptor desc_error | ErrCPSBudgetExceeded nat int int

fun from_loop :: "bool \<Rightarrow> nat \<Rightarrow> descriptor list \<Rightarrow> string list \<Rightarrow> cps_error + string list" where
  "from_loop onlyI1 i [] out = Inr out"
| "from_loop onlyI1 i (d # ds) out =
     (if onlyI1 \<and> i > 0 then Inr out
      else case desc_Validate d of Some e \<Rightarrow> Inl (BadDescriptor e)
         | None \<Rightarrow> from_loop onlyI1 (Suc i) ds (out[i := descString d]))"

definition fromSession :: "descriptor list \<Rightarrow> bool \<Rightarrow> cps_error + cpsResult" where
  "fromSession ses onlyI1 = (case from_loop onlyI1 0 ses (replicate 5 []) of
       Inl e \<Rightarrow> Inl e | Inr out \<Rightarrow> Inr (cps_of_fields out))"

definition generateCPSOnce ::
  "crypto \<Rightarrow> mimicryProfile \<Rightarrow> region \<Rightarrow> string \<Rightarrow> browserProfile \<Rightarrow> bool \<Rightarrow> rng \<Rightarrow>
     ((cps_error + cpsResult) \<times> rng) option" where
  "generateCPSOnce c profile rgn domain browser onlyI1 rs =
     (let (dom, rs) = SelectDomain profile rgn domain rs in
      if profile = ProfileTLS then
        map_option (\<lambda>(ses, rs). (fromSession ses onlyI1, rs)) (tlsSession dom browser rs)
      else if profile = ProfileSIP then
        (let (ses, rs) = sipSession dom rs in Some (fromSession ses onlyI1, rs))
      else if profile = ProfileQUIC then
        map_option (\<lambda>(ses, rs). (fromSession ses onlyI1, rs)) (quicSession c dom browser rs)
      else if profile = ProfileDNS then
        (let (ses, rs) = dnsSession dom rgn rs in Some (fromSession ses onlyI1, rs))
      else Some (Inl (UnknownProfile profile), rs))"

definition generateAttempts :: nat where
  "generateAttempts = 1024"

fun generate_loop :: "(rng \<Rightarrow> ((cps_error + cpsResult) \<times> rng) option) \<Rightarrow> int \<Rightarrow> nat \<Rightarrow> int \<Rightarrow> rng \<Rightarrow>
     ((cps_error + cpsResult) \<times> rng) option" where
  "generate_loop once maxIBytes 0 smallest rs =
     Some (Inl (ErrCPSBudgetExceeded generateAttempts smallest maxIBytes), rs)"
| "generate_loop once maxIBytes (Suc tries) smallest rs =
     (case once rs of None \<Rightarrow> None
      | Some (Inl e, rs) \<Rightarrow> Some (Inl e, rs)
      | Some (Inr r, rs) \<Rightarrow>
          (let got = cpsIBytes r in
           if got \<le> maxIBytes then Some (Inr r, rs)
           else generate_loop once maxIBytes tries
             (if smallest = 0 \<or> got < smallest then got else smallest) rs))"

definition GenerateCPS ::
  "crypto \<Rightarrow> mimicryProfile \<Rightarrow> region \<Rightarrow> string \<Rightarrow> browserProfile \<Rightarrow> bool \<Rightarrow> int \<Rightarrow> rng \<Rightarrow>
     ((cps_error + cpsResult) \<times> rng) option" where
  "GenerateCPS c profile rgn domain browser onlyI1 maxIBytes rs =
     generate_loop (generateCPSOnce c profile rgn domain browser onlyI1) maxIBytes generateAttempts 0 rs"

section \<open>What the engine sends\<close>

definition is_letter :: "byte \<Rightarrow> bool" where
  "is_letter b \<longleftrightarrow> (65 \<le> unat b \<and> unat b \<le> 90) \<or> (97 \<le> unat b \<and> unat b \<le> 122)"

definition seg_fill :: "segment \<Rightarrow> byte list \<Rightarrow> bool" where
  "seg_fill s w \<longleftrightarrow> int (length w) = seg_wire s \<and> (case seg_kind s of
       segLit \<Rightarrow> w = seg_lit s
     | segRandChars \<Rightarrow> list_all is_letter w
     | segRandDigits \<Rightarrow> list_all (\<lambda>b. 48 \<le> unat b \<and> unat b \<le> 57) w
     | _ \<Rightarrow> True)"

fun fills :: "descriptor \<Rightarrow> byte list \<Rightarrow> bool" where
  "fills [] w = (w = [])"
| "fills (s # ss) w = (seg_fill s (take (nat (seg_wire s)) w) \<and> fills ss (drop (nat (seg_wire s)) w))"

lemma fills_ConsE:
  assumes "fills (s # ss) w"
  obtains a b where "w = a @ b" "seg_fill s a" "fills ss b"
  using assms by (metis append_take_drop_id fills.simps(2))

lemma fills_lit:
  assumes "fills (\<lparr>seg_kind = segLit, seg_lit = b, seg_n = n\<rparr> # ss) w"
  obtains r where "w = b @ r" "fills ss r"
  using assms by (elim fills_ConsE) (simp add: seg_fill_def)

lemma fills_rand:
  assumes "fills (\<lparr>seg_kind = segRand, seg_lit = b, seg_n = int n\<rparr> # ss) w"
  obtains a r where "w = a @ r" "length a = n" "fills ss r"
  using assms by (elim fills_ConsE) (simp add: seg_fill_def seg_wire_def)

lemma fills_Nil [dest!]: "fills [] w \<Longrightarrow> w = []" by simp

lemmas desc_defs = Lit_def Rand_def RandChars_def RandDigits_def Timestamp_def with_seg_def

section \<open>TLS sessions\<close>

text \<open>A TLS record: type, version and fragment; a packet is a whole number of records.\<close>

definition p_record :: "(byte, nat \<times> byte list) parser" where
  "p_record bs = Option.bind (p_u8 bs) (\<lambda>(t, r).
     Option.bind (p_u16 r) (\<lambda>(ver, r). if ver div 256 \<noteq> 3 then None else
     Option.bind (p_vec p_u16 r) (\<lambda>(frag, r). Some ((t, frag), r))))"

definition enc_record :: "nat \<times> byte list \<Rightarrow> byte list" where
  "enc_record x = word_of_nat (fst x) # 3 # 3 # be16 (length (snd x)) @ snd x"

interpretation record_codec: wire_codec enc_record p_record "\<lambda>x. fst x < 256 \<and> length (snd x) < 65536"
proof
  fix x :: "nat \<times> byte list" and rest assume "fst x < 256 \<and> length (snd x) < 65536"
  moreover have "p_u16 (3 # 3 # r) = Some (771, r)" for r by (simp add: p_u16_def)
  ultimately show "p_record (enc_record x @ rest) = Some (x, rest)"
    by (simp add: p_record_def enc_record_def wire_simps)
qed (simp add: enc_record_def)

definition hello_ciphers :: "browserProfile \<Rightarrow> nat list \<Rightarrow> bool" where
  "hello_ciphers browser cs =
     (if browser = BrowserFirefox then cs = firefoxCiphers
      else if browser = BrowserSafari then cs = safariCiphers
      else cs \<noteq> [] \<and> hd cs \<in> set greaseValues \<and> tl cs = chromeCiphers)"

lemma hello_ciphers_fit: "hello_ciphers browser cs \<Longrightarrow> list_all (\<lambda>v. v < 65536) cs \<and> length cs \<le> 26"
  using grease_props [of "hd cs"]
  by (cases cs) (auto simp: hello_ciphers_def firefoxCiphers_def safariCiphers_def chromeCiphers_def
      split: if_splits)

lemma ff_pad_le: "ff_pad n \<le> 512"
  by (simp add: ff_pad_def)

lemma buildHello_eq:
  assumes "buildHello browser host rs = Some (ch, rs')" and "0 < length host" "length host < 64000"
  obtains random sid cs exts where "length random = 32" "length sid = 32" "hello_ciphers browser cs"
    "exts_sound host exts" "length (concat (map enc_ext exts)) \<le> 800 + length host"
    "ch = wrapHandshake (hello_body random sid cs exts)"
proof -
  consider "browser = BrowserFirefox" | "browser \<noteq> BrowserFirefox" "browser = BrowserSafari"
    | "browser \<noteq> BrowserFirefox" "browser \<noteq> BrowserSafari" by blast
  then show ?thesis
  proof cases
    case 1
    obtain random sid key pad where "length random = 32" "length sid = 32" "length key = 32"
      and pad: "pad = ff_pad (10 + (71 + 2 * length firefoxCiphers)
        + length (concat (map enc_ext (butlast (firefox_exts host key pad)))))"
      and eq: "fst (buildFirefoxHello host rs)
        = wrapHandshake (hello_body random sid firefoxCiphers (firefox_exts host key pad))"
      by (rule firefox_hello_eq)
    moreover have "pad \<le> 512" by (subst pad) (rule ff_pad_le)
    moreover have "ch = fst (buildFirefoxHello host rs)"
      using assms(1) 1 by (simp add: buildHello_def)
    ultimately show ?thesis
      using 1 assms firefox_exts_sound [of host key pad]
      by (intro that [of random sid firefoxCiphers "firefox_exts host key pad"])
        (simp_all add: hello_ciphers_def firefox_exts_def length_enc_ext firefoxSigAlgs_def)
  next
    case 2
    obtain random sid key point where "length random = 32" "length sid = 32" "length key = 32"
      "length point = 64" and eq: "fst (buildSafariHello host rs)
        = wrapHandshake (hello_body random sid safariCiphers (safari_exts host key point))"
      by (rule safari_hello_eq)
    moreover have "ch = fst (buildSafariHello host rs)"
      using assms(1) 2 by (simp add: buildHello_def)
    ultimately show ?thesis
      using 2 assms safari_exts_sound [of host key point]
      by (intro that [of random sid safariCiphers "safari_exts host key point"])
        (simp_all add: hello_ciphers_def safari_exts_def length_enc_ext safariSigAlgs_def)
  next
    case 3
    then have "buildChromeHello host rs = Some (ch, rs')" using assms(1) by (simp add: buildHello_def)
    then obtain random sid g0 g1 g2 gg gv gk key pad where "length random = 32" "length sid = 32"
      "length key = 32" "pad < 49" "g1 \<noteq> g2" "{g0, g1, g2, gg, gv, gk} \<subseteq> set greaseValues"
      "ch = wrapHandshake (hello_body random sid (g0 # chromeCiphers)
        (chrome_exts host g1 g2 gg gv gk key pad))"
      by (rule chrome_hello_eq)
    then show ?thesis
      using 3 assms chrome_exts_sound [of host key pad g1 g2 gg gv gk]
      by (intro that [of random sid "g0 # chromeCiphers" "chrome_exts host g1 g2 gg gv gk key pad"])
        (simp_all add: hello_ciphers_def chrome_exts_def length_enc_ext chromeSigAlgs_def)
  qed
qed

definition record_of :: "byte list \<Rightarrow> byte list" where
  "record_of ch = 0x16 # 3 # 1 # be16 (length ch) @ ch"

lemma p_record_of: "length ch < 65536 \<Longrightarrow> p_record (record_of ch @ r) = Some ((0x16, ch), r)"
proof -
  have "p_u16 (3 # 1 # r) = Some (769, r)" for r by (simp add: p_u16_def)
  then show "length ch < 65536 \<Longrightarrow> ?thesis" by (simp add: p_record_def record_of_def wire_simps)
qed

definition hello_rest :: "nat list \<Rightarrow> extension list \<Rightarrow> byte list" where
  "hello_rest cs exts = be16 (2 * length cs) @ concat (map be16 cs) @ word_of_nat 1 # word_of_nat 0
     # be16 (length (concat (map enc_ext exts))) @ concat (map enc_ext exts)"

definition hello_pre :: "nat \<Rightarrow> byte list" where
  "hello_pre n = 0x16 # 3 # 1 # be16 (n + 4) @ 1 # be24 n @ be16 0x0303"

lemma record_of_hello:
  assumes "length random = 32" "length sid = 32"
  shows "record_of (wrapHandshake (hello_body random sid cs exts))
    = hello_pre (67 + length (hello_rest cs exts)) @ random @ [32] @ sid @ hello_rest cs exts"
  by (simp add: record_of_def wrapHandshake_eq hello_body_def hello_rest_def hello_pre_def assms add.commute)

lemma helloDescriptor_eq:
  assumes "length random = 32" "length sid = 32"
  shows "helloDescriptor (hello_pre n @ random @ [32] @ sid @ rest)
    = Lit (Rand (Lit (Rand (Lit [] (hello_pre n)) 32) [32]) 32) rest"
proof -
  let ?r = "hello_pre n @ random @ [32] @ sid @ rest"
  have l: "length (hello_pre n) = 11" by (simp add: hello_pre_def)
  have nth: "?r ! 43 = 32" using assms l by (simp add: nth_append)
  have "take 11 ?r = hello_pre n" "drop 43 (take 44 ?r) = [32]" "drop 76 ?r = rest"
    using assms l by (simp_all add: take_append drop_append)
  with nth show ?thesis using assms l by (simp add: helloDescriptor_def Let_def)
qed

lemma fills_helloDescriptor:
  assumes "length random = 32" "length sid = 32"
    and "fills (helloDescriptor (record_of (wrapHandshake (hello_body random sid cs exts)))) w"
  obtains random' sid' where "length random' = 32" "length sid' = 32"
    "w = record_of (wrapHandshake (hello_body random' sid' cs exts))"
proof -
  let ?n = "67 + length (hello_rest cs exts)"
  from assms(3) have "fills (Lit (Rand (Lit (Rand (Lit [] (hello_pre ?n)) (int 32)) [32]) (int 32))
      (hello_rest cs exts)) w"
    by (simp only: record_of_hello [OF assms(1,2)] helloDescriptor_eq [OF assms(1,2)] of_nat_numeral)
  then obtain random' sid' where *: "length random' = 32" "length sid' = 32"
    "w = hello_pre ?n @ random' @ [32] @ sid' @ hello_rest cs exts"
    unfolding desc_defs append.simps by (elim fills_lit fills_rand) auto
  with record_of_hello [OF *(1,2), of cs exts] show ?thesis by (intro that [OF *(1,2)]) simp
qed

lemma fills_app_record:
  assumes "fills (Rand (Lit [] (pre @ [0x17, 3, 3] @ be16 n)) (int n)) w"
  obtains body where "length body = n" "w = pre @ enc_record (0x17, body)"
  using assms unfolding desc_defs append.simps
  by (elim fills_lit fills_rand) (auto simp: enc_record_def intro: that)

lemma tlsAppData_filled:
  assumes "tlsAppData lo hi rs = (d, rs')" and "fills d w" and "lo \<le> hi" "hi < 16384"
  obtains body where "w = enc_record (0x17, body)" "lo \<le> length body" "length body \<le> hi"
proof -
  obtain k rs1 where k: "intn (hi - lo + 1) rs = (k, rs1)" by fastforce
  then have "k < hi - lo + 1" by (rule intn_lessD) simp
  moreover have d: "d = Rand (Lit [] ([] @ [0x17, 3, 3] @ be16 (lo + k))) (int (lo + k))"
    using assms(1) k by (simp add: tlsAppData_def Let_def writeLen16_def)
  obtain body where "length body = lo + k" "w = [] @ enc_record (0x17, body)"
    using assms(2) unfolding d by (rule fills_app_record)
  ultimately show ?thesis using assms(3) by (intro that [of body]) simp_all
qed

lemma ccs_filled:
  assumes "tlsChangeCipherSpecFinished rs = (d, rs')" and "fills d w"
  obtains body where "w = concat (map enc_record [(0x14, [1]), (0x17, body)])" "length body < 65"
proof -
  obtain k rs1 where k: "intn 17 rs = (k, rs1)" by fastforce
  then have "k < 17" by (rule intn_lessD) simp
  moreover have d: "d = Rand (Lit [] ([0x14, 3, 3, 0, 1, 1] @ [0x17, 3, 3] @ be16 (48 + k))) (int (48 + k))"
    using assms(1) k by (simp add: tlsChangeCipherSpecFinished_def Let_def writeLen16_def)
  obtain body where "length body = 48 + k" "w = [0x14, 3, 3, 0, 1, 1] @ enc_record (0x17, body)"
    using assms(2) unfolding d by (rule fills_app_record)
  ultimately show ?thesis by (intro that [of body]) (simp_all add: enc_record_def be16_def)
qed

definition session_packet :: "nat \<Rightarrow> byte list \<Rightarrow> bool" where
  "session_packet i w \<longleftrightarrow> (\<exists>bodies. many_all p_record w = Some bodies \<and>
     map fst bodies = (if i = 1 then [0x14, 0x17] else [0x17]))"

lemma app_packet: "length body < 16384 \<Longrightarrow> i \<noteq> 1 \<Longrightarrow> session_packet i (enc_record (0x17, body))"
  using record_codec.many_all_enc [of "[(0x17, body)]"] by (simp add: session_packet_def)

lemma ccs_packet: "length body < 65 \<Longrightarrow>
    session_packet 1 (concat (map enc_record [(0x14, [1]), (0x17, body)]))"
  using record_codec.many_all_enc [of "[(0x14, [1]), (0x17, body)]"]
  unfolding session_packet_def by (intro exI [of _ "[(0x14, [1]), (0x17, body)]"]) simp

lemma tlsAppData_packet:
  "tlsAppData lo hi rs = (d, rs') \<Longrightarrow> fills d w \<Longrightarrow> lo \<le> hi \<Longrightarrow> hi < 16384 \<Longrightarrow> i \<noteq> 1 \<Longrightarrow> session_packet i w"
  using app_packet by (elim tlsAppData_filled) auto

lemma tlsChangeCipherSpec_packet:
  "tlsChangeCipherSpecFinished rs = (d, rs') \<Longrightarrow> fills d w \<Longrightarrow> session_packet 1 w"
  using ccs_packet by (elim ccs_filled) blast+

section \<open>QUIC sessions\<close>

text \<open>The Handshake packet after the Initial: long header of type 2, version 1, connection ids, and a
  length that is exactly what follows; the packet number and the payload are not read further.\<close>

definition p_handshake :: "byte list \<Rightarrow> byte list option" where
  "p_handshake pkt =
     Option.bind (take_n 1 pkt) (\<lambda>(b0, r). if b0 ! 0 AND 0xF0 \<noteq> 0xE0 then None else
     Option.bind (p_u32 r) (\<lambda>(ver, r). if ver \<noteq> 1 then None else
     Option.bind (p_vec p_u8 r) (\<lambda>(dcid, r).
     Option.bind (p_vec p_u8 r) (\<lambda>(scid, r).
     Option.bind (p_varint r) (\<lambda>(len, r). if length r = len then Some dcid else None)))))"

lemma handshake_filled:
  assumes "fills (quicHandshakePacket dcid pn n) w" and "length dcid < 256" and "n < 1000"
  shows "p_handshake w = Some dcid"
proof -
  let ?h = "0xE3 # 0 # 0 # 0 # 1 # word_of_nat (length dcid) # dcid @ 0 # appendVarint (4 + n) @ be32 pn"
  have "fills (Rand (Lit [] ?h) (int n)) w"
    using assms(1) by (simp add: quicHandshakePacket_def Let_def writeByte_def writeVarint_eq)
  then obtain body where body: "length body = n" "w = ?h @ body"
    unfolding desc_defs append.simps by (elim fills_lit fills_rand) auto
  have v: "p_u32 (0 # 0 # 0 # 1 # xs) = Some (1, xs)" for xs by (simp add: p_u32_def)
  have z8: "p_vec p_u8 (0 # xs) = Some ([], xs)" for xs by (simp add: p_vec_def p_u8_def take_n_def)
  have d: "p_vec p_u8 (word_of_nat (length dcid) # dcid @ xs) = Some (dcid, xs)" for xs
    using p_vec_u8 [OF assms(2)] by simp
  have t: "take_n 1 (x # xs) = Some ([x], xs)" for x :: byte and xs by (simp add: take_n_def)
  have l: "p_varint (appendVarint (4 + n) @ xs) = Some (4 + n, xs)" for xs
    using assms(3) by (intro p_varint_appendVarint) simp
  show ?thesis
    unfolding body(2) p_handshake_def using body(1) by (simp add: v z8 d t l del: One_nat_def)
qed

lemma short_header_filled:
  assumes "fills (quicShortHeaderPacket dcid pn n) w"
  shows "prefix (0x41 # dcid @ be16 pn) w \<and> length w = 3 + length dcid + n"
proof -
  have "fills (Rand (Lit [] (0x41 # dcid @ be16 pn)) (int n)) w"
    using assms by (simp add: quicShortHeaderPacket_def Let_def writeByte_def)
  then show ?thesis
    unfolding desc_defs append.simps by (elim fills_lit fills_rand) (auto simp: prefix_def)
qed

lemma length_hello:
  assumes "length random = 32" "length sid = 32" "hello_ciphers browser cs"
    "length (concat (map enc_ext exts)) \<le> 800 + n"
  shows "length (wrapHandshake (hello_body random sid cs exts)) \<le> 929 + n"
  using assms hello_ciphers_fit [OF assms(3)] by (simp add: wrapHandshake_eq length_hello_body)

lemma hello_reads:
  assumes "length random = 32" "length sid = 32" "hello_ciphers browser cs" "exts_sound host exts"
    "length host < 65000"
  obtains ch where "parse_hello (wrapHandshake (hello_body random sid cs exts)) = Some ch"
    "hello_for host cs ch"
proof -
  have "\<exists>ch. parse_hello (wrapHandshake (hello_body random sid cs exts)) = Some ch \<and> hello_for host cs ch"
    using assms hello_ciphers_fit [OF assms(3)] by (intro parse_hello_sound) simp_all
  then show ?thesis using that by blast
qed

section \<open>DNS sessions\<close>

fun p_labels :: "nat \<Rightarrow> (byte, byte list list) parser" where
  "p_labels 0 bs = None"
| "p_labels (Suc fuel) bs = (case bs of [] \<Rightarrow> None | b # r \<Rightarrow>
     if b = 0 then Some ([], r)
     else if unat b \<ge> 64 then None
     else Option.bind (take_n (unat b) r) (\<lambda>(l, r).
       map_option (\<lambda>(ls, r). (l # ls, r)) (p_labels fuel r)))"

record dns_question =
  dq_labels :: "byte list list"
  dq_type :: nat
  dq_udp :: nat

text \<open>RFC 1035 and RFC 6891: a recursive query with one question in class IN and one OPT record that
  sets the DO bit, and nothing after it.\<close>

definition parse_dns :: "byte list \<Rightarrow> dns_question option" where
  "parse_dns w =
     Option.bind (p_u16 w) (\<lambda>(txid, r).
     Option.bind (p_u16 r) (\<lambda>(flags, r). if flags \<noteq> 0x0100 then None else
     Option.bind (p_u16 r) (\<lambda>(qd, r). Option.bind (p_u16 r) (\<lambda>(an, r).
     Option.bind (p_u16 r) (\<lambda>(ns, r). Option.bind (p_u16 r) (\<lambda>(ar, r).
     if (qd, an, ns, ar) \<noteq> (1, 0, 0, 1) then None else
     Option.bind (p_labels (length r) r) (\<lambda>(ls, r).
     Option.bind (p_u16 r) (\<lambda>(ty, r). Option.bind (p_u16 r) (\<lambda>(cl, r). if cl \<noteq> 1 then None else
     Option.bind (p_u8 r) (\<lambda>(root, r). Option.bind (p_u16 r) (\<lambda>(opt, r).
     if root \<noteq> 0 \<or> opt \<noteq> 41 then None else
     Option.bind (p_u16 r) (\<lambda>(udp, r). Option.bind (p_u32 r) (\<lambda>(ttl, r).
     Option.bind (p_u16 r) (\<lambda>(rdlen, r).
     if ttl \<noteq> 0x80000000 \<or> rdlen \<noteq> 0 \<or> r \<noteq> [] then None
     else Some \<lparr>dq_labels = ls, dq_type = ty, dq_udp = udp\<rparr>))))))))))))))"

definition domain_labels :: "string \<Rightarrow> string list" where
  "domain_labels domain = filter (\<lambda>l. l \<noteq> []) (split_on (CHR ''.'') domain)"

definition enc_labels :: "string list \<Rightarrow> byte list" where
  "enc_labels ls = concat (map (\<lambda>l. word_of_nat (length l) # bytes_of l) ls)"

lemma writeLabels_eq: "writeLabels b ls = b @ enc_labels (filter (\<lambda>l. l \<noteq> []) ls)"
  by (induction ls arbitrary: b) (simp_all add: enc_labels_def writeByte_def)

lemma writeQName_eq: "writeQName b domain = b @ enc_labels (domain_labels domain) @ [0]"
  by (simp add: writeQName_def writeLabels_eq domain_labels_def writeByte_def)

lemma p_labels_enc:
  assumes "list_all (\<lambda>l. 0 < length l \<and> length l < 64) ls" and "length ls < fuel"
  shows "p_labels fuel (enc_labels ls @ 0 # r) = Some (map bytes_of ls, r)"
  using assms
proof (induction ls arbitrary: fuel)
  case Nil
  then show ?case by (cases fuel) (simp_all add: enc_labels_def)
next
  case (Cons l ls)
  then obtain f where f: "fuel = Suc f" "length ls < f" by (cases fuel) auto
  have "word_of_nat (length l) \<noteq> (0 :: byte)" using Cons.prems by (simp add: byte_eq_unat)
  moreover have "length l mod 256 = length l" using Cons.prems by simp
  ultimately show ?case
    using Cons f by (simp add: enc_labels_def take_n_append)
qed

lemma length_enc_labels: "length ls \<le> length (enc_labels ls)"
  unfolding enc_labels_def by (rule concat_map_length_ge) simp

lemma dnsQuery_filled:
  assumes "fills (fst (dnsQuery domain rs)) w" and "list_all (\<lambda>l. length l < 64) (domain_labels domain)"
  shows "\<exists>q. parse_dns w = Some q \<and> dq_labels q = map bytes_of (domain_labels domain) \<and>
    dq_type q \<in> {1, 15, 28} \<and> dq_udp q \<in> {1232, 4096}"
proof -
  obtain r1 rs1 where r1: "intn 100 rs = (r1, rs1)" by fastforce
  obtain u rs2 where u: "intn 2 rs1 = (u, rs2)" by fastforce
  define ty :: nat where "ty = (if r1 \<ge> 90 then 15 else if r1 \<ge> 60 then 28 else 1)"
  define udp :: nat where "udp = (if u = 0 then 4096 else 1232)"
  define q where "q = enc_labels (domain_labels domain)"
  define opt where "opt = be16 ty @ be16 1 @ 0 # be16 0x29 @ be16 udp @ be16 0x8000 @ be16 0 @ be16 0"
  let ?b = "be16 0x0100 @ be16 1 @ be16 0 @ be16 0 @ be16 1 @ q @ 0 # opt"
  have "fst (dnsQuery domain rs) = Lit (Rand [] (int 2)) ?b"
    by (simp add: dnsQuery_def r1 u Let_def writeLen16_def writeByte_def writeQName_eq ty_def udp_def
        q_def opt_def)
  with assms(1) have "fills (Lit (Rand [] (int 2)) ?b) w" by simp
  then obtain txid where w: "length txid = 2" "w = txid @ ?b"
    unfolding desc_defs append.simps by (elim fills_lit fills_rand) auto
  then obtain a b where ab: "w = a # b # ?b" by (auto simp: numeral_2_eq_2 length_Suc_conv)
  have "list_all (\<lambda>l. 0 < length l \<and> length l < 64) (domain_labels domain)"
    using assms(2) by (auto simp: domain_labels_def list_all_iff)
  then have ls: "p_labels (Suc (length q + length opt)) (q @ 0 # opt)
      = Some (map bytes_of (domain_labels domain), opt)"
    unfolding q_def using length_enc_labels [of "domain_labels domain"] by (intro p_labels_enc) simp_all
  have ttl: "p_u32 (be16 0x8000 @ be16 0 @ r) = Some (0x80000000, r)" for r
    by (simp add: p_u32_def be16_def)
  have ty: "ty < 65536" "udp < 65536" by (simp_all add: ty_def udp_def)
  have "p_u16 (a # b # r) = Some (unat a * 256 + unat b, r)" for r by (simp add: p_u16_def)
  moreover have "p_u16 (be16 0) = Some (0, [])" using p_u16_be16 [of 0 "[]"] by simp
  ultimately have "parse_dns w = Some \<lparr>dq_labels = map bytes_of (domain_labels domain), dq_type = ty, dq_udp = udp\<rparr>"
    unfolding ab parse_dns_def using ls ty by (simp add: wire_simps) (simp add: opt_def wire_simps ttl)
  then show ?thesis by (auto simp: ty_def udp_def)
qed

section \<open>The generated set\<close>

definition built :: "descriptor \<Rightarrow> bool" where
  "built d \<longleftrightarrow> d \<noteq> [] \<and> list_all seg_shape d"

lemma built_intros [intro!]:
  assumes "d = [] \<or> built d"
  shows "built (Lit d b)" "built (Rand d n)" "built (RandChars d n)" "built (RandDigits d n)"
  using assms shape_builders [of d]
  by (auto simp: built_def) (auto simp: desc_defs)

lemma built_hello: "built (helloDescriptor rec)"
  by (simp add: helloDescriptor_def Let_def built_intros)

lemma tlsSession_built: "tlsSession host browser rs = Some (ds, rs') \<Longrightarrow> length ds = 5 \<and> list_all built ds"
  by (auto simp: tlsSession_def tlsChangeCipherSpecFinished_def tlsAppData_def Let_def built_hello
      split: option.splits prod.splits)

lemma quicSession_built: "quicSession c host browser rs = Some (ds, rs') \<Longrightarrow> length ds = 5 \<and> list_all built ds"
  by (auto simp: quicSession_def quicHandshakePacket_def quicShortHeaderPacket_def Let_def
      split: option.splits prod.splits)

lemma dnsQuery_built: "built (fst (dnsQuery domain rs))"
  by (auto simp: dnsQuery_def Let_def split: prod.splits)

lemma dnsFollowers_built:
  "length (fst (dnsFollowers k pool rs)) = k \<and> list_all built (fst (dnsFollowers k pool rs))"
proof (induction k arbitrary: rs)
  case (Suc k)
  obtain i rs1 where i: "intn (length pool) rs = (i, rs1)" by fastforce
  obtain d rs2 where d: "dnsQuery (pool ! i) rs1 = (d, rs2)" by fastforce
  obtain ds rs3 where ds: "dnsFollowers k pool rs2 = (ds, rs3)" by fastforce
  show ?case using Suc [of rs2] dnsQuery_built [of "pool ! i" rs1] by (simp add: i d ds)
qed simp

lemma dnsSession_built: "dnsSession domain rgn rs = (ds, rs') \<Longrightarrow> length ds = 5 \<and> list_all built ds"
  using dnsQuery_built [of domain rs]
    dnsFollowers_built [of 4 "DomainPool ProfileDNS rgn" "snd (dnsQuery domain rs)"]
  by (auto simp: dnsSession_def Let_def split: prod.splits)

lemma sipSession_built: "sipSession domain rs = (ds, rs') \<Longrightarrow> length ds = 5 \<and> list_all built ds"
  by (auto simp: sipSession_def sip_common_def sipKeepalive_def Let_def split: prod.splits)

text \<open>The fields \<open>fromSession\<close> writes are the printed descriptors, the first only or all five.\<close>

lemma from_loop_fields:
  assumes "from_loop onlyI1 (length pre) ds (map descString pre @ replicate (length ds) []) = Inr out"
    and "onlyI1 \<longrightarrow> pre \<noteq> []" and "list_all built ds"
  shows "out = map descString pre @ (if onlyI1 then replicate (length ds) [] else map descString ds) \<and>
    (\<not> onlyI1 \<longrightarrow> list_all (\<lambda>d. desc_Validate d = None) ds)"
  using assms
proof (induction ds arbitrary: pre)
  case Nil
  then show ?case by simp
next
  case (Cons d ds)
  show ?case
  proof (cases onlyI1)
    case True
    with Cons.prems show ?thesis by simp
  next
    case False
    with Cons.prems have v: "desc_Validate d = None"
      by (auto split: option.splits)
    have up: "(map descString pre @ replicate (Suc (length ds)) [])[length pre := descString d]
        = map descString (pre @ [d]) @ replicate (length ds) []"
      by (simp add: list_update_append)
    have "from_loop onlyI1 (length (pre @ [d])) ds (map descString (pre @ [d]) @ replicate (length ds) []) = Inr out"
      using Cons.prems(1) False v up by simp
    from Cons.IH [OF this] Cons.prems False v show ?thesis by simp
  qed
qed

lemma fromSession_fields:
  assumes "fromSession ds onlyI1 = Inr r" and "length ds = 5" and "list_all built ds"
  defines "used \<equiv> (if onlyI1 then take 1 ds else ds)"
  shows "cps_fields r = map descString used @ replicate (5 - length used) [] \<and>
    list_all (\<lambda>d. desc_Validate d = None) used"
proof -
  obtain d ds' where ds: "ds = d # ds'" "length ds' = 4" using assms(2) by (cases ds) auto
  obtain out where out: "from_loop onlyI1 0 ds (replicate 5 []) = Inr out" "r = cps_of_fields out"
    using assms(1) by (auto simp: fromSession_def split: sum.splits)
  from out(1) ds have v: "desc_Validate d = None" by (auto split: option.splits)
  have up: "(replicate 5 [])[0 := descString d] = map descString [d] @ replicate (length ds') []"
    using ds by (simp add: numeral_eq_Suc)
  have "from_loop onlyI1 (length [d]) ds' (map descString [d] @ replicate (length ds') []) = Inr out"
    using out(1) ds v up by simp
  then have *: "out = map descString [d] @ (if onlyI1 then replicate (length ds') [] else map descString ds') \<and>
    (\<not> onlyI1 \<longrightarrow> list_all (\<lambda>d. desc_Validate d = None) ds')"
    by (rule from_loop_fields) (use assms(3) ds in auto)
  then have "length out = 5" using ds by simp
  then have "cps_fields (cps_of_fields out) = out"
    by (auto simp: cps_fields_def cps_of_fields_def numeral_eq_Suc length_Suc_conv)
  with * v ds out(2) show ?thesis by (simp add: used_def)
qed

lemma generateCPSOnce_built:
  assumes "generateCPSOnce c profile rgn domain browser onlyI1 rs = Some (Inr r, rs')"
  obtains ds where "length ds = 5" "list_all built ds" "fromSession ds onlyI1 = Inr r"
proof -
  obtain dom rs1 where d: "SelectDomain profile rgn domain rs = (dom, rs1)" by fastforce
  consider "profile = ProfileTLS" | "profile = ProfileSIP" | "profile = ProfileQUIC" | "profile = ProfileDNS"
    using assms d by (auto simp: generateCPSOnce_def split: if_splits)
  then show ?thesis
  proof cases
    case 1
    with assms d show ?thesis by (auto simp: generateCPSOnce_def dest!: tlsSession_built intro: that)
  next
    case 2
    with assms d show ?thesis
      by (auto simp: generateCPSOnce_def profile_defs split: prod.splits dest!: sipSession_built intro: that)
  next
    case 3
    with assms d show ?thesis
      by (auto simp: generateCPSOnce_def profile_defs dest!: quicSession_built intro: that)
  next
    case 4
    with assms d show ?thesis
      by (auto simp: generateCPSOnce_def profile_defs split: prod.splits dest!: dnsSession_built intro: that)
  qed
qed

lemma generate_loop_Inr:
  "generate_loop once m tries smallest rs = Some (Inr r, rs') \<Longrightarrow>
     cpsIBytes r \<le> m \<and> (\<exists>rs1. once rs1 = Some (Inr r, rs'))"
proof (induction tries arbitrary: smallest rs)
  case (Suc tries)
  obtain x rs1 where x: "once rs = Some (x, rs1)"
    using Suc.prems by (cases "once rs") auto
  show ?case
  proof (cases x)
    case (Inl e)
    with Suc.prems x show ?thesis by simp
  next
    case (Inr r1)
    show ?thesis
    proof (cases "cpsIBytes r1 \<le> m")
      case True
      with Suc.prems x Inr show ?thesis by (auto simp: Let_def)
    next
      case False
      with Suc.prems x Inr show ?thesis by (intro Suc.IH) (simp add: Let_def)
    qed
  qed
qed simp

lemma descString_nonempty: "d \<noteq> [] \<Longrightarrow> descString d \<noteq> []"
  using seg_string_hd [of "hd d"] by (cases d) (auto simp: descString_def)

lemma cpsIBytes_IBytes:
  assumes "list_all (\<lambda>v. trim_space v = v) (cps_fields r)"
  shows "cpsIBytes r = IBytes (I1 r) (I2 r) (I3 r) (I4 r) (I5 r)"
  using assms by (simp add: cpsIBytes_def IBytes_def cps_fields_def nlaBytes_def Let_def)

text \<open>The template of a hello for a host of at most 200 bytes is valid and cheap.\<close>

lemma hello_template:
  assumes "length random = 32" "length sid = 32" "length (hello_rest cs exts) \<le> 1058"
    "hello_rest cs exts \<noteq> []"
  defines "d \<equiv> helloDescriptor (record_of (wrapHandshake (hello_body random sid cs exts)))"
  shows "desc_Validate d = None" and "length (descString d) \<le> 2170"
proof -
  let ?p = "hello_pre (67 + length (hello_rest cs exts))"
  have d: "d = Lit (Rand (Lit (Rand (Lit [] ?p) 32) [32]) 32) (hello_rest cs exts)"
    unfolding d_def record_of_hello [OF assms(1,2)] helloDescriptor_eq [OF assms(1,2)] ..
  have p: "length ?p = 11" "?p \<noteq> []" by (simp_all add: hello_pre_def)
  have i: "itoa 32 = ''32''" by code_simp
  have "list_all seg_shape d" unfolding d by (intro shape_builders) simp
  moreover have "list_all seg_ok d"
    using assms(4) p unfolding d by (simp add: desc_defs seg_ok_def seg_shape_def)
  moreover have "WireLen d \<le> MaxIPacketBytes"
    using assms(3) p unfolding d by (simp add: desc_defs WireLen_def seg_wire_def MaxIPacketBytes_def)
  ultimately show "desc_Validate d = None" by (simp add: desc_Validate_iff)
  show "length (descString d) \<le> 2170"
    using assms(3) p i unfolding d by (simp add: desc_defs descString_def seg_string_def)
qed

lemma tls_i1_fields:
  assumes "tlsSession host browser rs = Some (ds, rs')" and "0 < length host" and "length host \<le> 200"
  shows "\<exists>r. fromSession ds True = Inr r \<and> cpsIBytes r \<le> 2178"
proof -
  obtain ch rs1 where ch: "buildHello browser (bytes_of host) rs = Some (ch, rs1)"
    using assms(1) by (auto simp: tlsSession_def split: option.splits)
  obtain random sid cs exts where hello: "length random = 32" "length sid = 32" "hello_ciphers browser cs"
    "exts_sound (bytes_of host) exts" "length (concat (map enc_ext exts)) \<le> 800 + length (bytes_of host)"
    "ch = wrapHandshake (hello_body random sid cs exts)"
    using ch assms(2,3) by (elim buildHello_eq) simp_all
  define d where "d = helloDescriptor (record_of ch)"
  obtain ds' where ds: "ds = d # ds'" "length ds' = 4"
    using assms(1) unfolding d_def
    by (simp add: tlsSession_def ch Let_def case_prod_unfold writeByte_def writeLen16_def record_of_def) auto
  have "length (hello_rest cs exts) \<le> 1058" "hello_rest cs exts \<noteq> []"
    using hello(5) hello_ciphers_fit [OF hello(3)] assms(3) by (simp_all add: hello_rest_def)
  note t = hello_template [OF hello(1,2) this, folded hello(6) d_def]
  have "fromSession ds True = Inr (cps_of_fields [descString d, [], [], [], []])"
    using t(1) ds by (cases ds') (simp_all add: fromSession_def numeral_eq_Suc)
  moreover have "cpsIBytes (cps_of_fields [descString d, [], [], [], []]) \<le> 2178"
    using t(2) nlaBytes_bounds [of "descString d"]
    by (simp add: cpsIBytes_def cps_of_fields_def nlaBytes_def)
  ultimately show ?thesis by blast
qed

lemma GenerateCPS_tls_i1_eq:
  assumes "tlsSession host browser rs = Some (ds, rs')" and "0 < length host" and "length host \<le> 200"
    and "2178 \<le> maxIBytes"
  shows "\<exists>r. GenerateCPS c ProfileTLS rgn host browser True maxIBytes rs = Some (Inr r, rs')"
proof -
  obtain r where r: "fromSession ds True = Inr r" "cpsIBytes r \<le> 2178" using tls_i1_fields [OF assms(1-3)] by blast
  have "generateCPSOnce c ProfileTLS rgn host browser True rs = Some (Inr r, rs')"
    using assms(1,2) r(1) by (simp add: generateCPSOnce_def SelectDomain_def)
  then show ?thesis
    using r(2) assms(4) by (simp add: GenerateCPS_def generateAttempts_def numeral_eq_Suc)
qed

section \<open>Properties\<close>


text \<open>C19: a QUIC session is one connection.  Its first packet is a 1200-byte Initial that opens, under
  the keys its own connection id yields, to a ClientHello for the requested host; the second is a
  Handshake packet with an exact length field, and the other three are short-header packets with
  advancing packet numbers, all with that same 8-byte connection id.\<close>

theorem quic_session_wellformed:
  assumes "crypto_laws c" and "quicSession c host browser rs = Some (ds, rs')"
    and "0 < length host" and "length host \<le> 200"
  shows "\<exists>dcid. length dcid = 8 \<and>
    (\<forall>i w. i < 5 \<longrightarrow> fills (ds ! i) w \<longrightarrow>
       (if i = 0 then length w = 1200 \<and> (\<exists>hello ch cs. open_initial c w = Some (dcid, hello) \<and>
              parse_hello hello = Some ch \<and> hello_ciphers browser cs \<and> hello_for (bytes_of host) cs ch)
        else if i = 1 then p_handshake w = Some dcid
        else prefix (0x41 # dcid @ be16 i) w))"
proof -
  obtain ch rs1 where ch: "buildHello browser (bytes_of host) rs = Some (ch, rs1)"
    using assms(2) by (auto simp: quicSession_def split: option.splits)
  obtain dcid rs2 where dcid: "randomBytes 8 rs1 = (dcid, rs2)" by fastforce
  obtain k2 rs3 where k2: "intn 45 rs2 = (k2, rs3)" by fastforce
  obtain k3 rs4 where k3: "intn 17 rs3 = (k3, rs4)" by fastforce
  obtain k4 rs5 where k4: "intn 17 rs4 = (k4, rs5)" by fastforce
  obtain k5 rs6 where k5: "intn 17 rs5 = (k5, rs6)" by fastforce
  have ds: "ds = [Lit [] (BuildQUICInitial c dcid ch), quicHandshakePacket dcid 1 (96 + k2),
      quicShortHeaderPacket dcid 2 (16 + k3), quicShortHeaderPacket dcid 3 (16 + k4),
      quicShortHeaderPacket dcid 4 (16 + k5)]"
    using assms(2) by (simp add: quicSession_def ch dcid k2 k3 k4 k5)
  obtain random sid cs exts where hello: "length random = 32" "length sid = 32" "hello_ciphers browser cs"
    "exts_sound (bytes_of host) exts" "length (concat (map enc_ext exts)) \<le> 800 + length (bytes_of host)"
    "ch = wrapHandshake (hello_body random sid cs exts)"
    using ch assms(3,4) by (elim buildHello_eq) simp_all
  have len: "length ch \<le> 1129" using length_hello [OF hello(1,2,3,5)] hello(6) assms(4) by simp
  have d8: "length dcid = 8" by (rule randomBytes_length [OF dcid])
  have "length (appendVarint (length ch)) \<le> 2" using len by (simp add: appendVarint_def)
  then have l1200: "length (BuildQUICInitial c dcid ch) = 1200"
    using length_BuildQUICInitial [OF assms(1), of dcid ch] d8 len by (simp add: length_initial_payload)
  have op: "open_initial c (BuildQUICInitial c dcid ch) = Some (dcid, ch)"
    using d8 len by (intro open_initial_eq [OF assms(1)]) simp_all
  obtain ch' where ch': "parse_hello ch = Some ch'" "hello_for (bytes_of host) cs ch'"
    using hello_reads [OF hello(1-4)] hello(6) assms(4) by auto
  have k: "96 + k2 < 1000" using intn_lessD [OF k2] by simp
  show ?thesis
  proof (intro exI [of _ dcid] conjI allI impI)
    fix i w assume i: "i < 5" and w: "fills (ds ! i) w"
    consider "i = 0" | "i = 1" | "i = 2" | "i = 3" | "i = 4" using i by linarith
    then show "if i = 0 then length w = 1200 \<and> (\<exists>hello ch cs. open_initial c w = Some (dcid, hello) \<and>
              parse_hello hello = Some ch \<and> hello_ciphers browser cs \<and> hello_for (bytes_of host) cs ch)
        else if i = 1 then p_handshake w = Some dcid
        else prefix (0x41 # dcid @ be16 i) w"
    proof cases
      case 1
      with w have "w = BuildQUICInitial c dcid ch"
        unfolding ds desc_defs by (auto simp: seg_fill_def seg_wire_def)
      then show ?thesis using 1 l1200 op ch' hello(3) by auto
    next
      case 2
      then show ?thesis using w d8 k by (auto simp: ds intro: handshake_filled)
    qed (use w in \<open>auto simp: ds dest!: short_header_filled\<close>)
  qed (rule d8)
qed

text \<open>The filling with zeros, for concrete instances.\<close>

definition zero_fill :: "descriptor \<Rightarrow> byte list" where
  "zero_fill d = concat (map (\<lambda>s. if seg_kind s = segLit then seg_lit s else replicate (nat (seg_wire s)) 0) d)"

definition plain :: "descriptor \<Rightarrow> bool" where
  "plain d \<longleftrightarrow> list_all (\<lambda>s. (seg_kind s = segLit \<or> seg_kind s = segRand) \<and> 0 \<le> seg_wire s) d"

lemma plain_intros: "plain []" "plain d \<Longrightarrow> plain (Lit d b)" "plain d \<Longrightarrow> 0 \<le> n \<Longrightarrow> plain (Rand d n)"
  by (simp_all add: plain_def desc_defs seg_wire_def)

lemma fills_zero_fill: "plain d \<Longrightarrow> fills d (zero_fill d)"
proof (induction d)
  case (Cons s d)
  have "length (if seg_kind s = segLit then seg_lit s else replicate (nat (seg_wire s)) 0) = nat (seg_wire s)"
    by (simp add: seg_wire_def)
  with Cons show ?case by (auto simp: plain_def zero_fill_def seg_fill_def seg_wire_def split: segKind.splits)
qed (simp add: zero_fill_def)

lemma helloDescriptor_zero_fill: "fills (helloDescriptor rec) (zero_fill (helloDescriptor rec))"
  by (rule fills_zero_fill) (simp add: helloDescriptor_def Let_def plain_intros)

lemma tlsSession_safari: "\<exists>ds rs'. tlsSession host ''safari'' rs = Some (ds, rs') \<and>
    fills (ds ! 0) (zero_fill (ds ! 0))"
  by (simp add: tlsSession_def buildHello_def browser_defs case_prod_unfold Let_def helloDescriptor_zero_fill)


theorem quic_session_wellformed_witness:
  "\<exists>ds rs' dcid hello. quicSession toy_crypto ''vk.com'' ''firefox'' [] = Some (ds, rs') \<and>
     open_initial toy_crypto (zero_fill (ds ! 0)) = Some (dcid, hello) \<and> parse_hello hello \<noteq> None"
proof -
  obtain ds rs' where ds: "quicSession toy_crypto ''vk.com'' ''firefox'' [] = Some (ds, rs')"
    "fills (ds ! 0) (zero_fill (ds ! 0))"
    by (simp add: quicSession_def buildHello_def browser_defs case_prod_unfold Let_def
        fills_zero_fill plain_intros del: fills.simps)
  from quic_session_wellformed [OF toy_crypto_laws ds(1)] obtain dcid where
    "\<forall>i w. i < 5 \<longrightarrow> fills (ds ! i) w \<longrightarrow>
       (if i = 0 then length w = 1200 \<and> (\<exists>hello ch cs. open_initial toy_crypto w = Some (dcid, hello) \<and>
              parse_hello hello = Some ch \<and> hello_ciphers ''firefox'' cs \<and> hello_for (bytes_of ''vk.com'') cs ch)
        else if i = 1 then p_handshake w = Some dcid
        else prefix (0x41 # dcid @ be16 i) w)" by auto
  from this [rule_format, of 0, OF _ ds(2)] ds(1) show ?thesis by auto
qed

text \<open>every DNS packet, whatever the transaction id, is a recursive query for exactly the labels of
  the requested domain, of type A, AAAA or MX, with one EDNS0 record and nothing left over.\<close>

theorem dns_query_wellformed:
  assumes "fills (fst (dnsQuery domain rs)) w" and "list_all (\<lambda>l. length l < 64) (domain_labels domain)"
  shows "\<exists>q. parse_dns w = Some q \<and> dq_labels q = map bytes_of (domain_labels domain) \<and>
    dq_type q \<in> {1, 15, 28} \<and> dq_udp q \<in> {1232, 4096}"
  using assms by (rule dnsQuery_filled)

theorem dns_query_wellformed_witness:
  "\<exists>q. parse_dns (zero_fill (fst (dnsQuery ''vk.com'' [95, 1]))) = Some q \<and>
    dq_labels q = map bytes_of [''vk'', ''com''] \<and> dq_type q \<in> {1, 15, 28} \<and> dq_udp q \<in> {1232, 4096}"
proof -
  have l: "domain_labels ''vk.com'' = [''vk'', ''com'']" by code_simp
  have f: "fills (fst (dnsQuery ''vk.com'' [95, 1])) (zero_fill (fst (dnsQuery ''vk.com'' [95, 1])))"
    by (rule fills_zero_fill) (simp add: dnsQuery_def Let_def plain_intros)
  show ?thesis using dns_query_wellformed [OF f] unfolding l by simp
qed

text \<open>C22: when the generator returns a set, the set fits the budget it was given, its first field is
  present, the others too unless only I1 was asked for, and every present field is in the portable form
  both engines accept.  With the worst-case budget of the configuration, the panel's own check of the
  I-fields accepts the set.\<close>

theorem GenerateCPS_sound:
  assumes "GenerateCPS c profile rgn domain browser onlyI1 (WorstCaseIBytesBudget (trim_space hpk \<noteq> [])) rs
    = Some (Inr r, rs')"
  shows "cpsIBytes r \<le> WorstCaseIBytesBudget (trim_space hpk \<noteq> []) \<and>
    list_all (\<lambda>v. v = [] \<or> PortableIField v) (cps_fields r) \<and> I1 r \<noteq> [] \<and>
    (if onlyI1 then tl (cps_fields r) = replicate 4 [] else [] \<notin> set (cps_fields r)) \<and>
    ValidateIFields ifname hpk (I1 r) (I2 r) (I3 r) (I4 r) (I5 r) = None"
proof -
  let ?m = "WorstCaseIBytesBudget (trim_space hpk \<noteq> [])"
  from generate_loop_Inr [OF assms [unfolded GenerateCPS_def]] obtain rs1 where
    b: "cpsIBytes r \<le> ?m" and once: "generateCPSOnce c profile rgn domain browser onlyI1 rs1 = Some (Inr r, rs')"
    by blast
  from once obtain ds where ds: "length ds = 5" "list_all built ds" "fromSession ds onlyI1 = Inr r"
    by (rule generateCPSOnce_built)
  define used where "used = (if onlyI1 then take 1 ds else ds)"
  have f: "cps_fields r = map descString used @ replicate (5 - length used) []"
    and v: "list_all (\<lambda>d. desc_Validate d = None) used"
    using fromSession_fields [OF ds(3,1,2)] by (simp_all add: used_def)
  have used: "list_all built used" using ds(2) by (auto simp: used_def list_all_iff dest: in_set_takeD)
  then have ok: "list_all (\<lambda>d. list_all seg_ok d \<and> d \<noteq> []) used"
    using v desc_Validate_iff by (auto simp: list_all_iff built_def)
  then have port: "list_all (\<lambda>v. v = [] \<or> PortableIField v) (cps_fields r)"
    unfolding f using portable_descString by (auto simp: list_all_iff)
  have trim: "list_all (\<lambda>v. trim_space v = v) (cps_fields r)"
    unfolding f by (auto simp: list_all_iff trim_descString)
  have ne: "[] \<notin> set (map descString used)" using ok descString_nonempty by (auto simp: list_all_iff) metis
  obtain d ds' where d: "ds = d # ds'" using ds(1) by (cases ds) auto
  then have hd: "I1 r = hd (cps_fields r)" "hd (cps_fields r) = descString d" "d \<in> set used"
    using f by (auto simp: cps_fields_def used_def split: if_splits)
  then have i1: "I1 r \<noteq> []" using ne by (metis imageI set_map)
  have shape: "if onlyI1 then tl (cps_fields r) = replicate 4 [] else [] \<notin> set (cps_fields r)"
    using f ne ds(1) d by (auto simp: used_def)
  have "ValidateIFields ifname hpk (I1 r) (I2 r) (I3 r) (I4 r) (I5 r) = None"
    using b unfolding ValidateIFields_def cpsIBytes_IBytes [OF trim, symmetric] by (simp add: Let_def)
  with b port i1 shape show ?thesis by blast
qed

theorem GenerateCPS_sound_witness:
  "\<exists>r rs'. GenerateCPS toy_crypto ''tls'' ''world'' ''vk.com'' ''safari'' True
      (WorstCaseIBytesBudget (trim_space [] \<noteq> [])) [] = Some (Inr r, rs') \<and> I1 r \<noteq> [] \<and>
     ValidateIFields ''awg0'' [] (I1 r) (I2 r) (I3 r) (I4 r) (I5 r) = None"
proof -
  obtain ds rs' where ds: "tlsSession ''vk.com'' ''safari'' [] = Some (ds, rs')" using tlsSession_safari by blast
  have "2178 \<le> WorstCaseIBytesBudget (trim_space [] \<noteq> [])" by code_simp
  from GenerateCPS_tls_i1_eq [OF ds _ _ this] obtain r where
    r: "GenerateCPS toy_crypto ''tls'' ''world'' ''vk.com'' ''safari'' True
      (WorstCaseIBytesBudget (trim_space [] \<noteq> [])) [] = Some (Inr r, rs')"
    unfolding ProfileTLS_def by auto
  from GenerateCPS_sound [OF this] r show ?thesis by blast
qed

text \<open>asked for the first packet only, the TLS generator never refuses a host name of up to 200
  bytes: the first draw already fits every budget of at least 2178 bytes, which the worst-case netlink
  budget is, with and without a header-protection key.\<close>

theorem GenerateCPS_tls_i1_succeeds:
  assumes "tlsSession host browser rs = Some (ds, rs')" and "0 < length host" and "length host \<le> 200"
  shows "\<exists>r. GenerateCPS c ProfileTLS rgn host browser True (WorstCaseIBytesBudget hpk) rs = Some (Inr r, rs')"
proof (rule GenerateCPS_tls_i1_eq [OF assms])
  show "2178 \<le> WorstCaseIBytesBudget hpk"
    by (simp add: WorstCaseIBytesBudget_def ibytesBudget_def nl_consts Let_def)
qed

theorem GenerateCPS_tls_i1_succeeds_witness:
  "\<exists>r rs'. GenerateCPS toy_crypto ProfileTLS ''ru'' ''vk.com'' ''safari'' True
      (WorstCaseIBytesBudget True) [7] = Some (Inr r, rs')"
proof -
  obtain ds rs' where ds: "tlsSession ''vk.com'' ''safari'' [7] = Some (ds, rs')" using tlsSession_safari by blast
  from GenerateCPS_tls_i1_succeeds [OF ds, of toy_crypto "''ru''" True] show ?thesis by auto
qed

text \<open>in every Chrome-shaped hello the application_settings extension (0x4469) is malformed: its
  list of protocols is the bare bytes \<open>h2\<close> without the one-byte name length (the list should be
  \<open>02 68 32\<close>), so a reader of that extension rejects it, although the hello around it frames correctly.\<close>

theorem chrome_alps_malformed:
  assumes "buildChromeHello host rs = Some (hello, rs')" and "0 < length host" and "length host < 65000"
  shows "\<exists>ch body. parse_hello hello = Some ch \<and> map_of (ch_extensions ch) 0x4469 = Some body \<and>
    \<not> items_ok (p_vec p_u16) (p_vec p_u8) (\<lambda>n. n \<noteq> []) body"
proof -
  obtain random sid g0 g1 g2 gg gv gk key pad where h: "length random = 32" "length sid = 32"
    "length key = 32" "pad < 49" "g1 \<noteq> g2" "{g0, g1, g2, gg, gv, gk} \<subseteq> set greaseValues"
    "hello = wrapHandshake (hello_body random sid (g0 # chromeCiphers)
      (chrome_exts host g1 g2 gg gv gk key pad))"
    using assms(1) by (rule chrome_hello_eq)
  have snd: "exts_sound host (chrome_exts host g1 g2 gg gv gk key pad)"
    using h assms(2,3) by (intro chrome_exts_sound) auto
  have g: "g1 \<noteq> 0x4469" "g0 < 65536" using h(6) grease_props [of g1] grease_props [of g0] by auto
  have "parse_hello hello = Some \<lparr>ch_version = 0x0303, ch_random = random, ch_session = sid,
      ch_ciphers = g0 # chromeCiphers, ch_compression = [0],
      ch_extensions = chrome_exts host g1 g2 gg gv gk key pad\<rparr>"
    unfolding h(7) using h snd g by (intro parse_hello_wrap) (simp_all add: exts_sound_def chromeCiphers_def)
  moreover have "map_of (chrome_exts host g1 g2 gg gv gk key pad) 0x4469 = Some [0, 2, 0x68, 0x32]"
    using g(1) by (simp add: chrome_exts_def be16_def)
  moreover have "\<not> items_ok (p_vec p_u16) (p_vec p_u8) (\<lambda>n. n \<noteq> []) [0, 2, 0x68, 0x32]"
    by code_simp
  ultimately show ?thesis by (metis client_hello.select_convs(6))
qed

theorem chrome_alps_malformed_witness:
  "\<exists>hello rs' ch body. buildChromeHello (bytes_of ''vk.com'') (replicate 66 1 @ [2]) = Some (hello, rs') \<and>
    parse_hello hello = Some ch \<and> map_of (ch_extensions ch) 0x4469 = Some body \<and>
    \<not> items_ok (p_vec p_u16) (p_vec p_u8) (\<lambda>n. n \<noteq> []) body"
proof -
  let ?rs = "replicate 66 (1 :: nat) @ [2]"
  have "buildChromeHello (bytes_of ''vk.com'') ?rs \<noteq> None"
    unfolding buildChromeHello_stuck by (simp add: greaseValue_eq redrawGrease.simps greaseValues_def)
  then obtain hello rs' where "buildChromeHello (bytes_of ''vk.com'') ?rs = Some (hello, rs')" by auto
  with chrome_alps_malformed [OF this] show ?thesis by auto
qed

end
