(* ===== verification/Go_Json.thy ===== *)
theory Go_Json
  imports Go_Strings "HOL-Library.List_Lexorder"
begin

text \<open>
  The parts of Go's \<open>encoding/json\<close> the panel uses, on byte strings: the syntax tree of a JSON text
  (\<open>json.Unmarshal\<close> and \<open>json.Decoder.Decode\<close>, with members in their order and duplicates kept), the
  value a decoder with \<open>UseNumber\<close> builds for \<open>any\<close> (the last of several equal keys wins), the text
  \<open>json.Marshal\<close> writes for such a value (sorted keys, HTML-safe escapes), and the decoding of an object
  into a struct field, with its case-insensitive match of names.  Invalid UTF-8 becomes U+FFFD on the way
  in and lone surrogates do too.  The decoder's limit of 10000 nested levels is not modelled.
\<close>

section \<open>UTF-8\<close>

definition cont :: "char \<Rightarrow> bool" where
  "cont c \<longleftrightarrow> CHR 0x80 \<le> c \<and> c \<le> CHR 0xBF"

text \<open>The length of the encoded character at the start, 0 when there is no valid one
  (\<open>utf8.DecodeRune\<close>).\<close>

definition utf8_need :: "char \<Rightarrow> nat" where
  "utf8_need a = (if a < CHR 0x80 then 1 else if a < CHR 0xC2 then 0 else if a < CHR 0xE0 then 2
     else if a < CHR 0xF0 then 3 else if a \<le> CHR 0xF4 then 4 else 0)"

definition utf8_second :: "char \<Rightarrow> char \<Rightarrow> bool" where
  "utf8_second a b \<longleftrightarrow> (if a = CHR 0xE0 then CHR 0xA0 \<le> b else if a = CHR 0xED then b \<le> CHR 0x9F
     else if a = CHR 0xF0 then CHR 0x90 \<le> b else if a = CHR 0xF4 then b \<le> CHR 0x8F else True)"

definition utf8_tail :: "char \<Rightarrow> string \<Rightarrow> bool" where
  "utf8_tail a t \<longleftrightarrow> list_all cont t \<and> (case t of [] \<Rightarrow> True | b # _ \<Rightarrow> utf8_second a b)"

definition utf8_len :: "string \<Rightarrow> nat" where
  "utf8_len s = (case s of [] \<Rightarrow> 0 | a # r \<Rightarrow>
     let n = utf8_need a in
     if n \<le> length s \<and> utf8_tail a (take (n - 1) r) then n else 0)"

definition encode_rune :: "nat \<Rightarrow> string" where
  "encode_rune u =
     (if u < 0x80 then [char_of u]
      else if u < 0x800 then [char_of (0xC0 + u div 64), char_of (0x80 + u mod 64)]
      else if u < 0x10000 then
        [char_of (0xE0 + u div 4096), char_of (0x80 + u div 64 mod 64), char_of (0x80 + u mod 64)]
      else [char_of (0xF0 + u div 262144), char_of (0x80 + u div 4096 mod 64),
        char_of (0x80 + u div 64 mod 64), char_of (0x80 + u mod 64)])"

definition replacement :: string where
  "replacement = [CHR 0xEF, CHR 0xBF, CHR 0xBD]"

section \<open>Syntax trees\<close>

datatype json = JNull | JBool bool | JNum string | JStr string | JArr "json list"
  | JObj "(string \<times> json) list"

definition skip_ws :: "string \<Rightarrow> string" where
  "skip_ws s = dropWhile (\<lambda>c. c = CHR 0x20 \<or> c = CHR 0x09 \<or> c = CHR 0x0A \<or> c = CHR 0x0D) s"

definition p_digits :: "(char, string) parser" where
  "p_digits s = (let ds = takeWhile is_digit s in
     if ds = [] then None else Some (ds, dropWhile is_digit s))"

definition p_int :: "(char, string) parser" where
  "p_int s = (case s of [] \<Rightarrow> None | c # r \<Rightarrow> if c = CHR ''0'' then Some ([c], r) else p_digits s)"

definition p_frac :: "(char, string) parser" where
  "p_frac s = (case s of [] \<Rightarrow> Some ([], []) | c # r \<Rightarrow>
     if c = CHR ''.'' then map_option (\<lambda>(ds, r). (c # ds, r)) (p_digits r) else Some ([], s))"

definition p_sign :: "(char, string) parser" where
  "p_sign s = (case s of [] \<Rightarrow> Some ([], []) | c # r \<Rightarrow>
     if c = CHR ''+'' \<or> c = CHR ''-'' then Some ([c], r) else Some ([], s))"

definition p_exp :: "(char, string) parser" where
  "p_exp s = (case s of [] \<Rightarrow> Some ([], []) | c # r \<Rightarrow>
     if c = CHR ''e'' \<or> c = CHR ''E'' then
       Option.bind (p_sign r) (\<lambda>(sg, r). map_option (\<lambda>(ds, r). (c # sg @ ds, r)) (p_digits r))
     else Some ([], s))"

definition p_minus :: "(char, string) parser" where
  "p_minus s = (case s of c # r \<Rightarrow> if c = CHR ''-'' then Some ([c], r) else Some ([], s) | [] \<Rightarrow> Some ([], []))"

definition p_number :: "(char, string) parser" where
  "p_number s =
     Option.bind (p_minus s) (\<lambda>(a, s). Option.bind (p_int s) (\<lambda>(b, s).
     Option.bind (p_frac s) (\<lambda>(c, s). Option.bind (p_exp s) (\<lambda>(d, s). Some (a @ b @ c @ d, s)))))"

definition p_hex4 :: "(char, nat) parser" where
  "p_hex4 s = (case s of a # b # c # d # r \<Rightarrow>
       (case (hex_val a, hex_val b, hex_val c, hex_val d) of
          (Some a, Some b, Some c, Some d) \<Rightarrow> Some (((a * 16 + b) * 16 + c) * 16 + d, r)
        | _ \<Rightarrow> None)
     | _ \<Rightarrow> None)"

definition simple_escape :: "char \<Rightarrow> char option" where
  "simple_escape c =
     (if c = CHR 0x22 \<or> c = CHR 0x5C \<or> c = CHR ''/'' then Some c
      else if c = CHR ''b'' then Some (CHR 0x08) else if c = CHR ''f'' then Some (CHR 0x0C)
      else if c = CHR ''n'' then Some (CHR 0x0A) else if c = CHR ''r'' then Some (CHR 0x0D)
      else if c = CHR ''t'' then Some (CHR 0x09) else None)"

text \<open>The character of a \<open>\u\<close> escape; a high surrogate takes a following low one along, any other
  surrogate is U+FFFD.\<close>

definition p_low :: "(char, nat) parser" where
  "p_low s = (case s of a # b # r \<Rightarrow> if a = CHR 0x5C \<and> b = CHR ''u'' then p_hex4 r else None | _ \<Rightarrow> None)"

definition p_unicode :: "(char, string) parser" where
  "p_unicode s = (case p_hex4 s of None \<Rightarrow> None | Some (u, r) \<Rightarrow>
     if u < 0xD800 \<or> 0xDFFF < u then Some (encode_rune u, r)
     else (case p_low r of
         Some (v, r2) \<Rightarrow> if u < 0xDC00 \<and> 0xDC00 \<le> v \<and> v \<le> 0xDFFF
           then Some (encode_rune (0x10000 + (u - 0xD800) * 1024 + (v - 0xDC00)), r2)
           else Some (replacement, r)
       | None \<Rightarrow> Some (replacement, r)))"

lemma p_hex4_length: "p_hex4 s = Some (u, r) \<Longrightarrow> length r < length s"
  by (auto simp: p_hex4_def split: list.splits option.splits)

lemma p_low_length: "p_low s = Some (u, r) \<Longrightarrow> length r < length s"
  by (auto simp: p_low_def dest!: p_hex4_length split: list.splits if_splits)

lemma p_unicode_length: "p_unicode s = Some (x, r) \<Longrightarrow> length r < length s"
  by (auto simp: p_unicode_def dest!: p_hex4_length p_low_length split: if_splits option.splits)

text \<open>The rest of a string literal after its opening quote.\<close>

function p_str :: "(char, string) parser" where
  "p_str s = (case s of [] \<Rightarrow> None | c # r \<Rightarrow>
     if c = CHR 0x22 then Some ([], r)
     else if c < CHR 0x20 then None
     else if c = CHR 0x5C then
       (case r of [] \<Rightarrow> None | e # r1 \<Rightarrow>
          if e = CHR ''u'' then
            (case p_unicode r1 of None \<Rightarrow> None
             | Some (x, r2) \<Rightarrow> map_option (\<lambda>(t, q). (x @ t, q)) (p_str r2))
          else (case simple_escape e of None \<Rightarrow> None
             | Some x \<Rightarrow> map_option (\<lambda>(t, q). (x # t, q)) (p_str r1)))
     else if utf8_len s = 0 then map_option (\<lambda>(t, q). (replacement @ t, q)) (p_str r)
     else map_option (\<lambda>(t, q). (take (utf8_len s) s @ t, q)) (p_str (drop (utf8_len s) s)))"
  by pat_completeness auto
termination
  by (relation "measure length") (auto dest: p_unicode_length)

declare p_str.simps [simp del]

fun p_val :: "nat \<Rightarrow> (char, json) parser"
  and p_elems :: "nat \<Rightarrow> (char, json list) parser"
  and p_members :: "nat \<Rightarrow> (char, (string \<times> json) list) parser" where
  "p_val 0 s = None"
| "p_val (Suc n) s = (case skip_ws s of [] \<Rightarrow> None | c # r \<Rightarrow>
     if c = CHR ''{'' then
       (case skip_ws r of [] \<Rightarrow> None | d # r1 \<Rightarrow>
          if d = CHR ''}'' then Some (JObj [], r1)
          else map_option (\<lambda>(ms, q). (JObj ms, q)) (p_members n (d # r1)))
     else if c = CHR ''['' then
       (case skip_ws r of [] \<Rightarrow> None | d # r1 \<Rightarrow>
          if d = CHR '']'' then Some (JArr [], r1)
          else map_option (\<lambda>(vs, q). (JArr vs, q)) (p_elems n (d # r1)))
     else if c = CHR 0x22 then map_option (\<lambda>(t, q). (JStr t, q)) (p_str r)
     else if prefix ''null'' (c # r) then Some (JNull, drop 4 (c # r))
     else if prefix ''true'' (c # r) then Some (JBool True, drop 4 (c # r))
     else if prefix ''false'' (c # r) then Some (JBool False, drop 5 (c # r))
     else map_option (\<lambda>(d, q). (JNum d, q)) (p_number (c # r)))"
| "p_elems 0 s = None"
| "p_elems (Suc n) s = (case p_val n s of None \<Rightarrow> None | Some (v, r) \<Rightarrow>
     (case skip_ws r of [] \<Rightarrow> None | c # r1 \<Rightarrow>
        if c = CHR '']'' then Some ([v], r1)
        else if c = CHR '','' then map_option (\<lambda>(vs, q). (v # vs, q)) (p_elems n r1)
        else None))"
| "p_members 0 s = None"
| "p_members (Suc n) s = (case skip_ws s of [] \<Rightarrow> None | c # r \<Rightarrow>
     if c \<noteq> CHR 0x22 then None
     else (case p_str r of None \<Rightarrow> None | Some (k, r1) \<Rightarrow>
       (case skip_ws r1 of [] \<Rightarrow> None | d # r2 \<Rightarrow>
          if d \<noteq> CHR '':'' then None
          else (case p_val n r2 of None \<Rightarrow> None | Some (v, r3) \<Rightarrow>
            (case skip_ws r3 of [] \<Rightarrow> None | e # r4 \<Rightarrow>
               if e = CHR ''}'' then Some ([(k, v)], r4)
               else if e = CHR '','' then map_option (\<lambda>(ms, q). ((k, v) # ms, q)) (p_members n r4)
               else None)))))"

text \<open>\<open>Decoder.Decode\<close> reads the first value and leaves the rest; \<open>json.Unmarshal\<close> accepts nothing but
  white space after it.\<close>

definition json_decode :: "string \<Rightarrow> json option" where
  "json_decode s = map_option fst (p_val (Suc (length s)) s)"

definition json_unmarshal :: "string \<Rightarrow> json option" where
  "json_unmarshal s = (case p_val (Suc (length s)) s of
     Some (v, r) \<Rightarrow> if skip_ws r = [] then Some v else None | None \<Rightarrow> None)"

section \<open>Values\<close>

text \<open>A \<open>map[string]any\<close> is the list of its members sorted by key, without duplicates.\<close>

definition go_map :: "(string \<times> 'a) list \<Rightarrow> (string \<times> 'a) list" where
  "go_map ms = map (\<lambda>k. (k, the (map_of (rev ms) k))) (sort (remdups (map fst ms)))"

fun to_any :: "json \<Rightarrow> json" where
  "to_any (JArr vs) = JArr (map to_any vs)"
| "to_any (JObj ms) = JObj (go_map (map (\<lambda>(k, v). (k, to_any v)) ms))"
| "to_any v = v"

definition u00 :: "char \<Rightarrow> string" where
  "u00 c = [CHR 0x5C, CHR ''u'', CHR ''0'', CHR ''0'', hex_digit (of_char c div 16), hex_digit (of_char c mod 16)]"

definition quote_ascii :: "char \<Rightarrow> string" where
  "quote_ascii c =
     (if c = CHR 0x22 \<or> c = CHR 0x5C then [CHR 0x5C, c]
      else if c = CHR 0x08 then [CHR 0x5C, CHR ''b''] else if c = CHR 0x0C then [CHR 0x5C, CHR ''f'']
      else if c = CHR 0x0A then [CHR 0x5C, CHR ''n''] else if c = CHR 0x0D then [CHR 0x5C, CHR ''r'']
      else if c = CHR 0x09 then [CHR 0x5C, CHR ''t'']
      else if c < CHR 0x20 \<or> c = CHR ''<'' \<or> c = CHR ''>'' \<or> c = CHR ''&'' then u00 c
      else [c])"

text \<open>U+2028 and U+2029, which \<open>Marshal\<close> escapes.\<close>

definition line_seps :: "(string \<times> string) list" where
  "line_seps = [([CHR 0xE2, CHR 0x80, CHR 0xA8], CHR 0x5C # ''u2028''), ([CHR 0xE2, CHR 0x80, CHR 0xA9], CHR 0x5C # ''u2029'')]"

function quote_chars :: "string \<Rightarrow> string" where
  "quote_chars s = (case s of [] \<Rightarrow> [] | c # r \<Rightarrow>
     if c < CHR 0x80 then quote_ascii c @ quote_chars r
     else if utf8_len s = 0 then CHR 0x5C # ''ufffd'' @ quote_chars r
     else (case map_of line_seps (take (utf8_len s) s) of Some e \<Rightarrow> e | None \<Rightarrow> take (utf8_len s) s)
       @ quote_chars (drop (utf8_len s) s))"
  by pat_completeness auto
termination by (relation "measure length") auto

declare quote_chars.simps [simp del]

definition json_quote :: "string \<Rightarrow> string" where
  "json_quote s = CHR 0x22 # quote_chars s @ [CHR 0x22]"

fun commas :: "string list \<Rightarrow> string" where
  "commas [] = []"
| "commas [x] = x"
| "commas (x # y # zs) = x @ CHR '','' # commas (y # zs)"

fun json_marshal :: "json \<Rightarrow> string" where
  "json_marshal JNull = ''null''"
| "json_marshal (JBool b) = (if b then ''true'' else ''false'')"
| "json_marshal (JNum n) = n"
| "json_marshal (JStr s) = json_quote s"
| "json_marshal (JArr vs) = CHR ''['' # commas (map json_marshal vs) @ '']''"
| "json_marshal (JObj ms) =
     CHR ''{'' # commas (map (\<lambda>(k, v). json_quote k @ CHR '':'' # json_marshal v) ms) @ ''}''"

section \<open>Struct fields\<close>

text \<open>The name match of a struct field: equal up to ASCII case, the Kelvin sign standing for \<open>k\<close> and the
  long s for \<open>s\<close>.\<close>

fun fold_name :: "string \<Rightarrow> string" where
  "fold_name [] = []"
| "fold_name [a] = [if CHR ''A'' \<le> a \<and> a \<le> CHR ''Z'' then char_of (of_char a + (32 :: nat)) else a]"
| "fold_name (a # b # r) =
     (if a = CHR 0xC5 \<and> b = CHR 0xBF then CHR ''s'' # fold_name r
      else if a = CHR 0xE2 \<and> b = CHR 0x84 \<and> take 1 r = [CHR 0xAA] then CHR ''k'' # fold_name (drop 1 r)
      else (if CHR ''A'' \<le> a \<and> a \<le> CHR ''Z'' then char_of (of_char a + (32 :: nat)) else a) # fold_name (b # r))"

definition field_matches :: "string \<Rightarrow> string \<Rightarrow> bool" where
  "field_matches name key \<longleftrightarrow> fold_name key = fold_name name"

text \<open>A string field: \<open>null\<close> leaves it, a value of another type is an error (\<open>None\<close>).  The members are
  decoded in their order, so the last match wins.\<close>

definition set_string :: "string \<Rightarrow> json \<Rightarrow> string option" where
  "set_string old v = (case v of JNull \<Rightarrow> Some old | JStr s \<Rightarrow> Some s | _ \<Rightarrow> None)"

fun fold_fields :: "string \<Rightarrow> ('a \<Rightarrow> json \<Rightarrow> 'a option) \<Rightarrow> 'a \<Rightarrow> (string \<times> json) list \<Rightarrow> 'a option" where
  "fold_fields name f x [] = Some x"
| "fold_fields name f x ((k, v) # ms) =
     (if field_matches name k then (case f x v of None \<Rightarrow> None | Some y \<Rightarrow> fold_fields name f y ms)
      else fold_fields name f x ms)"

text \<open>An object decoded into a struct with one interesting field; \<open>null\<close> leaves the struct.\<close>

definition set_struct :: "string \<Rightarrow> ('a \<Rightarrow> json \<Rightarrow> 'a option) \<Rightarrow> 'a \<Rightarrow> json \<Rightarrow> 'a option" where
  "set_struct name f x v = (case v of JNull \<Rightarrow> Some x | JObj ms \<Rightarrow> fold_fields name f x ms | _ \<Rightarrow> None)"

definition unmarshal_field :: "string \<Rightarrow> ('a \<Rightarrow> json \<Rightarrow> 'a option) \<Rightarrow> 'a \<Rightarrow> string \<Rightarrow> 'a option" where
  "unmarshal_field name f x raw = Option.bind (json_unmarshal raw) (set_struct name f x)"

section \<open>Reading a marshalled value back\<close>

function utf8_ok :: "string \<Rightarrow> bool" where
  "utf8_ok s = (if s = [] then True else if utf8_len s = 0 then False else utf8_ok (drop (utf8_len s) s))"
  by pat_completeness auto
termination by (relation "measure length") auto

declare utf8_ok.simps [simp del]

definition one_char :: "string \<Rightarrow> bool" where
  "one_char x \<longleftrightarrow> x \<noteq> [] \<and> utf8_len x = length x"

lemma utf8_len_le: "utf8_len s \<le> length s"
  by (cases s) (simp_all add: utf8_len_def Let_def)

lemma utf8_len_append: "utf8_len x \<noteq> 0 \<Longrightarrow> utf8_len (x @ y) = utf8_len x"
  by (cases x) (auto simp: utf8_len_def Let_def split: if_splits)

lemma utf8_len_take: "utf8_len s \<noteq> 0 \<Longrightarrow> utf8_len (take (utf8_len s) s) = utf8_len s"
proof (cases s)
  case (Cons a r)
  assume "utf8_len s \<noteq> 0"
  with Cons have *: "utf8_len s = utf8_need a" "utf8_need a \<le> length s" "utf8_tail a (take (utf8_need a - 1) r)"
    "utf8_need a \<noteq> 0" by (auto simp: utf8_len_def Let_def split: if_splits)
  then have "take (utf8_len s) s = a # take (utf8_need a - 1) r"
    using Cons by (cases "utf8_need a") auto
  with * Cons show ?thesis by (simp add: utf8_len_def [of "a # take _ _"] Let_def min_def)
qed (simp add: utf8_len_def)

lemma utf8_len_ascii: "c < CHR 0x80 \<Longrightarrow> utf8_len (c # r) = 1"
  by (simp add: utf8_len_def utf8_need_def utf8_tail_def)

lemma one_char_take: "utf8_len s \<noteq> 0 \<Longrightarrow> one_char (take (utf8_len s) s)"
  using utf8_len_take [of s] utf8_len_le [of s] by (cases s) (auto simp: one_char_def utf8_len_def)

lemma utf8_ok_Nil [simp]: "utf8_ok []"
  by (simp add: utf8_ok.simps)

lemma utf8_ok_append: "one_char x \<Longrightarrow> utf8_ok (x @ t) = utf8_ok t"
  by (subst utf8_ok.simps) (auto simp: one_char_def utf8_len_append)

lemma one_char_ascii: "c < CHR 0x80 \<Longrightarrow> one_char [c]"
  by (simp add: one_char_def utf8_len_ascii)

lemma one_char_replacement: "one_char replacement"
  by code_simp

lemma cont_char: "x < (64 :: nat) \<Longrightarrow> cont (char_of (0x80 + x))"
  by (simp add: cont_def less_eq_char_def)

lemma one_char_encode_rune:
  assumes "u < 0xD800 \<or> 0xDFFF < u" and "u < 0x110000"
  shows "one_char (encode_rune u)"
proof -
  have c: "cont (char_of (0x80 + x mod 64))" for x :: nat by (simp add: cont_char)
  have d: "u div 4096 = u div 64 div 64" "u div 262144 = u div 4096 div 64"
    by (simp_all add: div_mult2_eq [symmetric])
  consider "u < 0x80" | "0x80 \<le> u" "u < 0x800" | "0x800 \<le> u" "u < 0x10000" | "0x10000 \<le> u" by linarith
  then show ?thesis
  proof cases
    case 1
    then show ?thesis by (simp add: encode_rune_def one_char_ascii less_char_def)
  next
    case 2
    let ?a = "char_of (0xC0 + u div 64) :: char"
    have "2 \<le> u div 64" "u div 64 < 32" using 2 by simp_all
    then have n: "utf8_need ?a = 2" by (simp add: utf8_need_def less_char_def)
    have "utf8_second ?a b" for b using \<open>u div 64 < 32\<close>
      by (simp add: utf8_second_def char_of_eq_iff take_bit_eq_mod)
    then show ?thesis using 2 n c [of u] by (simp add: one_char_def encode_rune_def utf8_len_def utf8_tail_def)
  next
    case 3
    let ?a = "char_of (0xE0 + u div 4096) :: char"
    have a: "u div 4096 < 16" using 3 by simp
    then have n: "utf8_need ?a = 3" by (simp add: utf8_need_def less_char_def)
    have "32 \<le> u div 64 mod 64" if "u div 4096 = 0" using that 3 d by simp
    moreover have "u div 64 mod 64 \<le> 31" if "u div 4096 = 13"
    proof -
      have "u < 0xD800" using that assms(1) by auto
      then have "u div 64 < 864" by simp
      with that d(1) show ?thesis using div_mult_mod_eq [of "u div 64" 64] by simp
    qed
    ultimately have "utf8_second ?a (char_of (0x80 + u div 64 mod 64))"
      using a by (simp add: utf8_second_def char_of_eq_iff take_bit_eq_mod less_eq_char_def)
    then show ?thesis
      using 3 n c [of u] c [of "u div 64"]
      by (simp add: one_char_def encode_rune_def utf8_len_def utf8_tail_def numeral_2_eq_2)
  next
    case 4
    let ?a = "char_of (0xF0 + u div 262144) :: char"
    have a: "u div 262144 < 5" using assms(2) by simp
    then have n: "utf8_need ?a = 4" by (simp add: utf8_need_def less_char_def less_eq_char_def)
    have "16 \<le> u div 4096 mod 64" if "u div 262144 = 0" using that 4 d(2) by simp
    moreover have "u div 4096 mod 64 \<le> 15" if "u div 262144 = 4"
    proof -
      have "u div 4096 < 272" using assms(2) by simp
      with that d(2) show ?thesis using div_mult_mod_eq [of "u div 4096" 64] by simp
    qed
    ultimately have "utf8_second ?a (char_of (0x80 + u div 4096 mod 64))"
      using a by (simp add: utf8_second_def char_of_eq_iff take_bit_eq_mod less_eq_char_def)
    then show ?thesis
      using 4 n c [of u] c [of "u div 64"] c [of "u div 4096"]
      by (simp add: one_char_def encode_rune_def utf8_len_def utf8_tail_def numeral_3_eq_3)
  qed
qed

lemma hex_val_le: "hex_val c = Some d \<Longrightarrow> d \<le> 15"
  by (auto simp: hex_val_def Let_def split: if_splits)

lemma p_hex4_le: "p_hex4 s = Some (u, r) \<Longrightarrow> u < 0x10000"
  by (auto simp: p_hex4_def split: list.splits option.splits dest!: hex_val_le)

lemma surrogate_sum: "a < 56320 \<Longrightarrow> v \<le> 57343 \<Longrightarrow> 0x10000 + (a - 0xD800) * 1024 + (v - 0xDC00) < 0x110000"
  for a v :: nat
proof -
  assume "a < 56320" "v \<le> 57343"
  then have "a - 0xD800 \<le> 1023" "v - 0xDC00 \<le> 1023" by simp_all
  then show ?thesis by linarith
qed

lemma p_unicode_one_char:
  assumes "p_unicode s = Some (x, r)"
  shows "one_char x"
proof -
  obtain u r1 where u: "p_hex4 s = Some (u, r1)" using assms by (auto simp: p_unicode_def split: option.splits)
  show ?thesis
  proof (cases "u < 0xD800 \<or> 0xDFFF < u")
    case True
    with assms u p_hex4_le [OF u] show ?thesis by (auto simp: p_unicode_def intro!: one_char_encode_rune)
  next
    case False
    show ?thesis
    proof (cases "p_low r1")
      case None
      with assms u False show ?thesis by (simp add: p_unicode_def one_char_replacement)
    next
      case (Some y)
      obtain v q where y: "y = (v, q)" by fastforce
      show ?thesis
      proof (cases "u < 0xDC00 \<and> 0xDC00 \<le> v \<and> v \<le> 0xDFFF")
        case True
        then have "x = encode_rune (0x10000 + (u - 0xD800) * 1024 + (v - 0xDC00))"
          using assms u False Some y by (simp add: p_unicode_def)
        moreover have "one_char (encode_rune (0x10000 + (u - 0xD800) * 1024 + (v - 0xDC00)))"
          using surrogate_sum [of u v] True by (intro one_char_encode_rune) simp_all
        ultimately show ?thesis by metis
      next
        case n: False
        with assms u False Some y show ?thesis by (auto simp: p_unicode_def one_char_replacement)
      qed
    qed
  qed
qed

lemma simple_escape_ascii: "simple_escape c = Some d \<Longrightarrow> d < CHR 0x80"
  by (auto simp: simple_escape_def less_char_def split: if_splits)

lemma p_str_eqs:
  "p_str [] = None"
  "p_str (CHR 0x22 # r) = Some ([], r)"
  "c < CHR 0x20 \<Longrightarrow> p_str (c # r) = None"
  "p_str [CHR 0x5C] = None"
  "p_str (CHR 0x5C # CHR ''u'' # r) = (case p_unicode r of None \<Rightarrow> None
     | Some (x, q) \<Rightarrow> map_option (\<lambda>(t, q). (x @ t, q)) (p_str q))"
  "e \<noteq> CHR ''u'' \<Longrightarrow> p_str (CHR 0x5C # e # r) = (case simple_escape e of None \<Rightarrow> None
     | Some x \<Rightarrow> map_option (\<lambda>(t, q). (x # t, q)) (p_str r))"
  by (subst p_str.simps, fastforce simp: less_char_def split: option.splits)+

lemma p_str_plain:
  assumes "c \<noteq> CHR 0x22" "\<not> c < CHR 0x20" "c \<noteq> CHR 0x5C"
  shows "p_str (c # r) = (if utf8_len (c # r) = 0 then map_option (\<lambda>(t, q). (replacement @ t, q)) (p_str r)
     else map_option (\<lambda>(t, q). (take (utf8_len (c # r)) (c # r) @ t, q)) (p_str (drop (utf8_len (c # r)) (c # r))))"
  using assms by (subst p_str.simps) simp

lemma p_str_utf8: "p_str s = Some (t, r) \<Longrightarrow> utf8_ok t"
proof (induction "length s" arbitrary: s t r rule: less_induct)
  case less
  show ?case
  proof (cases s)
    case Nil
    with less show ?thesis by (simp add: p_str_eqs)
  next
    case (Cons c r0)
    consider "c = CHR 0x22" | "c < CHR 0x20" | "c = CHR 0x5C" | "c \<noteq> CHR 0x22" "\<not> c < CHR 0x20" "c \<noteq> CHR 0x5C"
      by blast
    then show ?thesis
    proof cases
      case 4
      have "utf8_ok t'" if "p_str r0 = Some (t', r)" for t' using less.hyps [OF _ that] Cons by simp
      moreover have "utf8_ok t'" if "p_str (drop (utf8_len s) s) = Some (t', r)" "utf8_len s \<noteq> 0" for t'
        using less.hyps [OF _ that(1)] that(2) Cons by simp
      ultimately show ?thesis
        using less.prems 4 Cons utf8_ok_append [OF one_char_replacement] utf8_ok_append [OF one_char_take, of s]
        by (auto simp: p_str_plain split: if_splits)
    next
      case 3
      show ?thesis
      proof (cases r0)
        case Nil
        with less.prems 3 Cons show ?thesis by (simp add: p_str_eqs)
      next
        case (Cons e r1)
        show ?thesis
        proof (cases "e = CHR ''u''")
          case True
          obtain x q where x: "p_unicode r1 = Some (x, q)"
            using less.prems 3 Cons True \<open>s = c # r0\<close> by (auto simp: p_str_eqs split: option.splits)
          then obtain t' where "p_str q = Some (t', r)" "t = x @ t'"
            using less.prems 3 Cons True \<open>s = c # r0\<close> by (auto simp: p_str_eqs)
          moreover have "length q < length s" using p_unicode_length [OF x] Cons \<open>s = c # r0\<close> by simp
          ultimately show ?thesis using less.hyps utf8_ok_append [OF p_unicode_one_char [OF x]] by auto
        next
          case False
          obtain x where x: "simple_escape e = Some x"
            using less.prems 3 Cons False \<open>s = c # r0\<close> by (auto simp: p_str_eqs split: option.splits)
          then obtain t' where "p_str r1 = Some (t', r)" "t = [x] @ t'"
            using less.prems 3 Cons False \<open>s = c # r0\<close> by (auto simp: p_str_eqs)
          moreover have "length r1 < length s" using Cons \<open>s = c # r0\<close> by simp
          ultimately show ?thesis
            using less.hyps utf8_ok_append [OF one_char_ascii [OF simple_escape_ascii [OF x]]] by metis
        qed
      qed
    qed (use less.prems Cons in \<open>auto simp: p_str_eqs\<close>)
  qed
qed

lemma map_option_pair: "map_option (\<lambda>(t, q). (x @ t, q)) z = Some (s, r) \<longleftrightarrow>
    (\<exists>t. z = Some (t, r) \<and> s = x @ t)"
  by (cases z) auto

lemma p_hex4_u00: "p_hex4 (CHR ''0'' # CHR ''0'' # hex_digit (n div 16) # hex_digit (n mod 16) # r) = Some (n, r)"
  if "n < 256" for n
proof -
  have "n div 16 < 16" using that by simp
  moreover have "hex_val (CHR ''0'') = Some 0" by code_simp
  ultimately show ?thesis by (simp add: p_hex4_def)
qed

lemma p_str_ascii:
  assumes c: "c < CHR 0x80" and r: "p_str r = Some (t, q)"
  shows "p_str (quote_ascii c @ r) = Some (c # t, q)"
proof (cases "c \<in> {CHR 0x22, CHR 0x5C, CHR 0x08, CHR 0x0C, CHR 0x0A, CHR 0x0D, CHR 0x09}")
  case True
  then show ?thesis using r by (auto simp: quote_ascii_def p_str_eqs simple_escape_def)
next
  case plain: False
  show ?thesis
  proof (cases "c < CHR 0x20 \<or> c = CHR ''<'' \<or> c = CHR ''>'' \<or> c = CHR ''&''")
    case True
    have n: "(of_char c :: nat) < 128" using c by (simp add: less_char_def)
    have "p_unicode (CHR ''0'' # CHR ''0'' # hex_digit (of_char c div 16) # hex_digit (of_char c mod 16) # r)
        = Some ([c], r)"
      using n p_hex4_u00 [of "of_char c" r] by (simp add: p_unicode_def encode_rune_def)
    moreover have "quote_ascii c = u00 c" using plain True by (simp add: quote_ascii_def)
    ultimately show ?thesis using r by (simp add: u00_def p_str_eqs)
  next
    case False
    then have "quote_ascii c = [c]" "c \<noteq> CHR 0x22" "\<not> c < CHR 0x20" "c \<noteq> CHR 0x5C"
      using plain by (simp_all add: quote_ascii_def)
    then show ?thesis using r c by (simp add: p_str_plain utf8_len_ascii)
  qed
qed

lemma p_unicode_seps:
  "p_unicode (''2028'' @ r) = Some ([CHR 0xE2, CHR 0x80, CHR 0xA8], r)"
  "p_unicode (''2029'' @ r) = Some ([CHR 0xE2, CHR 0x80, CHR 0xA9], r)"
proof -
  have "p_hex4 (''2028'' @ r) = Some (0x2028, r)" "p_hex4 (''2029'' @ r) = Some (0x2029, r)"
    by (simp_all add: p_hex4_def hex_val_def)
  moreover have "encode_rune 0x2028 = [CHR 0xE2, CHR 0x80, CHR 0xA8]"
    "encode_rune 0x2029 = [CHR 0xE2, CHR 0x80, CHR 0xA9]"
    by (simp_all add: encode_rune_def) (code_simp+)
  ultimately show "p_unicode (''2028'' @ r) = Some ([CHR 0xE2, CHR 0x80, CHR 0xA8], r)"
    "p_unicode (''2029'' @ r) = Some ([CHR 0xE2, CHR 0x80, CHR 0xA9], r)"
    by (simp_all add: p_unicode_def)
qed

lemma line_seps_decode:
  assumes "map_of line_seps x = Some e" and "p_str r = Some (t, q)"
  shows "p_str (e @ r) = Some (x @ t, q)"
proof (cases "x = [CHR 0xE2, CHR 0x80, CHR 0xA8]")
  case True
  then have "e = CHR 0x5C # ''u2028''" using assms(1) by (simp add: line_seps_def)
  with True assms(2) p_unicode_seps(1) [of r] show ?thesis by (simp add: p_str_eqs)
next
  case no: False
  show ?thesis
  proof (cases "x = [CHR 0xE2, CHR 0x80, CHR 0xA9]")
    case True
    then have "e = CHR 0x5C # ''u2029''" using assms(1) by (simp add: line_seps_def)
    with True assms(2) p_unicode_seps(2) [of r] show ?thesis by (simp add: p_str_eqs)
  next
    case False
    with no assms(1) show ?thesis by (simp add: line_seps_def)
  qed
qed

lemma p_str_multi:
  assumes "one_char x" and "\<not> hd x < CHR 0x80" and "p_str r = Some (t, q)"
  shows "p_str (x @ r) = Some (x @ t, q)"
proof -
  obtain c x' where x: "x = c # x'" using assms(1) by (cases x) (auto simp: one_char_def)
  have "utf8_len (x @ r) = length x" using assms(1) utf8_len_append by (auto simp: one_char_def)
  moreover have "c \<noteq> CHR 0x22" "\<not> c < CHR 0x20" "c \<noteq> CHR 0x5C" using assms(2) x by (auto simp: less_char_def)
  ultimately show ?thesis using assms(3) x by (simp add: p_str_plain)
qed

lemma p_str_quote_chars: "utf8_ok s \<Longrightarrow> p_str (quote_chars s @ CHR 0x22 # rest) = Some (s, rest)"
proof (induction "length s" arbitrary: s rule: less_induct)
  case less
  show ?case
  proof (cases s)
    case Nil
    then show ?thesis by (simp add: quote_chars.simps p_str_eqs)
  next
    case (Cons c r)
    from less.prems Cons have ne: "utf8_len s \<noteq> 0" and ok: "utf8_ok (drop (utf8_len s) s)"
      using utf8_ok.simps [of s] by (simp_all split: if_splits)
    have IH: "p_str (quote_chars (drop (utf8_len s) s) @ CHR 0x22 # rest) = Some (drop (utf8_len s) s, rest)"
      using less.hyps [OF _ ok] ne Cons by simp
    show ?thesis
    proof (cases "c < CHR 0x80")
      case True
      then have "utf8_len s = 1" using Cons by (simp add: utf8_len_ascii)
      then show ?thesis
        using IH Cons True p_str_ascii [OF True] quote_chars.simps [of s] by simp
    next
      case False
      let ?x = "take (utf8_len s) s"
      have "one_char ?x" by (rule one_char_take [OF ne])
      moreover have "\<not> hd ?x < CHR 0x80" using False Cons ne by (cases "utf8_len s") auto
      ultimately have "p_str (?x @ quote_chars (drop (utf8_len s) s) @ CHR 0x22 # rest)
          = Some (?x @ drop (utf8_len s) s, rest)" using IH by (intro p_str_multi)
      moreover have "quote_chars s = (case map_of line_seps ?x of Some e \<Rightarrow> e | None \<Rightarrow> ?x)
          @ quote_chars (drop (utf8_len s) s)"
        using False Cons ne by (subst quote_chars.simps) simp
      ultimately show ?thesis
        using line_seps_decode [OF _ IH, of ?x] by (cases "map_of line_seps ?x") auto
    qed
  qed
qed

section \<open>Numbers\<close>

text \<open>What may follow a value: nothing that a number could swallow.\<close>

definition delim :: "string \<Rightarrow> bool" where
  "delim r \<longleftrightarrow> r = [] \<or> \<not> (is_digit (hd r) \<or> hd r \<in> {CHR ''.'', CHR ''e'', CHR ''E''})"

lemma takeWhile_digits: "list_all is_digit ds \<Longrightarrow> delim r \<or> r = [] \<or> \<not> is_digit (hd r) \<Longrightarrow>
    takeWhile is_digit (ds @ r) = ds \<and> dropWhile is_digit (ds @ r) = r"
  by (induction ds) (cases r; auto simp: delim_def)+

lemma p_digits_extend:
  assumes "p_digits s = Some (ds, r)" and "r' = [] \<or> \<not> is_digit (hd r')"
  shows "p_digits (ds @ r') = Some (ds, r')" and "ds \<noteq> []" and "list_all is_digit ds"
proof -
  have ds: "ds = takeWhile is_digit s" "ds \<noteq> []"
    using assms(1) by (auto simp: p_digits_def Let_def split: if_splits)
  then show l: "list_all is_digit ds" by (auto simp: list_all_iff dest: set_takeWhileD)
  show "ds \<noteq> []" by (rule ds(2))
  show "p_digits (ds @ r') = Some (ds, r')"
    using takeWhile_digits [OF l, of r'] assms(2) ds(2) by (simp add: p_digits_def)
qed

text \<open>Each part of a number is read back from its own text when what follows cannot extend it.\<close>

lemma p_int_extend:
  assumes "p_int s = Some (b, r)" and "r' = [] \<or> \<not> is_digit (hd r')"
  shows "p_int (b @ r') = Some (b, r')" and "b \<noteq> []" and "is_digit (hd b)"
proof -
  obtain c s' where s: "s = c # s'" using assms(1) by (cases s) (auto simp: p_int_def)
  have "p_int (b @ r') = Some (b, r') \<and> b \<noteq> [] \<and> is_digit (hd b)"
  proof (cases "c = CHR ''0''")
    case True
    then show ?thesis using assms(1) s by (auto simp: p_int_def is_digit_def less_eq_char_def)
  next
    case False
    then have d: "p_digits s = Some (b, r)" using assms(1) s by (simp add: p_int_def)
    note e = p_digits_extend [OF d assms(2)]
    obtain b' where "b = c # b'"
      using d s by (auto simp: p_digits_def Let_def split: if_splits)
    with e False show ?thesis by (simp add: p_int_def)
  qed
  then show "p_int (b @ r') = Some (b, r')" "b \<noteq> []" "is_digit (hd b)" by simp_all
qed

lemma p_frac_extend:
  assumes "p_frac s = Some (c, r)" and "r' = [] \<or> \<not> is_digit (hd r') \<and> hd r' \<noteq> CHR ''.''"
  shows "p_frac (c @ r') = Some (c, r')" and "c = [] \<or> hd c = CHR ''.''"
proof -
  have "p_frac (c @ r') = Some (c, r') \<and> (c = [] \<or> hd c = CHR ''.'')"
  proof (cases "s \<noteq> [] \<and> hd s = CHR ''.''")
    case True
    then obtain s' where s: "s = CHR ''.'' # s'" by (cases s) auto
    then obtain ds where ds: "p_digits s' = Some (ds, r)" "c = CHR ''.'' # ds"
      using assms(1) by (auto simp: p_frac_def)
    have "p_digits (ds @ r') = Some (ds, r')" using assms(2) by (intro p_digits_extend [OF ds(1)]) auto
    then show ?thesis by (simp add: p_frac_def ds(2))
  next
    case False
    then have "c = []" using assms(1) by (cases s) (auto simp: p_frac_def)
    then show ?thesis using assms(2) by (cases r') (auto simp: p_frac_def)
  qed
  then show "p_frac (c @ r') = Some (c, r')" "c = [] \<or> hd c = CHR ''.''" by simp_all
qed

lemma p_sign_parts:
  assumes "p_sign s = Some (sg, r)"
  shows "sg = [] \<or> (\<exists>c. sg = [c] \<and> (c = CHR ''+'' \<or> c = CHR ''-''))"
  using assms by (cases s) (auto simp: p_sign_def split: if_splits)

lemma p_exp_extend:
  assumes "p_exp s = Some (d, r)" and "delim r'"
  shows "p_exp (d @ r') = Some (d, r')" and "d = [] \<or> hd d \<in> {CHR ''e'', CHR ''E''}"
proof -
  have "p_exp (d @ r') = Some (d, r') \<and> (d = [] \<or> hd d \<in> {CHR ''e'', CHR ''E''})"
  proof (cases "s \<noteq> [] \<and> (hd s = CHR ''e'' \<or> hd s = CHR ''E'')")
    case True
    then obtain c s' where s: "s = c # s'" and c: "c = CHR ''e'' \<or> c = CHR ''E''" by (cases s) auto
    obtain sg s2 where sg: "p_sign s' = Some (sg, s2)"
      using assms(1) s c by (auto simp: p_exp_def bind_eq_Some_conv)
    obtain ds where ds: "p_digits s2 = Some (ds, r)" "d = c # sg @ ds"
      using assms(1) s c sg by (auto simp: p_exp_def)
    have r': "r' = [] \<or> \<not> is_digit (hd r')" using assms(2) by (auto simp: delim_def)
    note e = p_digits_extend [OF ds(1) r']
    obtain x ds' where x: "ds = x # ds'" "is_digit x" using e(2,3) by (cases ds) auto
    have "p_sign (sg @ ds @ r') = Some (sg, ds @ r')"
      using p_sign_parts [OF sg] x is_digit_graphic [of x] by (auto simp: p_sign_def)
    with e(1) c show ?thesis by (auto simp: p_exp_def ds(2))
  next
    case False
    then have "d = []" using assms(1) by (cases s) (auto simp: p_exp_def)
    then show ?thesis using assms(2) by (cases r') (auto simp: p_exp_def delim_def)
  qed
  then show "p_exp (d @ r') = Some (d, r')" "d = [] \<or> hd d \<in> {CHR ''e'', CHR ''E''}" by simp_all
qed

definition num_ok :: "string \<Rightarrow> bool" where
  "num_ok n \<longleftrightarrow> n \<noteq> [] \<and> (is_digit (hd n) \<or> hd n = CHR ''-'') \<and>
     (\<forall>r. delim r \<longrightarrow> p_number (n @ r) = Some (n, r))"

lemma p_number_ok:
  assumes "p_number s = Some (n, r)"
  shows "num_ok n"
proof -
  obtain a s1 b s2 c s3 d where p: "p_minus s = Some (a, s1)" "p_int s1 = Some (b, s2)"
    "p_frac s2 = Some (c, s3)" "p_exp s3 = Some (d, r)" "n = a @ b @ c @ d"
    using assms by (auto simp: p_number_def bind_eq_Some_conv)
  have nd: "\<not> is_digit (CHR ''.'')" "\<not> is_digit (CHR ''e'')" "\<not> is_digit (CHR ''E'')"
    by code_simp+
  have "p_number (n @ r') = Some (n, r')" if r': "delim r'" for r'
  proof -
    note e = p_exp_extend [OF p(4) r']
    have f: "d @ r' = [] \<or> \<not> is_digit (hd (d @ r')) \<and> hd (d @ r') \<noteq> CHR ''.''"
      using e(2) r' nd by (cases d) (auto simp: delim_def)
    note g = p_frac_extend [OF p(3) f]
    have h: "c @ d @ r' = [] \<or> \<not> is_digit (hd (c @ d @ r'))"
      using g(2) f nd by (cases c) auto
    note i = p_int_extend [OF p(2) h]
    obtain x b' where x: "b = x # b'" "is_digit x" using i(2,3) by (cases b) auto
    have "p_minus (a @ b @ c @ d @ r') = Some (a, b @ c @ d @ r')"
      using p(1) x is_digit_graphic [of x] by (cases s) (auto simp: p_minus_def split: if_splits)
    then show ?thesis using e(1) g(1) i(1) by (simp add: p_number_def p(5))
  qed
  moreover have "n \<noteq> []" "is_digit (hd n) \<or> hd n = CHR ''-''"
    using p(1,5) p_int_extend(2,3) [OF p(2), of "[]"] by (cases s; auto simp: p_minus_def split: if_splits)+
  ultimately show ?thesis by (simp add: num_ok_def)
qed

section \<open>Values\<close>

fun json_wf :: "json \<Rightarrow> bool" where
  "json_wf (JNum n) = num_ok n"
| "json_wf (JStr s) = utf8_ok s"
| "json_wf (JArr vs) = list_all json_wf vs"
| "json_wf (JObj ms) = list_all (\<lambda>(k, v). utf8_ok k \<and> json_wf v) ms"
| "json_wf v = True"

lemma p_val_first:
  "skip_ws s = [] \<Longrightarrow> p_val (Suc n) s = None"
  "skip_ws s = CHR ''{'' # r \<Longrightarrow> p_val (Suc n) s = (case skip_ws r of [] \<Rightarrow> None | d # r1 \<Rightarrow>
     if d = CHR ''}'' then Some (JObj [], r1)
     else map_option (\<lambda>(ms, q). (JObj ms, q)) (p_members n (d # r1)))"
  "skip_ws s = CHR ''['' # r \<Longrightarrow> p_val (Suc n) s = (case skip_ws r of [] \<Rightarrow> None | d # r1 \<Rightarrow>
     if d = CHR '']'' then Some (JArr [], r1)
     else map_option (\<lambda>(vs, q). (JArr vs, q)) (p_elems n (d # r1)))"
  "skip_ws s = CHR 0x22 # r \<Longrightarrow> p_val (Suc n) s = map_option (\<lambda>(t, q). (JStr t, q)) (p_str r)"
  by simp_all

lemma p_val_other:
  assumes "skip_ws s = c # r" "c \<noteq> CHR ''{''" "c \<noteq> CHR ''[''" "c \<noteq> CHR 0x22"
  shows "p_val (Suc n) s = (if prefix ''null'' (c # r) then Some (JNull, drop 4 (c # r))
     else if prefix ''true'' (c # r) then Some (JBool True, drop 4 (c # r))
     else if prefix ''false'' (c # r) then Some (JBool False, drop 5 (c # r))
     else map_option (\<lambda>(d, q). (JNum d, q)) (p_number (c # r)))"
  using assms by simp

declare p_val.simps(2) [simp del]

lemma p_elems_cases:
  assumes "p_elems (Suc n) s = Some (vs, r)"
  obtains v where "\<exists>r0. p_val n s = Some (v, r0)" "vs = [v]"
  | v r1 vs' where "\<exists>r0. p_val n s = Some (v, r0)" "p_elems n r1 = Some (vs', r)" "vs = v # vs'"
proof -
  obtain v r0 where v: "p_val n s = Some (v, r0)" using assms by (cases "p_val n s") auto
  obtain c r1 where c: "skip_ws r0 = c # r1" using assms v by (cases "skip_ws r0") auto
  show ?thesis
  proof (cases "c = CHR '']''")
    case True
    with assms v c show ?thesis by (intro that(1)) auto
  next
    case False
    with assms v c show ?thesis by (cases "c = CHR '',''") (auto intro: that(2))
  qed
qed

lemma p_members_cases:
  assumes "p_members (Suc n) s = Some (ms, r)"
  obtains k v where "\<exists>q r0. p_str q = Some (k, r0)" "\<exists>q r0. p_val n q = Some (v, r0)" "ms = [(k, v)]"
  | k v r1 ms' where "\<exists>q r0. p_str q = Some (k, r0)" "\<exists>q r0. p_val n q = Some (v, r0)"
    "p_members n r1 = Some (ms', r)" "ms = (k, v) # ms'"
proof -
  obtain r0 where a: "skip_ws s = CHR 0x22 # r0" using assms by (cases "skip_ws s") (auto split: if_splits)
  obtain k r1 where k: "p_str r0 = Some (k, r1)" using assms a by (cases "p_str r0") auto
  obtain r2 where b: "skip_ws r1 = CHR '':'' # r2" using assms a k by (cases "skip_ws r1") (auto split: if_splits)
  obtain v r3 where v: "p_val n r2 = Some (v, r3)" using assms a k b by (cases "p_val n r2") auto
  obtain e r4 where e: "skip_ws r3 = e # r4" using assms a k b v by (cases "skip_ws r3") auto
  show ?thesis
  proof (cases "e = CHR ''}''")
    case True
    with assms a k b v e show ?thesis by (intro that(1)) auto
  next
    case False
    with assms a k b v e obtain ms' where "p_members n r4 = Some (ms', r)" "ms = (k, v) # ms'"
      by (cases "e = CHR '',''") auto
    with k v show ?thesis by (intro that(2) [of k v r4 ms']) auto
  qed
qed

lemma p_parsers_wf:
  "p_val n s = Some (v, r) \<Longrightarrow> json_wf v"
  "p_elems n s = Some (vs, r) \<Longrightarrow> list_all json_wf vs"
  "p_members n s = Some (ms, r) \<Longrightarrow> list_all (\<lambda>(k, v). utf8_ok k \<and> json_wf v) ms"
proof (induction n arbitrary: s v vs ms r)
  case (Suc n)
  {
    case 1
    show ?case
    proof (cases "skip_ws s")
      case Nil
      with 1 show ?thesis by (simp add: p_val_first)
    next
      case (Cons c r0)
      consider "c = CHR ''{''" | "c = CHR ''[''" | "c = CHR 0x22"
        | "c \<noteq> CHR ''{''" "c \<noteq> CHR ''[''" "c \<noteq> CHR 0x22" by blast
      then show ?thesis
      proof cases
        case (1)
        then show ?thesis using \<open>p_val (Suc n) s = Some (v, r)\<close> Cons Suc.IH(3)
          by (cases "skip_ws r0") (auto simp: p_val_first split: if_splits)
      next
        case 2
        then show ?thesis using \<open>p_val (Suc n) s = Some (v, r)\<close> Cons Suc.IH(2)
          by (cases "skip_ws r0") (auto simp: p_val_first split: if_splits)
      next
        case 3
        then show ?thesis using \<open>p_val (Suc n) s = Some (v, r)\<close> Cons
          by (auto simp: p_val_first dest: p_str_utf8)
      next
        case 4
        show ?thesis using \<open>p_val (Suc n) s = Some (v, r)\<close> unfolding p_val_other [OF Cons 4]
          by (auto split: if_splits dest: p_number_ok)
      qed
    qed
  next
    case 2
    then show ?case using Suc.IH(1,2) by (elim p_elems_cases) auto
  next
    case 3
    then show ?case using Suc.IH(1,3) p_str_utf8 by (elim p_members_cases) auto
  }
qed simp_all

lemma decode_wf: "json_decode s = Some v \<Longrightarrow> json_wf v" and unmarshal_wf: "json_unmarshal s = Some v \<Longrightarrow> json_wf v"
  by (auto simp: json_decode_def json_unmarshal_def split: option.splits if_splits dest: p_parsers_wf)

lemma go_map_keys: "map fst (go_map ms) = sort (remdups (map fst ms))"
  by (simp add: go_map_def o_def)

lemma map_of_go_map: "map_of (go_map ms) k = map_of (rev ms) k"
proof -
  have "map_of (go_map ms) k = (if k \<in> set (map fst ms) then Some (the (map_of (rev ms) k)) else None)"
    by (simp add: go_map_def map_of_map_restrict restrict_map_def)
  moreover have "map_of (rev ms) k \<noteq> None \<longleftrightarrow> k \<in> set (map fst ms)"
    using dom_map_of_conv_image_fst [of "rev ms"] by (auto simp: dom_def)
  ultimately show ?thesis by auto
qed

lemma go_map_distinct: "distinct (map fst (go_map ms))"
  by (simp add: go_map_keys)

lemma go_map_member: "(k, v) \<in> set (go_map ms) \<Longrightarrow> (k, v) \<in> set ms"
proof -
  assume "(k, v) \<in> set (go_map ms)"
  then have "map_of (go_map ms) k = Some v" using go_map_distinct [of ms] by simp
  then have "map_of (rev ms) k = Some v" by (simp add: map_of_go_map)
  then show ?thesis by (auto dest: map_of_SomeD)
qed

lemma to_any_wf: "json_wf v \<Longrightarrow> json_wf (to_any v)"
proof (induction v rule: to_any.induct)
  case (1 vs)
  then show ?case by (simp add: list_all_iff)
next
  case (2 ms)
  show ?case
    unfolding to_any.simps json_wf.simps list_all_iff
  proof (clarify)
    fix k w assume "(k, w) \<in> set (go_map (map (\<lambda>(k, v). (k, to_any v)) ms))"
    then obtain v where "(k, v) \<in> set ms" "w = to_any v" by (auto dest!: go_map_member)
    with 2 show "utf8_ok k \<and> json_wf w" by (auto simp: list_all_iff)
  qed
qed simp_all

lemma delim_chars [simp]: "delim []" "delim (CHR '','' # r)" "delim (CHR '']'' # r)" "delim (CHR ''}'' # r)"
  by (simp_all add: delim_def is_digit_def less_eq_char_def)

definition json_start :: "char \<Rightarrow> bool" where
  "json_start c \<longleftrightarrow> c \<in> {CHR ''n'', CHR ''t'', CHR ''f'', CHR 0x22, CHR ''['', CHR ''{'', CHR ''-''} \<or> is_digit c"

lemma json_start: "json_start c \<Longrightarrow> skip_ws (c # x) = c # x \<and> c \<noteq> CHR '']'' \<and> c \<noteq> CHR ''}''"
  by (auto simp: json_start_def skip_ws_def is_digit_def less_eq_char_def)

lemma marshal_first:
  assumes "json_wf v"
  obtains c r where "json_marshal v = c # r" "json_start c"
proof (cases v)
  case (JNum n)
  then show ?thesis using assms that by (cases n) (auto simp: num_ok_def json_start_def)
next
  case (JBool b)
  then show ?thesis using that by (cases b) (simp_all add: json_start_def)
qed (simp_all add: json_quote_def json_start_def that)

lemma p_elems_step:
  assumes "p_val n s = Some (v, r0)" and "skip_ws r0 = CHR '']'' # r"
  shows "p_elems (Suc n) s = Some ([v], r)"
  using assms by simp

lemma p_elems_step_comma:
  assumes "p_val n s = Some (v, r0)" and "skip_ws r0 = CHR '','' # r1" and "p_elems n r1 = Some (vs, r)"
  shows "p_elems (Suc n) s = Some (v # vs, r)"
  using assms by simp

lemma skip_ws_punct [simp]:
  "skip_ws (CHR '','' # r) = CHR '','' # r" "skip_ws (CHR '']'' # r) = CHR '']'' # r"
  "skip_ws (CHR ''}'' # r) = CHR ''}'' # r" "skip_ws (CHR '':'' # r) = CHR '':'' # r"
  "skip_ws (CHR 0x22 # r) = CHR 0x22 # r" "skip_ws (CHR ''['' # r) = CHR ''['' # r"
  "skip_ws (CHR ''{'' # r) = CHR ''{'' # r"
  by (simp_all add: skip_ws_def)

text \<open>Enough fuel for a value is its length and one more.\<close>

definition reads :: "json \<Rightarrow> bool" where
  "reads v \<longleftrightarrow> (\<forall>n rest. length (json_marshal v) < n \<longrightarrow> delim rest \<longrightarrow>
     p_val n (json_marshal v @ rest) = Some (v, rest))"

lemma readsD: "reads v \<Longrightarrow> length (json_marshal v) < n \<Longrightarrow> delim rest \<Longrightarrow>
    p_val n (json_marshal v @ rest) = Some (v, rest)"
  by (simp add: reads_def)

lemma p_elems_commas:
  assumes "list_all reads vs" and "vs \<noteq> []" and "length (commas (map json_marshal vs)) + 1 < n"
  shows "p_elems n (commas (map json_marshal vs) @ CHR '']'' # rest) = Some (vs, rest)"
  using assms
proof (induction vs arbitrary: n)
  case (Cons v vs)
  then obtain m where n: "n = Suc m" by (cases n) auto
  show ?case
  proof (cases vs)
    case Nil
    then have "p_val m (json_marshal v @ CHR '']'' # rest) = Some (v, CHR '']'' # rest)"
      using Cons.prems n by (intro readsD) simp_all
    then show ?thesis using Nil n by (simp add: p_elems_step)
  next
    case (Cons w ws)
    let ?t = "commas (map json_marshal vs) @ CHR '']'' # rest"
    have "p_val m (json_marshal v @ CHR '','' # ?t) = Some (v, CHR '','' # ?t)"
      using Cons.prems n Cons by (intro readsD) simp_all
    moreover have "p_elems m ?t = Some (vs, rest)"
      using Cons.prems n Cons by (intro Cons.IH) simp_all
    ultimately show ?thesis using n Cons by (simp add: p_elems_step_comma)
  qed
qed simp

abbreviation member_text :: "string \<times> json \<Rightarrow> string" where
  "member_text \<equiv> \<lambda>(k, v). json_quote k @ CHR '':'' # json_marshal v"

lemma p_members_head:
  assumes "utf8_ok k" and "p_val n (json_marshal v @ r3) = Some (v, r3)"
  shows "p_members (Suc n) (member_text (k, v) @ r3) = (case skip_ws r3 of [] \<Rightarrow> None | e # r4 \<Rightarrow>
     if e = CHR ''}'' then Some ([(k, v)], r4)
     else if e = CHR '','' then map_option (\<lambda>(ms, q). ((k, v) # ms, q)) (p_members n r4) else None)"
  using assms(2) p_str_quote_chars [OF assms(1), of "CHR '':'' # json_marshal v @ r3"]
  by (simp add: json_quote_def)

lemma p_members_commas:
  assumes "list_all (\<lambda>(k, v). utf8_ok k \<and> reads v) ms" and "ms \<noteq> []"
    and "length (commas (map member_text ms)) + 1 < n"
  shows "p_members n (commas (map member_text ms) @ CHR ''}'' # rest) = Some (ms, rest)"
  using assms
proof (induction ms arbitrary: n)
  case (Cons m ms)
  obtain k v where kv: "m = (k, v)" by fastforce
  obtain n' where n: "n = Suc n'" using Cons.prems by (cases n) auto
  have ok: "utf8_ok k" "reads v" using Cons.prems kv by simp_all
  show ?case
  proof (cases ms)
    case Nil
    have "p_val n' (json_marshal v @ CHR ''}'' # rest) = Some (v, CHR ''}'' # rest)"
      using Cons.prems n kv Nil by (intro readsD [OF ok(2)]) simp_all
    from p_members_head [OF ok(1) this] show ?thesis using Nil n kv by simp
  next
    case (Cons m2 ms2)
    let ?t = "commas (map member_text ms) @ CHR ''}'' # rest"
    have "p_val n' (json_marshal v @ CHR '','' # ?t) = Some (v, CHR '','' # ?t)"
      using Cons.prems n kv Cons by (intro readsD [OF ok(2)]) simp_all
    note h = p_members_head [OF ok(1) this]
    have "p_members n' ?t = Some (ms, rest)"
      using Cons.prems n Cons kv by (intro Cons.IH) simp_all
    with h show ?thesis using n Cons kv by simp
  qed
qed simp

lemma commas_ne: "vs \<noteq> [] \<Longrightarrow> commas (x # vs) = x @ CHR '','' # commas vs"
  by (cases vs) simp_all

lemma commas_first: "xs \<noteq> [] \<Longrightarrow> hd xs = c # t \<Longrightarrow> \<exists>t'. commas xs = c # t'"
  by (cases xs rule: commas.cases) auto

lemma readsI:
  assumes "\<And>m rest. length (json_marshal v) \<le> m \<Longrightarrow> delim rest \<Longrightarrow>
    p_val (Suc m) (json_marshal v @ rest) = Some (v, rest)"
  shows "reads v"
  unfolding reads_def
proof (intro allI impI)
  fix n rest assume n: "length (json_marshal v) < n" and d: "delim rest"
  obtain m where "n = Suc m" "length (json_marshal v) \<le> m" using n by (cases n) auto
  with assms [OF _ d] show "p_val n (json_marshal v @ rest) = Some (v, rest)" by simp
qed

lemma reads_num: "num_ok x \<Longrightarrow> reads (JNum x)"
proof (rule readsI)
  fix m rest assume num: "num_ok x" and "delim rest"
  then have p: "p_number (x @ rest) = Some (x, rest)" by (simp add: num_ok_def)
  obtain c r where x: "x = c # r" and c: "is_digit c \<or> c = CHR ''-''" using num by (cases x) (auto simp: num_ok_def)
  then have "json_start c" by (auto simp: json_start_def)
  from c have ne: "c \<noteq> CHR ''{''" "c \<noteq> CHR ''[''" "c \<noteq> CHR 0x22" "c \<noteq> CHR ''n''" "c \<noteq> CHR ''t''" "c \<noteq> CHR ''f''"
    by (auto simp: is_digit_def less_eq_char_def)
  have "skip_ws (x @ rest) = c # r @ rest" using json_start [OF \<open>json_start c\<close>] x by simp
  then show "p_val (Suc m) (json_marshal (JNum x) @ rest) = Some (JNum x, rest)"
    using p_val_other [of "x @ rest" c "r @ rest" m] ne x p by simp
qed

lemma reads_arr:
  assumes "list_all json_wf vs" and "list_all reads vs"
  shows "reads (JArr vs)"
proof (rule readsI)
  fix m rest assume m: "length (json_marshal (JArr vs)) \<le> m"
  show "p_val (Suc m) (json_marshal (JArr vs) @ rest) = Some (JArr vs, rest)"
  proof (cases vs)
    case Nil
    then show ?thesis by (simp add: p_val_first)
  next
    case (Cons v ws)
    obtain c t where "json_marshal v = c # t" and c: "json_start c"
      using assms(1) Cons by (auto elim: marshal_first)
    then obtain t' where t': "commas (map json_marshal vs) = c # t'"
      using commas_first [of "map json_marshal vs" c t] Cons by auto
    have "p_elems m (commas (map json_marshal vs) @ CHR '']'' # rest) = Some (vs, rest)"
      using m Cons by (intro p_elems_commas assms) simp_all
    then show ?thesis
      using json_start [OF c, of "t' @ CHR '']'' # rest"] by (simp add: p_val_first t')
  qed
qed

lemma reads_obj:
  assumes "list_all (\<lambda>(k, v). utf8_ok k \<and> reads v) ms"
  shows "reads (JObj ms)"
proof (rule readsI)
  fix m rest assume m: "length (json_marshal (JObj ms)) \<le> m"
  show "p_val (Suc m) (json_marshal (JObj ms) @ rest) = Some (JObj ms, rest)"
  proof (cases ms)
    case Nil
    then show ?thesis by (simp add: p_val_first)
  next
    case (Cons kv ws)
    have "hd (map member_text ms) = CHR 0x22 # tl (member_text kv)"
      using Cons by (simp add: json_quote_def split: prod.splits)
    then obtain t' where t': "commas (map member_text ms) = CHR 0x22 # t'"
      using commas_first [of "map member_text ms"] Cons by blast
    have "p_members m (commas (map member_text ms) @ CHR ''}'' # rest) = Some (ms, rest)"
      using m Cons by (intro p_members_commas assms) simp_all
    then show ?thesis by (simp add: p_val_first t')
  qed
qed

lemma marshal_reads: "json_wf v \<Longrightarrow> reads v"
proof (induction v)
  case (JNum x)
  then show ?case by (simp add: reads_num)
next
  case (JStr x)
  then show ?case by (intro readsI) (simp add: json_quote_def p_val_first p_str_quote_chars)
next
  case (JArr vs)
  then show ?case by (intro reads_arr) (auto simp: list_all_iff)
next
  case (JObj ms)
  then show ?case by (intro reads_obj) (fastforce simp: list_all_iff)
next
  case (JBool b)
  show ?case by (rule readsI) (simp add: p_val_other [of "_ # _"] skip_ws_def)
next
  case JNull
  show ?case by (rule readsI) (simp add: p_val_other [of "_ # _"] skip_ws_def)
qed

lemma decode_marshal: "json_wf v \<Longrightarrow> json_decode (json_marshal v) = Some v"
proof -
  assume "json_wf v"
  then have "p_val (Suc (length (json_marshal v))) (json_marshal v @ []) = Some (v, [])"
    by (intro readsD marshal_reads) simp_all
  then show ?thesis by (simp only: json_decode_def append_Nil2 option.map fst_conv)
qed

lemma marshal_inj: "json_wf v \<Longrightarrow> json_wf w \<Longrightarrow> json_marshal v = json_marshal w \<Longrightarrow> v = w"
  by (metis decode_marshal option.inject)

lemma marshal_nonempty: "json_wf v \<Longrightarrow> json_marshal v \<noteq> []"
  by (elim marshal_first) (simp only: list.distinct not_False_eq_True)

end
