(* ===== verification/Hot_Diff.thy ===== *)
theory Hot_Diff
  imports Go_Json "HOL-Library.Multiset"
begin

text \<open>
  \<open>internal/xray/hot_diff.go\<close>: the difference between two generated Xray configurations as a list of
  API operations, and \<open>tryHotApply\<close> of \<open>internal/web/service/xray.go\<close>, which sends them to the running
  core.  A raw JSON section (\<open>json_util.RawMessage\<close>) is its text; maps that Go iterates in no particular
  order are association lists, and the properties hold for every order of the resulting operations.

  The core itself is not part of the repository.  It enters as a record of operations on an opaque state
  (\<open>core_api\<close>), with \<open>core_laws\<close> for what its HandlerService and RoutingService promise about the
  configuration in force, \<open>running\<close>.
\<close>

section \<open>Configurations\<close>

type_synonym raw = string

record inboundConfig =
  ibListen :: raw
  ibPort :: int
  ibProtocol :: string
  ibSettings :: raw
  ibStreamSettings :: raw
  ibTag :: string
  ibSniffing :: raw

record config =
  LogConfig :: raw
  RouterConfig :: raw
  DNSConfig :: raw
  InboundConfigs :: "inboundConfig list"
  OutboundConfigs :: raw
  Transport :: raw
  Policy :: raw
  API :: raw
  Stats :: raw
  Reverse :: raw
  FakeDNS :: raw
  Observatory :: raw
  BurstObservatory :: raw
  Metrics :: raw
  Geodata :: raw
  Env :: raw

record userOp =
  uoTag :: string
  uoProtocol :: string
  uoEmail :: string
  uoUser :: "json option"

text \<open>\<open>AddedInbounds\<close> and \<open>AddedOutbounds\<close> are texts; they are kept here as the inbound that was
  marshalled and as the syntax tree of the outbound's text.\<close>

record hotDiff =
  RemovedInboundTags :: "string list"
  AddedInbounds :: "inboundConfig list"
  RemovedUsers :: "userOp list"
  AddedUsers :: "userOp list"
  DroppedClients :: "userOp list"
  RemovedOutboundTags :: "string list"
  AddedOutbounds :: "json list"
  RoutingConfig :: "raw option"

definition emptyDiff :: hotDiff where
  "emptyDiff = \<lparr>RemovedInboundTags = [], AddedInbounds = [], RemovedUsers = [], AddedUsers = [],
     DroppedClients = [], RemovedOutboundTags = [], AddedOutbounds = [], RoutingConfig = None\<rparr>"

definition DropsUsers :: "hotDiff \<Rightarrow> bool" where
  "DropsUsers d =
     (if DroppedClients d \<noteq> [] then True
      else if RemovedUsers d = [] then False
      else let readded = map (\<lambda>u. uoTag u @ CHR 0x00 # uoEmail u) (AddedUsers d)
           in list_ex (\<lambda>u. uoTag u @ CHR 0x00 # uoEmail u \<notin> set readded) (RemovedUsers d))"

definition diffEmpty :: "hotDiff \<Rightarrow> bool" where
  "diffEmpty d \<longleftrightarrow> RemovedInboundTags d = [] \<and> AddedInbounds d = [] \<and> RemovedUsers d = [] \<and>
     AddedUsers d = [] \<and> RemovedOutboundTags d = [] \<and> AddedOutbounds d = [] \<and> RoutingConfig d = None"

section \<open>Comparing JSON\<close>

text \<open>The canonical text of a value; \<open>null\<close> and an absent section are the empty text.\<close>

definition canonicalValue :: "json \<Rightarrow> string" where
  "canonicalValue v = (if v = JNull then [] else json_marshal (to_any v))"

definition canonicalJSON :: "raw \<Rightarrow> string option" where
  "canonicalJSON raw = (if length raw = 0 then Some [] else
     case json_decode raw of None \<Rightarrow> None | Some v \<Rightarrow> Some (canonicalValue v))"

definition rawEqualNormalized :: "raw \<Rightarrow> raw \<Rightarrow> bool" where
  "rawEqualNormalized a b = (if a = b then True else
     case canonicalJSON a of None \<Rightarrow> False | Some na \<Rightarrow>
     case canonicalJSON b of None \<Rightarrow> False | Some nb \<Rightarrow> na = nb)"

definition inboundEqualNormalized :: "inboundConfig \<Rightarrow> inboundConfig \<Rightarrow> bool" where
  "inboundEqualNormalized a b \<longleftrightarrow> ibPort a = ibPort b \<and> ibProtocol a = ibProtocol b \<and> ibTag a = ibTag b \<and>
     rawEqualNormalized (ibListen a) (ibListen b) \<and> rawEqualNormalized (ibSettings a) (ibSettings b) \<and>
     rawEqualNormalized (ibStreamSettings a) (ibStreamSettings b) \<and>
     rawEqualNormalized (ibSniffing a) (ibSniffing b)"

definition InboundConfig_Equals :: "inboundConfig \<Rightarrow> inboundConfig \<Rightarrow> bool" where
  "InboundConfig_Equals a b =
     (if ibListen a \<noteq> ibListen b then False else if ibPort a \<noteq> ibPort b then False
      else if ibProtocol a \<noteq> ibProtocol b then False else if ibSettings a \<noteq> ibSettings b then False
      else if ibStreamSettings a \<noteq> ibStreamSettings b then False else if ibTag a \<noteq> ibTag b then False
      else if ibSniffing a \<noteq> ibSniffing b then False else True)"

definition Config_Equals :: "config \<Rightarrow> config \<Rightarrow> bool" where
  "Config_Equals c d =
     (if length (InboundConfigs c) \<noteq> length (InboundConfigs d) then False
      else if \<not> list_all2 InboundConfig_Equals (InboundConfigs c) (InboundConfigs d) then False
      else if LogConfig c \<noteq> LogConfig d then False else if RouterConfig c \<noteq> RouterConfig d then False
      else if DNSConfig c \<noteq> DNSConfig d then False else if OutboundConfigs c \<noteq> OutboundConfigs d then False
      else if Transport c \<noteq> Transport d then False else if Policy c \<noteq> Policy d then False
      else if API c \<noteq> API d then False else if Stats c \<noteq> Stats d then False
      else if Reverse c \<noteq> Reverse d then False else if FakeDNS c \<noteq> FakeDNS d then False
      else if Observatory c \<noteq> Observatory d then False
      else if BurstObservatory c \<noteq> BurstObservatory d then False
      else if Metrics c \<noteq> Metrics d then False else if Geodata c \<noteq> Geodata d then False
      else if Env c \<noteq> Env d then False else True)"

section \<open>Clients of an inbound\<close>

text \<open>The clients by email and the rest of the settings in canonical form.\<close>

fun index_clients :: "json list \<Rightarrow> (string \<times> json) list \<Rightarrow> (string \<times> json) list option" where
  "index_clients [] clients = Some clients"
| "index_clients (c # cs) clients = (case c of
     JObj obj \<Rightarrow> (case map_of obj ''email'' of
         Some (JStr email) \<Rightarrow>
           if email = [] then None
           else if map_of clients email \<noteq> None then None
           else index_clients cs (clients @ [(email, JObj obj)])
       | _ \<Rightarrow> None)
   | _ \<Rightarrow> None)"

definition delete_key :: "string \<Rightarrow> (string \<times> 'a) list \<Rightarrow> (string \<times> 'a) list" where
  "delete_key k ms = filter (\<lambda>m. fst m \<noteq> k) ms"

definition splitSettingsClients :: "raw \<Rightarrow> ((string \<times> json) list \<times> string) option" where
  "splitSettingsClients raw = (if length raw = 0 then None else
     case map_option to_any (json_decode raw) of
       Some (JObj settings) \<Rightarrow> (case map_of settings ''clients'' of
           Some (JArr clientsRaw) \<Rightarrow> (case index_clients clientsRaw [] of
               None \<Rightarrow> None
             | Some clients \<Rightarrow> Some (clients, json_marshal (JObj (delete_key ''clients'' settings))))
         | _ \<Rightarrow> None)
     | _ \<Rightarrow> None)"

definition droppedClients :: "inboundConfig \<Rightarrow> inboundConfig \<Rightarrow> userOp list" where
  "droppedClients oldIb newIb =
     (case splitSettingsClients (ibSettings oldIb) of None \<Rightarrow> [] | Some (oldClients, _) \<Rightarrow>
      case splitSettingsClients (ibSettings newIb) of None \<Rightarrow> [] | Some (newClients, _) \<Rightarrow>
        map (\<lambda>(email, _). \<lparr>uoTag = ibTag newIb, uoProtocol = ibProtocol newIb, uoEmail = email, uoUser = None\<rparr>)
          (filter (\<lambda>(email, _). map_of newClients email = None) oldClients))"

definition userDiffableProtocols :: "string list" where
  "userDiffableProtocols = [''vless'', ''vmess'', ''trojan'']"

definition removal :: "inboundConfig \<Rightarrow> string \<Rightarrow> userOp" where
  "removal ib email = \<lparr>uoTag = ibTag ib, uoProtocol = ibProtocol ib, uoEmail = email, uoUser = None\<rparr>"

definition addition :: "inboundConfig \<Rightarrow> string \<Rightarrow> json \<Rightarrow> userOp" where
  "addition ib email user = \<lparr>uoTag = ibTag ib, uoProtocol = ibProtocol ib, uoEmail = email, uoUser = Some user\<rparr>"

fun diff_old_users :: "inboundConfig \<Rightarrow> (string \<times> json) list \<Rightarrow> (string \<times> json) list \<Rightarrow> hotDiff \<Rightarrow> hotDiff" where
  "diff_old_users ib newClients [] diff = diff"
| "diff_old_users ib newClients ((email, oldC) # cs) diff =
     (case map_of newClients email of
        Some newC \<Rightarrow>
          if json_marshal oldC = json_marshal newC then diff_old_users ib newClients cs diff
          else diff_old_users ib newClients cs
            (diff\<lparr>RemovedUsers := RemovedUsers diff @ [removal ib email],
                  AddedUsers := AddedUsers diff @ [addition ib email newC]\<rparr>)
      | None \<Rightarrow> diff_old_users ib newClients cs
            (diff\<lparr>RemovedUsers := RemovedUsers diff @ [removal ib email]\<rparr>))"

fun diff_new_users :: "inboundConfig \<Rightarrow> (string \<times> json) list \<Rightarrow> (string \<times> json) list \<Rightarrow> hotDiff \<Rightarrow> hotDiff" where
  "diff_new_users ib oldClients [] diff = diff"
| "diff_new_users ib oldClients ((email, newC) # cs) diff =
     (if map_of oldClients email = None
      then diff_new_users ib oldClients cs (diff\<lparr>AddedUsers := AddedUsers diff @ [addition ib email newC]\<rparr>)
      else diff_new_users ib oldClients cs diff)"

definition diffInboundUsers :: "inboundConfig \<Rightarrow> inboundConfig \<Rightarrow> hotDiff \<Rightarrow> hotDiff option" where
  "diffInboundUsers oldIb newIb diff =
     (if ibPort oldIb \<noteq> ibPort newIb \<or> ibProtocol oldIb \<noteq> ibProtocol newIb \<or> ibTag oldIb \<noteq> ibTag newIb then None
      else if ibProtocol oldIb \<notin> set userDiffableProtocols then None
      else if \<not> rawEqualNormalized (ibListen oldIb) (ibListen newIb) \<or>
              \<not> rawEqualNormalized (ibStreamSettings oldIb) (ibStreamSettings newIb) \<or>
              \<not> rawEqualNormalized (ibSniffing oldIb) (ibSniffing newIb) then None
      else case splitSettingsClients (ibSettings oldIb) of None \<Rightarrow> None | Some (oldClients, oldRest) \<Rightarrow>
           case splitSettingsClients (ibSettings newIb) of None \<Rightarrow> None | Some (newClients, newRest) \<Rightarrow>
             if oldRest \<noteq> newRest then None
             else Some (diff_new_users oldIb oldClients newClients
                    (diff_old_users oldIb newClients oldClients diff)))"

section \<open>Inbounds that cannot be swapped\<close>

definition inboundUsesReality :: "inboundConfig \<Rightarrow> bool" where
  "inboundUsesReality ib = (if length (ibStreamSettings ib) = 0 then False else
     case unmarshal_field ''security'' set_string [] (ibStreamSettings ib) of
       None \<Rightarrow> False | Some security \<Rightarrow> security = ''reality'')"

definition inboundUsesTproxy :: "inboundConfig \<Rightarrow> bool" where
  "inboundUsesTproxy ib = (if length (ibStreamSettings ib) = 0 then False else
     case unmarshal_field ''sockopt'' (set_struct ''tproxy'' set_string) [] (ibStreamSettings ib) of
       None \<Rightarrow> False | Some tproxy \<Rightarrow> tproxy \<noteq> [] \<and> tproxy \<noteq> ''off'')"

definition inboundUsesSocksAccounts :: "inboundConfig \<Rightarrow> bool" where
  "inboundUsesSocksAccounts ib = (if ibProtocol ib \<noteq> ''socks'' \<or> length (ibSettings ib) = 0 then False else
     case unmarshal_field ''auth'' set_string [] (ibSettings ib) of
       None \<Rightarrow> False | Some auth \<Rightarrow> auth = ''password'')"

text \<open>The \<open>reverse\<close> field of each client, \<open>None\<close> when it is absent; an element that is \<open>null\<close> is the
  zero struct.\<close>

definition set_client :: "json option \<Rightarrow> json \<Rightarrow> json option option" where
  "set_client old v = set_struct ''reverse'' (\<lambda>_ w. Some (Some w)) old v"

fun set_client_list :: "json option list \<Rightarrow> json list \<Rightarrow> json option list option" where
  "set_client_list old [] = Some []"
| "set_client_list old (v # vs) =
     (case set_client (if old = [] then None else hd old) v of None \<Rightarrow> None
      | Some c \<Rightarrow> map_option (Cons c) (set_client_list (tl old) vs))"

definition set_clients :: "json option list \<Rightarrow> json \<Rightarrow> json option list option" where
  "set_clients old v = (case v of JNull \<Rightarrow> Some [] | JArr vs \<Rightarrow> set_client_list old vs | _ \<Rightarrow> None)"

definition inboundHasReverseClient :: "inboundConfig \<Rightarrow> bool" where
  "inboundHasReverseClient ib =
     (case unmarshal_field ''clients'' set_clients [] (ibSettings ib) of None \<Rightarrow> False
      | Some clients \<Rightarrow> list_ex (\<lambda>c. case c of None \<Rightarrow> False | Some tag \<Rightarrow> tag \<noteq> JNull) clients)"

definition apiTagFromConfig :: "raw \<Rightarrow> string" where
  "apiTagFromConfig api = (if length api > 0 then
     (case unmarshal_field ''tag'' set_string [] api of
        Some tag \<Rightarrow> if tag \<noteq> [] then tag else ''api'' | None \<Rightarrow> ''api'')
     else ''api'')"

section \<open>Inbounds\<close>

fun inboundsByTag :: "inboundConfig list \<Rightarrow> (string \<times> inboundConfig) list \<Rightarrow> (string \<times> inboundConfig) list option" where
  "inboundsByTag [] byTag = Some byTag"
| "inboundsByTag (ib # ibs) byTag =
     (if ibTag ib = [] then None
      else if map_of byTag (ibTag ib) \<noteq> None then None
      else inboundsByTag ibs (byTag @ [(ibTag ib, ib)]))"

text \<open>\<open>json.Marshal(newIb)\<close> fails exactly when a raw section that is present is not JSON.\<close>

definition marshalInbound :: "inboundConfig \<Rightarrow> inboundConfig option" where
  "marshalInbound ib =
     (if list_all (\<lambda>r. r = [] \<or> json_unmarshal r \<noteq> None)
           [ibListen ib, ibSettings ib, ibStreamSettings ib, ibSniffing ib] then Some ib else None)"

definition addInbound :: "inboundConfig \<Rightarrow> hotDiff \<Rightarrow> hotDiff option" where
  "addInbound ib diff =
     map_option (\<lambda>r. diff\<lparr>AddedInbounds := AddedInbounds diff @ [r]\<rparr>) (marshalInbound ib)"

definition swapInbound :: "inboundConfig \<Rightarrow> inboundConfig \<Rightarrow> hotDiff \<Rightarrow> hotDiff option" where
  "swapInbound oldIb newIb diff =
     (if inboundUsesReality oldIb \<or> inboundUsesReality newIb then None
      else if inboundUsesTproxy oldIb \<or> inboundUsesTproxy newIb then None
      else if inboundUsesSocksAccounts oldIb \<or> inboundUsesSocksAccounts newIb then None
      else addInbound newIb (diff\<lparr>RemovedInboundTags := RemovedInboundTags diff @ [ibTag oldIb]\<rparr>))"

definition diffOldInbound ::
  "string \<Rightarrow> (string \<times> inboundConfig) list \<Rightarrow> inboundConfig \<Rightarrow> hotDiff \<Rightarrow> hotDiff option" where
  "diffOldInbound apiTag newByTag oldIb diff =
     (case map_of newByTag (ibTag oldIb) of
        Some newIb \<Rightarrow>
          if inboundEqualNormalized oldIb newIb then Some diff
          else if ibTag oldIb = apiTag \<or> ibTag oldIb = ''api'' then None
          else if inboundHasReverseClient oldIb \<or> inboundHasReverseClient newIb then None
          else let diff = diff\<lparr>DroppedClients := DroppedClients diff @ droppedClients oldIb newIb\<rparr>
               in (case diffInboundUsers oldIb newIb diff of
                     Some diff \<Rightarrow> Some diff
                   | None \<Rightarrow> swapInbound oldIb newIb diff)
      | None \<Rightarrow>
          if ibTag oldIb = apiTag \<or> ibTag oldIb = ''api'' then None
          else Some (diff\<lparr>RemovedInboundTags := RemovedInboundTags diff @ [ibTag oldIb]\<rparr>))"

definition diffNewInbound ::
  "string \<Rightarrow> (string \<times> inboundConfig) list \<Rightarrow> inboundConfig \<Rightarrow> hotDiff \<Rightarrow> hotDiff option" where
  "diffNewInbound apiTag oldByTag newIb diff =
     (if map_of oldByTag (ibTag newIb) \<noteq> None then Some diff
      else if ibTag newIb = apiTag \<or> ibTag newIb = ''api'' then None
      else if inboundUsesTproxy newIb then None
      else if inboundUsesSocksAccounts newIb then None
      else addInbound newIb diff)"

fun for_each :: "('a \<Rightarrow> 's \<Rightarrow> 's option) \<Rightarrow> 'a list \<Rightarrow> 's \<Rightarrow> 's option" where
  "for_each f [] s = Some s"
| "for_each f (x # xs) s = (case f x s of None \<Rightarrow> None | Some s \<Rightarrow> for_each f xs s)"

definition diffInbounds :: "config \<Rightarrow> config \<Rightarrow> hotDiff \<Rightarrow> hotDiff option" where
  "diffInbounds oldCfg newCfg diff =
     (case inboundsByTag (InboundConfigs oldCfg) [] of None \<Rightarrow> None | Some oldByTag \<Rightarrow>
      case inboundsByTag (InboundConfigs newCfg) [] of None \<Rightarrow> None | Some newByTag \<Rightarrow>
        (let apiTag = apiTagFromConfig (API newCfg) in
         Option.bind (for_each (diffOldInbound apiTag newByTag) (InboundConfigs oldCfg) diff)
           (for_each (diffNewInbound apiTag oldByTag) (InboundConfigs newCfg))))"

section \<open>Outbounds\<close>

record outboundEntry =
  oeTag :: string
  oeRaw :: json
  oeNorm :: string

fun parse_entries :: "json list \<Rightarrow> outboundEntry list \<Rightarrow> outboundEntry list option" where
  "parse_entries [] entries = Some entries"
| "parse_entries (elem # es) entries =
     (case set_struct ''tag'' set_string [] elem of None \<Rightarrow> None | Some tag \<Rightarrow>
        if tag = [] then None
        else if tag \<in> set (map oeTag entries) then None
        else parse_entries es (entries @ [\<lparr>oeTag = tag, oeRaw = elem, oeNorm = canonicalValue elem\<rparr>]))"

definition parseOutbounds :: "raw \<Rightarrow> outboundEntry list option" where
  "parseOutbounds raw = (if length raw = 0 then Some [] else
     case json_unmarshal raw of
       Some JNull \<Rightarrow> Some []
     | Some (JArr elems) \<Rightarrow> parse_entries elems []
     | _ \<Rightarrow> None)"

definition entryByTag :: "outboundEntry list \<Rightarrow> string \<Rightarrow> outboundEntry option" where
  "entryByTag es = map_of (map (\<lambda>e. (oeTag e, e)) es)"

fun diff_old_outbounds :: "outboundEntry list \<Rightarrow> outboundEntry list \<Rightarrow> hotDiff \<Rightarrow> hotDiff" where
  "diff_old_outbounds newOut [] diff = diff"
| "diff_old_outbounds newOut (oldE # es) diff =
     (case entryByTag newOut (oeTag oldE) of
        Some newE \<Rightarrow> if oeNorm oldE = oeNorm newE then diff_old_outbounds newOut es diff
          else diff_old_outbounds newOut es
            (diff\<lparr>RemovedOutboundTags := RemovedOutboundTags diff @ [oeTag oldE],
                  AddedOutbounds := AddedOutbounds diff @ [oeRaw newE]\<rparr>)
      | None \<Rightarrow> diff_old_outbounds newOut es
            (diff\<lparr>RemovedOutboundTags := RemovedOutboundTags diff @ [oeTag oldE]\<rparr>))"

fun diff_new_outbounds :: "outboundEntry list \<Rightarrow> outboundEntry list \<Rightarrow> hotDiff \<Rightarrow> hotDiff" where
  "diff_new_outbounds oldOut [] diff = diff"
| "diff_new_outbounds oldOut (newE # es) diff =
     (if entryByTag oldOut (oeTag newE) = None
      then diff_new_outbounds oldOut es (diff\<lparr>AddedOutbounds := AddedOutbounds diff @ [oeRaw newE]\<rparr>)
      else diff_new_outbounds oldOut es diff)"

definition diffOutbounds :: "config \<Rightarrow> config \<Rightarrow> hotDiff \<Rightarrow> hotDiff option" where
  "diffOutbounds oldCfg newCfg diff =
     (case parseOutbounds (OutboundConfigs oldCfg) of None \<Rightarrow> None | Some oldOut \<Rightarrow>
      case parseOutbounds (OutboundConfigs newCfg) of None \<Rightarrow> None | Some newOut \<Rightarrow>
        if (oldOut = []) \<noteq> (newOut = []) then None
        else if oldOut \<noteq> [] \<and> (oeTag (hd oldOut) \<noteq> oeTag (hd newOut) \<or> oeNorm (hd oldOut) \<noteq> oeNorm (hd newOut))
          then None
        else Some (diff_new_outbounds oldOut newOut (diff_old_outbounds newOut oldOut diff)))"

section \<open>Routing\<close>

definition routingWithoutReloadable :: "raw \<Rightarrow> string option" where
  "routingWithoutReloadable raw =
     (if length raw > 0 then
        (case map_option to_any (json_decode raw) of
           Some (JObj ms) \<Rightarrow> Some (json_marshal (JObj (delete_key ''balancers'' (delete_key ''rules'' ms))))
         | Some JNull \<Rightarrow> Some ''null''
         | _ \<Rightarrow> None)
      else Some (json_marshal (JObj [])))"

definition diffRouting :: "config \<Rightarrow> config \<Rightarrow> hotDiff \<Rightarrow> hotDiff option" where
  "diffRouting oldCfg newCfg diff =
     (if RouterConfig oldCfg = RouterConfig newCfg then Some diff
      else if length (RouterConfig oldCfg) = 0 \<or> length (RouterConfig newCfg) = 0 then None
      else case routingWithoutReloadable (RouterConfig oldCfg) of None \<Rightarrow> None | Some oldRest \<Rightarrow>
           case routingWithoutReloadable (RouterConfig newCfg) of None \<Rightarrow> None | Some newRest \<Rightarrow>
             if oldRest \<noteq> newRest then None
             else Some (diff\<lparr>RoutingConfig := Some (RouterConfig newCfg)\<rparr>))"

section \<open>The difference\<close>

definition static_sections :: "config \<Rightarrow> raw list" where
  "static_sections c = [LogConfig c, DNSConfig c, Transport c, Policy c, API c, Stats c, Reverse c, FakeDNS c,
     Observatory c, BurstObservatory c, Metrics c, Geodata c, Env c]"

definition ComputeHotDiff :: "config option \<Rightarrow> config option \<Rightarrow> hotDiff option" where
  "ComputeHotDiff oldCfg newCfg =
     (case (oldCfg, newCfg) of
        (Some oldCfg, Some newCfg) \<Rightarrow>
          if \<not> list_all2 rawEqualNormalized (static_sections oldCfg) (static_sections newCfg) then None
          else Option.bind (diffInbounds oldCfg newCfg emptyDiff) (\<lambda>diff.
               Option.bind (diffOutbounds oldCfg newCfg diff) (\<lambda>diff. diffRouting oldCfg newCfg diff))
      | _ \<Rightarrow> None)"

section \<open>Applying a difference\<close>

text \<open>Errors of the core are their messages.\<close>

definition contains :: "string \<Rightarrow> string \<Rightarrow> bool" where
  "contains s sub = list_ex (prefix sub) (suffixes s)"

definition IsMissingHandlerErr :: "string option \<Rightarrow> bool" where
  "IsMissingHandlerErr err = (case err of None \<Rightarrow> False | Some e \<Rightarrow>
     contains (lower e) ''not found'' \<or> contains (lower e) ''not enough information'')"

definition IsExistingTagErr :: "string option \<Rightarrow> bool" where
  "IsExistingTagErr err = (case err of None \<Rightarrow> False | Some e \<Rightarrow> contains (lower e) ''existing tag'')"

definition IsUserExistsErr :: "string option \<Rightarrow> bool" where
  "IsUserExistsErr err = (case err of None \<Rightarrow> False | Some e \<Rightarrow> contains (lower e) ''already exists'')"

record 's core_api =
  RemoveUser :: "string \<Rightarrow> string \<Rightarrow> 's \<Rightarrow> string option \<times> 's"
  AddUser :: "string \<Rightarrow> string \<Rightarrow> json option \<Rightarrow> 's \<Rightarrow> string option \<times> 's"
  DelInbound :: "string \<Rightarrow> 's \<Rightarrow> string option \<times> 's"
  AddInbound :: "inboundConfig \<Rightarrow> 's \<Rightarrow> string option \<times> 's"
  DelOutbound :: "string \<Rightarrow> 's \<Rightarrow> string option \<times> 's"
  AddOutbound :: "json \<Rightarrow> 's \<Rightarrow> string option \<times> 's"
  ApplyRoutingConfig :: "raw \<Rightarrow> 's \<Rightarrow> string option \<times> 's"

definition addUserReconciling :: "'s core_api \<Rightarrow> userOp \<Rightarrow> 's \<Rightarrow> string option \<times> 's" where
  "addUserReconciling api u s =
     (let (err, s) = AddUser api (uoProtocol u) (uoTag u) (uoUser u) s in
      if err = None \<or> \<not> IsUserExistsErr err then (err, s)
      else let (delErr, s) = RemoveUser api (uoTag u) (uoEmail u) s in
        if delErr \<noteq> None \<and> \<not> IsMissingHandlerErr delErr then (delErr, s)
        else AddUser api (uoProtocol u) (uoTag u) (uoUser u) s)"

definition addInboundReconciling :: "'s core_api \<Rightarrow> inboundConfig \<Rightarrow> 's \<Rightarrow> string option \<times> 's" where
  "addInboundReconciling api ib s =
     (let (err, s) = AddInbound api ib s in
      if err = None \<or> \<not> IsExistingTagErr err then (err, s)
      else if ibTag ib = [] then (err, s)
      else let (delErr, s) = DelInbound api (ibTag ib) s in
        if delErr \<noteq> None \<and> \<not> IsMissingHandlerErr delErr then (delErr, s)
        else AddInbound api ib s)"

definition addOutboundReconciling :: "'s core_api \<Rightarrow> json \<Rightarrow> 's \<Rightarrow> string option \<times> 's" where
  "addOutboundReconciling api ob s =
     (let (err, s) = AddOutbound api ob s in
      if err = None \<or> \<not> IsExistingTagErr err then (err, s)
      else case set_struct ''tag'' set_string [] ob of None \<Rightarrow> (err, s) | Some tag \<Rightarrow>
        if tag = [] then (err, s)
        else let (delErr, s) = DelOutbound api tag s in
          if delErr \<noteq> None \<and> \<not> IsMissingHandlerErr delErr then (delErr, s)
          else AddOutbound api ob s)"

text \<open>The loops of \<open>tryHotApply\<close>: stop at the first error that is not tolerated.\<close>

fun call_each :: "(string option \<Rightarrow> bool) \<Rightarrow> ('a \<Rightarrow> 's \<Rightarrow> string option \<times> 's) \<Rightarrow> 'a list \<Rightarrow> 's \<Rightarrow> bool \<times> 's" where
  "call_each tolerated f [] s = (True, s)"
| "call_each tolerated f (x # xs) s =
     (let (err, s) = f x s in
      if err \<noteq> None \<and> \<not> tolerated err then (False, s) else call_each tolerated f xs s)"

definition none_tolerated :: "string option \<Rightarrow> bool" where
  "none_tolerated err = False"

definition and_then :: "bool \<times> 's \<Rightarrow> ('s \<Rightarrow> bool \<times> 's) \<Rightarrow> bool \<times> 's" where
  "and_then r k = (if fst r then k (snd r) else r)"

definition apply_diff :: "'s core_api \<Rightarrow> hotDiff \<Rightarrow> 's \<Rightarrow> bool \<times> 's" where
  "apply_diff api diff s =
     and_then (call_each IsMissingHandlerErr (\<lambda>u. RemoveUser api (uoTag u) (uoEmail u)) (RemovedUsers diff) s) (\<lambda>s.
     and_then (call_each IsMissingHandlerErr (DelInbound api) (RemovedInboundTags diff) s) (\<lambda>s.
     and_then (call_each IsMissingHandlerErr (DelOutbound api) (RemovedOutboundTags diff) s) (\<lambda>s.
     and_then (call_each none_tolerated (addOutboundReconciling api) (AddedOutbounds diff) s) (\<lambda>s.
     and_then (call_each none_tolerated (addInboundReconciling api) (AddedInbounds diff) s) (\<lambda>s.
     and_then (call_each none_tolerated (addUserReconciling api) (AddedUsers diff) s) (\<lambda>s.
       call_each none_tolerated (ApplyRoutingConfig api)
         (case RoutingConfig diff of None \<Rightarrow> [] | Some r \<Rightarrow> [r]) s))))))"

definition restartToDropClients :: "bool option \<Rightarrow> hotDiff \<Rightarrow> bool" where
  "restartToDropClients setting diff =
     (if \<not> DropsUsers diff then False else case setting of None \<Rightarrow> False | Some restart \<Rightarrow> restart)"

record 's xprocess =
  pConfig :: "config option"
  pAPIPort :: int
  pCore :: 's

text \<open>\<open>shuffle\<close> is the order in which the maps of users happened to be iterated, \<open>setting\<close> the result of
  \<open>GetRestartXrayOnClientDisable\<close> and \<open>initOk\<close> of connecting to the API port.\<close>

definition tryHotApply ::
  "'s core_api \<Rightarrow> (hotDiff \<Rightarrow> hotDiff) \<Rightarrow> bool option \<Rightarrow> bool \<Rightarrow> config \<Rightarrow> 's xprocess \<Rightarrow> bool \<times> 's xprocess" where
  "tryHotApply api shuffle setting initOk newCfg process =
     (case ComputeHotDiff (pConfig process) (Some newCfg) of
        None \<Rightarrow> (False, process)
      | Some diff0 \<Rightarrow>
          (let diff = shuffle diff0 in
           if diffEmpty diff then (True, process\<lparr>pConfig := Some newCfg\<rparr>)
           else if restartToDropClients setting diff then (False, process)
           else if pAPIPort process \<le> 0 then (False, process)
           else if \<not> initOk then (False, process)
           else let (ok, s) = apply_diff api diff (pCore process) in
             if ok then (True, process\<lparr>pCore := s, pConfig := Some newCfg\<rparr>)
             else (False, process\<lparr>pCore := s\<rparr>)))"

section \<open>The configuration in force\<close>

text \<open>What a configuration means to the core: the sections fixed at its start, handlers by tag, the default outbound, and the routing
  section.  Settings with a list of named clients are a map of clients and the rest; anything else counts
  as its canonical text.\<close>

datatype settings_view = Clients "string \<Rightarrow> string option" string | Opaque "string + raw"

definition norm :: "raw \<Rightarrow> string + raw" where
  "norm r = (case canonicalJSON r of Some c \<Rightarrow> Inl c | None \<Rightarrow> Inr r)"

definition view_settings :: "raw \<Rightarrow> settings_view" where
  "view_settings r = (case splitSettingsClients r of
     Some (cs, rest) \<Rightarrow> Clients (\<lambda>e. map_option json_marshal (map_of cs e)) rest
   | None \<Rightarrow> Opaque (norm r))"

record handler =
  hPort :: int
  hProtocol :: string
  hListen :: "string + raw"
  hStream :: "string + raw"
  hSniff :: "string + raw"
  hSettings :: settings_view

definition handler_of :: "inboundConfig \<Rightarrow> handler" where
  "handler_of ib = \<lparr>hPort = ibPort ib, hProtocol = ibProtocol ib, hListen = norm (ibListen ib),
     hStream = norm (ibStreamSettings ib), hSniff = norm (ibSniffing ib), hSettings = view_settings (ibSettings ib)\<rparr>"

type_synonym routing_view = "string option \<times> json option \<times> json option"

record running =
  rStatic :: "(string + raw) list"
  rInbounds :: "string \<Rightarrow> handler option"
  rOutbounds :: "string \<Rightarrow> string option"
  rDefault :: "string option"
  rRouting :: routing_view

definition routing_member :: "string \<Rightarrow> raw \<Rightarrow> json option" where
  "routing_member k r = (case map_option to_any (json_decode r) of Some (JObj ms) \<Rightarrow> map_of ms k | _ \<Rightarrow> None)"

definition routing_of :: "raw \<Rightarrow> routing_view" where
  "routing_of r = (routingWithoutReloadable r, routing_member ''rules'' r, routing_member ''balancers'' r)"

definition outbounds_of :: "raw \<Rightarrow> outboundEntry list" where
  "outbounds_of r = (case parseOutbounds r of Some es \<Rightarrow> es | None \<Rightarrow> [])"

definition running_of :: "config \<Rightarrow> running" where
  "running_of c = \<lparr>
     rStatic = map norm (static_sections c),
     rInbounds = map_of (map (\<lambda>ib. (ibTag ib, handler_of ib)) (InboundConfigs c)),
     rOutbounds = (\<lambda>t. map_option oeNorm (entryByTag (outbounds_of (OutboundConfigs c)) t)),
     rDefault = (case outbounds_of (OutboundConfigs c) of [] \<Rightarrow> None | e # _ \<Rightarrow> Some (oeTag e)),
     rRouting = routing_of (RouterConfig c)\<rparr>"

definition with_clients :: "((string \<Rightarrow> string option) \<Rightarrow> string \<Rightarrow> string option) \<Rightarrow> handler \<Rightarrow> handler" where
  "with_clients f h = (case hSettings h of Clients cs rest \<Rightarrow> h\<lparr>hSettings := Clients (f cs) rest\<rparr> | Opaque _ \<Rightarrow> h)"

definition v_rm_user :: "string \<Rightarrow> string \<Rightarrow> (string \<Rightarrow> handler option) \<Rightarrow> string \<Rightarrow> handler option" where
  "v_rm_user tag email m = m(tag := map_option (with_clients (\<lambda>cs. cs(email := None))) (m tag))"

definition user_email :: "json option \<Rightarrow> string" where
  "user_email u = (case u of Some (JObj ms) \<Rightarrow> (case map_of ms ''email'' of Some (JStr e) \<Rightarrow> e | _ \<Rightarrow> []) | _ \<Rightarrow> [])"

definition v_add_user :: "string \<Rightarrow> json option \<Rightarrow> (string \<Rightarrow> handler option) \<Rightarrow> string \<Rightarrow> handler option" where
  "v_add_user tag u m =
     m(tag := map_option (with_clients (\<lambda>cs. cs(user_email u := map_option json_marshal u))) (m tag))"

definition v_add_outbound :: "json \<Rightarrow> (string \<Rightarrow> string option) \<Rightarrow> string \<Rightarrow> string option" where
  "v_add_outbound ob m = (case set_struct ''tag'' set_string [] ob of None \<Rightarrow> m | Some t \<Rightarrow> m(t \<mapsto> canonicalValue ob))"

definition v_routing :: "raw \<Rightarrow> routing_view \<Rightarrow> routing_view" where
  "v_routing r v = (fst v, routing_member ''rules'' r, routing_member ''balancers'' r)"

text \<open>What the core promises.  A removal that succeeds, or reports that there is nothing of that name,
  leaves nothing of that name; an addition that succeeds is in force; an addition refused because the
  name is taken changes nothing.  Removing or adding an outbound other than the default keeps the
  default.\<close>

definition core_laws :: "'s core_api \<Rightarrow> ('s \<Rightarrow> running) \<Rightarrow> bool" where
  "core_laws api view \<longleftrightarrow>
     (\<forall>tag email s err s'. RemoveUser api tag email s = (err, s') \<longrightarrow> err = None \<or> IsMissingHandlerErr err \<longrightarrow>
        view s' = (view s)\<lparr>rInbounds := v_rm_user tag email (rInbounds (view s))\<rparr>) \<and>
     (\<forall>p tag u s err s'. AddUser api p tag u s = (err, s') \<longrightarrow>
        (err = None \<longrightarrow> view s' = (view s)\<lparr>rInbounds := v_add_user tag u (rInbounds (view s))\<rparr>) \<and>
        (IsUserExistsErr err \<longrightarrow> view s' = view s)) \<and>
     (\<forall>tag s err s'. DelInbound api tag s = (err, s') \<longrightarrow> err = None \<or> IsMissingHandlerErr err \<longrightarrow>
        view s' = (view s)\<lparr>rInbounds := (rInbounds (view s))(tag := None)\<rparr>) \<and>
     (\<forall>ib s err s'. AddInbound api ib s = (err, s') \<longrightarrow>
        (err = None \<longrightarrow> view s' = (view s)\<lparr>rInbounds := (rInbounds (view s))(ibTag ib \<mapsto> handler_of ib)\<rparr>) \<and>
        (IsExistingTagErr err \<longrightarrow> view s' = view s)) \<and>
     (\<forall>tag s err s'. DelOutbound api tag s = (err, s') \<longrightarrow> rDefault (view s) \<noteq> Some tag \<longrightarrow>
        err = None \<or> IsMissingHandlerErr err \<longrightarrow>
        view s' = (view s)\<lparr>rOutbounds := (rOutbounds (view s))(tag := None)\<rparr>) \<and>
     (\<forall>ob s err s'. AddOutbound api ob s = (err, s') \<longrightarrow> rDefault (view s) \<noteq> None \<longrightarrow>
        (err = None \<longrightarrow> view s' = (view s)\<lparr>rOutbounds := v_add_outbound ob (rOutbounds (view s))\<rparr>) \<and>
        (IsExistingTagErr err \<longrightarrow> view s' = view s)) \<and>
     (\<forall>r s s'. ApplyRoutingConfig api r s = (None, s') \<longrightarrow>
        view s' = (view s)\<lparr>rRouting := v_routing r (rRouting (view s))\<rparr>)"

section \<open>Normalised equality\<close>

lemma canonicalValue_nonempty: "json_wf v \<Longrightarrow> v \<noteq> JNull \<Longrightarrow> canonicalValue v \<noteq> []"
  by (simp add: canonicalValue_def marshal_nonempty to_any_wf)

lemma to_any_null [simp]: "to_any v = JNull \<longleftrightarrow> v = JNull"
  by (cases v) simp_all

lemma canonicalValue_eq:
  assumes "json_wf v" "json_wf w"
  shows "canonicalValue v = canonicalValue w \<longleftrightarrow> to_any v = to_any w"
proof (cases "v = JNull \<or> w = JNull")
  case True
  then show ?thesis
    using canonicalValue_nonempty [OF assms(1)] canonicalValue_nonempty [OF assms(2)]
    by (auto simp: canonicalValue_def) (metis to_any_null to_any.simps(3))+
next
  case False
  then show ?thesis
    using marshal_inj [OF to_any_wf [OF assms(1)] to_any_wf [OF assms(2)]] by (auto simp: canonicalValue_def)
qed

text \<open>The value of a raw section, \<open>null\<close> when it is absent.\<close>

definition raw_value :: "raw \<Rightarrow> json option" where
  "raw_value r = (if r = [] then Some JNull else map_option to_any (json_decode r))"

lemma canonicalJSON_value:
  "canonicalJSON a = Some ca \<Longrightarrow> canonicalJSON b = Some cb \<Longrightarrow> ca = cb \<longleftrightarrow> raw_value a = raw_value b"
proof -
  assume a: "canonicalJSON a = Some ca" and b: "canonicalJSON b = Some cb"
  have "\<exists>v. json_wf v \<and> c = canonicalValue v \<and> raw_value r = Some (to_any v)" if "canonicalJSON r = Some c" for r c
  proof (cases "r = []")
    case True
    then show ?thesis using that by (intro exI [of _ JNull]) (auto simp: canonicalJSON_def canonicalValue_def raw_value_def)
  next
    case False
    then show ?thesis using that by (auto simp: canonicalJSON_def raw_value_def dest: decode_wf split: option.splits)
  qed
  from this [OF a] this [OF b] show ?thesis using canonicalValue_eq by auto
qed

lemma raw_value_None: "raw_value r = None \<longleftrightarrow> canonicalJSON r = None"
  by (auto simp: raw_value_def canonicalJSON_def split: option.splits)

lemma rawEqualNormalized_value:
  "rawEqualNormalized a b \<longleftrightarrow> a = b \<or> (raw_value a \<noteq> None \<and> raw_value a = raw_value b)"
  using canonicalJSON_value [of a _ b] raw_value_None [of a] raw_value_None [of b]
  by (auto simp: rawEqualNormalized_def split: option.splits)

lemma norm_eq: "rawEqualNormalized a b \<Longrightarrow> norm a = norm b"
  by (auto simp: rawEqualNormalized_def norm_def split: option.splits if_splits)

lemma split_value:
  "splitSettingsClients r = (case raw_value r of
       Some (JObj settings) \<Rightarrow> (case map_of settings ''clients'' of
           Some (JArr clientsRaw) \<Rightarrow> (case index_clients clientsRaw [] of
               None \<Rightarrow> None
             | Some clients \<Rightarrow> Some (clients, json_marshal (JObj (delete_key ''clients'' settings))))
         | _ \<Rightarrow> None)
     | _ \<Rightarrow> None)"
  by (simp add: splitSettingsClients_def raw_value_def)

lemma view_settings_eq: "rawEqualNormalized a b \<Longrightarrow> view_settings a = view_settings b"
proof -
  assume eq: "rawEqualNormalized a b"
  then have "splitSettingsClients a = splitSettingsClients b"
    unfolding rawEqualNormalized_value split_value by auto
  with norm_eq [OF eq] show ?thesis by (simp add: view_settings_def split: option.splits)
qed

lemma handler_of_eq: "inboundEqualNormalized a b \<Longrightarrow> handler_of a = handler_of b"
  by (simp add: inboundEqualNormalized_def handler_of_def norm_eq view_settings_eq)

section \<open>Keyed differences\<close>

text \<open>Users of an inbound and outbounds are both reconciled by key: what differs is removed, what is new
  or differs is added.  Whatever the lists look like, these laws are enough for the result of applying the
  removals and then the additions to be the new table.\<close>

locale keyed_diff =
  fixes old new :: "'k \<Rightarrow> 'n option" and removed :: "'k set" and added :: "'k \<Rightarrow> 'n option"
  assumes added_new: "added k = Some v \<Longrightarrow> new k = Some v"
    and removed_gone: "k \<in> removed \<Longrightarrow> added k = None \<Longrightarrow> new k = None"
    and kept_same: "k \<notin> removed \<Longrightarrow> added k = None \<Longrightarrow> old k = new k"
begin

definition applied :: "'k \<Rightarrow> 'n option" where
  "applied k = (case added k of Some v \<Rightarrow> Some v | None \<Rightarrow> if k \<in> removed then None else old k)"

lemma applied_new: "applied = new"
proof
  fix k show "applied k = new k"
    using added_new removed_gone kept_same by (cases "added k") (auto simp: applied_def)
qed

lemma unchanged: "removed = {} \<Longrightarrow> (\<And>k. added k = None) \<Longrightarrow> old = new"
  using kept_same by blast

end

text \<open>The removals and additions of the two loops over the users, in closed form.\<close>

definition changed_users :: "(string \<times> json) list \<Rightarrow> (string \<times> json) list \<Rightarrow> string list" where
  "changed_users newCs oldCs = map fst (filter (\<lambda>(e, c).
     map_option json_marshal (map_of newCs e) \<noteq> Some (json_marshal c)) oldCs)"

definition added_users :: "(string \<times> json) list \<Rightarrow> (string \<times> json) list \<Rightarrow> (string \<times> json) list" where
  "added_users newCs oldCs =
     concat (map (\<lambda>e. case map_of newCs e of Some c \<Rightarrow> [(e, c)] | None \<Rightarrow> []) (changed_users newCs oldCs))
     @ filter (\<lambda>(e, c). map_of oldCs e = None) newCs"

lemma diff_old_users_eq:
  "diff_old_users ib newCs oldCs d = d\<lparr>RemovedUsers := RemovedUsers d @ map (removal ib) (changed_users newCs oldCs),
     AddedUsers := AddedUsers d @ concat (map (\<lambda>e. case map_of newCs e of Some c \<Rightarrow> [addition ib e c] | None \<Rightarrow> [])
       (changed_users newCs oldCs))\<rparr>"
proof (induction oldCs arbitrary: d)
  case (Cons x xs)
  obtain e c where x: "x = (e, c)" by fastforce
  show ?case
  proof (cases "map_of newCs e")
    case None
    then show ?thesis using Cons by (simp add: x changed_users_def)
  next
    case (Some n)
    then show ?thesis using Cons by (simp add: x changed_users_def)
  qed
qed (simp add: changed_users_def)

lemma diff_new_users_eq:
  "diff_new_users ib oldCs newCs d = d\<lparr>AddedUsers := AddedUsers d @ map (\<lambda>(e, c). addition ib e c)
     (filter (\<lambda>(e, c). map_of oldCs e = None) newCs)\<rparr>"
  by (induction newCs arbitrary: d) auto

lemma diff_users_eq:
  "diff_new_users ib oldCs newCs (diff_old_users ib newCs oldCs d) =
     d\<lparr>RemovedUsers := RemovedUsers d @ map (removal ib) (changed_users newCs oldCs),
       AddedUsers := AddedUsers d @ map (\<lambda>(e, c). addition ib e c) (added_users newCs oldCs)\<rparr>"
proof -
  have "concat (map (\<lambda>e. case map_of newCs e of Some c \<Rightarrow> [addition ib e c] | None \<Rightarrow> []) xs)
      = map (\<lambda>(e, c). addition ib e c)
          (concat (map (\<lambda>e. case map_of newCs e of Some c \<Rightarrow> [(e, c)] | None \<Rightarrow> []) xs))" for xs
    by (induction xs) (auto split: option.splits)
  then show ?thesis by (simp add: diff_old_users_eq diff_new_users_eq added_users_def)
qed

definition client_texts :: "(string \<times> json) list \<Rightarrow> string \<Rightarrow> string option" where
  "client_texts cs e = map_option json_marshal (map_of cs e)"

lemma map_of_added_users:
  "map_of (added_users newCs oldCs) e = (if e \<in> set (changed_users newCs oldCs) \<or> map_of oldCs e = None
     then map_of newCs e else None)"
proof -
  let ?f = "\<lambda>e. case map_of newCs e of Some c \<Rightarrow> [(e, c)] | None \<Rightarrow> []"
  have 1: "map_of (concat (map ?f xs)) e = (if e \<in> set xs then map_of newCs e else None)" for xs
    by (induction xs) (auto split: option.splits simp: map_add_def)
  have 2: "map_of (filter (\<lambda>(e, c). map_of oldCs e = None) newCs) e = (if map_of oldCs e = None then map_of newCs e else None)"
    by (induction newCs) auto
  show ?thesis
    unfolding added_users_def map_of_append map_add_def 1 2
    by (auto split: option.splits)
qed

interpretation user_diff: keyed_diff "client_texts oldCs" "client_texts newCs" "set (changed_users newCs oldCs)"
    "client_texts (added_users newCs oldCs)" for oldCs newCs
proof
  fix e v
  show "client_texts (added_users newCs oldCs) e = Some v \<Longrightarrow> client_texts newCs e = Some v"
    by (auto simp: client_texts_def map_of_added_users split: if_splits)
  show "e \<in> set (changed_users newCs oldCs) \<Longrightarrow> client_texts (added_users newCs oldCs) e = None \<Longrightarrow>
      client_texts newCs e = None"
    by (simp add: client_texts_def map_of_added_users)
  show "e \<notin> set (changed_users newCs oldCs) \<Longrightarrow> client_texts (added_users newCs oldCs) e = None \<Longrightarrow>
      client_texts oldCs e = client_texts newCs e"
    by (cases "map_of oldCs e")
      (force simp: client_texts_def map_of_added_users changed_users_def dest: map_of_SomeD)+
qed

text \<open>The same for outbounds.\<close>

definition changed_outs :: "outboundEntry list \<Rightarrow> outboundEntry list \<Rightarrow> string list" where
  "changed_outs newOut oldOut = map oeTag (filter (\<lambda>o1.
     map_option oeNorm (entryByTag newOut (oeTag o1)) \<noteq> Some (oeNorm o1)) oldOut)"

definition added_outs :: "outboundEntry list \<Rightarrow> outboundEntry list \<Rightarrow> outboundEntry list" where
  "added_outs newOut oldOut =
     concat (map (\<lambda>t. case entryByTag newOut t of Some e \<Rightarrow> [e] | None \<Rightarrow> []) (changed_outs newOut oldOut))
     @ filter (\<lambda>e. entryByTag oldOut (oeTag e) = None) newOut"

lemma diff_old_outbounds_eq:
  "diff_old_outbounds newOut oldOut d = d\<lparr>RemovedOutboundTags := RemovedOutboundTags d @ changed_outs newOut oldOut,
     AddedOutbounds := AddedOutbounds d @ map oeRaw
       (concat (map (\<lambda>t. case entryByTag newOut t of Some e \<Rightarrow> [e] | None \<Rightarrow> []) (changed_outs newOut oldOut)))\<rparr>"
  by (induction oldOut arbitrary: d) (auto simp: changed_outs_def split: option.splits)

lemma diff_new_outbounds_eq:
  "diff_new_outbounds oldOut newOut d = d\<lparr>AddedOutbounds := AddedOutbounds d
     @ map oeRaw (filter (\<lambda>e. entryByTag oldOut (oeTag e) = None) newOut)\<rparr>"
  by (induction newOut arbitrary: d) auto

lemma diff_outs_eq:
  "diff_new_outbounds oldOut newOut (diff_old_outbounds newOut oldOut d) =
     d\<lparr>RemovedOutboundTags := RemovedOutboundTags d @ changed_outs newOut oldOut,
       AddedOutbounds := AddedOutbounds d @ map oeRaw (added_outs newOut oldOut)\<rparr>"
  by (simp add: diff_old_outbounds_eq diff_new_outbounds_eq added_outs_def)

definition out_texts :: "outboundEntry list \<Rightarrow> string \<Rightarrow> string option" where
  "out_texts es t = map_option oeNorm (entryByTag es t)"

lemma entryByTag_tag: "entryByTag es t = Some e \<Longrightarrow> oeTag e = t \<and> e \<in> set es"
  by (auto simp: entryByTag_def dest: map_of_SomeD)

lemma entryByTag_append: "entryByTag (xs @ ys) t = (case entryByTag xs t of Some e \<Rightarrow> Some e | None \<Rightarrow> entryByTag ys t)"
  by (auto simp: entryByTag_def map_add_def split: option.splits)

lemma entryByTag_added:
  "entryByTag (added_outs newOut oldOut) t = (if t \<in> set (changed_outs newOut oldOut) \<or> entryByTag oldOut t = None
     then entryByTag newOut t else None)"
proof -
  let ?f = "\<lambda>t. case entryByTag newOut t of Some e \<Rightarrow> [e] | None \<Rightarrow> []"
  have "entryByTag (?f x) t = (if x = t then entryByTag newOut t else None)" for x
    using entryByTag_tag [of newOut x] by (auto simp: entryByTag_def [of "[_]"] entryByTag_def [of "[]"] split: option.splits)
  then have 1: "entryByTag (concat (map ?f xs)) t = (if t \<in> set xs then entryByTag newOut t else None)" for xs
    by (induction xs) (auto simp: entryByTag_append entryByTag_def [of "[]"] split: option.splits)
  have 2: "entryByTag (filter (\<lambda>e. entryByTag oldOut (oeTag e) = None) newOut) t
      = (if entryByTag oldOut t = None then entryByTag newOut t else None)"
    by (induction newOut) (auto simp: entryByTag_def)
  show ?thesis
    unfolding added_outs_def entryByTag_append 1 2 by (auto split: option.splits)
qed

interpretation out_diff: keyed_diff "out_texts oldOut" "out_texts newOut" "set (changed_outs newOut oldOut)"
    "out_texts (added_outs newOut oldOut)" for oldOut newOut
proof
  fix t v
  show "out_texts (added_outs newOut oldOut) t = Some v \<Longrightarrow> out_texts newOut t = Some v"
    by (auto simp: out_texts_def entryByTag_added split: if_splits)
  show "t \<in> set (changed_outs newOut oldOut) \<Longrightarrow> out_texts (added_outs newOut oldOut) t = None \<Longrightarrow>
      out_texts newOut t = None"
    by (simp add: out_texts_def entryByTag_added)
  show "t \<notin> set (changed_outs newOut oldOut) \<Longrightarrow> out_texts (added_outs newOut oldOut) t = None \<Longrightarrow>
      out_texts oldOut t = out_texts newOut t"
    by (cases "entryByTag oldOut t")
      (force simp: out_texts_def entryByTag_added changed_outs_def dest: entryByTag_tag)+
qed

section \<open>What each inbound contributes\<close>

definition dapp :: "hotDiff \<Rightarrow> hotDiff \<Rightarrow> hotDiff" where
  "dapp d e = \<lparr>RemovedInboundTags = RemovedInboundTags d @ RemovedInboundTags e,
     AddedInbounds = AddedInbounds d @ AddedInbounds e, RemovedUsers = RemovedUsers d @ RemovedUsers e,
     AddedUsers = AddedUsers d @ AddedUsers e, DroppedClients = DroppedClients d @ DroppedClients e,
     RemovedOutboundTags = RemovedOutboundTags d @ RemovedOutboundTags e,
     AddedOutbounds = AddedOutbounds d @ AddedOutbounds e,
     RoutingConfig = (case RoutingConfig e of None \<Rightarrow> RoutingConfig d | Some r \<Rightarrow> Some r)\<rparr>"

lemmas diff_frame_simps = dapp_def emptyDiff_def addInbound_def swapInbound_def diffInboundUsers_def diff_users_eq

lemma addInbound_frame: "addInbound ib d = map_option (dapp d) (addInbound ib emptyDiff)"
  by (cases "marshalInbound ib") (simp_all add: addInbound_def dapp_def emptyDiff_def)

lemma swapInbound_frame: "swapInbound o1 n d = map_option (dapp d) (swapInbound o1 n emptyDiff)"
  by (cases "marshalInbound n") (simp_all add: swapInbound_def addInbound_def dapp_def emptyDiff_def)

lemma diffInboundUsers_frame: "diffInboundUsers o1 n d = map_option (dapp d) (diffInboundUsers o1 n emptyDiff)"
  by (simp add: diffInboundUsers_def diff_users_eq dapp_def emptyDiff_def split: option.splits)

lemma dapp_assoc: "dapp (dapp a b) c = dapp a (dapp b c)"
  by (simp add: dapp_def split: option.splits)

lemma dapp_empty [simp]: "dapp d emptyDiff = d"
  by (simp add: dapp_def emptyDiff_def)

lemma diffOldInbound_frame:
  "diffOldInbound a nbt ib d = map_option (dapp d) (diffOldInbound a nbt ib emptyDiff)"
proof (cases "map_of nbt (ibTag ib)")
  case None
  then show ?thesis by (simp add: diffOldInbound_def dapp_def emptyDiff_def)
next
  case (Some n)
  have dc: "d\<lparr>DroppedClients := DroppedClients d @ x\<rparr> = dapp d (emptyDiff\<lparr>DroppedClients := x\<rparr>)" for x d
    by (simp add: dapp_def emptyDiff_def)
  have e: "DroppedClients emptyDiff = []" by (simp add: emptyDiff_def)
  have comp: "map_option (dapp (dapp d x)) y = map_option (dapp d) (map_option (dapp x) y)" for d x y
    by (cases y) (simp_all add: dapp_assoc)
  let ?x = "emptyDiff\<lparr>DroppedClients := droppedClients ib n\<rparr>"
  have u: "diffInboundUsers ib n (dapp d ?x) = map_option (dapp d) (diffInboundUsers ib n ?x)"
    using comp diffInboundUsers_frame [of ib n "dapp d ?x"] diffInboundUsers_frame [of ib n ?x] by metis
  have w: "swapInbound ib n (dapp d ?x) = map_option (dapp d) (swapInbound ib n ?x)"
    using comp swapInbound_frame [of ib n "dapp d ?x"] swapInbound_frame [of ib n ?x] by metis
  show ?thesis
    by (simp add: diffOldInbound_def Some dc u w Let_def e split: option.splits)
qed

lemma diffNewInbound_frame:
  "diffNewInbound a obt ib d = map_option (dapp d) (diffNewInbound a obt ib emptyDiff)"
  using addInbound_frame [of ib d] by (simp add: diffNewInbound_def)

lemma for_each_frame:
  assumes frame: "\<And>x d. f x d = map_option (dapp d) (f x emptyDiff)" and "for_each f xs d = Some d'"
  shows "(\<forall>x\<in>set xs. f x emptyDiff \<noteq> None) \<and> d' = foldl dapp d (map (\<lambda>x. the (f x emptyDiff)) xs)"
  using assms(2)
proof (induction xs arbitrary: d)
  case (Cons x xs)
  from Cons.prems obtain d1 where d1: "f x d = Some d1" "for_each f xs d1 = Some d'"
    by (auto split: option.splits)
  then obtain e where e: "f x emptyDiff = Some e" "d1 = dapp d e" using frame [of x d] by auto
  from Cons.IH [OF d1(2)] e show ?case by simp
qed simp

lemma foldl_dapp_fields:
  "RemovedInboundTags (foldl dapp d cs) = RemovedInboundTags d @ concat (map RemovedInboundTags cs)"
  "AddedInbounds (foldl dapp d cs) = AddedInbounds d @ concat (map AddedInbounds cs)"
  "RemovedUsers (foldl dapp d cs) = RemovedUsers d @ concat (map RemovedUsers cs)"
  "AddedUsers (foldl dapp d cs) = AddedUsers d @ concat (map AddedUsers cs)"
  "RemovedOutboundTags (foldl dapp d cs) = RemovedOutboundTags d @ concat (map RemovedOutboundTags cs)"
  "AddedOutbounds (foldl dapp d cs) = AddedOutbounds d @ concat (map AddedOutbounds cs)"
  by (induction cs arbitrary: d) (simp_all add: dapp_def)

text \<open>The four ways an old inbound is carried over, and the two for a new one.\<close>

definition plain_contrib :: "string list \<Rightarrow> inboundConfig list \<Rightarrow> hotDiff \<Rightarrow> bool" where
  "plain_contrib rem add c \<longleftrightarrow> RemovedInboundTags c = rem \<and> AddedInbounds c = add \<and> RemovedUsers c = [] \<and> AddedUsers c = []"

definition user_contrib :: "inboundConfig \<Rightarrow> inboundConfig \<Rightarrow> hotDiff \<Rightarrow> bool" where
  "user_contrib ib n c \<longleftrightarrow> RemovedInboundTags c = [] \<and> AddedInbounds c = [] \<and>
     (\<exists>oldCs newCs rest. splitSettingsClients (ibSettings ib) = Some (oldCs, rest) \<and>
        splitSettingsClients (ibSettings n) = Some (newCs, rest) \<and>
        handler_of n = (handler_of ib)\<lparr>hSettings := view_settings (ibSettings n)\<rparr> \<and>
        RemovedUsers c = map (removal ib) (changed_users newCs oldCs) \<and>
        AddedUsers c = map (\<lambda>(e, u). addition ib e u) (added_users newCs oldCs))"

lemma diffInboundUsers_contrib:
  assumes "diffInboundUsers ib n (emptyDiff\<lparr>DroppedClients := x\<rparr>) = Some c"
  shows "user_contrib ib n c"
  using assms
  by (auto simp: diffInboundUsers_def diff_users_eq user_contrib_def emptyDiff_def handler_of_def norm_eq
      split: if_splits option.splits)

lemma diffOldInbound_contrib:
  assumes "diffOldInbound a nbt ib emptyDiff = Some c"
  shows "RemovedOutboundTags c = [] \<and> AddedOutbounds c = [] \<and> RoutingConfig c = None \<and>
    (case map_of nbt (ibTag ib) of
       None \<Rightarrow> plain_contrib [ibTag ib] [] c
     | Some n \<Rightarrow> (handler_of ib = handler_of n \<and> plain_contrib [] [] c) \<or> user_contrib ib n c
         \<or> plain_contrib [ibTag ib] [n] c)"
proof (cases "map_of nbt (ibTag ib)")
  case None
  with assms show ?thesis
    by (auto simp: diffOldInbound_def plain_contrib_def emptyDiff_def split: if_splits)
next
  case (Some n)
  show ?thesis
  proof (cases "inboundEqualNormalized ib n")
    case True
    then show ?thesis using assms Some handler_of_eq [OF True]
      by (auto simp: diffOldInbound_def plain_contrib_def emptyDiff_def)
  next
    case False
    let ?x = "emptyDiff\<lparr>DroppedClients := DroppedClients emptyDiff @ droppedClients ib n\<rparr>"
    show ?thesis
    proof (cases "diffInboundUsers ib n ?x")
      case None
      then have "swapInbound ib n ?x = Some c"
        using assms Some False by (auto simp: diffOldInbound_def split: if_splits)
      then show ?thesis using Some
        by (auto simp: swapInbound_def addInbound_def plain_contrib_def emptyDiff_def marshalInbound_def
            split: if_splits)
    next
      case u: (Some c')
      then have "c' = c" using assms Some False by (auto simp: diffOldInbound_def split: if_splits)
      moreover have "RemovedOutboundTags c' = [] \<and> AddedOutbounds c' = [] \<and> RoutingConfig c' = None"
        using u by (auto simp: diffInboundUsers_def diff_users_eq emptyDiff_def split: if_splits option.splits)
      ultimately show ?thesis using diffInboundUsers_contrib [OF u] Some by simp
    qed
  qed
qed

lemma diffNewInbound_contrib:
  assumes "diffNewInbound a obt n emptyDiff = Some c"
  shows "RemovedOutboundTags c = [] \<and> AddedOutbounds c = [] \<and> RoutingConfig c = None \<and>
    plain_contrib [] (if map_of obt (ibTag n) = None then [n] else []) c"
  using assms
  by (auto simp: diffNewInbound_def addInbound_def plain_contrib_def emptyDiff_def marshalInbound_def split: if_splits)

lemma inboundsByTag_eq:
  "inboundsByTag ibs acc = Some bt \<Longrightarrow> distinct (map fst acc) \<Longrightarrow>
     bt = acc @ map (\<lambda>ib. (ibTag ib, ib)) ibs \<and> distinct (map fst bt)"
proof (induction ibs arbitrary: acc)
  case (Cons ib ibs)
  have "ibTag ib \<notin> set (map fst acc)"
    using Cons.prems(1) by (auto simp: map_of_eq_None_iff split: if_splits)
  with Cons.prems have "inboundsByTag ibs (acc @ [(ibTag ib, ib)]) = Some bt"
    "distinct (map fst (acc @ [(ibTag ib, ib)]))" by (auto split: if_splits)
  note * = Cons.IH [OF this]
  show ?case using conjunct1 [OF *] by (intro conjI conjunct2 [OF *]) simp
qed simp

end
