(* ===== verification/Hot_Apply.thy ===== *)
theory Hot_Apply
  imports Hot_Diff
begin

text \<open>
  Applying a hot difference (\<open>ComputeHotDiff\<close>, theory Hot_Diff) with \<open>tryHotApply\<close> of
  \<open>internal/web/service/xray.go\<close> brings the running core to the new configuration, in whatever order
  the maps of users were iterated; errors of the core are reported, never taken for success.
\<close>

section \<open>Applying the operations to the configuration in force\<close>

lemma with_clients_id [simp]: "with_clients (\<lambda>cs. cs) h = h"
  by (cases "hSettings h") (simp_all add: with_clients_def)

lemma with_clients_comp: "with_clients f (with_clients g h) = with_clients (\<lambda>cs. f (g cs)) h"
  by (cases "hSettings h") (simp_all add: with_clients_def)

text \<open>Removing, and adding, users by name: each operation overrides the entries of its own tag.\<close>

definition override :: "(string \<Rightarrow> string \<Rightarrow> string option option) \<Rightarrow> string \<Rightarrow> handler option \<Rightarrow> handler option" where
  "override f t x = map_option (with_clients (\<lambda>cs e. case f t e of Some v \<Rightarrow> v | None \<Rightarrow> cs e)) x"

lemma override_override:
  "override f t (override g t x) = override (\<lambda>t e. case f t e of Some v \<Rightarrow> Some v | None \<Rightarrow> g t e) t x"
proof -
  have "(\<lambda>cs e. case f t e of Some v \<Rightarrow> v | None \<Rightarrow> (case g t e of Some v \<Rightarrow> v | None \<Rightarrow> cs e))
      = (\<lambda>cs e. case (case f t e of Some v \<Rightarrow> Some v | None \<Rightarrow> g t e) of Some v \<Rightarrow> v | None \<Rightarrow> cs e)"
    by (auto simp: fun_eq_iff split: option.splits)
  then show ?thesis by (cases x) (simp_all add: override_def with_clients_comp)
qed

lemma map_with_clients_id [simp]: "map_option (with_clients (\<lambda>cs. cs)) x = x"
  by (cases x) simp_all

lemma override_none [simp]: "override (\<lambda>t e. None) t x = x"
  by (cases x) (simp_all add: override_def)

lemma override_cong: "(\<And>e. f t e = g t e) \<Longrightarrow> override f t x = override g t x"
  by (simp add: override_def)

lemma foldl_override:
  assumes step: "\<And>u m. u \<in> set us \<Longrightarrow> step m u t = override (\<lambda>t e. if tag u = t \<and> em u = e then Some (val t e) else None) t (m t)"
  shows "foldl step m us t = override (\<lambda>t e. if \<exists>u\<in>set us. tag u = t \<and> em u = e then Some (val t e) else None) t (m t)"
  using step
proof (induction us arbitrary: m)
  case (Cons u us)
  have "foldl step (step m u) us t = override (\<lambda>t e. if \<exists>u\<in>set us. tag u = t \<and> em u = e then Some (val t e) else None)
      t (step m u t)" using Cons by simp
  also have "\<dots> = override (\<lambda>t e. if \<exists>w\<in>set (u # us). tag w = t \<and> em w = e then Some (val t e) else None) t (m t)"
    using Cons.prems [of u m] by (simp add: override_override) (rule override_cong, auto)
  finally show ?case by simp
qed simp

lemma rm_users_eq:
  "foldl (\<lambda>m u. v_rm_user (uoTag u) (uoEmail u) m) m us t =
     override (\<lambda>t e. if \<exists>u\<in>set us. uoTag u = t \<and> uoEmail u = e then Some None else None) t (m t)"
proof (rule foldl_override)
  fix u and m :: "string \<Rightarrow> handler option"
  have "(\<lambda>cs :: string \<Rightarrow> string option. cs(uoEmail u := None)) = (\<lambda>cs e. case if uoEmail u = e then Some None else None of
      Some v \<Rightarrow> v | None \<Rightarrow> cs e)" by (auto simp: fun_eq_iff)
  then show "v_rm_user (uoTag u) (uoEmail u) m t
      = override (\<lambda>t e. if uoTag u = t \<and> uoEmail u = e then Some None else None) t (m t)"
    by (auto simp: v_rm_user_def override_def)
qed

lemma add_users_eq:
  assumes "\<forall>u\<in>set us. user_email (uoUser u) = uoEmail u \<and> map_option json_marshal (uoUser u) = Some (g (uoTag u) (uoEmail u))"
  shows "foldl (\<lambda>m u. v_add_user (uoTag u) (uoUser u) m) m us t =
     override (\<lambda>t e. if \<exists>u\<in>set us. uoTag u = t \<and> uoEmail u = e then Some (Some (g t e)) else None) t (m t)"
proof (rule foldl_override)
  fix u and m :: "string \<Rightarrow> handler option"
  assume "u \<in> set us"
  with assms have u: "user_email (uoUser u) = uoEmail u" "map_option json_marshal (uoUser u) = Some (g (uoTag u) (uoEmail u))"
    by blast+
  have "(\<lambda>cs :: string \<Rightarrow> string option. cs(uoEmail u := Some (g (uoTag u) (uoEmail u)))) = (\<lambda>cs e.
      case if uoEmail u = e then Some (Some (g (uoTag u) e)) else None of Some v \<Rightarrow> v | None \<Rightarrow> cs e)"
    by (auto simp: fun_eq_iff)
  then show "v_add_user (uoTag u) (uoUser u) m t
      = override (\<lambda>t e. if uoTag u = t \<and> uoEmail u = e then Some (Some (g t e)) else None) t (m t)"
    by (auto simp: v_add_user_def override_def u)
qed

lemma rm_tags_eq: "foldl (\<lambda>m t. m(t := None)) m ts t = (if t \<in> set ts then None else m t)"
  by (induction ts arbitrary: m) auto

lemma add_inbounds_eq:
  assumes "\<And>ib. ib \<in> set ibs \<Longrightarrow> ibTag ib = t \<Longrightarrow> handler_of ib = h"
  shows "foldl (\<lambda>m ib. m(ibTag ib \<mapsto> handler_of ib)) m ibs t = (if t \<in> ibTag ` set ibs then Some h else m t)"
  using assms by (induction ibs arbitrary: m) auto

definition run_inbounds :: "hotDiff \<Rightarrow> (string \<Rightarrow> handler option) \<Rightarrow> string \<Rightarrow> handler option" where
  "run_inbounds d m =
     foldl (\<lambda>m u. v_add_user (uoTag u) (uoUser u) m)
       (foldl (\<lambda>m ib. m(ibTag ib \<mapsto> handler_of ib))
         (foldl (\<lambda>m t. m(t := None))
           (foldl (\<lambda>m u. v_rm_user (uoTag u) (uoEmail u) m) m (RemovedUsers d)) (RemovedInboundTags d))
         (AddedInbounds d))
       (AddedUsers d)"

text \<open>One tag at a time: the operations on tag \<open>t\<close> are those its own old and new inbound contribute.\<close>

definition clean :: "hotDiff \<Rightarrow> string \<Rightarrow> bool" where
  "clean d t \<longleftrightarrow> (\<forall>u\<in>set (RemovedUsers d). uoTag u \<noteq> t) \<and> (\<forall>u\<in>set (AddedUsers d). uoTag u \<noteq> t)"

definition users_ok :: "hotDiff \<Rightarrow> (string \<Rightarrow> string \<Rightarrow> string) \<Rightarrow> bool" where
  "users_ok d g \<longleftrightarrow> (\<forall>u\<in>set (AddedUsers d). user_email (uoUser u) = uoEmail u \<and>
     map_option json_marshal (uoUser u) = Some (g (uoTag u) (uoEmail u)))"

lemma run_inbounds_clean:
  assumes "clean d t" "users_ok d g"
    and "\<And>ib. ib \<in> set (AddedInbounds d) \<Longrightarrow> ibTag ib = t \<Longrightarrow> handler_of ib = h"
  shows "run_inbounds d m t = (if t \<in> ibTag ` set (AddedInbounds d) then Some h
     else if t \<in> set (RemovedInboundTags d) then None else m t)"
proof -
  have none: "override (\<lambda>t e. if \<exists>u\<in>set (RemovedUsers d). uoTag u = t \<and> uoEmail u = e then Some x else None) t y = y"
    "override (\<lambda>t e. if \<exists>u\<in>set (AddedUsers d). uoTag u = t \<and> uoEmail u = e then Some (z t e) else None) t y = y" for x y z
    using assms(1) override_cong [of _ t "\<lambda>t e. None"] by (simp_all add: clean_def)
  let ?u = "foldl (\<lambda>m u. v_rm_user (uoTag u) (uoEmail u) m) m (RemovedUsers d)"
  have "run_inbounds d m t = foldl (\<lambda>m ib. m(ibTag ib \<mapsto> handler_of ib))
      (foldl (\<lambda>m t. m(t := None)) ?u (RemovedInboundTags d)) (AddedInbounds d) t"
    unfolding run_inbounds_def by (subst add_users_eq [OF assms(2) [unfolded users_ok_def]]) (rule none(2))
  also have "\<dots> = (if t \<in> ibTag ` set (AddedInbounds d) then Some h
      else foldl (\<lambda>m t. m(t := None)) ?u (RemovedInboundTags d) t)" by (rule add_inbounds_eq [OF assms(3)])
  also have "foldl (\<lambda>m t. m(t := None)) ?u (RemovedInboundTags d) t
      = (if t \<in> set (RemovedInboundTags d) then None else ?u t)" by (rule rm_tags_eq)
  also have "?u t = m t" unfolding rm_users_eq by (rule none(1))
  finally show ?thesis .
qed

lemma run_inbounds_users:
  assumes "users_ok d g" and "t \<notin> ibTag ` set (AddedInbounds d)" and "t \<notin> set (RemovedInboundTags d)"
    and "\<And>e. (\<exists>u\<in>set (RemovedUsers d). uoTag u = t \<and> uoEmail u = e) \<longleftrightarrow> e \<in> R"
    and "\<And>e. (\<exists>u\<in>set (AddedUsers d). uoTag u = t \<and> uoEmail u = e) \<longleftrightarrow> A e \<noteq> None"
    and "\<And>e v. A e = Some v \<Longrightarrow> g t e = v"
  shows "run_inbounds d m t = override (\<lambda>t e. case A e of Some v \<Rightarrow> Some (Some v)
     | None \<Rightarrow> if e \<in> R then Some None else None) t (m t)"
proof -
  have no: "foldl (\<lambda>m ib. m(ibTag ib \<mapsto> handler_of ib)) m' (AddedInbounds d) t = m' t" for m'
    using assms(2) add_inbounds_eq [of "AddedInbounds d" t undefined m'] by auto
  have "run_inbounds d m t = override (\<lambda>t e. case (if \<exists>u\<in>set (AddedUsers d). uoTag u = t \<and> uoEmail u = e
      then Some (Some (g t e)) else None) of Some v \<Rightarrow> Some v
    | None \<Rightarrow> if \<exists>u\<in>set (RemovedUsers d). uoTag u = t \<and> uoEmail u = e then Some None else None) t (m t)"
    unfolding run_inbounds_def
    by (subst add_users_eq [OF assms(1) [unfolded users_ok_def]], subst no, subst rm_tags_eq, subst rm_users_eq)
      (simp add: override_override assms(3))
  also have "\<dots> = override (\<lambda>t e. case A e of Some v \<Rightarrow> Some (Some v)
     | None \<Rightarrow> if e \<in> R then Some None else None) t (m t)"
    by (rule override_cong) (use assms(4-6) in \<open>auto split: option.splits\<close>)
  finally show ?thesis .
qed

section \<open>Inbounds reach the new configuration\<close>

lemma index_clients_ok:
  assumes "index_clients js acc = Some cs" and "distinct (map fst acc)"
    and "\<forall>(e, c)\<in>set acc. user_email (Some c) = e"
  shows "distinct (map fst cs) \<and> (\<forall>(e, c)\<in>set cs. user_email (Some c) = e)"
  using assms
proof (induction js arbitrary: acc)
  case (Cons j js)
  obtain obj email where j: "j = JObj obj" "map_of obj ''email'' = Some (JStr email)" "map_of acc email = None"
    "index_clients js (acc @ [(email, JObj obj)]) = Some cs"
    using Cons.prems(1) by (auto split: json.splits option.splits if_splits)
  have "email \<notin> fst ` set acc" using j(3) by (simp add: map_of_eq_None_iff)
  then show ?case using Cons.prems(2,3) j by (intro Cons.IH [OF j(4)]) (auto simp: user_email_def)
qed simp

lemma split_clients_ok:
  assumes "splitSettingsClients r = Some (cs, rest)"
  shows "distinct (map fst cs)" "(e, c) \<in> set cs \<Longrightarrow> user_email (Some c) = e"
proof -
  obtain js where "index_clients js [] = Some cs"
    using assms by (auto simp: split_value split: option.splits json.splits)
  from index_clients_ok [OF this] show "distinct (map fst cs)" "(e, c) \<in> set cs \<Longrightarrow> user_email (Some c) = e"
    by auto
qed

lemma added_users_in: "(e, c) \<in> set (added_users newCs oldCs) \<Longrightarrow> (e, c) \<in> set newCs"
  by (auto simp: added_users_def dest: map_of_SomeD [OF sym] split: option.splits)

definition new_text :: "(string \<times> inboundConfig) list \<Rightarrow> string \<Rightarrow> string \<Rightarrow> string" where
  "new_text nbt t e = (case map_of nbt t of None \<Rightarrow> [] | Some n \<Rightarrow>
     (case splitSettingsClients (ibSettings n) of None \<Rightarrow> [] | Some (cs, _) \<Rightarrow> the (client_texts cs e)))"

lemma user_contrib_users:
  assumes "user_contrib ib n c" and "map_of nbt (ibTag ib) = Some n" and "u \<in> set (AddedUsers c)"
  shows "uoTag u = ibTag ib" and "user_email (uoUser u) = uoEmail u"
    and "map_option json_marshal (uoUser u) = Some (new_text nbt (uoTag u) (uoEmail u))"
proof -
  obtain oldCs newCs rest where s: "splitSettingsClients (ibSettings n) = Some (newCs, rest)"
    and "AddedUsers c = map (\<lambda>(e, u). addition ib e u) (added_users newCs oldCs)"
    using assms(1) by (auto simp: user_contrib_def)
  then obtain e x where u: "u = addition ib e x" "(e, x) \<in> set newCs"
    using assms(3) by (auto dest: added_users_in)
  note ok = split_clients_ok [OF s]
  show "uoTag u = ibTag ib" "user_email (uoUser u) = uoEmail u"
    using u ok(2) by (auto simp: addition_def)
  have "map_of newCs e = Some x" using u(2) ok(1) by simp
  then show "map_option json_marshal (uoUser u) = Some (new_text nbt (uoTag u) (uoEmail u))"
    using u(1) s assms(2) by (simp add: addition_def new_text_def client_texts_def)
qed

text \<open>The difference of two configurations whose tags are unique, as the contributions of the inbounds.\<close>

definition contribs ::
  "inboundConfig list \<Rightarrow> inboundConfig list \<Rightarrow> (inboundConfig \<Rightarrow> hotDiff) \<Rightarrow> (inboundConfig \<Rightarrow> hotDiff) \<Rightarrow> bool" where
  "contribs olds news C N \<longleftrightarrow>
     (let obt = map (\<lambda>ib. (ibTag ib, ib)) olds; nbt = map (\<lambda>ib. (ibTag ib, ib)) news in
      distinct (map ibTag olds) \<and> distinct (map ibTag news) \<and>
      (\<forall>ib\<in>set olds. case map_of nbt (ibTag ib) of
         None \<Rightarrow> plain_contrib [ibTag ib] [] (C ib)
       | Some n \<Rightarrow> (handler_of ib = handler_of n \<and> plain_contrib [] [] (C ib)) \<or> user_contrib ib n (C ib)
           \<or> plain_contrib [ibTag ib] [n] (C ib)) \<and>
      (\<forall>n\<in>set news. plain_contrib [] (if map_of obt (ibTag n) = None then [n] else []) (N n)))"

lemma diffInbounds_contribs:
  assumes "diffInbounds oldCfg newCfg emptyDiff = Some d"
  obtains C N where "contribs (InboundConfigs oldCfg) (InboundConfigs newCfg) C N"
    "RemovedInboundTags d = concat (map (\<lambda>i. RemovedInboundTags (C i)) (InboundConfigs oldCfg))"
    "AddedInbounds d = concat (map (\<lambda>i. AddedInbounds (C i)) (InboundConfigs oldCfg))
       @ concat (map (\<lambda>i. AddedInbounds (N i)) (InboundConfigs newCfg))"
    "RemovedUsers d = concat (map (\<lambda>i. RemovedUsers (C i)) (InboundConfigs oldCfg))"
    "AddedUsers d = concat (map (\<lambda>i. AddedUsers (C i)) (InboundConfigs oldCfg))"
    "RemovedOutboundTags d = [] \<and> AddedOutbounds d = [] \<and> RoutingConfig d = None"
proof -
  let ?olds = "InboundConfigs oldCfg" and ?news = "InboundConfigs newCfg"
  let ?a = "apiTagFromConfig (API newCfg)"
  obtain obt nbt where bt: "inboundsByTag ?olds [] = Some obt" "inboundsByTag ?news [] = Some nbt"
    using assms by (auto simp: diffInbounds_def split: option.splits)
  note o1 = inboundsByTag_eq [OF bt(1)] and n1 = inboundsByTag_eq [OF bt(2)]
  obtain d1 where d1: "for_each (diffOldInbound ?a nbt) ?olds emptyDiff = Some d1"
    "for_each (diffNewInbound ?a obt) ?news d1 = Some d"
    using assms bt by (auto simp: diffInbounds_def Let_def bind_eq_Some_conv)
  define C where "C = (\<lambda>i. the (diffOldInbound ?a nbt i emptyDiff))"
  define N where "N = (\<lambda>i. the (diffNewInbound ?a obt i emptyDiff))"
  have c: "\<forall>i\<in>set ?olds. diffOldInbound ?a nbt i emptyDiff = Some (C i)" and d1': "d1 = foldl dapp emptyDiff (map C ?olds)"
    using for_each_frame [OF diffOldInbound_frame d1(1)] by (auto simp: C_def)
  have n: "\<forall>i\<in>set ?news. diffNewInbound ?a obt i emptyDiff = Some (N i)" and d': "d = foldl dapp d1 (map N ?news)"
    using for_each_frame [OF diffNewInbound_frame d1(2)] by (auto simp: N_def)
  have eq: "obt = map (\<lambda>ib. (ibTag ib, ib)) ?olds" "nbt = map (\<lambda>ib. (ibTag ib, ib)) ?news" using o1 n1 by simp_all
  have "distinct (map fst (map (\<lambda>ib. (ibTag ib, ib)) ?olds))" "distinct (map fst (map (\<lambda>ib. (ibTag ib, ib)) ?news))"
    using o1 n1 unfolding eq by simp_all
  then have cc: "contribs ?olds ?news C N"
    using c n diffOldInbound_contrib [of ?a nbt] diffNewInbound_contrib [of ?a obt] unfolding eq
    by (simp add: contribs_def o_def)
  have nil: "concat (map (\<lambda>i. RemovedInboundTags (N i)) ?news) = []" "concat (map (\<lambda>i. RemovedUsers (N i)) ?news) = []"
    "concat (map (\<lambda>i. AddedUsers (N i)) ?news) = []"
    using cc by (auto simp: contribs_def plain_contrib_def Let_def)
  have rest: "RoutingConfig (foldl dapp x ys) = RoutingConfig x" if "\<forall>y\<in>set ys. RoutingConfig y = None" for x ys
    using that by (induction ys arbitrary: x) (auto simp: dapp_def)
  have other: "\<forall>y\<in>set (map C ?olds) \<union> set (map N ?news). RemovedOutboundTags y = [] \<and> AddedOutbounds y = [] \<and> RoutingConfig y = None"
    using c n diffOldInbound_contrib [of ?a nbt] diffNewInbound_contrib [of ?a obt] by auto
  then have "RoutingConfig d = None"
    unfolding d' d1' by (subst rest, blast)+ (simp add: emptyDiff_def)
  moreover have nils: "concat (map RemovedOutboundTags ys) = []" "concat (map AddedOutbounds ys) = []"
    if "set ys \<subseteq> set (map C ?olds) \<union> set (map N ?news)" for ys
    using that other by (simp_all only: concat_eq_Nil_conv set_map) blast+
  have "RemovedOutboundTags d = []" "AddedOutbounds d = []"
    unfolding d' d1' foldl_dapp_fields
    by (subst nils, blast, subst nils, blast, simp add: emptyDiff_def)+
  ultimately show ?thesis
    using nil cc by (intro that [of C N]) (simp_all add: d' d1' foldl_dapp_fields emptyDiff_def o_def)
qed

text \<open>The order in which the user operations were produced does not matter.\<close>

definition diff_perm :: "hotDiff \<Rightarrow> hotDiff \<Rightarrow> bool" where
  "diff_perm d e \<longleftrightarrow> RemovedInboundTags e = RemovedInboundTags d \<and> AddedInbounds e = AddedInbounds d \<and>
     mset (RemovedUsers e) = mset (RemovedUsers d) \<and> mset (AddedUsers e) = mset (AddedUsers d) \<and>
     mset (DroppedClients e) = mset (DroppedClients d) \<and>
     RemovedOutboundTags e = RemovedOutboundTags d \<and> AddedOutbounds e = AddedOutbounds d \<and>
     RoutingConfig e = RoutingConfig d"

definition contribs_diff ::
  "inboundConfig list \<Rightarrow> inboundConfig list \<Rightarrow> (inboundConfig \<Rightarrow> hotDiff) \<Rightarrow> (inboundConfig \<Rightarrow> hotDiff) \<Rightarrow> hotDiff \<Rightarrow> bool" where
  "contribs_diff olds news C N d \<longleftrightarrow> contribs olds news C N \<and>
     set (RemovedInboundTags d) = (\<Union>i\<in>set olds. set (RemovedInboundTags (C i))) \<and>
     set (AddedInbounds d) = (\<Union>i\<in>set olds. set (AddedInbounds (C i))) \<union> (\<Union>i\<in>set news. set (AddedInbounds (N i))) \<and>
     set (RemovedUsers d) = (\<Union>i\<in>set olds. set (RemovedUsers (C i))) \<and>
     set (AddedUsers d) = (\<Union>i\<in>set olds. set (AddedUsers (C i)))"

lemma contribs_diff_perm:
  assumes "diffInbounds oldCfg newCfg emptyDiff = Some d0" and "diff_perm d e"
    and "RemovedInboundTags d = RemovedInboundTags d0" "AddedInbounds d = AddedInbounds d0"
    "RemovedUsers d = RemovedUsers d0" "AddedUsers d = AddedUsers d0"
  shows "\<exists>C N. contribs_diff (InboundConfigs oldCfg) (InboundConfigs newCfg) C N e"
proof -
  have m: "set (RemovedUsers e) = set (RemovedUsers d)" "set (AddedUsers e) = set (AddedUsers d)"
    using assms(2) by (auto simp: diff_perm_def dest: mset_eq_setD)
  from assms(1) obtain C N where c: "contribs (InboundConfigs oldCfg) (InboundConfigs newCfg) C N"
    "RemovedInboundTags d0 = concat (map (\<lambda>i. RemovedInboundTags (C i)) (InboundConfigs oldCfg))"
    "AddedInbounds d0 = concat (map (\<lambda>i. AddedInbounds (C i)) (InboundConfigs oldCfg))
       @ concat (map (\<lambda>i. AddedInbounds (N i)) (InboundConfigs newCfg))"
    "RemovedUsers d0 = concat (map (\<lambda>i. RemovedUsers (C i)) (InboundConfigs oldCfg))"
    "AddedUsers d0 = concat (map (\<lambda>i. AddedUsers (C i)) (InboundConfigs oldCfg))"
    by (rule diffInbounds_contribs)
  have "contribs_diff (InboundConfigs oldCfg) (InboundConfigs newCfg) C N e"
    using c m assms(2-) by (simp add: contribs_diff_def diff_perm_def)
  then show ?thesis by blast
qed

lemma map_of_tags:
  assumes "distinct (map ibTag ibs)"
  shows "map_of (map (\<lambda>ib. (ibTag ib, f ib)) ibs) t = map_option f (map_of (map (\<lambda>ib. (ibTag ib, ib)) ibs) t)"
    and "map_of (map (\<lambda>ib. (ibTag ib, ib)) ibs) t = Some ib \<longleftrightarrow> ib \<in> set ibs \<and> ibTag ib = t"
proof -
  show "map_of (map (\<lambda>ib. (ibTag ib, f ib)) ibs) t = map_option f (map_of (map (\<lambda>ib. (ibTag ib, ib)) ibs) t)"
    by (induction ibs) auto
  have "distinct (map fst (map (\<lambda>ib. (ibTag ib, ib)) ibs))" using assms by (simp add: o_def)
  then show "map_of (map (\<lambda>ib. (ibTag ib, ib)) ibs) t = Some ib \<longleftrightarrow> ib \<in> set ibs \<and> ibTag ib = t"
    by (subst map_of_eq_Some_iff) auto
qed

lemma contrib_tags:
  assumes "contribs olds news C N" and "ib \<in> set olds"
  shows "u \<in> set (RemovedUsers (C ib)) \<Longrightarrow> uoTag u = ibTag ib" "u \<in> set (AddedUsers (C ib)) \<Longrightarrow> uoTag u = ibTag ib"
    "r \<in> set (RemovedInboundTags (C ib)) \<Longrightarrow> r = ibTag ib" "a \<in> set (AddedInbounds (C ib)) \<Longrightarrow> ibTag a = ibTag ib"
proof -
  let ?nbt = "map (\<lambda>ib. (ibTag ib, ib)) news"
  have d: "distinct (map ibTag news)" using assms(1) by (simp add: contribs_def Let_def)
  have c: "case map_of ?nbt (ibTag ib) of
         None \<Rightarrow> plain_contrib [ibTag ib] [] (C ib)
       | Some n \<Rightarrow> (handler_of ib = handler_of n \<and> plain_contrib [] [] (C ib)) \<or> user_contrib ib n (C ib)
           \<or> plain_contrib [ibTag ib] [n] (C ib)"
    using assms by (simp add: contribs_def Let_def)
  have "(\<forall>u\<in>set (RemovedUsers (C ib)) \<union> set (AddedUsers (C ib)). uoTag u = ibTag ib) \<and>
    set (RemovedInboundTags (C ib)) \<subseteq> {ibTag ib} \<and> (\<forall>a\<in>set (AddedInbounds (C ib)). ibTag a = ibTag ib)"
  proof (cases "map_of ?nbt (ibTag ib)")
    case None
    with c show ?thesis by (simp add: plain_contrib_def)
  next
    case (Some n)
    then have "ibTag n = ibTag ib" using map_of_tags(2) [OF d] by blast
    moreover have "plain_contrib [] [] (C ib) \<or> user_contrib ib n (C ib) \<or> plain_contrib [ibTag ib] [n] (C ib)"
      using c Some by auto
    ultimately show ?thesis
      by (elim disjE) (auto simp: plain_contrib_def user_contrib_def removal_def addition_def)
  qed
  then show "u \<in> set (RemovedUsers (C ib)) \<Longrightarrow> uoTag u = ibTag ib" "u \<in> set (AddedUsers (C ib)) \<Longrightarrow> uoTag u = ibTag ib"
    "r \<in> set (RemovedInboundTags (C ib)) \<Longrightarrow> r = ibTag ib" "a \<in> set (AddedInbounds (C ib)) \<Longrightarrow> ibTag a = ibTag ib"
    by auto
qed

lemma users_reach:
  assumes "user_contrib ib n c"
  obtains R A where "\<And>e. (\<exists>u\<in>set (RemovedUsers c). uoTag u = ibTag ib \<and> uoEmail u = e) \<longleftrightarrow> e \<in> R"
    "\<And>e. (\<exists>u\<in>set (AddedUsers c). uoTag u = ibTag ib \<and> uoEmail u = e) \<longleftrightarrow> A e \<noteq> None"
    "\<And>e v. A e = Some v \<Longrightarrow> map_of nbt (ibTag ib) = Some n \<Longrightarrow> new_text nbt (ibTag ib) e = v"
    "override (\<lambda>t e. case A e of Some v \<Rightarrow> Some (Some v) | None \<Rightarrow> if e \<in> R then Some None else None)
      (ibTag ib) (Some (handler_of ib)) = Some (handler_of n)"
proof -
  obtain oldCs newCs rest where u: "splitSettingsClients (ibSettings ib) = Some (oldCs, rest)"
    "splitSettingsClients (ibSettings n) = Some (newCs, rest)"
    "handler_of n = (handler_of ib)\<lparr>hSettings := view_settings (ibSettings n)\<rparr>"
    "RemovedUsers c = map (removal ib) (changed_users newCs oldCs)"
    "AddedUsers c = map (\<lambda>(e, u). addition ib e u) (added_users newCs oldCs)"
    using assms by (auto simp: user_contrib_def)
  let ?R = "set (changed_users newCs oldCs)" and ?A = "client_texts (added_users newCs oldCs)"
  have R: "(\<exists>u\<in>set (RemovedUsers c). uoTag u = ibTag ib \<and> uoEmail u = e) \<longleftrightarrow> e \<in> ?R" for e
    by (auto simp: u(4) removal_def)
  have A: "(\<exists>u\<in>set (AddedUsers c). uoTag u = ibTag ib \<and> uoEmail u = e) \<longleftrightarrow> ?A e \<noteq> None" for e
  proof -
    have "?A e \<noteq> None \<longleftrightarrow> e \<in> fst ` set (added_users newCs oldCs)"
      using map_of_eq_None_iff [of "added_users newCs oldCs" e] by (simp add: client_texts_def)
    then show ?thesis by (force simp: u(5) addition_def)
  qed
  have g: "new_text nbt (ibTag ib) e = v" if "?A e = Some v" "map_of nbt (ibTag ib) = Some n" for e v
    using that user_diff.added_new [OF that(1)] u(2) by (simp add: new_text_def)
  have "(\<lambda>cs e. case case ?A e of Some v \<Rightarrow> Some (Some v) | None \<Rightarrow> if e \<in> ?R then Some None else None of
      Some v \<Rightarrow> v | None \<Rightarrow> cs e) = (\<lambda>cs e. case ?A e of Some v \<Rightarrow> Some v | None \<Rightarrow> if e \<in> ?R then None else cs e)"
    by (auto simp: fun_eq_iff split: option.splits)
  moreover have "(\<lambda>e. case ?A e of Some v \<Rightarrow> Some v | None \<Rightarrow> if e \<in> ?R then None else client_texts oldCs e) = client_texts newCs"
    using user_diff.applied_new [of oldCs newCs] by (simp add: user_diff.applied_def fun_eq_iff)
  moreover have "hSettings (handler_of ib) = Clients (client_texts oldCs) rest"
    "view_settings (ibSettings n) = Clients (client_texts newCs) rest"
    using u(1,2) by (simp_all add: handler_of_def view_settings_def client_texts_def fun_eq_iff)
  ultimately have "override (\<lambda>t e. case ?A e of Some v \<Rightarrow> Some (Some v) | None \<Rightarrow> if e \<in> ?R then Some None else None)
      (ibTag ib) (Some (handler_of ib)) = Some (handler_of n)"
    by (simp add: override_def with_clients_def u(3))
  with R A g show ?thesis by (rule that)
qed

text \<open>At the tag of an old inbound only its own contribution acts; at any other tag, only a new inbound's.\<close>

lemma old_tag_inj:
  "contribs olds news C N \<Longrightarrow> i \<in> set olds \<Longrightarrow> j \<in> set olds \<Longrightarrow> ibTag i = ibTag j \<Longrightarrow> i = j"
  by (auto simp: contribs_def Let_def distinct_map inj_on_def)

lemma at_old_tag:
  assumes "contribs_diff olds news C N d" and "ib \<in> set olds"
  shows "u \<in> set (RemovedUsers d) \<and> uoTag u = ibTag ib \<longleftrightarrow> u \<in> set (RemovedUsers (C ib))"
    and "u \<in> set (AddedUsers d) \<and> uoTag u = ibTag ib \<longleftrightarrow> u \<in> set (AddedUsers (C ib))"
    and "ibTag ib \<in> set (RemovedInboundTags d) \<longleftrightarrow> ibTag ib \<in> set (RemovedInboundTags (C ib))"
    and "a \<in> set (AddedInbounds d) \<and> ibTag a = ibTag ib \<longleftrightarrow> a \<in> set (AddedInbounds (C ib))"
proof -
  have cc: "contribs olds news C N" using assms(1) by (simp add: contribs_diff_def)
  note sets = assms(1) [unfolded contribs_diff_def, THEN conjunct2]
  note tags = contrib_tags [OF cc] and inj = old_tag_inj [OF cc]
  have own: "x \<in> (\<Union>i\<in>set olds. f i) \<and> g x = ibTag ib \<longleftrightarrow> x \<in> f ib"
    if "\<And>i y. i \<in> set olds \<Longrightarrow> y \<in> f i \<Longrightarrow> g y = ibTag i" for f :: "inboundConfig \<Rightarrow> 'b set" and g x
  proof
    assume x: "x \<in> (\<Union>i\<in>set olds. f i) \<and> g x = ibTag ib"
    then obtain i where "i \<in> set olds" "x \<in> f i" by blast
    with that x inj [OF this(1) assms(2)] show "x \<in> f ib" by simp
  qed (use that assms(2) in auto)
  show "u \<in> set (RemovedUsers d) \<and> uoTag u = ibTag ib \<longleftrightarrow> u \<in> set (RemovedUsers (C ib))"
    using own [of "\<lambda>i. set (RemovedUsers (C i))" uoTag] tags(1) sets by simp
  show "u \<in> set (AddedUsers d) \<and> uoTag u = ibTag ib \<longleftrightarrow> u \<in> set (AddedUsers (C ib))"
    using own [of "\<lambda>i. set (AddedUsers (C i))" uoTag] tags(2) sets by simp
  show "ibTag ib \<in> set (RemovedInboundTags d) \<longleftrightarrow> ibTag ib \<in> set (RemovedInboundTags (C ib))"
    using own [of "\<lambda>i. set (RemovedInboundTags (C i))" "\<lambda>t. t" "ibTag ib"] tags(3) sets by simp
  have "distinct (map ibTag olds)" using cc by (simp add: contribs_def Let_def)
  note mo = map_of_tags(2) [OF this]
  have "a \<notin> set (AddedInbounds (N i))" if "ibTag a = ibTag ib" "i \<in> set news" for i
  proof
    assume a: "a \<in> set (AddedInbounds (N i))"
    have "plain_contrib [] (if map_of (map (\<lambda>ib. (ibTag ib, ib)) olds) (ibTag i) = None then [i] else []) (N i)"
      using cc that(2) by (simp add: contribs_def Let_def)
    with a have "a = i" "map_of (map (\<lambda>ib. (ibTag ib, ib)) olds) (ibTag i) = None"
      by (simp_all add: plain_contrib_def split: if_splits)
    moreover have "map_of (map (\<lambda>ib. (ibTag ib, ib)) olds) (ibTag ib) = Some ib" using mo assms(2) by blast
    ultimately show False using that(1) by simp
  qed
  then show "a \<in> set (AddedInbounds d) \<and> ibTag a = ibTag ib \<longleftrightarrow> a \<in> set (AddedInbounds (C ib))"
    using own [of "\<lambda>i. set (AddedInbounds (C i))" ibTag a] tags(4) sets by auto
qed

lemma at_new_tag:
  assumes "contribs_diff olds news C N d" and "\<And>ib. ib \<in> set olds \<Longrightarrow> ibTag ib \<noteq> t"
  shows "clean d t" and "t \<notin> set (RemovedInboundTags d)"
    and "a \<in> set (AddedInbounds d) \<and> ibTag a = t \<longleftrightarrow> a \<in> set news \<and> ibTag a = t"
proof -
  have cc: "contribs olds news C N" using assms(1) by (simp add: contribs_diff_def)
  note sets = assms(1) [unfolded contribs_diff_def, THEN conjunct2]
  note tags = contrib_tags [OF cc]
  show "clean d t" using sets tags(1,2) assms(2) unfolding clean_def by (metis UN_E)
  show "t \<notin> set (RemovedInboundTags d)" using sets tags(3) assms(2) by (metis UN_E)
  have none: "map_of (map (\<lambda>ib. (ibTag ib, ib)) olds) t = None"
    using assms(2) by (fastforce simp: map_of_eq_None_iff)
  have "plain_contrib [] (if map_of (map (\<lambda>ib. (ibTag ib, ib)) olds) (ibTag i) = None then [i] else []) (N i)"
    if "i \<in> set news" for i using cc that by (simp add: contribs_def Let_def)
  then have new: "x \<in> set (AddedInbounds (N i)) \<Longrightarrow> x = i" "ibTag i = t \<Longrightarrow> i \<in> set (AddedInbounds (N i))"
    if "i \<in> set news" for i x using that none by (auto simp: plain_contrib_def split: if_splits)
  show "a \<in> set (AddedInbounds d) \<and> ibTag a = t \<longleftrightarrow> a \<in> set news \<and> ibTag a = t"
    using sets tags(4) assms(2) new by (auto; metis)
qed

lemma contribs_users_ok:
  assumes "contribs_diff olds news C N d"
  shows "users_ok d (new_text (map (\<lambda>ib. (ibTag ib, ib)) news))"
  unfolding users_ok_def
proof
  let ?nbt = "map (\<lambda>ib. (ibTag ib, ib)) news"
  fix u assume "u \<in> set (AddedUsers d)"
  then obtain ib where ib: "ib \<in> set olds" "u \<in> set (AddedUsers (C ib))"
    using assms [unfolded contribs_diff_def, THEN conjunct2] by auto
  have "case map_of ?nbt (ibTag ib) of
         None \<Rightarrow> plain_contrib [ibTag ib] [] (C ib)
       | Some n \<Rightarrow> (handler_of ib = handler_of n \<and> plain_contrib [] [] (C ib)) \<or> user_contrib ib n (C ib)
           \<or> plain_contrib [ibTag ib] [n] (C ib)"
    using assms ib(1) by (simp add: contribs_diff_def contribs_def Let_def)
  then obtain n where "user_contrib ib n (C ib)" "map_of ?nbt (ibTag ib) = Some n"
    using ib(2) by (auto simp: plain_contrib_def split: option.splits)
  then show "user_email (uoUser u) = uoEmail u \<and> map_option json_marshal (uoUser u) = Some (new_text ?nbt (uoTag u) (uoEmail u))"
    using user_contrib_users ib(2) by blast
qed

lemma tag_image: "t \<in> ibTag ` X \<longleftrightarrow> (\<exists>a. a \<in> X \<and> ibTag a = t)"
  by auto

lemma reach_new_tag:
  assumes "contribs_diff olds news C N d" and "\<And>ib. ib \<in> set olds \<Longrightarrow> ibTag ib \<noteq> t" and "m t = None"
  shows "run_inbounds d m t = map_option handler_of (map_of (map (\<lambda>ib. (ibTag ib, ib)) news) t)"
proof -
  have "distinct (map ibTag news)" using assms(1) by (simp add: contribs_diff_def contribs_def Let_def)
  note mo = map_of_tags(2) [OF this]
  note at = at_new_tag [of olds news C N d t, OF assms(1,2)]
  have run: "run_inbounds d m t = (if t \<in> ibTag ` set (AddedInbounds d)
      then Some (handler_of (the (map_of (map (\<lambda>ib. (ibTag ib, ib)) news) t)))
      else if t \<in> set (RemovedInboundTags d) then None else m t)"
  proof (rule run_inbounds_clean [OF at(1) contribs_users_ok [OF assms(1)]])
    fix ib assume "ib \<in> set (AddedInbounds d)" "ibTag ib = t"
    with at(3) have "map_of (map (\<lambda>ib. (ibTag ib, ib)) news) t = Some ib" using mo by blast
    then show "handler_of ib = handler_of (the (map_of (map (\<lambda>ib. (ibTag ib, ib)) news) t))" by simp
  qed
  show ?thesis
  proof (cases "map_of (map (\<lambda>ib. (ibTag ib, ib)) news) t")
    case None
    then have "\<not> (a \<in> set (AddedInbounds d) \<and> ibTag a = t)" for a using at(3) [of a] mo [of t a] by simp
    then have "t \<notin> ibTag ` set (AddedInbounds d)" unfolding tag_image by blast
    with None run assms(3) show ?thesis by simp
  next
    case (Some n)
    then have "n \<in> set (AddedInbounds d) \<and> ibTag n = t" using at(3) [of n] mo [of t n] by simp
    then have "t \<in> ibTag ` set (AddedInbounds d)" unfolding tag_image by blast
    with Some run show ?thesis by simp
  qed
qed

lemma reach_plain:
  assumes "contribs_diff olds news C N d" and "ib \<in> set olds" and "plain_contrib rem add (C ib)"
    and "\<And>a. a \<in> set add \<Longrightarrow> ibTag a = ibTag ib \<and> handler_of a = h" and "set rem \<subseteq> {ibTag ib}"
  shows "run_inbounds d m (ibTag ib) = (if add \<noteq> [] then Some h else if rem \<noteq> [] then None else m (ibTag ib))"
proof -
  note at = at_old_tag [OF assms(1,2)]
  have c: "RemovedInboundTags (C ib) = rem" "AddedInbounds (C ib) = add" "RemovedUsers (C ib) = []" "AddedUsers (C ib) = []"
    using assms(3) by (simp_all add: plain_contrib_def)
  have "clean d (ibTag ib)" using at(1,2) by (auto simp: clean_def c)
  note run = run_inbounds_clean [OF this contribs_users_ok [OF assms(1)], of h m]
  have add: "a \<in> set (AddedInbounds d) \<and> ibTag a = ibTag ib \<longleftrightarrow> a \<in> set add" for a using at(4) c(2) by simp
  have "ibTag ib \<in> ibTag ` set (AddedInbounds d) \<longleftrightarrow> add \<noteq> []"
    unfolding tag_image add by (cases add) auto
  moreover have "ibTag ib \<in> set (RemovedInboundTags d) \<longleftrightarrow> rem \<noteq> []"
    using at(3) c(1) assms(5) by (cases rem) auto
  moreover have "handler_of a = h" if "a \<in> set (AddedInbounds d)" "ibTag a = ibTag ib" for a
    using add [of a] assms(4) [of a] that by simp
  ultimately show ?thesis using run by simp
qed

lemma reach_users:
  assumes "contribs_diff olds news C N d" and "ib \<in> set olds" and "user_contrib ib n (C ib)"
    and "map_of (map (\<lambda>ib. (ibTag ib, ib)) news) (ibTag ib) = Some n" and "m (ibTag ib) = Some (handler_of ib)"
  shows "run_inbounds d m (ibTag ib) = Some (handler_of n)"
proof -
  note at = at_old_tag [OF assms(1,2)]
  have c: "RemovedInboundTags (C ib) = []" "AddedInbounds (C ib) = []"
    using assms(3) by (simp_all add: user_contrib_def)
  obtain R A where RA: "\<And>e. (\<exists>u\<in>set (RemovedUsers (C ib)). uoTag u = ibTag ib \<and> uoEmail u = e) \<longleftrightarrow> e \<in> R"
    "\<And>e. (\<exists>u\<in>set (AddedUsers (C ib)). uoTag u = ibTag ib \<and> uoEmail u = e) \<longleftrightarrow> A e \<noteq> None"
    "\<And>e v. A e = Some v \<Longrightarrow> map_of (map (\<lambda>ib. (ibTag ib, ib)) news) (ibTag ib) = Some n \<Longrightarrow>
       new_text (map (\<lambda>ib. (ibTag ib, ib)) news) (ibTag ib) e = v"
    "override (\<lambda>t e. case A e of Some v \<Rightarrow> Some (Some v) | None \<Rightarrow> if e \<in> R then Some None else None)
      (ibTag ib) (Some (handler_of ib)) = Some (handler_of n)"
    by (rule users_reach [OF assms(3)]) blast
  have "run_inbounds d m (ibTag ib) = override (\<lambda>t e. case A e of Some v \<Rightarrow> Some (Some v)
     | None \<Rightarrow> if e \<in> R then Some None else None) (ibTag ib) (m (ibTag ib))"
  proof (rule run_inbounds_users [OF contribs_users_ok [OF assms(1)]])
    show "ibTag ib \<notin> ibTag ` set (AddedInbounds d)"
    proof
      assume "ibTag ib \<in> ibTag ` set (AddedInbounds d)"
      then obtain a where "a \<in> set (AddedInbounds d) \<and> ibTag a = ibTag ib" by auto
      then show False using at(4) [of a] c(2) by simp
    qed
    show "ibTag ib \<notin> set (RemovedInboundTags d)" using at(3) c(1) by simp
    show "(\<exists>u\<in>set (RemovedUsers d). uoTag u = ibTag ib \<and> uoEmail u = e) \<longleftrightarrow> e \<in> R" for e
      using RA(1) [of e] at(1) by blast
    show "(\<exists>u\<in>set (AddedUsers d). uoTag u = ibTag ib \<and> uoEmail u = e) \<longleftrightarrow> A e \<noteq> None" for e
      using RA(2) [of e] at(2) by blast
  qed (use RA(3) assms(4) in blast)
  with RA(4) assms(5) show ?thesis by simp
qed

lemma inbounds_reach:
  assumes "contribs_diff olds news C N d"
  shows "run_inbounds d (map_of (map (\<lambda>ib. (ibTag ib, handler_of ib)) olds))
    = map_of (map (\<lambda>ib. (ibTag ib, handler_of ib)) news)"
proof
  fix t
  let ?obt = "map (\<lambda>ib. (ibTag ib, ib)) olds" and ?nbt = "map (\<lambda>ib. (ibTag ib, ib)) news"
  let ?m = "map_of (map (\<lambda>ib. (ibTag ib, handler_of ib)) olds)"
  have dist: "distinct (map ibTag olds)" "distinct (map ibTag news)"
    using assms by (simp_all add: contribs_diff_def contribs_def Let_def)
  note news = map_of_tags(1) [OF dist(2), of handler_of t]
  show "run_inbounds d ?m t = map_of (map (\<lambda>ib. (ibTag ib, handler_of ib)) news) t"
  proof (cases "map_of ?obt t")
    case None
    then have "ibTag ib \<noteq> t" if "ib \<in> set olds" for ib using that map_of_tags(2) [OF dist(1), of t ib] by auto
    then show ?thesis unfolding news
      using None map_of_tags(1) [OF dist(1), of handler_of t] by (intro reach_new_tag [OF assms]) simp_all
  next
    case (Some ib)
    then have ib: "ib \<in> set olds" "ibTag ib = t" using map_of_tags(2) [OF dist(1)] by blast+
    have m: "?m (ibTag ib) = Some (handler_of ib)" using Some ib(2) map_of_tags(1) [OF dist(1), of handler_of t] by simp
    have c: "case map_of ?nbt (ibTag ib) of
         None \<Rightarrow> plain_contrib [ibTag ib] [] (C ib)
       | Some n \<Rightarrow> (handler_of ib = handler_of n \<and> plain_contrib [] [] (C ib)) \<or> user_contrib ib n (C ib)
           \<or> plain_contrib [ibTag ib] [n] (C ib)"
      using assms ib(1) by (simp add: contribs_diff_def contribs_def Let_def)
    show ?thesis
    proof (cases "map_of ?nbt t")
      case None
      then have "plain_contrib [ibTag ib] [] (C ib)" using c ib(2) by simp
      from reach_plain [OF assms ib(1) this, of undefined ?m] show ?thesis using None news ib(2) by simp
    next
      case n: (Some n)
      then have tag: "ibTag n = ibTag ib" using map_of_tags(2) [OF dist(2)] ib(2) by blast
      consider (same) "handler_of ib = handler_of n" "plain_contrib [] [] (C ib)" | (users) "user_contrib ib n (C ib)"
        | (swap) "plain_contrib [ibTag ib] [n] (C ib)" using c n ib(2) by auto
      then have "run_inbounds d ?m (ibTag ib) = Some (handler_of n)"
      proof cases
        case same
        with reach_plain [OF assms ib(1) same(2), of undefined ?m] m show ?thesis by simp
      next
        case users
        from reach_users [OF assms ib(1) users] n ib(2) m show ?thesis by simp
      next
        case swap
        from reach_plain [OF assms ib(1) swap, of "handler_of n" ?m] tag show ?thesis by simp
      qed
      then show ?thesis using n news ib(2) by simp
    qed
  qed
qed

section \<open>Outbounds and routing reach the new configuration\<close>

definition entries_ok :: "outboundEntry list \<Rightarrow> bool" where
  "entries_ok es \<longleftrightarrow> distinct (map oeTag es) \<and> (\<forall>e\<in>set es. set_struct ''tag'' set_string [] (oeRaw e) = Some (oeTag e) \<and>
     oeNorm e = canonicalValue (oeRaw e))"

lemma parse_entries_ok: "parse_entries js acc = Some es \<Longrightarrow> entries_ok acc \<Longrightarrow> entries_ok es"
proof (induction js arbitrary: acc)
  case (Cons j js)
  obtain tag where t: "set_struct ''tag'' set_string [] j = Some tag" "tag \<notin> set (map oeTag acc)"
    "parse_entries js (acc @ [\<lparr>oeTag = tag, oeRaw = j, oeNorm = canonicalValue j\<rparr>]) = Some es"
    using Cons.prems(1) by (auto split: option.splits if_splits)
  then show ?case using Cons.prems(2) by (intro Cons.IH [OF t(3)]) (auto simp: entries_ok_def)
qed simp

lemma parseOutbounds_ok: "parseOutbounds r = Some es \<Longrightarrow> entries_ok es"
  using parse_entries_ok [of _ "[]" es]
  by (auto simp: parseOutbounds_def entries_ok_def split: if_splits option.splits json.splits)

definition run_outs :: "hotDiff \<Rightarrow> (string \<Rightarrow> string option) \<Rightarrow> string \<Rightarrow> string option" where
  "run_outs d m = foldl (\<lambda>m ob. v_add_outbound ob m)
     (foldl (\<lambda>m t. m(t := None)) m (RemovedOutboundTags d)) (AddedOutbounds d)"

lemma added_outs_in: "e \<in> set (added_outs newOut oldOut) \<Longrightarrow> e \<in> set newOut \<and>
    (oeTag e \<in> set (changed_outs newOut oldOut) \<or> entryByTag oldOut (oeTag e) = None)"
  by (auto simp: added_outs_def dest: entryByTag_tag [OF sym] split: option.splits)

lemma entryByTag_in: "distinct (map oeTag es) \<Longrightarrow> e \<in> set es \<Longrightarrow> entryByTag es (oeTag e) = Some e"
  unfolding entryByTag_def by (rule map_of_is_SomeI) (auto simp: o_def)

lemma add_outs_eq:
  assumes "entries_ok newOut" "set es \<subseteq> set newOut"
  shows "foldl (\<lambda>m ob. v_add_outbound ob m) m (map oeRaw es) t = (case out_texts es t of Some v \<Rightarrow> Some v | None \<Rightarrow> m t)"
  using assms(2)
proof (induction es arbitrary: m)
  case Nil
  then show ?case by (simp add: out_texts_def entryByTag_def)
next
  case (Cons e es)
  then have e: "e \<in> set newOut" by simp
  then have add: "v_add_outbound (oeRaw e) m = m(oeTag e \<mapsto> oeNorm e)"
    using assms(1) by (simp add: entries_ok_def v_add_outbound_def)
  have "out_texts es (oeTag e) = Some v \<Longrightarrow> v = oeNorm e" for v
  proof -
    assume "out_texts es (oeTag e) = Some v"
    then obtain e' where "e' \<in> set es" "oeTag e' = oeTag e" "v = oeNorm e'"
      by (auto simp: out_texts_def dest: entryByTag_tag)
    moreover have "e' = e" if "e' \<in> set newOut" using assms(1) e that \<open>oeTag e' = oeTag e\<close>
      by (auto simp: entries_ok_def distinct_map inj_on_def)
    ultimately show "v = oeNorm e" using Cons.prems by auto
  qed
  then show ?case using Cons add by (auto simp: out_texts_def entryByTag_def split: option.splits)
qed

lemma outs_reach:
  assumes "entries_ok newOut"
  shows "foldl (\<lambda>m ob. v_add_outbound ob m) (foldl (\<lambda>m t. m(t := None)) (out_texts oldOut) (changed_outs newOut oldOut))
    (map oeRaw (added_outs newOut oldOut)) = out_texts newOut"
proof -
  have "set (added_outs newOut oldOut) \<subseteq> set newOut" using added_outs_in by blast
  note * = add_outs_eq [OF assms this]
  show ?thesis
    unfolding out_diff.applied_new [of oldOut newOut, symmetric]
    by (auto simp: fun_eq_iff * rm_tags_eq out_diff.applied_def split: option.splits)
qed

lemma compute_parts:
  assumes "ComputeHotDiff (Some oldCfg) (Some newCfg) = Some d"
  obtains d0 oldOut newOut where "diffInbounds oldCfg newCfg emptyDiff = Some d0"
    "RemovedInboundTags d = RemovedInboundTags d0" "AddedInbounds d = AddedInbounds d0"
    "RemovedUsers d = RemovedUsers d0" "AddedUsers d = AddedUsers d0" "DroppedClients d = DroppedClients d0"
    "parseOutbounds (OutboundConfigs oldCfg) = Some oldOut" "parseOutbounds (OutboundConfigs newCfg) = Some newOut"
    "oldOut = [] \<longleftrightarrow> newOut = []"
    "oldOut \<noteq> [] \<longrightarrow> oeTag (hd oldOut) = oeTag (hd newOut) \<and> oeNorm (hd oldOut) = oeNorm (hd newOut)"
    "RemovedOutboundTags d = changed_outs newOut oldOut" "AddedOutbounds d = map oeRaw (added_outs newOut oldOut)"
    "RouterConfig oldCfg = RouterConfig newCfg \<and> RoutingConfig d = None \<or>
     RoutingConfig d = Some (RouterConfig newCfg) \<and>
       routingWithoutReloadable (RouterConfig oldCfg) = routingWithoutReloadable (RouterConfig newCfg)"
proof -
  obtain d0 d1 where d: "diffInbounds oldCfg newCfg emptyDiff = Some d0" "diffOutbounds oldCfg newCfg d0 = Some d1"
    "diffRouting oldCfg newCfg d1 = Some d"
    using assms by (auto simp: ComputeHotDiff_def bind_eq_Some_conv split: if_splits)
  have d0: "RemovedOutboundTags d0 = [] \<and> AddedOutbounds d0 = [] \<and> RoutingConfig d0 = None"
    by (rule diffInbounds_contribs [OF d(1)])
  obtain oldOut newOut where o1: "parseOutbounds (OutboundConfigs oldCfg) = Some oldOut"
    "parseOutbounds (OutboundConfigs newCfg) = Some newOut" "oldOut = [] \<longleftrightarrow> newOut = []"
    "oldOut \<noteq> [] \<longrightarrow> oeTag (hd oldOut) = oeTag (hd newOut) \<and> oeNorm (hd oldOut) = oeNorm (hd newOut)"
    "d1 = diff_new_outbounds oldOut newOut (diff_old_outbounds newOut oldOut d0)"
    using d(2) by (auto simp: diffOutbounds_def split: option.splits if_splits)
  have d1: "RemovedOutboundTags d1 = changed_outs newOut oldOut" "AddedOutbounds d1 = map oeRaw (added_outs newOut oldOut)"
    "RemovedInboundTags d1 = RemovedInboundTags d0" "AddedInbounds d1 = AddedInbounds d0" "RoutingConfig d1 = None"
    "RemovedUsers d1 = RemovedUsers d0" "AddedUsers d1 = AddedUsers d0" "DroppedClients d1 = DroppedClients d0"
    using o1(5) d0 by (simp_all add: diff_outs_eq)
  have r: "d = d1 \<and> RouterConfig oldCfg = RouterConfig newCfg \<or> d = d1\<lparr>RoutingConfig := Some (RouterConfig newCfg)\<rparr> \<and>
      routingWithoutReloadable (RouterConfig oldCfg) = routingWithoutReloadable (RouterConfig newCfg)"
    using d(3) by (auto simp: diffRouting_def split: if_splits option.splits)
  show ?thesis
    using r d1 by (intro that [OF d(1) _ _ _ _ _ o1(1-4)]) auto
qed

text \<open>The effect of all operations of a difference on the configuration in force.\<close>

definition run_diff :: "hotDiff \<Rightarrow> running \<Rightarrow> running" where
  "run_diff d v = v\<lparr>rInbounds := run_inbounds d (rInbounds v), rOutbounds := run_outs d (rOutbounds v),
     rRouting := (case RoutingConfig d of None \<Rightarrow> rRouting v | Some r \<Rightarrow> v_routing r (rRouting v))\<rparr>"

lemma run_diff_reach:
  assumes "ComputeHotDiff (Some oldCfg) (Some newCfg) = Some d" and "diff_perm d e"
  shows "run_diff e (running_of oldCfg) = running_of newCfg"
proof -
  obtain d0 oldOut newOut where p: "diffInbounds oldCfg newCfg emptyDiff = Some d0"
    "RemovedInboundTags d = RemovedInboundTags d0" "AddedInbounds d = AddedInbounds d0"
    "RemovedUsers d = RemovedUsers d0" "AddedUsers d = AddedUsers d0" "DroppedClients d = DroppedClients d0"
    "parseOutbounds (OutboundConfigs oldCfg) = Some oldOut" "parseOutbounds (OutboundConfigs newCfg) = Some newOut"
    "oldOut = [] \<longleftrightarrow> newOut = []"
    "oldOut \<noteq> [] \<longrightarrow> oeTag (hd oldOut) = oeTag (hd newOut) \<and> oeNorm (hd oldOut) = oeNorm (hd newOut)"
    "RemovedOutboundTags d = changed_outs newOut oldOut" "AddedOutbounds d = map oeRaw (added_outs newOut oldOut)"
    "RouterConfig oldCfg = RouterConfig newCfg \<and> RoutingConfig d = None \<or>
     RoutingConfig d = Some (RouterConfig newCfg) \<and>
       routingWithoutReloadable (RouterConfig oldCfg) = routingWithoutReloadable (RouterConfig newCfg)"
    by (rule compute_parts [OF assms(1)])
  obtain C N where "contribs_diff (InboundConfigs oldCfg) (InboundConfigs newCfg) C N e"
    using contribs_diff_perm [OF p(1) assms(2) p(2-5)] by blast
  then have i: "run_inbounds e (rInbounds (running_of oldCfg)) = rInbounds (running_of newCfg)"
    using inbounds_reach by (simp add: running_of_def)
  have e: "RemovedOutboundTags e = changed_outs newOut oldOut" "AddedOutbounds e = map oeRaw (added_outs newOut oldOut)"
    "RoutingConfig e = RoutingConfig d" using assms(2) p by (simp_all add: diff_perm_def)
  have "rOutbounds (running_of oldCfg) = out_texts oldOut" "rOutbounds (running_of newCfg) = out_texts newOut"
    using p by (simp_all add: running_of_def outbounds_of_def out_texts_def fun_eq_iff)
  then have o1: "run_outs e (rOutbounds (running_of oldCfg)) = rOutbounds (running_of newCfg)"
    using outs_reach [OF parseOutbounds_ok [OF p(8)], of oldOut] by (simp add: run_outs_def e)
  have df: "rDefault (running_of oldCfg) = rDefault (running_of newCfg)"
    using p by (cases oldOut; cases newOut) (auto simp: running_of_def outbounds_of_def)
  have r: "(case RoutingConfig e of None \<Rightarrow> rRouting (running_of oldCfg) | Some r \<Rightarrow> v_routing r (rRouting (running_of oldCfg)))
      = rRouting (running_of newCfg)"
    using p(13) e(3) by (auto simp: running_of_def routing_of_def v_routing_def)
  have "list_all2 rawEqualNormalized (static_sections oldCfg) (static_sections newCfg)"
    using assms(1) by (auto simp: ComputeHotDiff_def split: if_splits)
  then have st: "rStatic (running_of oldCfg) = rStatic (running_of newCfg)"
    by (simp add: running_of_def list.rel_map [symmetric] list_all2_eq) (simp add: list_all2_conv_all_nth norm_eq)
  show ?thesis using i o1 df r st by (simp add: run_diff_def running.equality)
qed

section \<open>The core follows the operations\<close>

lemma call_each_view:
  assumes "call_each tol f xs s = (True, s')" and "P (view s)"
    and "\<And>x s err s'. x \<in> set xs \<Longrightarrow> P (view s) \<Longrightarrow> f x s = (err, s') \<Longrightarrow> err = None \<or> tol err \<Longrightarrow>
      view s' = step (view s) x \<and> P (view s')"
  shows "view s' = foldl step (view s) xs \<and> P (view s')"
  using assms
proof (induction xs arbitrary: s)
  case (Cons x xs)
  obtain err s1 where s1: "f x s = (err, s1)" by fastforce
  with Cons.prems(1) have ok: "err = None \<or> tol err" "call_each tol f xs s1 = (True, s')"
    by (auto split: if_splits)
  from Cons.prems(3) [OF _ Cons.prems(2) s1 ok(1)] have 1: "view s1 = step (view s) x" "P (view s1)" by auto
  have "view s' = foldl step (view s1) xs \<and> P (view s')"
    by (rule Cons.IH [OF ok(2) 1(2)]) (use Cons.prems(3) in auto)
  then show ?case by (metis 1(1) foldl_Cons)
qed simp

lemma and_then_True: "and_then r k = (True, s) \<longleftrightarrow> (\<exists>s1. r = (True, s1) \<and> k s1 = (True, s))"
  by (cases r) (auto simp: and_then_def)

lemma exists_err [simp]: "\<not> IsUserExistsErr None" "\<not> IsExistingTagErr None" "\<not> IsMissingHandlerErr None"
  by (simp_all add: IsUserExistsErr_def IsExistingTagErr_def IsMissingHandlerErr_def)

lemma v_add_rm_user: "user_email u = e \<Longrightarrow> v_add_user t u (v_rm_user t e m) = v_add_user t u m"
proof -
  assume "user_email u = e"
  then have "(\<lambda>cs :: string \<Rightarrow> string option. (cs(e := None))(user_email u := map_option json_marshal u))
      = (\<lambda>cs. cs(user_email u := map_option json_marshal u))" by simp
  then show ?thesis by (cases "m t") (simp_all add: v_add_user_def v_rm_user_def with_clients_comp)
qed

lemma core_laws_D:
  assumes "core_laws api view"
  shows "RemoveUser api tag email s = (err, s') \<Longrightarrow> err = None \<or> IsMissingHandlerErr err \<Longrightarrow>
      view s' = (view s)\<lparr>rInbounds := v_rm_user tag email (rInbounds (view s))\<rparr>"
    and "AddUser api p tag u s = (None, s') \<Longrightarrow> view s' = (view s)\<lparr>rInbounds := v_add_user tag u (rInbounds (view s))\<rparr>"
    and "AddUser api p tag u s = (err, s') \<Longrightarrow> IsUserExistsErr err \<Longrightarrow> view s' = view s"
    and "DelInbound api tag s = (err, s') \<Longrightarrow> err = None \<or> IsMissingHandlerErr err \<Longrightarrow>
      view s' = (view s)\<lparr>rInbounds := (rInbounds (view s))(tag := None)\<rparr>"
    and "AddInbound api ib s = (None, s') \<Longrightarrow> view s' = (view s)\<lparr>rInbounds := (rInbounds (view s))(ibTag ib \<mapsto> handler_of ib)\<rparr>"
    and "AddInbound api ib s = (err, s') \<Longrightarrow> IsExistingTagErr err \<Longrightarrow> view s' = view s"
    and "DelOutbound api tag s = (err, s') \<Longrightarrow> rDefault (view s) \<noteq> Some tag \<Longrightarrow> err = None \<or> IsMissingHandlerErr err \<Longrightarrow>
      view s' = (view s)\<lparr>rOutbounds := (rOutbounds (view s))(tag := None)\<rparr>"
    and "AddOutbound api ob s = (None, s') \<Longrightarrow> rDefault (view s) \<noteq> None \<Longrightarrow>
      view s' = (view s)\<lparr>rOutbounds := v_add_outbound ob (rOutbounds (view s))\<rparr>"
    and "AddOutbound api ob s = (err, s') \<Longrightarrow> rDefault (view s) \<noteq> None \<Longrightarrow> IsExistingTagErr err \<Longrightarrow> view s' = view s"
    and "ApplyRoutingConfig api r s = (None, s') \<Longrightarrow> view s' = (view s)\<lparr>rRouting := v_routing r (rRouting (view s))\<rparr>"
  using assms by (auto simp: core_laws_def)

lemma addUserReconciling_view:
  assumes "core_laws api view" and "addUserReconciling api u s = (None, s')" and "user_email (uoUser u) = uoEmail u"
  shows "view s' = (view s)\<lparr>rInbounds := v_add_user (uoTag u) (uoUser u) (rInbounds (view s))\<rparr>"
proof -
  note laws = core_laws_D [OF assms(1)]
  obtain err s1 where 1: "AddUser api (uoProtocol u) (uoTag u) (uoUser u) s = (err, s1)" by fastforce
  show ?thesis
  proof (cases "err = None")
    case True
    then show ?thesis using assms(2) 1 laws(2) by (simp add: addUserReconciling_def)
  next
    case False
    obtain derr s2 where 2: "RemoveUser api (uoTag u) (uoEmail u) s1 = (derr, s2)" by fastforce
    have u: "IsUserExistsErr err" using assms(2) 1 False by (auto simp: addUserReconciling_def split: if_splits)
    then have d: "derr = None \<or> IsMissingHandlerErr derr"
      and 3: "AddUser api (uoProtocol u) (uoTag u) (uoUser u) s2 = (None, s')"
      using assms(2) 1 2 False by (auto simp: addUserReconciling_def split: if_splits)
    show ?thesis
      unfolding laws(2) [OF 3] laws(1) [OF 2 d] laws(3) [OF 1 u] by (simp add: v_add_rm_user [OF assms(3)])
  qed
qed

lemma addInboundReconciling_view:
  assumes "core_laws api view" and "addInboundReconciling api ib s = (None, s')"
  shows "view s' = (view s)\<lparr>rInbounds := (rInbounds (view s))(ibTag ib \<mapsto> handler_of ib)\<rparr>"
proof -
  note laws = core_laws_D [OF assms(1)]
  obtain err s1 where 1: "AddInbound api ib s = (err, s1)" by fastforce
  show ?thesis
  proof (cases "err = None")
    case True
    then show ?thesis using assms(2) 1 laws(5) by (simp add: addInboundReconciling_def)
  next
    case False
    obtain derr s2 where 2: "DelInbound api (ibTag ib) s1 = (derr, s2)" by fastforce
    have u: "IsExistingTagErr err" using assms(2) 1 False by (auto simp: addInboundReconciling_def split: if_splits)
    then have d: "derr = None \<or> IsMissingHandlerErr derr" and 3: "AddInbound api ib s2 = (None, s')"
      using assms(2) 1 2 False by (auto simp: addInboundReconciling_def split: if_splits)
    show ?thesis unfolding laws(5) [OF 3] laws(4) [OF 2 d] laws(6) [OF 1 u] by simp
  qed
qed

lemma addOutboundReconciling_view:
  assumes "core_laws api view" and "addOutboundReconciling api ob s = (None, s')" and "rDefault (view s) = Some t0"
    and "set_struct ''tag'' set_string [] ob = Some t" and "t \<noteq> t0"
  shows "view s' = (view s)\<lparr>rOutbounds := v_add_outbound ob (rOutbounds (view s))\<rparr>"
proof -
  note laws = core_laws_D [OF assms(1)]
  obtain err s1 where 1: "AddOutbound api ob s = (err, s1)" by fastforce
  show ?thesis
  proof (cases "err = None")
    case True
    then show ?thesis using assms(2,3) 1 laws(8) by (simp add: addOutboundReconciling_def)
  next
    case False
    obtain derr s2 where 2: "DelOutbound api t s1 = (derr, s2)" by fastforce
    have u: "IsExistingTagErr err" using assms(2) 1 False by (auto simp: addOutboundReconciling_def split: if_splits)
    then have d: "derr = None \<or> IsMissingHandlerErr derr" and 3: "AddOutbound api ob s2 = (None, s')"
      using assms(2,4) 1 2 False by (auto simp: addOutboundReconciling_def split: if_splits)
    have v1: "view s1 = view s" using laws(9) [OF 1 _ u] assms(3) by simp
    have v2: "view s2 = (view s)\<lparr>rOutbounds := (rOutbounds (view s))(t := None)\<rparr>"
      using laws(7) [OF 2 _ d] assms(3,5) v1 by simp
    show ?thesis using laws(8) [OF 3] assms(3) by (simp add: v2 v_add_outbound_def assms(4))
  qed
qed

lemma foldl_fields:
  "foldl (\<lambda>v x. v\<lparr>rInbounds := f x (rInbounds v)\<rparr>) v xs = v\<lparr>rInbounds := foldl (\<lambda>m x. f x m) (rInbounds v) xs\<rparr>"
  "foldl (\<lambda>v x. v\<lparr>rOutbounds := g x (rOutbounds v)\<rparr>) v ys = v\<lparr>rOutbounds := foldl (\<lambda>m x. g x m) (rOutbounds v) ys\<rparr>"
  "foldl (\<lambda>v x. v\<lparr>rRouting := h x (rRouting v)\<rparr>) v zs = v\<lparr>rRouting := foldl (\<lambda>m x. h x m) (rRouting v) zs\<rparr>"
    apply (induction xs arbitrary: v) apply simp_all
   apply (induction ys arbitrary: v) apply simp_all
  apply (induction zs arbitrary: v) apply simp_all
  done

lemma apply_diff_view:
  assumes laws: "core_laws api view" and app: "apply_diff api d s = (True, s')"
    and users: "\<And>u. u \<in> set (AddedUsers d) \<Longrightarrow> user_email (uoUser u) = uoEmail u"
    and del: "\<And>t. t \<in> set (RemovedOutboundTags d) \<Longrightarrow> rDefault (view s) \<noteq> Some t"
    and add: "\<And>ob. ob \<in> set (AddedOutbounds d) \<Longrightarrow>
      \<exists>t0 t. rDefault (view s) = Some t0 \<and> set_struct ''tag'' set_string [] ob = Some t \<and> t \<noteq> t0"
  shows "view s' = run_diff d (view s)"
proof -
  note L = core_laws_D [OF laws]
  define P where "P = (\<lambda>v :: running. rDefault v = rDefault (view s))"
  obtain s1 s2 s3 s4 s5 s6 where
    c: "call_each IsMissingHandlerErr (\<lambda>u. RemoveUser api (uoTag u) (uoEmail u)) (RemovedUsers d) s = (True, s1)"
    "call_each IsMissingHandlerErr (DelInbound api) (RemovedInboundTags d) s1 = (True, s2)"
    "call_each IsMissingHandlerErr (DelOutbound api) (RemovedOutboundTags d) s2 = (True, s3)"
    "call_each none_tolerated (addOutboundReconciling api) (AddedOutbounds d) s3 = (True, s4)"
    "call_each none_tolerated (addInboundReconciling api) (AddedInbounds d) s4 = (True, s5)"
    "call_each none_tolerated (addUserReconciling api) (AddedUsers d) s5 = (True, s6)"
    "call_each none_tolerated (ApplyRoutingConfig api) (case RoutingConfig d of None \<Rightarrow> [] | Some r \<Rightarrow> [r]) s6 = (True, s')"
    using app by (auto simp: apply_diff_def and_then_True)
  have P0: "P (view s)" by (simp add: P_def)
  have v1: "view s1 = foldl (\<lambda>v u. v\<lparr>rInbounds := v_rm_user (uoTag u) (uoEmail u) (rInbounds v)\<rparr>) (view s) (RemovedUsers d) \<and> P (view s1)"
    by (rule call_each_view [where P = P and view = view, OF c(1) P0]) (use L(1) in \<open>auto simp: P_def\<close>)
  have v2: "view s2 = foldl (\<lambda>v t. v\<lparr>rInbounds := (rInbounds v)(t := None)\<rparr>) (view s1) (RemovedInboundTags d) \<and> P (view s2)"
    by (rule call_each_view [where P = P and view = view, OF c(2) conjunct2 [OF v1]]) (use L(4) in \<open>auto simp: P_def\<close>)
  have v3: "view s3 = foldl (\<lambda>v t. v\<lparr>rOutbounds := (rOutbounds v)(t := None)\<rparr>) (view s2) (RemovedOutboundTags d) \<and> P (view s3)"
    by (rule call_each_view [where P = P and view = view, OF c(3) conjunct2 [OF v2]]) (use L(7) del in \<open>auto simp: P_def\<close>)
  have v4: "view s4 = foldl (\<lambda>v ob. v\<lparr>rOutbounds := v_add_outbound ob (rOutbounds v)\<rparr>) (view s3) (AddedOutbounds d) \<and> P (view s4)"
  proof (rule call_each_view [where P = P and view = view, OF c(4) conjunct2 [OF v3]])
    fix ob s err s' assume a: "ob \<in> set (AddedOutbounds d)" "P (view s)" "addOutboundReconciling api ob s = (err, s')"
      "err = None \<or> none_tolerated err"
    then obtain t0 t where t: "rDefault (view s) = Some t0" "set_struct ''tag'' set_string [] ob = Some t" "t \<noteq> t0"
      using add [OF a(1)] by (auto simp: P_def)
    have "err = None" using a(4) by (simp add: none_tolerated_def)
    with addOutboundReconciling_view [OF laws _ t] a(2,3)
    show "view s' = (view s)\<lparr>rOutbounds := v_add_outbound ob (rOutbounds (view s))\<rparr> \<and> P (view s')" by (auto simp: P_def)
  qed
  have v5: "view s5 = foldl (\<lambda>v ib. v\<lparr>rInbounds := (rInbounds v)(ibTag ib \<mapsto> handler_of ib)\<rparr>) (view s4) (AddedInbounds d) \<and> P (view s5)"
    by (rule call_each_view [where P = P and view = view, OF c(5) conjunct2 [OF v4]])
      (use addInboundReconciling_view [OF laws] in \<open>auto simp: P_def none_tolerated_def\<close>)
  have v6: "view s6 = foldl (\<lambda>v u. v\<lparr>rInbounds := v_add_user (uoTag u) (uoUser u) (rInbounds v)\<rparr>) (view s5) (AddedUsers d) \<and> P (view s6)"
    by (rule call_each_view [where P = P and view = view, OF c(6) conjunct2 [OF v5]])
      (use addUserReconciling_view [OF laws _ users] in \<open>auto simp: P_def none_tolerated_def\<close>)
  have v7: "view s' = foldl (\<lambda>v r. v\<lparr>rRouting := v_routing r (rRouting v)\<rparr>) (view s6) (case RoutingConfig d of None \<Rightarrow> [] | Some r \<Rightarrow> [r]) \<and> P (view s')"
    by (rule call_each_view [where P = P and view = view, OF c(7) conjunct2 [OF v6]]) (use L(10) in \<open>auto simp: P_def none_tolerated_def\<close>)
  note F = foldl_fields(1) [of "\<lambda>u. v_rm_user (uoTag u) (uoEmail u)"] foldl_fields(1) [of "\<lambda>t m. m(t := None)"]
    foldl_fields(2) [of "\<lambda>t m. m(t := None)"] foldl_fields(2) [of v_add_outbound]
    foldl_fields(1) [of "\<lambda>ib m. m(ibTag ib \<mapsto> handler_of ib)"]
    foldl_fields(1) [of "\<lambda>u. v_add_user (uoTag u) (uoUser u)"] foldl_fields(3) [of v_routing]
  have "view s6 = (view s)\<lparr>rInbounds := run_inbounds d (rInbounds (view s)), rOutbounds := run_outs d (rOutbounds (view s))\<rparr>"
    unfolding conjunct1 [OF v6] conjunct1 [OF v5] conjunct1 [OF v4] conjunct1 [OF v3] conjunct1 [OF v2] conjunct1 [OF v1] F
    by (simp add: run_inbounds_def run_outs_def)
  then show ?thesis
    unfolding conjunct1 [OF v7] by (simp add: run_diff_def split: option.splits)
qed

lemma hot_apply_users_outs:
  assumes "ComputeHotDiff (Some oldCfg) (Some newCfg) = Some d" and "diff_perm d e"
  shows "\<forall>u\<in>set (AddedUsers e). user_email (uoUser u) = uoEmail u"
    and "\<forall>t\<in>set (RemovedOutboundTags e). rDefault (running_of oldCfg) \<noteq> Some t"
    and "\<forall>ob\<in>set (AddedOutbounds e). \<exists>t0 t. rDefault (running_of oldCfg) = Some t0 \<and>
      set_struct ''tag'' set_string [] ob = Some t \<and> t \<noteq> t0"
proof -
  obtain d0 oldOut newOut where p: "diffInbounds oldCfg newCfg emptyDiff = Some d0"
    "RemovedInboundTags d = RemovedInboundTags d0" "AddedInbounds d = AddedInbounds d0"
    "RemovedUsers d = RemovedUsers d0" "AddedUsers d = AddedUsers d0"
    and o1: "parseOutbounds (OutboundConfigs oldCfg) = Some oldOut" "parseOutbounds (OutboundConfigs newCfg) = Some newOut"
    "oldOut = [] \<longleftrightarrow> newOut = []"
    "oldOut \<noteq> [] \<longrightarrow> oeTag (hd oldOut) = oeTag (hd newOut) \<and> oeNorm (hd oldOut) = oeNorm (hd newOut)"
    "RemovedOutboundTags d = changed_outs newOut oldOut" "AddedOutbounds d = map oeRaw (added_outs newOut oldOut)"
    by (rule compute_parts [OF assms(1)])
  obtain C N where c: "contribs_diff (InboundConfigs oldCfg) (InboundConfigs newCfg) C N e"
    using contribs_diff_perm [OF p(1) assms(2) p(2-5)] by blast
  show "\<forall>u\<in>set (AddedUsers e). user_email (uoUser u) = uoEmail u"
    using contribs_users_ok [OF c] by (simp add: users_ok_def)
  have e: "RemovedOutboundTags e = changed_outs newOut oldOut" "AddedOutbounds e = map oeRaw (added_outs newOut oldOut)"
    using assms(2) o1 by (simp_all add: diff_perm_def)
  have ok: "entries_ok oldOut" "entries_ok newOut" using parseOutbounds_ok o1(1,2) by blast+
  have df: "rDefault (running_of oldCfg) = (if oldOut = [] then None else Some (oeTag (hd oldOut)))"
    using o1(1) by (cases oldOut) (simp_all add: running_of_def outbounds_of_def)
  have hd: "oeTag (hd oldOut) \<notin> set (changed_outs newOut oldOut) \<and> entryByTag oldOut (oeTag (hd oldOut)) \<noteq> None"
    if "oldOut \<noteq> []"
  proof -
    have "entryByTag newOut (oeTag (hd newOut)) = Some (hd newOut)" "entryByTag oldOut (oeTag (hd oldOut)) = Some (hd oldOut)"
      using ok that o1(3) by (simp_all add: entries_ok_def entryByTag_in)
    moreover have "x = hd oldOut" if "x \<in> set oldOut" "oeTag x = oeTag (hd oldOut)" for x
      using that ok(1) \<open>oldOut \<noteq> []\<close> by (auto simp: entries_ok_def distinct_map inj_on_def)
    ultimately show ?thesis using that o1(4) by (auto simp: changed_outs_def)
  qed
  show "\<forall>t\<in>set (RemovedOutboundTags e). rDefault (running_of oldCfg) \<noteq> Some t"
    using hd df by (auto simp: e)
  show "\<forall>ob\<in>set (AddedOutbounds e). \<exists>t0 t. rDefault (running_of oldCfg) = Some t0 \<and>
      set_struct ''tag'' set_string [] ob = Some t \<and> t \<noteq> t0"
  proof
    fix ob assume "ob \<in> set (AddedOutbounds e)"
    then obtain x where x: "ob = oeRaw x" "x \<in> set (added_outs newOut oldOut)" by (auto simp: e)
    note in_new = added_outs_in [OF x(2)]
    then have ne: "oldOut \<noteq> []" using o1(3) by auto
    have "oeTag x \<noteq> oeTag (hd oldOut)" using hd [OF ne] in_new by auto
    moreover have "set_struct ''tag'' set_string [] ob = Some (oeTag x)" using ok(2) in_new x(1) by (simp add: entries_ok_def)
    ultimately show "\<exists>t0 t. rDefault (running_of oldCfg) = Some t0 \<and>
      set_struct ''tag'' set_string [] ob = Some t \<and> t \<noteq> t0" using df ne by auto
  qed
qed

lemma run_diff_empty: "diffEmpty d \<Longrightarrow> run_diff d v = v"
  by (simp add: run_diff_def diffEmpty_def run_inbounds_def run_outs_def)

section \<open>Properties\<close>


text \<open>A core that executes every request, and a change that adds one client to a VLESS inbound.\<close>

definition model_core :: "running core_api" where
  "model_core = \<lparr>
     RemoveUser = (\<lambda>tag email s. (None, s\<lparr>rInbounds := v_rm_user tag email (rInbounds s)\<rparr>)),
     AddUser = (\<lambda>p tag u s. (None, s\<lparr>rInbounds := v_add_user tag u (rInbounds s)\<rparr>)),
     DelInbound = (\<lambda>tag s. (None, s\<lparr>rInbounds := (rInbounds s)(tag := None)\<rparr>)),
     AddInbound = (\<lambda>ib s. (None, s\<lparr>rInbounds := (rInbounds s)(ibTag ib \<mapsto> handler_of ib)\<rparr>)),
     DelOutbound = (\<lambda>tag s. (None, s\<lparr>rOutbounds := (rOutbounds s)(tag := None)\<rparr>)),
     AddOutbound = (\<lambda>ob s. (None, s\<lparr>rOutbounds := v_add_outbound ob (rOutbounds s)\<rparr>)),
     ApplyRoutingConfig = (\<lambda>r s. (None, s\<lparr>rRouting := v_routing r (rRouting s)\<rparr>))\<rparr>"

lemma model_core_laws: "core_laws model_core (\<lambda>s. s)"
  by (simp add: core_laws_def model_core_def)

definition sample_config :: "raw \<Rightarrow> config" where
  "sample_config settings = \<lparr>LogConfig = [], RouterConfig = [], DNSConfig = [],
     InboundConfigs = [\<lparr>ibListen = [], ibPort = 443, ibProtocol = ''vless'', ibSettings = settings,
       ibStreamSettings = [], ibTag = ''in'', ibSniffing = []\<rparr>],
     OutboundConfigs = ''[{\"tag\":\"direct\"}]'', Transport = [], Policy = [], API = [], Stats = [], Reverse = [],
     FakeDNS = [], Observatory = [], BurstObservatory = [], Metrics = [], Geodata = [], Env = []\<rparr>"

definition sample_old :: config where
  "sample_old = sample_config ''{\"clients\":[{\"email\":\"a\"}]}''"

definition sample_new :: config where
  "sample_new = sample_config ''{\"clients\":[{\"email\":\"a\"},{\"email\":\"b\"}]}''"

lemma sample_diff: "ComputeHotDiff (Some sample_old) (Some sample_new) = Some (emptyDiff\<lparr>AddedUsers :=
    [\<lparr>uoTag = ''in'', uoProtocol = ''vless'', uoEmail = ''b'', uoUser = Some (JObj [(''email'', JStr ''b'')])\<rparr>]\<rparr>)"
  by code_simp


text \<open>C7: Two raw JSON sections compare equal exactly when they are the same text or decode to the same
  JSON value, with \<open>null\<close> and an absent section taken as the same: neither white space, member order nor
  duplicate members matter, and nothing else is ignored.\<close>

theorem rawEqualNormalized_semantic:
  "rawEqualNormalized a b \<longleftrightarrow> a = b \<or> (raw_value a \<noteq> None \<and> raw_value a = raw_value b)"
  by (rule rawEqualNormalized_value)

text \<open>The inbound of the API itself is never touched by a hot diff.\<close>

lemma diffOldInbound_tag:
  assumes "diffOldInbound a nbt ib emptyDiff = Some c" and "ibTag ib = a \<or> ibTag ib = ''api''"
  shows "c = emptyDiff"
  using assms by (auto simp: diffOldInbound_def split: option.splits if_splits)

lemma diffNewInbound_tag:
  assumes "diffNewInbound a obt ib emptyDiff = Some c" and "ibTag ib = a \<or> ibTag ib = ''api''"
  shows "c = emptyDiff"
  using assms by (auto simp: diffNewInbound_def split: if_splits)

definition touches :: "hotDiff \<Rightarrow> string \<Rightarrow> bool" where
  "touches d t \<longleftrightarrow> t \<in> set (RemovedInboundTags d) \<or> t \<in> ibTag ` set (AddedInbounds d) \<or>
     t \<in> uoTag ` set (RemovedUsers d) \<or> t \<in> uoTag ` set (AddedUsers d)"

lemma touches_dapp: "touches (dapp d e) t \<longleftrightarrow> touches d t \<or> touches e t"
  by (auto simp: touches_def dapp_def)

lemma touches_empty [simp]: "\<not> touches emptyDiff t"
  by (simp add: touches_def emptyDiff_def)

lemma touches_foldl: "touches (foldl dapp d cs) t \<longleftrightarrow> touches d t \<or> (\<exists>c\<in>set cs. touches c t)"
  by (induction cs arbitrary: d) (auto simp: touches_dapp)

lemma old_touches:
  assumes "diffOldInbound a nbt ib emptyDiff = Some c" and "touches c t" and "\<And>n. map_of nbt (ibTag ib) = Some n \<Longrightarrow> ibTag n = ibTag ib"
  shows "t = ibTag ib \<and> t \<noteq> a \<and> t \<noteq> ''api''"
proof -
  have "c \<noteq> emptyDiff" using assms(2) by auto
  then have "ibTag ib \<noteq> a" "ibTag ib \<noteq> ''api''" using diffOldInbound_tag [OF assms(1)] by auto
  moreover have "t = ibTag ib"
    using diffOldInbound_contrib [OF assms(1)] assms(2,3)
    by (auto simp: touches_def plain_contrib_def user_contrib_def removal_def addition_def split: option.splits)
  ultimately show ?thesis by simp
qed

lemma new_touches:
  assumes "diffNewInbound a obt ib emptyDiff = Some c" and "touches c t"
  shows "t = ibTag ib \<and> t \<noteq> a \<and> t \<noteq> ''api''"
proof -
  have "c \<noteq> emptyDiff" using assms(2) by auto
  then have "ibTag ib \<noteq> a" "ibTag ib \<noteq> ''api''" using diffNewInbound_tag [OF assms(1)] by auto
  moreover have "t = ibTag ib"
    using diffNewInbound_contrib [OF assms(1)] assms(2)
    by (auto simp: touches_def plain_contrib_def split: if_splits)
  ultimately show ?thesis by simp
qed

lemma diffInbounds_touches:
  assumes "diffInbounds oldCfg newCfg emptyDiff = Some d" and "touches d t"
  shows "t \<noteq> apiTagFromConfig (API newCfg) \<and> t \<noteq> ''api''"
proof -
  let ?olds = "InboundConfigs oldCfg" and ?news = "InboundConfigs newCfg" and ?a = "apiTagFromConfig (API newCfg)"
  obtain obt nbt where bt: "inboundsByTag ?olds [] = Some obt" "inboundsByTag ?news [] = Some nbt"
    using assms(1) by (auto simp: diffInbounds_def split: option.splits)
  obtain d1 where d1: "for_each (diffOldInbound ?a nbt) ?olds emptyDiff = Some d1"
    "for_each (diffNewInbound ?a obt) ?news d1 = Some d"
    using assms(1) bt by (auto simp: diffInbounds_def Let_def bind_eq_Some_conv)
  have nbt: "\<And>n t. map_of nbt t = Some n \<Longrightarrow> ibTag n = t"
    using inboundsByTag_eq [OF bt(2)] by (auto dest: map_of_SomeD)
  note o1 = for_each_frame [OF diffOldInbound_frame d1(1)] and n1 = for_each_frame [OF diffNewInbound_frame d1(2)]
  have "(\<exists>i\<in>set ?olds. touches (the (diffOldInbound ?a nbt i emptyDiff)) t) \<or>
      (\<exists>i\<in>set ?news. touches (the (diffNewInbound ?a obt i emptyDiff)) t)"
    using assms(2) conjunct2 [OF n1] conjunct2 [OF o1] by (auto simp: touches_foldl)
  then show ?thesis
  proof
    assume "\<exists>i\<in>set ?olds. touches (the (diffOldInbound ?a nbt i emptyDiff)) t"
    then obtain i c where "diffOldInbound ?a nbt i emptyDiff = Some c" "touches c t" using conjunct1 [OF o1] by fastforce
    from old_touches [OF this nbt] show ?thesis by blast
  next
    assume "\<exists>i\<in>set ?news. touches (the (diffNewInbound ?a obt i emptyDiff)) t"
    then obtain i c where "diffNewInbound ?a obt i emptyDiff = Some c" "touches c t" using conjunct1 [OF n1] by fastforce
    from new_touches [OF this] show ?thesis by blast
  qed
qed

text \<open>C9: A hot diff never contains an operation on the inbound that carries the API requests: not on the
  tag the new configuration names for it, nor on the tag \<open>api\<close>.\<close>

theorem hot_diff_spares_api:
  assumes "ComputeHotDiff (Some oldCfg) (Some newCfg) = Some d"
    and "t = apiTagFromConfig (API newCfg) \<or> t = ''api''"
  shows "t \<notin> set (RemovedInboundTags d) \<union> ibTag ` set (AddedInbounds d) \<union> uoTag ` set (RemovedUsers d @ AddedUsers d)"
proof -
  obtain d0 where p: "diffInbounds oldCfg newCfg emptyDiff = Some d0"
    "RemovedInboundTags d = RemovedInboundTags d0" "AddedInbounds d = AddedInbounds d0"
    "RemovedUsers d = RemovedUsers d0" "AddedUsers d = AddedUsers d0"
    by (rule compute_parts [OF assms(1)])
  with diffInbounds_touches [OF p(1), of t] assms(2) show ?thesis by (auto simp: touches_def)
qed

theorem hot_diff_spares_api_witness:
  "\<exists>d. ComputeHotDiff (Some sample_old) (Some sample_new) = Some d \<and> AddedUsers d \<noteq> [] \<and>
     ''api'' \<notin> uoTag ` set (AddedUsers d)"
  using hot_diff_spares_api [OF sample_diff, of "''api''"] sample_diff by (simp add: emptyDiff_def)

text \<open>Which clients a difference drops.\<close>

definition client_names :: "inboundConfig \<Rightarrow> string set option" where
  "client_names ib = map_option (\<lambda>(cs, _). fst ` set cs) (splitSettingsClients (ibSettings ib))"

definition drops_client :: "config \<Rightarrow> config \<Rightarrow> bool" where
  "drops_client oldCfg newCfg \<longleftrightarrow> (\<exists>ib\<in>set (InboundConfigs oldCfg). \<exists>n\<in>set (InboundConfigs newCfg). ibTag n = ibTag ib \<and>
     (\<exists>os ns. client_names ib = Some os \<and> client_names n = Some ns \<and> \<not> os \<subseteq> ns))"

lemma droppedClients_names:
  "droppedClients ib n \<noteq> [] \<longleftrightarrow> (\<exists>os ns. client_names ib = Some os \<and> client_names n = Some ns \<and> \<not> os \<subseteq> ns)"
  by (auto simp: droppedClients_def client_names_def filter_empty_conv map_of_eq_None_iff split: option.splits)
    (force simp: map_of_eq_None_iff)+

definition drop_list :: "(string \<times> inboundConfig) list \<Rightarrow> inboundConfig \<Rightarrow> userOp list" where
  "drop_list nbt ib = (case map_of nbt (ibTag ib) of None \<Rightarrow> [] | Some n \<Rightarrow> droppedClients ib n)"

lemma equal_drops_none: "inboundEqualNormalized ib n \<Longrightarrow> droppedClients ib n = []"
proof -
  assume "inboundEqualNormalized ib n"
  then have "splitSettingsClients (ibSettings ib) = splitSettingsClients (ibSettings n)"
    by (auto simp: inboundEqualNormalized_def rawEqualNormalized_value split_value)
  then show ?thesis
    by (auto simp: droppedClients_def filter_empty_conv map_of_eq_None_iff rev_image_eqI split: option.splits)
qed

lemma diffOldInbound_dropped:
  assumes "diffOldInbound a nbt ib d = Some d'"
  shows "DroppedClients d' = DroppedClients d @ drop_list nbt ib"
  using assms equal_drops_none
  by (auto simp: diffOldInbound_def drop_list_def diffInboundUsers_def diff_users_eq swapInbound_def addInbound_def Let_def
      split: option.splits if_splits)

lemma diffNewInbound_dropped: "diffNewInbound a obt ib d = Some d' \<Longrightarrow> DroppedClients d' = DroppedClients d"
  by (auto simp: diffNewInbound_def addInbound_def split: if_splits)

lemma for_each_dropped:
  assumes "\<And>x d d'. f x d = Some d' \<Longrightarrow> DroppedClients d' = DroppedClients d @ g x" and "for_each f xs d = Some d'"
  shows "DroppedClients d' = DroppedClients d @ concat (map g xs)"
  using assms(2) by (induction xs arbitrary: d) (auto dest: assms(1) split: option.splits)

lemma compute_dropped:
  assumes "ComputeHotDiff (Some oldCfg) (Some newCfg) = Some d"
  shows "DroppedClients d \<noteq> [] \<longleftrightarrow> drops_client oldCfg newCfg"
proof -
  let ?olds = "InboundConfigs oldCfg" and ?news = "InboundConfigs newCfg" and ?a = "apiTagFromConfig (API newCfg)"
  obtain d0 where p: "diffInbounds oldCfg newCfg emptyDiff = Some d0" "DroppedClients d = DroppedClients d0"
    by (rule compute_parts [OF assms])
  obtain obt nbt where bt: "inboundsByTag ?olds [] = Some obt" "inboundsByTag ?news [] = Some nbt"
    using p(1) by (auto simp: diffInbounds_def split: option.splits)
  obtain d1 where d1: "for_each (diffOldInbound ?a nbt) ?olds emptyDiff = Some d1"
    "for_each (diffNewInbound ?a obt) ?news d1 = Some d0"
    using p(1) bt by (auto simp: diffInbounds_def Let_def bind_eq_Some_conv)
  have "DroppedClients d1 = DroppedClients emptyDiff @ concat (map (drop_list nbt) ?olds)"
    by (rule for_each_dropped [OF _ d1(1)]) (rule diffOldInbound_dropped)
  moreover have "DroppedClients d0 = DroppedClients d1 @ concat (map (\<lambda>_. []) ?news)"
    by (rule for_each_dropped [OF _ d1(2)]) (simp add: diffNewInbound_dropped)
  ultimately have "DroppedClients d = concat (map (drop_list nbt) ?olds)" using p(2) by (simp add: emptyDiff_def)
  then have "DroppedClients d \<noteq> [] \<longleftrightarrow> (\<exists>ib\<in>set ?olds. \<exists>n. map_of nbt (ibTag ib) = Some n \<and> droppedClients ib n \<noteq> [])"
    by (auto simp: drop_list_def split: option.splits)
  moreover have "map_of nbt t = Some n \<longleftrightarrow> n \<in> set ?news \<and> ibTag n = t" for t n
    using inboundsByTag_eq [OF bt(2)] map_of_tags(2) [of ?news t n] by (auto simp: o_def)
  ultimately show ?thesis unfolding droppedClients_names drops_client_def by blast
qed

lemma removed_readded_or_dropped:
  assumes "contribs_diff olds news C N e" and "u \<in> set (RemovedUsers e)"
  shows "(\<exists>v\<in>set (AddedUsers e). uoTag v = uoTag u \<and> uoEmail v = uoEmail u) \<or>
    (\<exists>ib\<in>set olds. \<exists>n\<in>set news. ibTag n = ibTag ib \<and> droppedClients ib n \<noteq> [])"
proof -
  let ?nbt = "map (\<lambda>ib. (ibTag ib, ib)) news"
  obtain ib where ib: "ib \<in> set olds" "u \<in> set (RemovedUsers (C ib))"
    using assms by (auto simp: contribs_diff_def)
  have dist: "distinct (map ibTag news)" and "case map_of ?nbt (ibTag ib) of
         None \<Rightarrow> plain_contrib [ibTag ib] [] (C ib)
       | Some n \<Rightarrow> (handler_of ib = handler_of n \<and> plain_contrib [] [] (C ib)) \<or> user_contrib ib n (C ib)
           \<or> plain_contrib [ibTag ib] [n] (C ib)"
    using assms(1) ib(1) by (simp_all add: contribs_diff_def contribs_def Let_def)
  then obtain n where n: "user_contrib ib n (C ib)" "map_of ?nbt (ibTag ib) = Some n"
    using ib(2) by (auto simp: plain_contrib_def split: option.splits)
  then have new: "n \<in> set news" "ibTag n = ibTag ib" using map_of_tags(2) [OF dist] by blast+
  obtain oldCs newCs rest where s: "splitSettingsClients (ibSettings ib) = Some (oldCs, rest)"
    "splitSettingsClients (ibSettings n) = Some (newCs, rest)"
    "RemovedUsers (C ib) = map (removal ib) (changed_users newCs oldCs)"
    "AddedUsers (C ib) = map (\<lambda>(e, u). addition ib e u) (added_users newCs oldCs)"
    using n(1) by (auto simp: user_contrib_def)
  from ib(2) s(3) obtain em where em: "u = removal ib em" "em \<in> set (changed_users newCs oldCs)" by auto
  show ?thesis
  proof (cases "map_of newCs em")
    case None
    then have "droppedClients ib n \<noteq> []"
      using em(2) s(1,2) by (auto simp: droppedClients_def changed_users_def filter_empty_conv)
    then show ?thesis using ib(1) new by blast
  next
    case (Some c)
    then have "map_of (added_users newCs oldCs) em = Some c" using em(2) by (simp add: map_of_added_users)
    then have "addition ib em c \<in> set (AddedUsers (C ib))" unfolding s(4) by (force dest: map_of_SomeD)
    then have "addition ib em c \<in> set (AddedUsers e)" using assms(1) ib(1) by (auto simp: contribs_diff_def)
    then show ?thesis by (force simp: em(1) addition_def removal_def)
  qed
qed

text \<open>A difference counts as dropping users, which is what can force a restart, exactly when an inbound
  present in both configurations had a named client that it no longer has; replacing a client's
  credentials, adding clients and reordering them do not.\<close>

theorem DropsUsers_iff:
  assumes "ComputeHotDiff (Some oldCfg) (Some newCfg) = Some d" and "diff_perm d e"
  shows "DropsUsers e \<longleftrightarrow> drops_client oldCfg newCfg"
proof (cases "drops_client oldCfg newCfg")
  case True
  then have "DroppedClients e \<noteq> []" using compute_dropped [OF assms(1)] assms(2) by (auto simp: diff_perm_def)
  with True show ?thesis by (simp add: DropsUsers_def)
next
  case False
  then have none: "DroppedClients e = []" using compute_dropped [OF assms(1)] assms(2) by (auto simp: diff_perm_def)
  obtain d0 where p: "diffInbounds oldCfg newCfg emptyDiff = Some d0"
    "RemovedInboundTags d = RemovedInboundTags d0" "AddedInbounds d = AddedInbounds d0"
    "RemovedUsers d = RemovedUsers d0" "AddedUsers d = AddedUsers d0"
    by (rule compute_parts [OF assms(1)])
  obtain C N where c: "contribs_diff (InboundConfigs oldCfg) (InboundConfigs newCfg) C N e"
    using contribs_diff_perm [OF p(1) assms(2) p(2-5)] by blast
  have re: "\<exists>v\<in>set (AddedUsers e). uoTag v = uoTag u \<and> uoEmail v = uoEmail u" if "u \<in> set (RemovedUsers e)" for u
    using removed_readded_or_dropped [OF c that] False unfolding drops_client_def droppedClients_names by blast
  have "uoTag u @ CHR 0x00 # uoEmail u \<in> set (map (\<lambda>u. uoTag u @ CHR 0x00 # uoEmail u) (AddedUsers e))"
    if u: "u \<in> set (RemovedUsers e)" for u
  proof -
    obtain v where "v \<in> set (AddedUsers e)" "uoTag v = uoTag u" "uoEmail v = uoEmail u"
      by (rule bexE [OF re [OF u]]) simp
    then show ?thesis by (simp only: set_map) (rule image_eqI [of _ _ v], simp_all)
  qed
  then have "\<not> DropsUsers e" using none unfolding DropsUsers_def Let_def by (auto simp only: list_ex_iff split: if_splits)
  then show ?thesis using False by blast
qed

theorem DropsUsers_iff_witness:
  "\<exists>d. ComputeHotDiff (Some sample_old) (Some sample_new) = Some d \<and> \<not> DropsUsers d \<and> \<not> drops_client sample_old sample_new"
  using DropsUsers_iff [OF sample_diff, of "emptyDiff\<lparr>AddedUsers :=
    [\<lparr>uoTag = ''in'', uoProtocol = ''vless'', uoEmail = ''b'', uoUser = Some (JObj [(''email'', JStr ''b'')])\<rparr>]\<rparr>"] sample_diff
  by (simp add: emptyDiff_def diff_perm_def DropsUsers_def)

end
