(* ===== verification/Go_Struct.thy ===== *)
theory Go_Struct
  imports Go_Json
begin

text \<open>
  \<open>encoding/json\<close> decoding into structs with several fields.  A value of the wrong type is remembered as
  the error \<open>Unmarshal\<close> returns and leaves its field alone, and decoding goes on; the flag of a result says
  that there was no error.  A syntax error is found before anything is decoded.
\<close>

type_synonym 'a setter = "'a \<Rightarrow> json \<Rightarrow> bool \<times> 'a"

definition s_string :: "string setter" where
  "s_string old v = (case v of JNull \<Rightarrow> (True, old) | JStr s \<Rightarrow> (True, s) | _ \<Rightarrow> (False, old))"

definition s_bool :: "bool setter" where
  "s_bool old v = (case v of JNull \<Rightarrow> (True, old) | JBool b \<Rightarrow> (True, b) | _ \<Rightarrow> (False, old))"

definition s_int :: "int setter" where
  "s_int old v = (case v of JNull \<Rightarrow> (True, old)
     | JNum t \<Rightarrow> (case parse_int64 t of Some n \<Rightarrow> (True, n) | None \<Rightarrow> (False, old)) | _ \<Rightarrow> (False, old))"

text \<open>A slice is filled over its old elements.\<close>

fun s_elems :: "'a setter \<Rightarrow> 'a \<Rightarrow> 'a list \<Rightarrow> json list \<Rightarrow> bool \<times> 'a list" where
  "s_elems f zero old [] = (True, [])"
| "s_elems f zero old (v # vs) =
     (let (b, x) = f (if old = [] then zero else hd old) v; (bs, xs) = s_elems f zero (tl old) vs in (b \<and> bs, x # xs))"

definition s_list :: "'a setter \<Rightarrow> 'a \<Rightarrow> 'a list setter" where
  "s_list f zero old v = (case v of JNull \<Rightarrow> (True, []) | JArr vs \<Rightarrow> s_elems f zero old vs | _ \<Rightarrow> (False, old))"

definition s_ptr :: "'a setter \<Rightarrow> 'a \<Rightarrow> 'a option setter" where
  "s_ptr f zero old v = (if v = JNull then (True, None)
     else let (b, x) = f (case old of None \<Rightarrow> zero | Some x \<Rightarrow> x) v in (b, Some x))"

type_synonym 'a field = "string \<times> 'a setter"

definition fld :: "string \<Rightarrow> ('a \<Rightarrow> 'b) \<Rightarrow> (('b \<Rightarrow> 'b) \<Rightarrow> 'a \<Rightarrow> 'a) \<Rightarrow> 'b setter \<Rightarrow> 'a field" where
  "fld name get upd s = (name, \<lambda>x v. let (b, y) = s (get x) v in (b, upd (\<lambda>_. y) x))"

text \<open>A field that is decoded but not looked at: only its type matters.\<close>

definition skip :: "string \<Rightarrow> 'b setter \<Rightarrow> 'b \<Rightarrow> 'a field" where
  "skip name s zero = (name, \<lambda>x v. (fst (s zero v), x))"

definition s_member :: "'a field list \<Rightarrow> bool \<times> 'a \<Rightarrow> string \<times> json \<Rightarrow> bool \<times> 'a" where
  "s_member fs r m = (case find (\<lambda>f. field_matches (fst f) (fst m)) fs of
     None \<Rightarrow> r | Some (_, f) \<Rightarrow> (let (b, x) = f (snd r) (snd m) in (fst r \<and> b, x)))"

definition s_struct :: "'a field list \<Rightarrow> 'a setter" where
  "s_struct fs x v = (case v of JNull \<Rightarrow> (True, x) | JObj ms \<Rightarrow> foldl (s_member fs) (True, x) ms | _ \<Rightarrow> (False, x))"

text \<open>A map with integer keys of which only the types matter.\<close>

definition s_int_map :: "'b setter \<Rightarrow> 'b \<Rightarrow> unit setter" where
  "s_int_map f zero old v = (case v of JNull \<Rightarrow> (True, ())
     | JObj ms \<Rightarrow> (list_all (\<lambda>(k, w). parse_int64 k \<noteq> None \<and> fst (f zero w)) ms, ()) | _ \<Rightarrow> (False, ()))"

definition Unmarshal :: "'a setter \<Rightarrow> 'a \<Rightarrow> string \<Rightarrow> bool \<times> 'a" where
  "Unmarshal f x raw = (case json_unmarshal raw of None \<Rightarrow> (False, x) | Some v \<Rightarrow> f x v)"

end
