(* ===== verification/Go_Netip.thy ===== *)
theory Go_Netip
  imports Go_Strings
begin

text \<open>
  The parts of the Go package \<open>net/netip\<close> the modelled code uses: \<open>ParseAddr\<close>, \<open>ParsePrefix\<close>,
  \<open>Addr.String\<close>, \<open>Addr.Next\<close> and \<open>Prefix.Masked\<close>.  An address is the number its bytes spell.
\<close>

section \<open>Addresses\<close>

datatype addr = V4 int | V6 int string

definition Is4 :: "addr \<Rightarrow> bool" where
  "Is4 a = (case a of V4 _ \<Rightarrow> True | V6 _ _ \<Rightarrow> False)"

definition Is6 :: "addr \<Rightarrow> bool" where
  "Is6 a = (case a of V4 _ \<Rightarrow> False | V6 _ _ \<Rightarrow> True)"

definition Is4In6 :: "addr \<Rightarrow> bool" where
  "Is4In6 a = (case a of V4 _ \<Rightarrow> False | V6 n _ \<Rightarrow> n div 2 ^ 32 = 0xFFFF)"

fun of_groups :: "int \<Rightarrow> int list \<Rightarrow> int" where
  "of_groups b [] = 0"
| "of_groups b (g # gs) = g * b ^ length gs + of_groups b gs"

fun to_groups :: "int \<Rightarrow> nat \<Rightarrow> int \<Rightarrow> int list" where
  "to_groups b 0 n = []"
| "to_groups b (Suc k) n = (n div b ^ k) mod b # to_groups b k n"

section \<open>Parsing\<close>

fun parse_v4 :: "int list \<Rightarrow> int \<Rightarrow> nat \<Rightarrow> string \<Rightarrow> int list option" where
  "parse_v4 done val digLen [] = (if length done < 3 \<or> digLen = 0 then None else Some (done @ [val]))"
| "parse_v4 done val digLen (c # s) =
     (if is_digit c then
        if digLen = 1 \<and> val = 0 then None
        else let val = val * 10 + int (digit_val c)
             in if val > 255 then None else parse_v4 done val (Suc digLen) s
      else if c = CHR ''.'' then
        if digLen = 0 \<or> length done = 3 then None else parse_v4 (done @ [val]) 0 0 s
      else None)"

definition hex_num :: "string \<Rightarrow> int" where
  "hex_num ds = foldl (\<lambda>n c. n * 16 + int (the (hex_val c))) 0 ds"

function parse_v6 :: "string \<Rightarrow> int list \<Rightarrow> nat option \<Rightarrow> (int list \<times> nat option) option" where
  "parse_v6 s gs ellipsis =
     (if length gs \<ge> 8 then (if s = [] then Some (gs, ellipsis) else None)
      else let ds = takeWhile (\<lambda>c. hex_val c \<noteq> None) s; r = drop (length ds) s in
        if ds = [] \<or> length ds > 4 then None
        else if r \<noteq> [] \<and> hd r = CHR ''.'' then
          if ellipsis = None \<and> length gs \<noteq> 6 \<or> length gs > 6 then None
          else (case parse_v4 [] 0 0 s of
                  Some [a, b, c, d] \<Rightarrow> Some (gs @ [a * 256 + b, c * 256 + d], ellipsis)
                | _ \<Rightarrow> None)
        else if r = [] then Some (gs @ [hex_num ds], ellipsis)
        else if hd r \<noteq> CHR '':'' \<or> length r = 1 then None
        else if hd (tl r) = CHR '':'' then
          if ellipsis \<noteq> None then None
          else if tl (tl r) = [] then Some (gs @ [hex_num ds], Some (Suc (length gs)))
          else parse_v6 (tl (tl r)) (gs @ [hex_num ds]) (Some (Suc (length gs)))
        else parse_v6 (tl r) (gs @ [hex_num ds]) ellipsis)"
  by pat_completeness auto
termination by (relation "measure (\<lambda>(s, gs, e). 8 - length gs)") auto

declare parse_v6.simps [simp del]

definition expand_v6 :: "int list \<times> nat option \<Rightarrow> int list option" where
  "expand_v6 r = (case r of (gs, ellipsis) \<Rightarrow>
     if length gs < 8
     then (case ellipsis of None \<Rightarrow> None | Some k \<Rightarrow> Some (take k gs @ replicate (8 - length gs) 0 @ drop k gs))
     else if ellipsis \<noteq> None then None else Some gs)"

definition parseIPv6 :: "string \<Rightarrow> addr option" where
  "parseIPv6 s0 =
     (let (s, zone) = (case cut CHR ''%'' s0 of None \<Rightarrow> (s0, None) | Some (a, z) \<Rightarrow> (a, Some z)) in
      if zone = Some [] then None
      else let z = (case zone of None \<Rightarrow> [] | Some z \<Rightarrow> z) in
        if s = ''::'' then Some (V6 0 z)
        else map_option (\<lambda>gs. V6 (of_groups 65536 gs) z)
          (Option.bind (if take 2 s = ''::'' then parse_v6 (drop 2 s) [] (Some 0) else parse_v6 s [] None) expand_v6))"

definition parseIPv4 :: "string \<Rightarrow> addr option" where
  "parseIPv4 s = map_option (\<lambda>fs. V4 (of_groups 256 fs)) (parse_v4 [] 0 0 s)"

definition ParseAddr :: "string \<Rightarrow> addr option" where
  "ParseAddr s = (case find (\<lambda>c. c \<in> {CHR ''.'', CHR '':'', CHR ''%''}) s of
     None \<Rightarrow> None
   | Some c \<Rightarrow> if c = CHR ''.'' then parseIPv4 s else if c = CHR '':'' then parseIPv6 s else None)"

text \<open>The last \<open>/\<close> separates the length, which must not have a sign or a leading zero.\<close>

definition ParsePrefix :: "string \<Rightarrow> (addr \<times> nat) option" where
  "ParsePrefix s = (case cut CHR ''/'' (rev s) of
     None \<Rightarrow> None
   | Some (rbits, raddr) \<Rightarrow> (case ParseAddr (rev raddr) of
       None \<Rightarrow> None
     | Some a \<Rightarrow>
         (let bits = rev rbits in
          if (case a of V6 _ z \<Rightarrow> z \<noteq> [] | V4 _ \<Rightarrow> False) then None
          else if length bits > 1 \<and> \<not> (CHR ''1'' \<le> hd bits \<and> hd bits \<le> CHR ''9'') then None
          else case parse_int64 bits of
                 None \<Rightarrow> None
               | Some n \<Rightarrow> if n < 0 \<or> n > (if Is6 a then 128 else 32) then None else Some (a, nat n))))"

section \<open>Operations and printing\<close>

definition Masked :: "addr \<times> nat \<Rightarrow> addr" where
  "Masked p = (case p of
     (V4 n, bits) \<Rightarrow> V4 (n - n mod 2 ^ (32 - bits))
   | (V6 n z, bits) \<Rightarrow> V6 (n - n mod 2 ^ (128 - bits)) z)"

text \<open>\<open>Addr.Next\<close>; there is none after the last address, and the zero \<open>Addr\<close> prints as \<open>invalid IP\<close>.\<close>

definition Next :: "addr \<Rightarrow> addr option" where
  "Next a = (case a of V4 n \<Rightarrow> if n + 1 = 2 ^ 32 then None else Some (V4 (n + 1))
     | V6 n z \<Rightarrow> if n + 1 = 2 ^ 128 then None else Some (V6 (n + 1) z))"

fun hex_str :: "nat \<Rightarrow> int \<Rightarrow> string" where
  "hex_str 0 n = []"
| "hex_str (Suc k) n = (if n < 16 then [hex_digit (nat n)] else hex_str k (n div 16) @ [hex_digit (nat (n mod 16))])"

definition string4 :: "int \<Rightarrow> string" where
  "string4 n = (case map itoa (to_groups 256 4 n) of
     [a, b, c, d] \<Rightarrow> a @ ''.'' @ b @ ''.'' @ c @ ''.'' @ d | _ \<Rightarrow> [])"

text \<open>The longest run of at least two zero groups, the first of the longest.\<close>

fun zero_run :: "int list \<Rightarrow> nat" where
  "zero_run [] = 0"
| "zero_run (g # gs) = (if g = 0 then Suc (zero_run gs) else 0)"

fun find_run :: "nat \<Rightarrow> int list \<Rightarrow> nat \<times> nat \<Rightarrow> nat \<times> nat" where
  "find_run i [] best = best"
| "find_run i (g # gs) best =
     (let l = zero_run (g # gs) in find_run (Suc i) gs (if l \<ge> 2 \<and> l > snd best then (i, l) else best))"

fun join_colons :: "string list \<Rightarrow> string" where
  "join_colons [] = []"
| "join_colons [x] = x"
| "join_colons (x # y # zs) = x @ CHR '':'' # join_colons (y # zs)"

definition string6 :: "int \<Rightarrow> string" where
  "string6 n = (let gs = to_groups 65536 8 n; hs = map (hex_str 4) gs; (i, l) = find_run 0 gs (0, 0) in
     if l = 0 then join_colons hs
     else join_colons (take i hs) @ ''::'' @ join_colons (drop (i + l) hs))"

definition addr_String :: "addr option \<Rightarrow> string" where
  "addr_String a = (case a of
     None \<Rightarrow> ''invalid IP''
   | Some (V4 n) \<Rightarrow> string4 n
   | Some (V6 n z) \<Rightarrow>
       (if Is4In6 (V6 n z) then ''::ffff:'' @ string4 (n mod 2 ^ 32) else string6 n)
       @ (if z = [] then [] else CHR ''%'' # z))"

section \<open>IPv4 addresses read back\<close>

lemma parse_v4_octet:
  assumes "g < 256"
  obtains k where "k > 0" "\<And>s. parse_v4 fs 0 0 (itoa_nat g @ s) = parse_v4 fs (int g) k s"
proof -
  consider "g < 10" | "10 \<le> g" "g < 100" | "100 \<le> g" "g < 256" using assms by linarith
  then show ?thesis
  proof cases
    case 1
    then have "itoa_nat g = [digit_char g]" by (subst itoa_nat.simps) simp
    then show ?thesis using 1 by (intro that [of 1]) simp_all
  next
    case 2
    have "itoa_nat g = [digit_char (g div 10), digit_char (g mod 10)]"
      using 2 by (subst itoa_nat.simps, subst itoa_nat.simps) (simp add: less_mult_imp_div_less)
    moreover have "g div 10 \<noteq> 0" "g div 10 < 10" using 2 by auto
    moreover have "int (g div 10) * 10 + int (g mod 10) = int g" by presburger
    ultimately show ?thesis using 2 by (intro that [of "Suc (Suc 0)"]) simp_all
  next
    case 3
    have "itoa_nat g = [digit_char (g div 100), digit_char (g div 10 mod 10), digit_char (g mod 10)]"
      using 3 by (subst itoa_nat.simps, subst itoa_nat.simps, subst itoa_nat.simps) (auto simp: div_mult2_eq [symmetric])
    moreover have "g div 100 \<noteq> 0" "g div 100 < 10" using 3 by auto
    moreover have ten: "int (g div 100) * 10 + int (g div 10 mod 10) = int (g div 10)"
    proof -
      have "g div 100 * 10 + g div 10 mod 10 = g div 10" using div_mult2_eq [of g 10 10] by simp
      then show ?thesis by linarith
    qed
    moreover have "int (g div 10) * 10 + int (g mod 10) = int g"
      using arg_cong [OF div_mult_mod_eq [of g 10], of int] by (simp only: of_nat_add of_nat_mult of_nat_numeral)
    moreover have "g div 10 \<le> 255" "g div 100 \<le> 255" using 3 by auto
    ultimately show ?thesis using 3 by (intro that [of "Suc (Suc (Suc 0))"]) simp_all
  qed
qed

lemma not_digit_dot [simp]: "\<not> is_digit CHR ''.''"
  by (simp add: is_digit_def less_eq_char_def)

lemma parse_v4_groups:
  assumes "a < 256" "b < 256" "c < 256" "d < 256"
  shows "parse_v4 [] 0 0 (itoa_nat a @ ''.'' @ itoa_nat b @ ''.'' @ itoa_nat c @ ''.'' @ itoa_nat d)
    = Some [int a, int b, int c, int d]"
proof -
  obtain k1 where 1: "k1 > 0" "\<And>s. parse_v4 [] 0 0 (itoa_nat a @ s) = parse_v4 [] (int a) k1 s"
    using parse_v4_octet [OF assms(1)] by blast
  obtain k2 where 2: "k2 > 0" "\<And>s. parse_v4 [int a] 0 0 (itoa_nat b @ s) = parse_v4 [int a] (int b) k2 s"
    using parse_v4_octet [OF assms(2)] by blast
  obtain k3 where 3: "k3 > 0" "\<And>s. parse_v4 [int a, int b] 0 0 (itoa_nat c @ s) = parse_v4 [int a, int b] (int c) k3 s"
    using parse_v4_octet [OF assms(3)] by blast
  obtain k4 where 4: "k4 > 0" "\<And>s. parse_v4 [int a, int b, int c] 0 0 (itoa_nat d @ s) = parse_v4 [int a, int b, int c] (int d) k4 s"
    using parse_v4_octet [OF assms(4)] by blast
  have "parse_v4 [int a, int b, int c] 0 0 (itoa_nat d) = Some [int a, int b, int c, int d]"
    using 4(1) 4(2) [of "[]"] by simp
  then show ?thesis using 1 2 3 by simp
qed

lemma groups4:
  assumes "0 \<le> n" "n < 2 ^ 32"
  shows "of_groups 256 (to_groups 256 4 n) = n"
proof -
  have gs: "to_groups 256 4 n = [n div 16777216 mod 256, n div 65536 mod 256, n div 256 mod 256, n mod 256]"
    by (simp add: numeral_eq_Suc)
  have hi: "n div 16777216 mod 256 = n div 16777216" using assms by (simp add: zdiv_zmult2_eq [symmetric])
  have gen: "a = 256 * b + r0 \<Longrightarrow> b = 256 * c + r1 \<Longrightarrow> c = 256 * d + r2 \<Longrightarrow>
      d * 16777216 + (r2 * 65536 + (r1 * 256 + r0)) = a" for a b c d r0 r1 r2 :: int
    by simp
  have 0: "n = 256 * (n div 256) + n mod 256" by simp
  have 1: "n div 256 = 256 * (n div 65536) + n div 256 mod 256"
    using mult_div_mod_eq [of 256 "n div 256"] zdiv_zmult2_eq [of 256 n 256] by simp
  have 2: "n div 65536 = 256 * (n div 16777216) + n div 65536 mod 256"
    using mult_div_mod_eq [of 256 "n div 65536"] zdiv_zmult2_eq [of 256 n 65536] by simp
  show ?thesis using gen [OF 0 1 2] by (simp add: gs hi)
qed

lemma ParseAddr_string4:
  assumes "0 \<le> n" "n < 2 ^ 32"
  shows "ParseAddr (string4 n) = Some (V4 n)"
proof -
  let ?g = "\<lambda>k :: int. nat (n div k mod 256)"
  have gs: "to_groups 256 4 n = [int (?g 16777216), int (?g 65536), int (?g 256), int (?g 1)]"
    by (simp add: numeral_eq_Suc)
  have s: "string4 n = itoa_nat (?g 16777216) @ ''.'' @ itoa_nat (?g 65536) @ ''.'' @ itoa_nat (?g 256) @ ''.'' @ itoa_nat (?g 1)"
    by (simp only: string4_def gs list.map itoa_int list.case)
  have lt: "?g k < 256" for k :: int by (simp add: nat_less_iff)
  have p: "parse_v4 [] 0 0 (string4 n) = Some (to_groups 256 4 n)"
    unfolding s gs by (rule parse_v4_groups) (rule lt)+
  have "find (\<lambda>c. c \<in> {CHR ''.'', CHR '':'', CHR ''%''}) (ds @ CHR ''.'' # r) = Some CHR ''.''" if "list_all is_digit ds" for ds r
    using that by (induction ds) (auto simp: is_digit_def less_eq_char_def)
  from this [OF itoa_nat_digits] have "find (\<lambda>c. c \<in> {CHR ''.'', CHR '':'', CHR ''%''}) (string4 n) = Some CHR ''.''"
    unfolding s by simp
  then show ?thesis using p groups4 [OF assms] by (simp add: ParseAddr_def parseIPv4_def)
qed

lemma hd_itoa_nat: "1 \<le> n \<Longrightarrow> CHR ''1'' \<le> hd (itoa_nat n) \<and> hd (itoa_nat n) \<le> CHR ''9''"
proof (induction n rule: itoa_nat.induct)
  case (1 n)
  show ?case
  proof (cases "n < 10")
    case True
    then have "itoa_nat n = [digit_char n]" by (subst itoa_nat.simps) simp
    then show ?thesis using True "1.prems" by (simp add: less_eq_char_def)
  next
    case False
    then have "itoa_nat n = itoa_nat (n div 10) @ [digit_char (n mod 10)]" by (subst itoa_nat.simps) simp
    then show ?thesis using False "1.IH" by (simp add: hd_append)
  qed
qed

lemma slash_notin_itoa: "CHR ''/'' \<notin> set (itoa_nat n)"
  using itoa_nat_digits [of n] by (auto simp: list_all_iff is_digit_def less_eq_char_def)

end
