(* ===== verification/Awg_Ports.thy ===== *)
theory Awg_Ports
  imports Go_Strings
begin

text \<open>
  \<open>internal/amneziawg/portfwd.go\<close>: the free-form list of forwarded ports of an AmneziaWG client
  (\<open>80, 443; 8000-8100\<close>), the test whether a port is covered, and the capped expansion the listener
  supervisor opens sockets for.
\<close>

section \<open>Port specifications\<close>

record portSpec =
  psStart :: int
  psEnd :: int

definition parsePortNumber :: "string \<Rightarrow> int option" where
  "parsePortNumber s = (case parse_int64 s of None \<Rightarrow> None
     | Some n \<Rightarrow> if n < 1 \<or> n > 65535 then None else Some n)"

definition parsePortToken :: "string \<Rightarrow> portSpec option" where
  "parsePortToken tok = (case cut CHR ''-'' tok of
       Some (before, after) \<Rightarrow>
         (case (parsePortNumber (trim_space before), parsePortNumber (trim_space after)) of
            (Some s, Some e) \<Rightarrow> if s > e then None else Some \<lparr>psStart = s, psEnd = e\<rparr>
          | _ \<Rightarrow> None)
     | None \<Rightarrow> (case parsePortNumber tok of None \<Rightarrow> None | Some p \<Rightarrow> Some \<lparr>psStart = p, psEnd = p\<rparr>))"

definition spec_key :: "portSpec \<Rightarrow> string" where
  "spec_key spec = itoa (psStart spec) @ CHR ''-'' # itoa (psEnd spec)"

fun parse_tokens :: "string list \<Rightarrow> string list \<Rightarrow> portSpec list \<Rightarrow> portSpec list" where
  "parse_tokens [] seen specs = specs"
| "parse_tokens (t # ts) seen specs =
     (let tok = trim_space t in
      if tok = [] then parse_tokens ts seen specs
      else case parsePortToken tok of
             None \<Rightarrow> parse_tokens ts seen specs
           | Some spec \<Rightarrow>
               if spec_key spec \<in> set seen then parse_tokens ts seen specs
               else parse_tokens ts (spec_key spec # seen) (specs @ [spec]))"

definition parseForwardedPorts :: "string \<Rightarrow> portSpec list" where
  "parseForwardedPorts input =
     (if input = [] then [] else parse_tokens (split_on CHR '','' (replace_char CHR '';'' '','' input)) [] [])"

definition ForwardedPortsInclude :: "string \<Rightarrow> int \<Rightarrow> bool" where
  "ForwardedPortsInclude forwardedPorts port =
     list_ex (\<lambda>spec. port \<ge> psStart spec \<and> port \<le> psEnd spec) (parseForwardedPorts forwardedPorts)"

section \<open>Expansion\<close>

definition MaxForwardedPorts :: nat where
  "MaxForwardedPorts = 100"

text \<open>The inner loop, from \<open>p\<close> up to \<open>e\<close>; the flag says that it broke out of both loops.  The set \<open>seen\<close> of
  the code holds exactly the ports collected so far.\<close>

function expand_range :: "nat \<Rightarrow> int \<Rightarrow> int \<Rightarrow> int list \<Rightarrow> bool \<times> int list" where
  "expand_range limit e p ports =
     (if p > e then (False, ports)
      else if length ports \<ge> limit then (True, ports)
      else if p \<in> set ports then expand_range limit e (p + 1) ports
      else expand_range limit e (p + 1) (ports @ [p]))"
  by pat_completeness auto
termination by (relation "measure (\<lambda>(limit, e, p, ports). nat (e + 1 - p))") auto

declare expand_range.simps [simp del]

fun expand_specs :: "nat \<Rightarrow> portSpec list \<Rightarrow> int list \<Rightarrow> int list" where
  "expand_specs limit [] ports = ports"
| "expand_specs limit (spec # specs) ports =
     (case expand_range limit (psEnd spec) (psStart spec) ports of
        (True, ports) \<Rightarrow> ports
      | (False, ports) \<Rightarrow> expand_specs limit specs ports)"

definition expandForwardedPorts :: "string \<Rightarrow> nat \<Rightarrow> int list" where
  "expandForwardedPorts forwardedPorts limit = sort (expand_specs limit (parseForwardedPorts forwardedPorts) [])"

definition ExpandForwardedPorts :: "string \<Rightarrow> int list" where
  "ExpandForwardedPorts forwardedPorts = expandForwardedPorts forwardedPorts MaxForwardedPorts"

definition ExceedsForwardedPortsCap :: "string \<Rightarrow> bool" where
  "ExceedsForwardedPortsCap forwardedPorts \<longleftrightarrow>
     length (expandForwardedPorts forwardedPorts (MaxForwardedPorts + 1)) > MaxForwardedPorts"

section \<open>Correctness\<close>

definition covered :: "portSpec list \<Rightarrow> int set" where
  "covered specs = (\<Union>spec\<in>set specs. {psStart spec..psEnd spec})"

lemma covered_include: "port \<in> covered (parseForwardedPorts s) \<longleftrightarrow> ForwardedPortsInclude s port"
  by (auto simp: covered_def ForwardedPortsInclude_def list_ex_iff)

lemma parsePortNumber_range: "parsePortNumber s = Some n \<Longrightarrow> 1 \<le> n \<and> n \<le> 65535"
  by (auto simp: parsePortNumber_def split: option.splits if_splits)

lemma parsePortToken_range: "parsePortToken t = Some spec \<Longrightarrow> 1 \<le> psStart spec \<and> psEnd spec \<le> 65535"
  by (auto simp: parsePortToken_def split: option.splits if_splits dest!: parsePortNumber_range)

lemma parse_tokens_range:
  assumes "\<forall>spec\<in>set specs. 1 \<le> psStart spec \<and> psEnd spec \<le> 65535"
  shows "\<forall>spec\<in>set (parse_tokens ts seen specs). 1 \<le> psStart spec \<and> psEnd spec \<le> 65535"
  using assms
proof (induction ts arbitrary: seen specs)
  case (Cons t ts)
  show ?case
  proof (cases "trim_space t = [] \<or> parsePortToken (trim_space t) = None")
    case True
    then show ?thesis using Cons.IH [OF Cons.prems, of seen] by (auto simp: Let_def)
  next
    case False
    then obtain spec where spec: "parsePortToken (trim_space t) = Some spec" by blast
    then have "\<forall>x\<in>set (specs @ [spec]). 1 \<le> psStart x \<and> psEnd x \<le> 65535"
      using Cons.prems parsePortToken_range [OF spec] by simp
    from Cons.IH [OF this] Cons.IH [OF Cons.prems] show ?thesis using False spec by (simp add: Let_def)
  qed
qed simp

lemma covered_bounds: "covered (parseForwardedPorts s) \<subseteq> {1..65535}"
proof
  fix p assume "p \<in> covered (parseForwardedPorts s)"
  then obtain spec where spec: "spec \<in> set (parseForwardedPorts s)" "psStart spec \<le> p" "p \<le> psEnd spec"
    by (auto simp: covered_def)
  then have "1 \<le> psStart spec \<and> psEnd spec \<le> 65535"
    using parse_tokens_range [of "[]" "split_on CHR '','' (replace_char CHR '';'' '','' s)" "[]"]
    by (auto simp: parseForwardedPorts_def split: if_splits)
  with spec show "p \<in> {1..65535}" by simp
qed

lemma finite_covered: "finite (covered specs)"
  by (simp add: covered_def)

lemma expand_range_result:
  assumes "expand_range limit e p ports = (brk, ports')" "distinct ports" "length ports \<le> limit"
  shows "distinct ports' \<and> length ports' \<le> limit \<and> set ports \<subseteq> set ports' \<and> set ports' \<subseteq> set ports \<union> {p..e} \<and>
    (brk \<longrightarrow> length ports' = limit) \<and> (\<not> brk \<longrightarrow> {p..e} \<subseteq> set ports')"
  using assms
proof (induction limit e p ports rule: expand_range.induct)
  case (1 limit e p ports)
  have iv: "p \<le> e \<Longrightarrow> {p..e} = insert p {p + 1..e}" by auto
  consider (over) "p > e" | (full) "p \<le> e" "length ports \<ge> limit"
    | (dup) "p \<le> e" "length ports < limit" "p \<in> set ports" | (new) "p \<le> e" "length ports < limit" "p \<notin> set ports"
    by linarith
  then show ?case
  proof cases
    case over
    then show ?thesis using "1.prems" by (simp add: expand_range.simps [of limit e p])
  next
    case full
    then have "expand_range limit e p ports = (True, ports)" by (subst expand_range.simps) simp
    then show ?thesis using "1.prems" full by simp
  next
    case dup
    with "1.prems"(1) have r: "expand_range limit e (p + 1) ports = (brk, ports')"
      by (simp add: expand_range.simps [of limit e p])
    from "1.IH"(1) [OF _ _ dup(3) r] "1.prems" dup show ?thesis by (auto simp: iv)
  next
    case new
    with "1.prems"(1) have r: "expand_range limit e (p + 1) (ports @ [p]) = (brk, ports')"
      by (simp add: expand_range.simps [of limit e p])
    from "1.IH"(2) [OF _ _ new(3) r] "1.prems" new show ?thesis by (auto simp: iv)
  qed
qed

lemma expand_specs_result:
  assumes "distinct ports" "length ports \<le> limit"
  shows "distinct (expand_specs limit specs ports) \<and> length (expand_specs limit specs ports) \<le> limit \<and>
    set ports \<subseteq> set (expand_specs limit specs ports) \<and>
    set (expand_specs limit specs ports) \<subseteq> set ports \<union> covered specs \<and>
    (length (expand_specs limit specs ports) < limit \<longrightarrow> covered specs \<subseteq> set (expand_specs limit specs ports))"
  using assms
proof (induction specs arbitrary: ports)
  case (Cons spec specs)
  obtain brk ports' where r: "expand_range limit (psEnd spec) (psStart spec) ports = (brk, ports')" by fastforce
  note e = expand_range_result [OF r Cons.prems]
  show ?case
  proof (cases brk)
    case True
    then show ?thesis using r e by (auto simp: covered_def)
  next
    case False
    then have "distinct ports'" "length ports' \<le> limit" using e by simp_all
    from Cons.IH [OF this] show ?thesis using r e False by (auto simp: covered_def)
  qed
qed (simp add: covered_def)

lemma expandForwardedPorts_result:
  shows "distinct (expandForwardedPorts s limit)" and "sorted (expandForwardedPorts s limit)"
    and "length (expandForwardedPorts s limit) \<le> limit"
    and "set (expandForwardedPorts s limit) \<subseteq> covered (parseForwardedPorts s)"
    and "length (expandForwardedPorts s limit) < limit \<Longrightarrow> set (expandForwardedPorts s limit) = covered (parseForwardedPorts s)"
  using expand_specs_result [of "[]" limit "parseForwardedPorts s"] by (auto simp: expandForwardedPorts_def)

lemma expand_complete:
  assumes "card (covered (parseForwardedPorts s)) \<le> limit"
  shows "set (expandForwardedPorts s limit) = covered (parseForwardedPorts s)"
proof (cases "length (expandForwardedPorts s limit) < limit")
  case True
  then show ?thesis by (rule expandForwardedPorts_result(5))
next
  case False
  then have "card (set (expandForwardedPorts s limit)) = limit"
    using expandForwardedPorts_result(1,3) [of s limit] by (simp add: distinct_card)
  then show ?thesis
    using expandForwardedPorts_result(4) [of s limit] finite_covered assms by (intro card_seteq) simp_all
qed

lemma exceeds_card: "ExceedsForwardedPortsCap s \<longleftrightarrow> card (covered (parseForwardedPorts s)) > MaxForwardedPorts"
proof
  let ?x = "expandForwardedPorts s (MaxForwardedPorts + 1)"
  have c: "card (set ?x) = length ?x" using expandForwardedPorts_result(1) by (simp add: distinct_card)
  { assume "ExceedsForwardedPortsCap s"
    then show "card (covered (parseForwardedPorts s)) > MaxForwardedPorts"
      using c card_mono [OF finite_covered expandForwardedPorts_result(4) [of s "MaxForwardedPorts + 1"]]
      by (simp add: ExceedsForwardedPortsCap_def) }
  { assume "card (covered (parseForwardedPorts s)) > MaxForwardedPorts"
    then show "ExceedsForwardedPortsCap s"
      using c expandForwardedPorts_result(5) [of s "MaxForwardedPorts + 1"]
      by (force simp: ExceedsForwardedPortsCap_def) }
qed

text \<open>C27: The expansion of a port list is strictly ascending, holds at most 100 ports, all of them real port
  numbers that the list covers; and when the list is not over the cap it holds every covered port, so
  that the save-time check and the listener supervisor then agree on the ports of a client.\<close>

theorem ExpandForwardedPorts_correct:
  "sorted_wrt (<) (ExpandForwardedPorts s) \<and> length (ExpandForwardedPorts s) \<le> 100 \<and>
   set (ExpandForwardedPorts s) \<subseteq> {p. ForwardedPortsInclude s p \<and> 1 \<le> p \<and> p \<le> 65535} \<and>
   (\<not> ExceedsForwardedPortsCap s \<longrightarrow> set (ExpandForwardedPorts s) = {p. ForwardedPortsInclude s p})"
proof -
  have inc: "{p. ForwardedPortsInclude s p} = covered (parseForwardedPorts s)" using covered_include by blast
  note r = expandForwardedPorts_result [of s MaxForwardedPorts]
  have "set (ExpandForwardedPorts s) \<subseteq> {p. ForwardedPortsInclude s p \<and> 1 \<le> p \<and> p \<le> 65535}"
    using r(4) covered_bounds [of s] covered_include [of _ s] by (auto simp: ExpandForwardedPorts_def)
  moreover have "set (ExpandForwardedPorts s) = {p. ForwardedPortsInclude s p}" if "\<not> ExceedsForwardedPortsCap s"
    using that expand_complete [of s MaxForwardedPorts] by (simp add: exceeds_card inc ExpandForwardedPorts_def)
  ultimately show ?thesis
    using r(1-3) by (simp add: ExpandForwardedPorts_def MaxForwardedPorts_def strict_sorted_iff)
qed

theorem ExpandForwardedPorts_witness:
  "\<not> ExceedsForwardedPortsCap ''22, 80; 90-92,80'' \<and>
   set (ExpandForwardedPorts ''22, 80; 90-92,80'') = {p. ForwardedPortsInclude ''22, 80; 90-92,80'' p} \<and>
   ExpandForwardedPorts ''22, 80; 90-92,80'' = [22, 80, 90, 91, 92]"
proof -
  have "\<not> ExceedsForwardedPortsCap ''22, 80; 90-92,80''" by code_simp
  moreover have "ExpandForwardedPorts ''22, 80; 90-92,80'' = [22, 80, 90, 91, 92]" by code_simp
  ultimately show ?thesis using ExpandForwardedPorts_correct [of "''22, 80; 90-92,80''"] by blast
qed

text \<open>The cap is reported exceeded exactly when the list covers more than 100 different ports, although
  no list is ever expanded past 101 of them.\<close>

theorem ExceedsForwardedPortsCap_iff:
  "ExceedsForwardedPortsCap s \<longleftrightarrow> card {p. ForwardedPortsInclude s p} > 100"
proof -
  have "{p. ForwardedPortsInclude s p} = covered (parseForwardedPorts s)" using covered_include by blast
  then show ?thesis by (simp add: exceeds_card MaxForwardedPorts_def)
qed

end
