(* ===== verification/Awg_Instance.thy ===== *)
theory Awg_Instance
  imports Go_Struct Go_Netip Awg_Ports
begin

text \<open>
  \<open>internal/database/model/model.go\<close> (the inbound row and the clients in its settings),
  \<open>internal/amneziawg/types.go\<close> and \<open>instance.go\<close>: what an AmneziaWG inbound is to run.
\<close>

section \<open>Rows and settings\<close>

record inbound =
  inId :: int
  inRemark :: string
  inEnable :: bool
  inListen :: string
  inPort :: int
  inProtocol :: string
  inSettings :: string
  inStreamSettings :: string
  inTag :: string
  inNodeID :: "int option"

definition AmneziaWG :: string where
  "AmneziaWG = ''amneziawg''"

text \<open>The fields of a client that are used here; the others are only type-checked by the decoder.  A
  \<open>KeepAliveValue\<close> accepts every value.\<close>

record client =
  clEmail :: string
  clEnable :: bool
  clPublicKey :: string
  clPreSharedKey :: string
  clAllowedIPs :: "string list"
  clForwardedPorts :: string

definition zero_client :: client where
  "zero_client = \<lparr>clEmail = [], clEnable = False, clPublicKey = [], clPreSharedKey = [], clAllowedIPs = [],
     clForwardedPorts = []\<rparr>"

definition client_fields :: "client field list" where
  "client_fields =
     [skip ''id'' s_string [], skip ''security'' s_string [], skip ''password'' s_string [], skip ''flow'' s_string [],
      skip ''reverse'' (s_ptr (s_struct [skip ''tag'' s_string []]) ()) None,
      skip ''auth'' s_string [], skip ''privateKey'' s_string [],
      fld ''publicKey'' clPublicKey clPublicKey_update s_string,
      fld ''allowedIPs'' clAllowedIPs clAllowedIPs_update (s_list s_string []),
      skip ''allowedIPsByInbound'' (s_int_map (s_list s_string []) []) (),
      fld ''preSharedKey'' clPreSharedKey clPreSharedKey_update s_string,
      skip ''keepAlive'' (\<lambda>_ _. (True, ())) (),
      fld ''forwardedPorts'' clForwardedPorts clForwardedPorts_update s_string,
      skip ''secret'' s_string [], skip ''adTag'' s_string [],
      fld ''email'' clEmail clEmail_update s_string,
      skip ''limitIp'' s_int 0, skip ''totalGB'' s_int 0, skip ''expiryTime'' s_int 0,
      fld ''enable'' clEnable clEnable_update s_bool,
      skip ''tgId'' s_int 0, skip ''subId'' s_string [], skip ''group'' s_string [], skip ''comment'' s_string [],
      skip ''reset'' s_int 0, skip ''resetDay'' s_int 0, skip ''resetMax'' s_int 0, skip ''trafficReset'' s_string [],
      skip ''trafficResetDay'' s_int 0, skip ''created_at'' s_int 0, skip ''updated_at'' s_int 0]"

record obfuscation31 =
  obJc :: int
  obJmin :: int
  obJmax :: int
  obS1 :: int
  obS2 :: int
  obS3 :: int
  obS4 :: int
  obH1 :: string
  obH2 :: string
  obH3 :: string
  obH4 :: string
  obI1 :: string
  obI2 :: string
  obI3 :: string
  obI4 :: string
  obI5 :: string
  obHeaderProtectionKey :: string
  obContentPaddingAddition :: string
  obRekeyAfterTime :: string
  obRekeyTimeout :: string
  obRejectAfterTime :: string
  obKeepaliveTimeout :: string
  obMaxHandshakeAttempts :: string
  obRandomTrailers :: bool
  obDisableCookies :: bool

definition zero_obfuscation :: obfuscation31 where
  "zero_obfuscation = \<lparr>obJc = 0, obJmin = 0, obJmax = 0, obS1 = 0, obS2 = 0, obS3 = 0, obS4 = 0,
     obH1 = [], obH2 = [], obH3 = [], obH4 = [], obI1 = [], obI2 = [], obI3 = [], obI4 = [], obI5 = [],
     obHeaderProtectionKey = [], obContentPaddingAddition = [], obRekeyAfterTime = [], obRekeyTimeout = [],
     obRejectAfterTime = [], obKeepaliveTimeout = [], obMaxHandshakeAttempts = [], obRandomTrailers = False,
     obDisableCookies = False\<rparr>"

text \<open>The obfuscation fields lie flat in the \<open>server\<close> block; \<open>Obfuscation\<close> of the code collects them.
  Here they are kept collected from the start.\<close>

record serverSettings =
  ssPrivateKey :: string
  ssPublicKey :: string
  ssSubnetIP :: string
  ssSubnetCIDR :: int
  ssMTU :: int
  ssPrimaryDNS :: string
  ssSecondaryDNS :: string
  ssExternalInterface :: string
  ssIPv6Enabled :: bool
  ssIPv6Subnet :: string
  ssIPv6ExternalInterface :: string
  ssRouteThroughXray :: bool
  ssObfuscation :: obfuscation31

definition ob :: "string \<Rightarrow> (obfuscation31 \<Rightarrow> 'b) \<Rightarrow> (('b \<Rightarrow> 'b) \<Rightarrow> obfuscation31 \<Rightarrow> obfuscation31) \<Rightarrow> 'b setter \<Rightarrow> serverSettings field" where
  "ob name get upd = fld name (\<lambda>s. get (ssObfuscation s)) (\<lambda>f. ssObfuscation_update (upd f))"

definition server_fields :: "serverSettings field list" where
  "server_fields =
     [fld ''privateKey'' ssPrivateKey ssPrivateKey_update s_string, fld ''publicKey'' ssPublicKey ssPublicKey_update s_string,
      fld ''subnetIp'' ssSubnetIP ssSubnetIP_update s_string, fld ''subnetCidr'' ssSubnetCIDR ssSubnetCIDR_update s_int,
      fld ''mtu'' ssMTU ssMTU_update s_int,
      fld ''primaryDns'' ssPrimaryDNS ssPrimaryDNS_update s_string, fld ''secondaryDns'' ssSecondaryDNS ssSecondaryDNS_update s_string,
      fld ''externalInterface'' ssExternalInterface ssExternalInterface_update s_string,
      fld ''ipv6Enabled'' ssIPv6Enabled ssIPv6Enabled_update s_bool, fld ''ipv6Subnet'' ssIPv6Subnet ssIPv6Subnet_update s_string,
      fld ''ipv6ExternalInterface'' ssIPv6ExternalInterface ssIPv6ExternalInterface_update s_string,
      fld ''routeThroughXray'' ssRouteThroughXray ssRouteThroughXray_update s_bool,
      ob ''jc'' obJc obJc_update s_int, ob ''jmin'' obJmin obJmin_update s_int, ob ''jmax'' obJmax obJmax_update s_int,
      ob ''s1'' obS1 obS1_update s_int, ob ''s2'' obS2 obS2_update s_int, ob ''s3'' obS3 obS3_update s_int,
      ob ''s4'' obS4 obS4_update s_int, ob ''h1'' obH1 obH1_update s_string, ob ''h2'' obH2 obH2_update s_string,
      ob ''h3'' obH3 obH3_update s_string, ob ''h4'' obH4 obH4_update s_string, ob ''i1'' obI1 obI1_update s_string,
      ob ''i2'' obI2 obI2_update s_string, ob ''i3'' obI3 obI3_update s_string, ob ''i4'' obI4 obI4_update s_string,
      ob ''i5'' obI5 obI5_update s_string,
      ob ''headerProtectionKey'' obHeaderProtectionKey obHeaderProtectionKey_update s_string,
      ob ''contentPaddingAddition'' obContentPaddingAddition obContentPaddingAddition_update s_string,
      ob ''rekeyAfterTime'' obRekeyAfterTime obRekeyAfterTime_update s_string,
      ob ''rekeyTimeout'' obRekeyTimeout obRekeyTimeout_update s_string,
      ob ''rejectAfterTime'' obRejectAfterTime obRejectAfterTime_update s_string,
      ob ''keepaliveTimeout'' obKeepaliveTimeout obKeepaliveTimeout_update s_string,
      ob ''maxHandshakeAttempts'' obMaxHandshakeAttempts obMaxHandshakeAttempts_update s_string,
      ob ''randomTrailers'' obRandomTrailers obRandomTrailers_update s_bool,
      ob ''disableCookies'' obDisableCookies obDisableCookies_update s_bool]"

definition zero_server :: serverSettings where
  "zero_server = \<lparr>ssPrivateKey = [], ssPublicKey = [], ssSubnetIP = [], ssSubnetCIDR = 0, ssMTU = 0, ssPrimaryDNS = [],
     ssSecondaryDNS = [], ssExternalInterface = [], ssIPv6Enabled = False, ssIPv6Subnet = [], ssIPv6ExternalInterface = [],
     ssRouteThroughXray = False, ssObfuscation = zero_obfuscation\<rparr>"

record inboundSettings =
  isServer :: "serverSettings option"
  isClients :: "client list"

definition settings_fields :: "inboundSettings field list" where
  "settings_fields =
     [fld ''server'' isServer isServer_update (s_ptr (s_struct server_fields) zero_server),
      fld ''clients'' isClients isClients_update (s_list (s_struct client_fields) zero_client)]"

section \<open>Instances\<close>

record peer =
  pEmail :: string
  pPublicKey :: string
  pPresharedKey :: string
  pAllowedIPs :: "string list"
  pForwardedPorts :: string

record awg_instance =
  iId :: int
  iTag :: string
  iInterfaceName :: string
  iListenPort :: int
  iListen :: string
  iPrivateKey :: string
  iPublicKey :: string
  iAddress :: "string list"
  iMTU :: int
  iObfuscation :: obfuscation31
  iPeers :: "peer list"
  iExternalInterface :: string
  iIPv6Enabled :: bool
  iIPv6ExternalInterface :: string
  iRouteThroughXray :: bool

definition interfaceNameForID :: "int \<Rightarrow> string" where
  "interfaceNameForID n = ''awg'' @ itoa n"

definition serverAddress :: "string \<Rightarrow> int \<Rightarrow> string" where
  "serverAddress subnetIP cidr0 =
     (let cidr = (if cidr0 \<le> 0 then 24 else cidr0) in
      case ParsePrefix (subnetIP @ ''/'' @ itoa cidr) of
        None \<Rightarrow> subnetIP @ ''/'' @ itoa cidr
      | Some pfx \<Rightarrow>
          if \<not> Is4 (fst pfx) \<or> cidr \<ge> 32 then subnetIP @ ''/'' @ itoa cidr
          else addr_String (Next (Masked pfx)) @ ''/'' @ itoa cidr)"

definition serverAddressV6 :: "string \<Rightarrow> string option" where
  "serverAddressV6 subnetCIDR =
     (case ParsePrefix subnetCIDR of
        None \<Rightarrow> None
      | Some pfx \<Rightarrow>
          if \<not> Is6 (fst pfx) then None
          else Some (addr_String (Next (Masked pfx)) @ ''/'' @ itoa (int (snd pfx))))"

fun FirstIPv4 :: "string list \<Rightarrow> string" where
  "FirstIPv4 [] = []"
| "FirstIPv4 (a # as) =
     (case ParsePrefix a of
        Some pfx \<Rightarrow> if Is4 (fst pfx) then addr_String (Some (fst pfx)) else FirstIPv4 as
      | None \<Rightarrow> (case ParseAddr a of
          Some addr \<Rightarrow> if Is4 addr then addr_String (Some addr) else FirstIPv4 as
        | None \<Rightarrow> FirstIPv4 as))"

fun FirstIPv6 :: "string list \<Rightarrow> string" where
  "FirstIPv6 [] = []"
| "FirstIPv6 (a # as) =
     (case ParsePrefix a of
        Some pfx \<Rightarrow> if Is6 (fst pfx) \<and> \<not> Is4In6 (fst pfx) then addr_String (Some (fst pfx)) else FirstIPv6 as
      | None \<Rightarrow> (case ParseAddr a of
          Some addr \<Rightarrow> if Is6 addr \<and> \<not> Is4In6 addr then addr_String (Some addr) else FirstIPv6 as
        | None \<Rightarrow> FirstIPv6 as))"

definition usable_client :: "client \<Rightarrow> bool" where
  "usable_client c \<longleftrightarrow> \<not> (\<not> clEnable c \<or> clPublicKey c = [] \<or> length (clAllowedIPs c) = 0)"

definition client_peer :: "client \<Rightarrow> peer" where
  "client_peer c = \<lparr>pEmail = clEmail c, pPublicKey = clPublicKey c, pPresharedKey = clPreSharedKey c,
     pAllowedIPs = clAllowedIPs c, pForwardedPorts = clForwardedPorts c\<rparr>"

definition InstanceFromInbound :: "inbound \<Rightarrow> awg_instance option" where
  "InstanceFromInbound ib =
     (if inProtocol ib \<noteq> AmneziaWG then None
      else case Unmarshal (s_struct settings_fields) \<lparr>isServer = None, isClients = []\<rparr> (inSettings ib) of
        (ok, parsed) \<Rightarrow>
          if \<not> ok then None
          else case isServer parsed of None \<Rightarrow> None | Some server \<Rightarrow>
            (let peers = map client_peer (filter usable_client (isClients parsed)) in
             if peers = [] then None
             else let addresses = serverAddress (ssSubnetIP server) (ssSubnetCIDR server)
                    # (if ssIPv6Enabled server
                       then (case serverAddressV6 (ssIPv6Subnet server) of Some v6 \<Rightarrow> [v6] | None \<Rightarrow> []) else [])
             in Some \<lparr>iId = inId ib, iTag = inTag ib, iInterfaceName = interfaceNameForID (inId ib),
                 iListenPort = inPort ib, iListen = inListen ib, iPrivateKey = ssPrivateKey server,
                 iPublicKey = ssPublicKey server, iAddress = addresses, iMTU = ssMTU server,
                 iObfuscation = ssObfuscation server, iPeers = peers,
                 iExternalInterface = ssExternalInterface server, iIPv6Enabled = ssIPv6Enabled server,
                 iIPv6ExternalInterface = ssIPv6ExternalInterface server,
                 iRouteThroughXray = ssRouteThroughXray server\<rparr>))"

section \<open>The server's own address\<close>

lemma ParsePrefix_string4:
  assumes "0 \<le> n" "n < 2 ^ 32" "1 \<le> c" "c \<le> 32"
  shows "ParsePrefix (string4 n @ ''/'' @ itoa_nat c) = Some (V4 n, c)"
proof -
  have "rev (string4 n @ ''/'' @ itoa_nat c) = rev (itoa_nat c) @ CHR ''/'' # rev (string4 n)" by simp
  then have cut: "cut CHR ''/'' (rev (string4 n @ ''/'' @ itoa_nat c)) = Some (rev (itoa_nat c), rev (string4 n))"
    using cut_append [of "CHR ''/''" "rev (itoa_nat c)" "rev (string4 n)"] slash_notin_itoa by simp
  have "(2 :: nat) ^ 63 > 32" by simp
  then have p: "parse_int64 (itoa_nat c) = Some (int c)" using assms(4) by (intro parse_int64_itoa_nat) simp
  show ?thesis
    unfolding ParsePrefix_def cut
    using ParseAddr_string4 [OF assms(1,2)] hd_itoa_nat [OF assms(3)] assms(4) by (simp add: p Is6_def)
qed

text \<open>The server of an IPv4 tunnel takes the first host after the network address of the block its
  subnet base lies in, whatever host bits the stored base carries: two bases of one block never give
  two addresses, and the address is inside the block and is not the network address itself.\<close>

theorem serverAddress_first_host:
  assumes "0 \<le> n" "n < 2 ^ 32" "1 \<le> c" "c \<le> 31"
  shows "serverAddress (string4 n) (int c) = string4 (n - n mod 2 ^ (32 - c) + 1) @ ''/'' @ itoa (int c) \<and>
    (n - n mod 2 ^ (32 - c) + 1) div 2 ^ (32 - c) = n div 2 ^ (32 - c)"
proof -
  let ?b = "(2 :: int) ^ (32 - c)"
  have b: "2 \<le> ?b" using assms(4) power_increasing [of 1 "32 - c" "2 :: int"] by simp
  have dvd: "?b * 2 ^ c = 2 ^ 32" using assms(4) by (simp flip: power_add)
  have base: "n - n mod ?b = ?b * (n div ?b)" by (simp add: minus_mod_eq_mult_div)
  have one: "1 div ?b = 0" by (rule div_pos_pos_trivial) (use b in linarith)+
  have "?b \<noteq> 0" by simp
  then have "(?b * (n div ?b) + 1) div ?b = n div ?b"
    using div_mult_self4 [of ?b "n div ?b" 1] unfolding one by simp
  then have inside: "(n - n mod ?b + 1) div ?b = n div ?b" unfolding base by simp
  have "n - n mod ?b + 1 \<noteq> 2 ^ 32"
  proof
    assume "n - n mod ?b + 1 = 2 ^ 32"
    then have "?b * (n div ?b) + 1 = ?b * 2 ^ c" unfolding base dvd .
    then have "?b dvd 1" by (metis dvd_add_right_iff dvd_triv_left)
    then have "\<bar>?b\<bar> = 1" by (simp only: zdvd1_eq)
    then show False using b by linarith
  qed
  then have "Next (Masked (V4 n, c)) = Some (V4 (n - n mod ?b + 1))" by (simp add: Next_def Masked_def)
  moreover have "ParsePrefix (string4 n @ ''/'' @ itoa (int c)) = Some (V4 n, c)"
    using ParsePrefix_string4 [OF assms(1-3)] assms(4) by simp
  ultimately have "serverAddress (string4 n) (int c) = string4 (n - n mod ?b + 1) @ ''/'' @ itoa (int c)"
    using assms(3,4) by (simp add: serverAddress_def Let_def Is4_def addr_String_def)
  with inside show ?thesis by simp
qed

theorem serverAddress_first_host_witness:
  "serverAddress ''10.8.1.5'' 24 = ''10.8.1.1/24''"
proof -
  have s: "string4 168296709 = ''10.8.1.5''" "string4 168296705 = ''10.8.1.1''" "itoa 24 = ''24''" by code_simp+
  show ?thesis using serverAddress_first_host [of 168296709 24] by (simp add: s)
qed

end
