(* ===== verification/Awg_Forward.thy ===== *)
theory Awg_Forward
  imports Awg_Instance "HOL-Library.AList"
begin

text \<open>
  \<open>internal/amneziawgnet/portfwd.go\<close>: the supervisor that keeps one TCP and one UDP listener open per
  forwarded port of every peer.  Sockets are opened and closed by functions on an opaque state of the
  host; \<open>socket_laws\<close> says what the host promises about the set of open ones.  An operation is taken as a
  whole: the manager runs the reconciliations of one interface one after the other.
\<close>

section \<open>What is wanted\<close>

datatype portForwardProto = tcpForward | udpForward

record portForwardKey =
  kEmail :: string
  kPort :: int
  kProto :: portForwardProto

definition peer_target :: "awg_instance \<Rightarrow> peer \<Rightarrow> addr option" where
  "peer_target inst p =
     (let raw = FirstIPv4 (pAllowedIPs p);
          raw = (if raw = [] \<and> iIPv6Enabled inst then FirstIPv6 (pAllowedIPs p) else raw)
      in if raw = [] then None else ParseAddr raw)"

definition desiredPeerTargets :: "awg_instance \<Rightarrow> (string \<times> addr) list" where
  "desiredPeerTargets inst =
     foldl (\<lambda>out p. if pEmail p = [] then out
                    else case peer_target inst p of None \<Rightarrow> out | Some addr \<Rightarrow> AList.update (pEmail p) addr out)
       [] (iPeers inst)"

definition forwardingPeers :: "awg_instance \<Rightarrow> peer list" where
  "forwardingPeers inst =
     (let targets = desiredPeerTargets inst in
      filter (\<lambda>p. \<not> (pEmail p = [] \<or> pForwardedPorts p = []) \<and> map_of targets (pEmail p) \<noteq> None) (iPeers inst))"

definition desiredPortForwardKeys :: "awg_instance \<Rightarrow> portForwardKey list" where
  "desiredPortForwardKeys inst =
     remdups (concat (map (\<lambda>p. concat (map (\<lambda>port.
       [\<lparr>kEmail = pEmail p, kPort = port, kProto = tcpForward\<rparr>, \<lparr>kEmail = pEmail p, kPort = port, kProto = udpForward\<rparr>])
       (ExpandForwardedPorts (pForwardedPorts p)))) (forwardingPeers inst)))"

fun owner_loop :: "int \<Rightarrow> peer list \<Rightarrow> string option" where
  "owner_loop port [] = None"
| "owner_loop port (p # ps) =
     (if port \<in> set (ExpandForwardedPorts (pForwardedPorts p)) then Some (pEmail p) else owner_loop port ps)"

definition ForwardedPortOwner :: "awg_instance \<Rightarrow> int \<Rightarrow> string option" where
  "ForwardedPortOwner inst port = owner_loop port (forwardingPeers inst)"

section \<open>The supervisor\<close>

record 'l portForwardSet =
  fInboundID :: int
  fPeerTargets :: "(string \<times> addr) list"
  fListeners :: "(portForwardKey \<times> 'l) list"

definition NewPortForwardSet :: "int \<Rightarrow> 'l portForwardSet" where
  "NewPortForwardSet inboundID = \<lparr>fInboundID = inboundID, fPeerTargets = [], fListeners = []\<rparr>"

definition targetFor :: "'l portForwardSet \<Rightarrow> string \<Rightarrow> addr option" where
  "targetFor s email = map_of (fPeerTargets s) email"

record ('l, 'w) host =
  openPortForwardListener :: "int \<Rightarrow> portForwardKey \<Rightarrow> 'w \<Rightarrow> 'l option \<times> 'w"
  closeListener :: "'l \<Rightarrow> 'w \<Rightarrow> 'w"

fun open_each :: "('l, 'w) host \<Rightarrow> portForwardKey list \<Rightarrow> 'l portForwardSet \<Rightarrow> 'w \<Rightarrow> 'l portForwardSet \<times> 'w" where
  "open_each h [] s w = (s, w)"
| "open_each h (key # keys) s w =
     (case openPortForwardListener h (fInboundID s) key w of
        (None, w) \<Rightarrow> open_each h keys s w
      | (Some ln, w) \<Rightarrow> open_each h keys (s\<lparr>fListeners := AList.update key ln (fListeners s)\<rparr>) w)"

text \<open>\<open>order\<close> is the order in which the map of wanted keys happened to be iterated.\<close>

definition Reconcile ::
  "('l, 'w) host \<Rightarrow> (portForwardKey list \<Rightarrow> portForwardKey list) \<Rightarrow> awg_instance \<Rightarrow> 'l portForwardSet \<Rightarrow> 'w
    \<Rightarrow> 'l portForwardSet \<times> 'w" where
  "Reconcile h order inst s w =
     (let wantTargets = desiredPeerTargets inst;
          wantKeys = desiredPortForwardKeys inst;
          toClose = map snd (filter (\<lambda>(key, ln). key \<notin> set wantKeys) (fListeners s));
          kept = filter (\<lambda>(key, ln). key \<in> set wantKeys) (fListeners s);
          toOpen = filter (\<lambda>key. map_of kept key = None) (order wantKeys);
          w = foldl (\<lambda>w ln. closeListener h ln w) w toClose
      in open_each h toOpen (s\<lparr>fPeerTargets := wantTargets, fListeners := kept\<rparr>) w)"

definition CloseSet :: "('l, 'w) host \<Rightarrow> 'l portForwardSet \<Rightarrow> 'w \<Rightarrow> 'l portForwardSet \<times> 'w" where
  "CloseSet h s w = (s\<lparr>fListeners := []\<rparr>, foldl (\<lambda>w ln. closeListener h ln w) w (map snd (fListeners s)))"

section \<open>Owners and keys\<close>

lemma desired_keys_iff:
  "k \<in> set (desiredPortForwardKeys inst) \<longleftrightarrow>
     (\<exists>p\<in>set (forwardingPeers inst). kEmail k = pEmail p \<and> kPort k \<in> set (ExpandForwardedPorts (pForwardedPorts p)))"
proof -
  have pair: "k = \<lparr>kEmail = e, kPort = n, kProto = tcpForward\<rparr> \<or> k = \<lparr>kEmail = e, kPort = n, kProto = udpForward\<rparr>
      \<longleftrightarrow> kEmail k = e \<and> kPort k = n" for e n
    by (cases "kProto k") (auto intro: portForwardKey.equality)
  show ?thesis
    by (auto simp: desiredPortForwardKeys_def pair)
qed

lemma owner_loop_iff:
  "owner_loop port ps = Some e \<Longrightarrow> \<exists>p\<in>set ps. pEmail p = e \<and> port \<in> set (ExpandForwardedPorts (pForwardedPorts p))"
  "owner_loop port ps = None \<longleftrightarrow> (\<forall>p\<in>set ps. port \<notin> set (ExpandForwardedPorts (pForwardedPorts p)))"
  by (induction ps) (auto split: if_splits)

text \<open>A port has an owner exactly when the supervisor wants listeners on it, and then both the TCP and the
  UDP listener of that owner are wanted: the port-conflict check and the supervisor agree.\<close>

theorem ForwardedPortOwner_keys:
  "case ForwardedPortOwner inst port of
     Some e \<Rightarrow> {\<lparr>kEmail = e, kPort = port, kProto = tcpForward\<rparr>, \<lparr>kEmail = e, kPort = port, kProto = udpForward\<rparr>}
                 \<subseteq> set (desiredPortForwardKeys inst) \<and> e \<noteq> []
   | None \<Rightarrow> port \<notin> kPort ` set (desiredPortForwardKeys inst)"
proof (cases "ForwardedPortOwner inst port")
  case None
  then have no: "\<forall>p\<in>set (forwardingPeers inst). port \<notin> set (ExpandForwardedPorts (pForwardedPorts p))"
    by (simp add: ForwardedPortOwner_def owner_loop_iff(2))
  then have "port \<notin> kPort ` set (desiredPortForwardKeys inst)"
    using desired_keys_iff by blast
  with None show ?thesis by simp
next
  case (Some e)
  from owner_loop_iff(1) [OF this [unfolded ForwardedPortOwner_def]] obtain p where
    p: "p \<in> set (forwardingPeers inst)" "pEmail p = e" "port \<in> set (ExpandForwardedPorts (pForwardedPorts p))" by blast
  then have "e \<noteq> []" by (auto simp: forwardingPeers_def Let_def)
  with p Some show ?thesis by (auto simp: desired_keys_iff)
qed

section \<open>Reconciling\<close>

text \<open>\<open>live\<close> is the set of open sockets.\<close>

definition socket_laws :: "('l, 'w) host \<Rightarrow> ('w \<Rightarrow> 'l set) \<Rightarrow> bool" where
  "socket_laws h live \<longleftrightarrow>
     (\<forall>i k w ln w'. openPortForwardListener h i k w = (Some ln, w') \<longrightarrow> ln \<notin> live w \<and> live w' = insert ln (live w)) \<and>
     (\<forall>i k w w'. openPortForwardListener h i k w = (None, w') \<longrightarrow> live w' = live w) \<and>
     (\<forall>ln w. live (closeListener h ln w) = live w - {ln})"

text \<open>The supervisor accounts for every socket beyond those of others.\<close>

definition accounts :: "'l set \<Rightarrow> ('w \<Rightarrow> 'l set) \<Rightarrow> 'l portForwardSet \<Rightarrow> 'w \<Rightarrow> bool" where
  "accounts others live s w \<longleftrightarrow> distinct (map fst (fListeners s)) \<and> distinct (map snd (fListeners s)) \<and>
     others \<inter> snd ` set (fListeners s) = {} \<and> live w = others \<union> snd ` set (fListeners s)"

lemma update_new: "k \<notin> fst ` set al \<Longrightarrow> AList.update k v al = al @ [(k, v)]"
  by (induction al) auto

lemma close_all_live:
  assumes "socket_laws h live"
  shows "live (foldl (\<lambda>w ln. closeListener h ln w) w lns) = live w - set lns"
  using assms by (induction lns arbitrary: w) (auto simp: socket_laws_def)

lemma open_each_result:
  assumes "socket_laws h live" and "open_each h keys s w = (s', w')" and "accounts others live s w"
    and "distinct keys" and "set keys \<inter> fst ` set (fListeners s) = {}"
  shows "accounts others live s' w' \<and> fPeerTargets s' = fPeerTargets s \<and> fInboundID s' = fInboundID s \<and>
    (\<exists>new. fListeners s' = fListeners s @ new \<and> fst ` set new \<subseteq> set keys \<and>
      (\<forall>k\<in>set keys. (\<forall>w. fst (openPortForwardListener h (fInboundID s) k w) \<noteq> None) \<longrightarrow> k \<in> fst ` set new))"
  using assms(2-5)
proof (induction keys arbitrary: s w)
  case (Cons k keys)
  obtain r w1 where o1: "openPortForwardListener h (fInboundID s) k w = (r, w1)" by fastforce
  show ?case
  proof (cases r)
    case None
    have "live w1 = live w" using assms(1) o1 None by (auto simp: socket_laws_def)
    then have "accounts others live s w1" using Cons.prems(2) by (simp add: accounts_def)
    from Cons.IH [OF _ this] Cons.prems o1 None obtain new where n: "accounts others live s' w'" "fPeerTargets s' = fPeerTargets s"
      "fInboundID s' = fInboundID s" "fListeners s' = fListeners s @ new" "fst ` set new \<subseteq> set keys"
      "\<forall>k\<in>set keys. (\<forall>w. fst (openPortForwardListener h (fInboundID s) k w) \<noteq> None) \<longrightarrow> k \<in> fst ` set new" by auto
    moreover have "\<not> (\<forall>w. fst (openPortForwardListener h (fInboundID s) k w) \<noteq> None)"
      using o1 None by (metis fst_conv)
    ultimately show ?thesis by (intro conjI exI [of _ new]) (auto simp del: not_None_eq)
  next
    case (Some ln)
    let ?s = "s\<lparr>fListeners := AList.update k ln (fListeners s)\<rparr>"
    have k: "k \<notin> fst ` set (fListeners s)" using Cons.prems(4) by auto
    note upd = update_new [OF k, of ln]
    have l: "ln \<notin> live w" "live w1 = insert ln (live w)" using assms(1) o1 Some by (auto simp: socket_laws_def)
    then have "accounts others live ?s w1" using Cons.prems(2) k by (auto simp: accounts_def upd)
    from Cons.IH [OF _ this] Cons.prems o1 Some obtain new where n: "accounts others live s' w'" "fPeerTargets s' = fPeerTargets s"
      "fInboundID s' = fInboundID s" "fListeners s' = (fListeners s @ [(k, ln)]) @ new" "fst ` set new \<subseteq> set keys"
      "\<forall>k\<in>set keys. (\<forall>w. fst (openPortForwardListener h (fInboundID s) k w) \<noteq> None) \<longrightarrow> k \<in> fst ` set new"
      by (auto simp: upd)
    then show ?thesis by (intro conjI exI [of _ "(k, ln) # new"]) auto
  qed
qed simp

lemma filter_keys: "distinct (map fst al) \<Longrightarrow> distinct (map fst (filter P al))"
  and filter_vals: "distinct (map snd al) \<Longrightarrow> distinct (map snd (filter P al))"
  by (induction al) auto

lemma map_of_filter_key: "map_of (filter (\<lambda>(k, v). Q k) al) k = (if Q k then map_of al k else None)"
  by (induction al) auto

lemma Reconcile_result:
  assumes "socket_laws h live" and "accounts others live s w" and "distinct (order (desiredPortForwardKeys inst))"
    and "set (order (desiredPortForwardKeys inst)) = set (desiredPortForwardKeys inst)"
    and "Reconcile h order inst s w = (s', w')"
  shows "accounts others live s' w' \<and> fPeerTargets s' = desiredPeerTargets inst \<and>
    fst ` set (fListeners s') \<subseteq> set (desiredPortForwardKeys inst) \<and>
    (\<forall>k\<in>set (desiredPortForwardKeys inst).
      (case map_of (fListeners s) k of
         Some ln \<Rightarrow> map_of (fListeners s') k = Some ln
       | None \<Rightarrow> (\<forall>w. fst (openPortForwardListener h (fInboundID s) k w) \<noteq> None) \<longrightarrow> map_of (fListeners s') k \<noteq> None))"
proof -
  let ?want = "desiredPortForwardKeys inst"
  let ?kept = "filter (\<lambda>(k, ln). k \<in> set ?want) (fListeners s)"
  let ?gone = "map snd (filter (\<lambda>(k, ln). k \<notin> set ?want) (fListeners s))"
  let ?s = "s\<lparr>fPeerTargets := desiredPeerTargets inst, fListeners := ?kept\<rparr>"
  let ?open = "filter (\<lambda>k. map_of ?kept k = None) (order ?want)"
  let ?w = "foldl (\<lambda>w ln. closeListener h ln w) w ?gone"
  have e: "open_each h ?open ?s ?w = (s', w')" using assms(5) by (simp add: Reconcile_def Let_def)
  have part: "snd ` set (fListeners s) = snd ` set ?kept \<union> set ?gone" by force
  have disj: "snd ` set ?kept \<inter> set ?gone = {}"
    using assms(2) by (auto simp: accounts_def distinct_map inj_on_def)
  have "live ?w = live w - set ?gone" by (rule close_all_live [OF assms(1)])
  then have acc: "accounts others live ?s ?w"
    using assms(2) part disj by (auto simp: accounts_def filter_keys filter_vals)
  have "set ?open \<inter> fst ` set (fListeners ?s) = {}" by (auto simp: map_of_eq_None_iff)
  moreover have "distinct ?open" using assms(3) by simp
  ultimately obtain new where r: "accounts others live s' w'" "fPeerTargets s' = desiredPeerTargets inst"
    "fListeners s' = ?kept @ new" "fst ` set new \<subseteq> set ?open"
    "\<forall>k\<in>set ?open. (\<forall>w. fst (openPortForwardListener h (fInboundID s) k w) \<noteq> None) \<longrightarrow> k \<in> fst ` set new"
    using open_each_result [OF assms(1) e acc] by auto
  have "case map_of (fListeners s) k of
         Some ln \<Rightarrow> map_of (fListeners s') k = Some ln
       | None \<Rightarrow> (\<forall>w. fst (openPortForwardListener h (fInboundID s) k w) \<noteq> None) \<longrightarrow> map_of (fListeners s') k \<noteq> None"
    if k: "k \<in> set ?want" for k
  proof (cases "map_of (fListeners s) k")
    case (Some ln)
    then have "k \<notin> fst ` set new" using r(4) k by (force simp: map_of_filter_key)
    then have "map_of new k = None" by (simp add: map_of_eq_None_iff)
    then show ?thesis using Some k r(3) by (simp add: map_of_filter_key map_add_def)
  next
    case None
    then have "k \<in> set ?open" using k assms(4) by (simp add: map_of_filter_key)
    then have "(\<forall>w. fst (openPortForwardListener h (fInboundID s) k w) \<noteq> None) \<Longrightarrow> map_of new k \<noteq> None"
      using r(5) unfolding map_of_eq_None_iff by blast
    then have "(\<forall>w. fst (openPortForwardListener h (fInboundID s) k w) \<noteq> None) \<longrightarrow> map_of (fListeners s') k \<noteq> None"
      unfolding r(3) map_of_append map_add_None by blast
    then show ?thesis unfolding None by simp
  qed
  moreover have "fst ` set (fListeners s') \<subseteq> set ?want"
    using r(3,4) assms(4) by auto
  ultimately show ?thesis using r(1,2) by blast
qed

text \<open>The runs of a supervisor: any sequence of reconciliations and closings, each with its own desired
  instance and its own iteration order.\<close>

inductive pf_step :: "('l, 'w) host \<Rightarrow> 'l portForwardSet \<times> 'w \<Rightarrow> 'l portForwardSet \<times> 'w \<Rightarrow> bool" for h where
  reconcile: "distinct (order (desiredPortForwardKeys inst)) \<Longrightarrow>
     set (order (desiredPortForwardKeys inst)) = set (desiredPortForwardKeys inst) \<Longrightarrow>
     pf_step h (s, w) (Reconcile h order inst s w)"
| close: "pf_step h (s, w) (CloseSet h s w)"

inductive_cases pf_stepE: "pf_step h (s, w) sw'"

inductive pf_reach :: "('l, 'w) host \<Rightarrow> 'w \<Rightarrow> 'l portForwardSet \<times> 'w \<Rightarrow> bool" for h w0 where
  start: "pf_reach h w0 (NewPortForwardSet i, w0)"
| step: "pf_reach h w0 sw \<Longrightarrow> pf_step h sw sw' \<Longrightarrow> pf_reach h w0 sw'"

lemma CloseSet_accounts:
  assumes "socket_laws h live" and "accounts others live s w" and "CloseSet h s w = (s', w')"
  shows "accounts others live s' w'"
proof -
  have "live w' = live w - snd ` set (fListeners s)"
    using assms(3) close_all_live [OF assms(1), of w "map snd (fListeners s)"] by (auto simp: CloseSet_def)
  then show ?thesis using assms(2,3) by (auto simp: accounts_def CloseSet_def)
qed

lemma pf_reach_accounts:
  assumes "socket_laws h live" and "pf_reach h w0 sw"
  shows "accounts (live w0) live (fst sw) (snd sw)"
  using assms(2)
proof induction
  case (start i)
  then show ?case by (simp add: accounts_def NewPortForwardSet_def)
next
  case (step sw sw')
  obtain s w s' w' where p: "sw = (s, w)" "sw' = (s', w')" by fastforce
  have "pf_step h (s, w) (s', w')" using step.hyps(2) p by simp
  then show ?case
  proof (rule pf_stepE)
    fix order inst
    assume "(s', w') = Reconcile h order inst s w" and o1: "distinct (order (desiredPortForwardKeys inst))"
      "set (order (desiredPortForwardKeys inst)) = set (desiredPortForwardKeys inst)"
    then have "Reconcile h order inst s w = (s', w')" by simp
    from Reconcile_result [OF assms(1) _ o1 this] step.IH p show ?thesis by simp
  next
    assume "(s', w') = CloseSet h s w"
    then have "CloseSet h s w = (s', w')" by simp
    from CloseSet_accounts [OF assms(1) _ this] step.IH p show ?thesis by simp
  qed
qed

text \<open>C3: No run of the supervisor leaks a socket or closes one it does not own: at every moment the open sockets are
  those that were open before it started and exactly the listeners it holds, each under one key, and
  after closing it only the former are left.\<close>

theorem port_forward_no_leak:
  assumes "socket_laws h live" and "pf_reach h w0 (s, w)"
  shows "live w = live w0 \<union> snd ` set (fListeners s) \<and> live w0 \<inter> snd ` set (fListeners s) = {} \<and>
    distinct (map fst (fListeners s)) \<and> distinct (map snd (fListeners s)) \<and> live (snd (CloseSet h s w)) = live w0"
proof -
  have a: "accounts (live w0) live s w" using pf_reach_accounts [OF assms] by simp
  obtain s' w' where c: "CloseSet h s w = (s', w')" by fastforce
  from CloseSet_accounts [OF assms(1) a c] c have "live w' = live w0" by (auto simp: accounts_def CloseSet_def)
  with a c show ?thesis by (auto simp: accounts_def)
qed

text \<open>C29: Reconciling brings the listeners in line with the instance: none is left on an unwanted key, every
  listener on a wanted key is kept as it is, and every other wanted key whose socket the host grants
  is opened.\<close>

theorem Reconcile_converges:
  assumes "socket_laws h live" and "pf_reach h w0 (s, w)"
    and "distinct (order (desiredPortForwardKeys inst))"
    and "set (order (desiredPortForwardKeys inst)) = set (desiredPortForwardKeys inst)"
    and "Reconcile h order inst s w = (s', w')"
  shows "fst ` set (fListeners s') \<subseteq> set (desiredPortForwardKeys inst) \<and>
    (\<forall>k\<in>set (desiredPortForwardKeys inst). \<forall>ln. map_of (fListeners s) k = Some ln \<longrightarrow> map_of (fListeners s') k = Some ln) \<and>
    (\<forall>k\<in>set (desiredPortForwardKeys inst). map_of (fListeners s) k = None \<longrightarrow>
       (\<forall>w. fst (openPortForwardListener h (fInboundID s) k w) \<noteq> None) \<longrightarrow> map_of (fListeners s') k \<noteq> None)"
proof -
  have "accounts (live w0) live s w" using pf_reach_accounts [OF assms(1,2)] by simp
  note r = Reconcile_result [OF assms(1) this assms(3-5)]
  have "map_of (fListeners s') k = Some ln"
    if "k \<in> set (desiredPortForwardKeys inst)" "map_of (fListeners s) k = Some ln" for k ln
    using that r by force
  moreover have "map_of (fListeners s') k \<noteq> None"
    if "k \<in> set (desiredPortForwardKeys inst)" "map_of (fListeners s) k = None"
      "\<forall>w. fst (openPortForwardListener h (fInboundID s) k w) \<noteq> None" for k
  proof -
    from r that(1) have "case map_of (fListeners s) k of
         Some ln \<Rightarrow> map_of (fListeners s') k = Some ln
       | None \<Rightarrow> (\<forall>w. fst (openPortForwardListener h (fInboundID s) k w) \<noteq> None) \<longrightarrow> map_of (fListeners s') k \<noteq> None"
      by blast
    then show ?thesis unfolding that(2) option.case using that(3) by blast
  qed
  ultimately show ?thesis using r by blast
qed

text \<open>A host with numbered sockets, and an instance with one forwarding peer.\<close>

definition list_host :: "(nat, nat list) host" where
  "list_host = \<lparr>openPortForwardListener = (\<lambda>i k w. (Some (Suc (sum_list w)), Suc (sum_list w) # w)),
     closeListener = (\<lambda>ln w. filter (\<lambda>x. x \<noteq> ln) w)\<rparr>"

lemma list_host_laws: "socket_laws list_host set"
proof -
  have "Suc (sum_list w) \<notin> set w" for w :: "nat list"
    using member_le_sum_list [of "Suc (sum_list w)" w] by auto
  then show ?thesis by (auto simp: socket_laws_def list_host_def)
qed

definition sample_instance :: awg_instance where
  "sample_instance = \<lparr>iId = 1, iTag = [], iInterfaceName = ''awg1'', iListenPort = 51820, iListen = [], iPrivateKey = [],
     iPublicKey = [], iAddress = [''10.8.1.1/24''], iMTU = 0, iObfuscation = zero_obfuscation,
     iPeers = [\<lparr>pEmail = ''a'', pPublicKey = ''k'', pPresharedKey = [], pAllowedIPs = [''10.8.1.5/32''], pForwardedPorts = ''80''\<rparr>],
     iExternalInterface = [], iIPv6Enabled = False, iIPv6ExternalInterface = [], iRouteThroughXray = False\<rparr>"

lemma sample_keys: "desiredPortForwardKeys sample_instance =
    [\<lparr>kEmail = ''a'', kPort = 80, kProto = tcpForward\<rparr>, \<lparr>kEmail = ''a'', kPort = 80, kProto = udpForward\<rparr>]"
  by code_simp

lemma sample_run: "pf_reach list_host [7] (Reconcile list_host (\<lambda>ks. ks) sample_instance (NewPortForwardSet 1) [7])"
  by (rule pf_reach.step [OF pf_reach.start pf_step.reconcile]) (simp_all add: sample_keys)

lemma sample_listeners: "fListeners (fst (Reconcile list_host (\<lambda>ks. ks) sample_instance (NewPortForwardSet 1) [7])) =
    [(\<lparr>kEmail = ''a'', kPort = 80, kProto = tcpForward\<rparr>, 8), (\<lparr>kEmail = ''a'', kPort = 80, kProto = udpForward\<rparr>, 16)]"
  by (simp add: Reconcile_def sample_keys NewPortForwardSet_def list_host_def Let_def)

theorem port_forward_no_leak_witness:
  "\<exists>s w. pf_reach list_host [7] (s, w) \<and> fListeners s \<noteq> [] \<and> set w = {7, 8, 16} \<and> set (snd (CloseSet list_host s w)) = {7}"
proof -
  obtain s w where sw: "Reconcile list_host (\<lambda>ks. ks) sample_instance (NewPortForwardSet 1) [7] = (s, w)" by fastforce
  have reach: "pf_reach list_host [7] (s, w)" using sample_run sw by simp
  have l: "fListeners s = [(\<lparr>kEmail = ''a'', kPort = 80, kProto = tcpForward\<rparr>, 8), (\<lparr>kEmail = ''a'', kPort = 80, kProto = udpForward\<rparr>, 16)]"
    using sample_listeners sw by simp
  from port_forward_no_leak [OF list_host_laws reach] l show ?thesis by (intro exI [of _ s] exI [of _ w]) (auto simp: reach insert_commute)
qed

theorem Reconcile_converges_witness:
  "\<exists>s' w'. Reconcile list_host rev sample_instance (NewPortForwardSet 1) [] = (s', w') \<and>
     fst ` set (fListeners s') \<subseteq> set (desiredPortForwardKeys sample_instance) \<and>
     map_of (fListeners s') \<lparr>kEmail = ''a'', kPort = 80, kProto = udpForward\<rparr> \<noteq> None"
proof -
  obtain s' w' where sw: "Reconcile list_host rev sample_instance (NewPortForwardSet 1) [] = (s', w')" by fastforce
  have "fst ` set (fListeners s') \<subseteq> set (desiredPortForwardKeys sample_instance) \<and>
    (\<forall>k\<in>set (desiredPortForwardKeys sample_instance). \<forall>ln. map_of (fListeners (NewPortForwardSet 1)) k = Some ln \<longrightarrow>
       map_of (fListeners s') k = Some ln) \<and>
    (\<forall>k\<in>set (desiredPortForwardKeys sample_instance). map_of (fListeners (NewPortForwardSet 1 :: nat portForwardSet)) k = None \<longrightarrow>
       (\<forall>w. fst (openPortForwardListener list_host (fInboundID (NewPortForwardSet 1 :: nat portForwardSet)) k w) \<noteq> None) \<longrightarrow>
       map_of (fListeners s') k \<noteq> None)"
    by (rule Reconcile_converges [OF list_host_laws pf_reach.start _ _ sw]) (simp_all add: sample_keys insert_commute)
  then show ?thesis using sw by (auto simp: sample_keys NewPortForwardSet_def list_host_def insert_commute)
qed

end
