(* ===== verification/Port_Conflict.thy ===== *)
theory Port_Conflict
  imports Awg_Forward
begin

text \<open>
  \<open>internal/web/service/port_conflict.go\<close>: which L4 ports an inbound takes, whether they collide with
  those of another inbound of the same host or with the loopback ports the panel reserves, and the tags
  derived from them.  From \<open>internal/lucx/tunnel\<close> come the tests whether a gateway is applied and whether
  an inbound is behind a cover site, from \<open>internal/amneziawgnet\<close> the relay port of an inbound.

  The database is a function from a condition on rows to an error or the rows that satisfy it
  (\<open>db_laws\<close>); \<open>tmpl\<close> is the stored configuration template, \<open>None\<close> when reading it fails.
\<close>

unbundle bit_operations_syntax

section \<open>Transports\<close>

type_synonym transportBits = "8 word"

definition transportTCP :: transportBits where
  "transportTCP = 1"

definition transportUDP :: transportBits where
  "transportUDP = 2"

text \<open>A \<open>map[string]any\<close>: numbers must fit a \<open>float64\<close>, or the whole document is refused.\<close>

definition float_ok :: "string \<Rightarrow> bool" where
  "float_ok t =
     (let t = (if t \<noteq> [] \<and> hd t = CHR ''-'' then tl t else t);
          ip = takeWhile is_digit t; r = dropWhile is_digit t;
          fp = (if r \<noteq> [] \<and> hd r = CHR ''.'' then takeWhile is_digit (tl r) else []);
          r = (if r \<noteq> [] \<and> hd r = CHR ''.'' then dropWhile is_digit (tl r) else r);
          e = (if r = [] then 0 else case tl r of [] \<Rightarrow> 0 | c # ds \<Rightarrow>
                 if c = CHR ''-'' then - int (num_of_digits ds)
                 else if c = CHR ''+'' then int (num_of_digits ds) else int (num_of_digits (c # ds)));
          m = int (num_of_digits (ip @ fp)); x = e - int (length fp)
      in m = 0 \<or> (if x \<ge> 0 then x \<le> 400 \<and> m * 10 ^ nat x < 2 ^ 1024 - 2 ^ 970
                   else m < (2 ^ 1024 - 2 ^ 970) * 10 ^ nat (- x)))"

fun any_ok :: "json \<Rightarrow> bool" where
  "any_ok (JNum t) = float_ok t"
| "any_ok (JArr vs) = list_all any_ok vs"
| "any_ok (JObj ms) = list_all (\<lambda>(k, v). any_ok v) ms"
| "any_ok v = True"

definition any_map :: "string \<Rightarrow> (string \<times> json) list option" where
  "any_map raw = (case json_unmarshal raw of
     None \<Rightarrow> None
   | Some v \<Rightarrow> if \<not> any_ok v then None
       else case to_any v of JObj ms \<Rightarrow> Some ms | JNull \<Rightarrow> Some [] | _ \<Rightarrow> None)"

definition get_str :: "(string \<times> json) list \<Rightarrow> string \<Rightarrow> string" where
  "get_str m k = (case map_of m k of Some (JStr s) \<Rightarrow> s | _ \<Rightarrow> [])"

definition streamNetwork :: "string \<Rightarrow> string" where
  "streamNetwork streamSettings = (if streamSettings = [] then []
     else case any_map streamSettings of None \<Rightarrow> [] | Some ss \<Rightarrow> get_str ss ''network'')"

definition upper :: "string \<Rightarrow> string" where
  "upper s = map (\<lambda>c. if CHR ''a'' \<le> c \<and> c \<le> CHR ''z'' then char_of (of_char c - (32 :: nat)) else c) s"

definition csvBits :: "string \<Rightarrow> transportBits" where
  "csvBits n = foldl (\<lambda>bits part.
     if trim_space part = ''tcp'' then bits OR transportTCP
     else if trim_space part = ''udp'' then bits OR transportUDP else bits) 0 (split_on CHR '','' n)"

definition bindingBits :: "json list \<Rightarrow> transportBits" where
  "bindingBits raw = foldl (\<lambda>bits item. case item of
       JObj m \<Rightarrow> if upper (trim_space (get_str m ''protocol'')) = ''UDP'' then bits OR transportUDP else bits OR transportTCP
     | _ \<Rightarrow> bits) 0 raw"

definition udpOnly :: "string list" where
  "udpOnly = [''hysteria'', ''wireguard'', ''awg'', ''amneziawg'', ''tuic'']"

definition tcpOnly :: "string list" where
  "tcpOnly = [''mtproto'', ''naive'', ''olcrtc'', ''qwdtt'', ''anytls'', ''tproxy'', ''cover'', ''gateway'']"

definition inboundTransports :: "string \<Rightarrow> string \<Rightarrow> string \<Rightarrow> transportBits" where
  "inboundTransports protocol streamSettings settings =
     (if protocol \<in> set udpOnly then transportUDP
      else if protocol \<in> set tcpOnly then transportTCP
      else if protocol = ''trusttunnel'' then transportTCP OR transportUDP
      else
        let bits = (if streamNetwork streamSettings \<in> {''kcp'', ''quic''} then transportUDP else transportTCP);
            bits = (if settings = [] then bits else case any_map settings of None \<Rightarrow> bits | Some st \<Rightarrow>
              if protocol = ''shadowsocks'' \<or> protocol = ''tunnel'' then
                (let n = get_str st (if protocol = ''tunnel'' then ''allowedNetwork'' else ''network'')
                 in if n \<noteq> [] then csvBits n else bits)
              else if protocol = ''mixed'' then
                (if map_of st ''udp'' = Some (JBool True) then bits OR transportUDP else bits)
              else if protocol = ''mieru'' then
                (case map_of st ''portBindings'' of Some (JArr raw) \<Rightarrow> bindingBits raw | _ \<Rightarrow> 0)
              else bits)
        in if bits = 0 then transportTCP else bits)"

section \<open>Who listens where\<close>

definition Gateway :: string where "Gateway = ''gateway''"
definition Cover :: string where "Cover = ''cover''"
definition AWG :: string where "AWG = ''awg''"

text \<open>The length of the snapshot of a gateway's configuration; errors of the decoder are ignored.\<close>

definition GatewaySnapshotLen :: "inbound \<Rightarrow> nat" where
  "GatewaySnapshotLen ib =
     (let raw = trim_space (inSettings ib) in
      if raw \<noteq> [] \<and> raw \<noteq> ''{}''
      then length (snd (Unmarshal (s_struct [(''snapshot'', s_list (\<lambda>_ _. (True, ())) ())]) [] raw)) else 0)"

definition gatewayOccupiesListen :: "inbound \<Rightarrow> bool" where
  "gatewayOccupiesListen ib = (if inProtocol ib \<noteq> Gateway then True else GatewaySnapshotLen ib > 0)"

definition SettingsBehindCover :: "string \<Rightarrow> string \<Rightarrow> bool" where
  "SettingsBehindCover protocol settings =
     (if protocol \<noteq> ''naive'' \<and> protocol \<noteq> ''tproxy'' then False
      else snd (Unmarshal (s_struct [(''behindCover'', s_bool)]) False settings))"

definition IsLoopbackListen :: "string \<Rightarrow> bool" where
  "IsLoopbackListen listen \<longleftrightarrow> trim_space listen = ''127.0.0.1'' \<or> trim_space listen = ''::1''"

definition isAnyListen :: "string \<Rightarrow> bool" where
  "isAnyListen s \<longleftrightarrow> s = [] \<or> s = ''0.0.0.0'' \<or> s = ''::'' \<or> s = ''::0''"

definition listenOverlaps :: "string \<Rightarrow> string \<Rightarrow> bool" where
  "listenOverlaps a b = (if isAnyListen a \<or> isAnyListen b then True else a = b)"

definition sameNode :: "int option \<Rightarrow> int option \<Rightarrow> bool" where
  "sameNode a b = (case (a, b) of (None, None) \<Rightarrow> True | (Some x, Some y) \<Rightarrow> x = y | _ \<Rightarrow> False)"

text \<open>Go's \<open>%\<close> truncates towards zero.\<close>

definition go_rem :: "int \<Rightarrow> int \<Rightarrow> int" where
  "go_rem a b = (if a < 0 then - ((- a) mod b) else a mod b)"

definition SOCKSBasePort :: int where "SOCKSBasePort = 65100"
definition relayPortSlots :: int where "relayPortSlots = 65535 - SOCKSBasePort"
definition EgressBasePort :: int where "EgressBasePort = 64900"

definition SOCKSPortForInbound :: "int \<Rightarrow> int" where
  "SOCKSPortForInbound inboundID = SOCKSBasePort + 1 + go_rem (inboundID - 1) relayPortSlots"

definition defaultXrayAPIPort :: int where "defaultXrayAPIPort = 62789"

record tmplInbound =
  tiPort :: int
  tiTag :: string

definition tmpl_fields :: "tmplInbound field list" where
  "tmpl_fields = [fld ''port'' tiPort tiPort_update s_int, fld ''tag'' tiTag tiTag_update s_string]"

definition reservedAPIPort :: "string option \<Rightarrow> int" where
  "reservedAPIPort tmpl =
     (case tmpl of None \<Rightarrow> defaultXrayAPIPort | Some t \<Rightarrow>
        if t = [] then defaultXrayAPIPort
        else case Unmarshal (s_struct [(''inbounds'', s_list (s_struct tmpl_fields) \<lparr>tiPort = 0, tiTag = []\<rparr>)]) [] t of
          (ok, parsed) \<Rightarrow>
            if \<not> ok then defaultXrayAPIPort
            else case find (\<lambda>i. tiTag i = ''api'' \<and> tiPort i > 0) parsed of
                   Some i \<Rightarrow> tiPort i | None \<Rightarrow> defaultXrayAPIPort)"

section \<open>The conflict and its message\<close>

record portConflictDetail =
  cdInboundID :: int
  cdRemark :: string
  cdTag :: string
  cdListen :: string
  cdPort :: int
  cdRelay :: bool
  cdForwardedBy :: string
  cdTransports :: transportBits

definition row_detail :: "inbound \<Rightarrow> string \<Rightarrow> int \<Rightarrow> bool \<Rightarrow> transportBits \<Rightarrow> portConflictDetail" where
  "row_detail c listen port relay bits = \<lparr>cdInboundID = inId c, cdRemark = inRemark c, cdTag = inTag c, cdListen = listen,
     cdPort = port, cdRelay = relay, cdForwardedBy = [], cdTransports = bits\<rparr>"

definition transportTagSuffix :: "transportBits \<Rightarrow> string" where
  "transportTagSuffix b = (if b = transportTCP then ''tcp'' else if b = transportUDP then ''udp''
     else if b = transportTCP OR transportUDP then ''tcpudp'' else ''any'')"

definition detail_String :: "portConflictDetail \<Rightarrow> string" where
  "detail_String d =
     (let name = (if cdRemark d = [] then cdTag d else cdRemark d);
          name = (if name = [] then CHR ''#'' # itoa (cdInboundID d)
                  else if cdInboundID d > 0 then CHR 0x27 # name @ CHR 0x27 # '' (#'' @ itoa (cdInboundID d) @ '')''
                  else CHR 0x27 # name @ [CHR 0x27]);
          listen = (if isAnyListen (cdListen d) then ''*'' else cdListen d);
          port = (if cdRelay d then ''relay port '' else ''port '') @ itoa (cdPort d)
      in if cdForwardedBy d \<noteq> []
         then port @ '' ('' @ transportTagSuffix (cdTransports d) @ '') already forwarded on inbound '' @ name @ '' on ''
           @ listen @ '' by its client '' @ cdForwardedBy d
         else port @ '' ('' @ transportTagSuffix (cdTransports d) @ '') already used by inbound '' @ name @ '' on '' @ listen)"

text \<open>\<open>common.NewError\<close> prints its arguments with \<open>Sprintln\<close>.\<close>

fun NewError :: "string list \<Rightarrow> string" where
  "NewError [] = [CHR 0x0A]"
| "NewError [a] = a @ [CHR 0x0A]"
| "NewError (a # b # as) = a @ '' '' @ NewError (b # as)"

section \<open>The check\<close>

type_synonym db = "(inbound \<Rightarrow> bool) \<Rightarrow> string + inbound list"
type_synonym check = "string + portConflictDetail option"

definition other_than :: "int \<Rightarrow> inbound \<Rightarrow> bool" where
  "other_than ignoreId c \<longleftrightarrow> (ignoreId > 0 \<longrightarrow> inId c \<noteq> ignoreId)"

text \<open>\<open>Find\<close>, then return the first row that is in the way, if any.\<close>

definition find_row :: "db \<Rightarrow> (inbound \<Rightarrow> bool) \<Rightarrow> (inbound \<Rightarrow> portConflictDetail option) \<Rightarrow> check" where
  "find_row db P f = (case db P of Inl e \<Rightarrow> Inl e
     | Inr rows \<Rightarrow> Inr (case find (\<lambda>c. f c \<noteq> None) rows of None \<Rightarrow> None | Some c \<Rightarrow> f c))"

definition or_else :: "check \<Rightarrow> check \<Rightarrow> check" where
  "or_else r k = (case r of Inr None \<Rightarrow> k | _ \<Rightarrow> r)"

record bridgeRoute =
  brThrough :: bool
  brMode :: string
  brPort :: int

definition bridge_fields :: "bridgeRoute field list" where
  "bridge_fields = [fld ''routeThroughXray'' brThrough brThrough_update s_bool,
     fld ''xrayRoutingMode'' brMode brMode_update s_string, fld ''tproxyPort'' brPort brPort_update s_int]"

definition bridgeTproxyPort :: "inbound \<Rightarrow> int option" where
  "bridgeTproxyPort bridge =
     (case Unmarshal (s_struct bridge_fields) \<lparr>brThrough = False, brMode = [], brPort = 0\<rparr> (inSettings bridge) of
        (ok, route) \<Rightarrow> if ok \<and> brThrough route \<and> brMode route = ''tproxy'' then Some (brPort route) else None)"

definition checkBridges :: "db \<Rightarrow> inbound \<Rightarrow> int \<Rightarrow> transportBits \<Rightarrow> check" where
  "checkBridges db ib ignoreId newBits =
     (if inNodeID ib = None \<and> listenOverlaps ''127.0.0.1'' (inListen ib)
      then find_row db (\<lambda>c. inProtocol c = AWG \<and> inNodeID c = None \<and> inId c \<noteq> ignoreId)
        (\<lambda>bridge. if bridgeTproxyPort bridge = Some (inPort ib)
           then Some (row_detail bridge ''127.0.0.1'' (inPort ib) True newBits) else None)
      else Inr None)"

definition reserved_detail :: "string \<Rightarrow> int \<Rightarrow> portConflictDetail" where
  "reserved_detail tag port = \<lparr>cdInboundID = 0, cdRemark = [], cdTag = tag, cdListen = ''127.0.0.1'', cdPort = port,
     cdRelay = False, cdForwardedBy = [], cdTransports = transportTCP\<rparr>"

definition checkReserved :: "string option \<Rightarrow> inbound \<Rightarrow> transportBits \<Rightarrow> check" where
  "checkReserved tmpl ib newBits = Inr
     (if inNodeID ib = None \<and> inPort ib = reservedAPIPort tmpl \<and> newBits AND transportTCP \<noteq> 0 \<and>
         listenOverlaps ''127.0.0.1'' (inListen ib) then Some (reserved_detail ''api'' (inPort ib))
      else if inNodeID ib = None \<and> inPort ib = EgressBasePort \<and> newBits AND transportTCP \<noteq> 0 \<and>
         listenOverlaps ''127.0.0.1'' (inListen ib) then Some (reserved_detail ''amneziawg-egress'' (inPort ib))
      else None)"

definition checkAmneziawgnetSocksConflict :: "db \<Rightarrow> inbound \<Rightarrow> int \<Rightarrow> transportBits \<Rightarrow> check" where
  "checkAmneziawgnetSocksConflict db ib ignoreId newBits =
     find_row db (\<lambda>c. inProtocol c = AmneziaWG \<and> inNodeID c = None \<and> other_than ignoreId c)
       (\<lambda>c. if SOCKSPortForInbound (inId c) \<noteq> inPort ib then None
          else Some (row_detail c ''127.0.0.1'' (inPort ib) False newBits))"

definition checkAmneziawgnetSocksRelayCollision :: "db \<Rightarrow> int \<Rightarrow> check" where
  "checkAmneziawgnetSocksRelayCollision db n =
     find_row db (\<lambda>c. inProtocol c = AmneziaWG \<and> inNodeID c = None \<and> inId c \<noteq> n)
       (\<lambda>c. if SOCKSPortForInbound (inId c) \<noteq> SOCKSPortForInbound n then None
          else Some (row_detail c ''127.0.0.1'' (SOCKSPortForInbound n) True transportTCP))"

definition amneziawgnetSocksSelfConflict :: "inbound \<Rightarrow> int \<Rightarrow> string" where
  "amneziawgnetSocksSelfConflict ib n =
     (if n \<le> 0 \<or> inNodeID ib \<noteq> None \<or> \<not> listenOverlaps ''127.0.0.1'' (inListen ib) then []
      else if inPort ib \<noteq> SOCKSPortForInbound n then []
      else ''WireGuard port '' @ itoa (SOCKSPortForInbound n) @ '' is inbound #'' @ itoa n @ CHR 0x27 #
        ''s own SOCKS5 relay port on 127.0.0.1; choose a different WireGuard port'')"

definition checkAmneziawgnetSocksReverseConflict :: "db \<Rightarrow> int \<Rightarrow> check" where
  "checkAmneziawgnetSocksReverseConflict db n =
     find_row db (\<lambda>c. inPort c = SOCKSPortForInbound n \<and> inNodeID c = None \<and> inId c \<noteq> n)
       (\<lambda>c. if \<not> listenOverlaps ''127.0.0.1'' (inListen c) then None
          else Some (row_detail c (inListen c) (SOCKSPortForInbound n) True transportTCP))"

definition amneziawgForwardedPortOwner :: "db \<Rightarrow> inbound \<Rightarrow> int \<Rightarrow> check" where
  "amneziawgForwardedPortOwner db ib ignoreId =
     find_row db (\<lambda>c. inProtocol c = AmneziaWG \<and> other_than ignoreId c)
       (\<lambda>row. if \<not> sameNode (inNodeID row) (inNodeID ib) then None
          else case InstanceFromInbound row of None \<Rightarrow> None
            | Some inst \<Rightarrow> (case ForwardedPortOwner inst (inPort ib) of None \<Rightarrow> None
                | Some email \<Rightarrow> Some ((row_detail row [] (inPort ib) False 0)\<lparr>cdForwardedBy := email\<rparr>)))"

definition checkRows :: "db \<Rightarrow> inbound \<Rightarrow> int \<Rightarrow> transportBits \<Rightarrow> check" where
  "checkRows db ib ignoreId newBits =
     find_row db (\<lambda>c. inPort c = inPort ib \<and> other_than ignoreId c)
       (\<lambda>c. if SettingsBehindCover (inProtocol c) (inSettings c) then None
          else if \<not> gatewayOccupiesListen c then None
          else if \<not> sameNode (inNodeID c) (inNodeID ib) then None
          else if \<not> listenOverlaps (inListen c) (inListen ib) then None
          else let shared = inboundTransports (inProtocol c) (inStreamSettings c) (inSettings c) AND newBits in
            if shared = 0 then None else Some (row_detail c (inListen c) (inPort c) False shared))"

definition checkCoverHTTPPorts :: "db \<Rightarrow> inbound \<Rightarrow> int \<Rightarrow> transportBits \<Rightarrow> check" where
  "checkCoverHTTPPorts db ib ignoreId newBits =
     (if newBits AND transportTCP = 0 then Inr None
      else or_else
        (if inProtocol ib = Cover \<and> \<not> IsLoopbackListen (inListen ib)
         then find_row db (\<lambda>c. inPort c = 80 \<and> other_than ignoreId c)
           (\<lambda>c. if SettingsBehindCover (inProtocol c) (inSettings c) then None
              else if \<not> sameNode (inNodeID c) (inNodeID ib) \<or> \<not> listenOverlaps (inListen c) (inListen ib) then None
              else if inboundTransports (inProtocol c) (inStreamSettings c) (inSettings c) AND transportTCP = 0 then None
              else Some (row_detail c (inListen c) 80 False transportTCP))
         else Inr None)
        (if inPort ib \<noteq> 80 then Inr None
         else find_row db (\<lambda>c. inProtocol c = Cover \<and> other_than ignoreId c)
           (\<lambda>c. if \<not> inEnable c \<or> IsLoopbackListen (inListen c) \<or> \<not> sameNode (inNodeID c) (inNodeID ib) \<or>
                  \<not> listenOverlaps (inListen c) (inListen ib) then None
              else Some (row_detail c (inListen c) 80 False transportTCP))))"

text \<open>The transports of the candidate are filled into the detail of a forwarded port.\<close>

definition with_bits :: "transportBits \<Rightarrow> check \<Rightarrow> check" where
  "with_bits bits r = (case r of Inr (Some d) \<Rightarrow> Inr (Some (d\<lparr>cdTransports := bits\<rparr>)) | _ \<Rightarrow> r)"

definition checkOwnRelay :: "db \<Rightarrow> inbound \<Rightarrow> int \<Rightarrow> check" where
  "checkOwnRelay db ib ignoreId =
     (if inNodeID ib = None \<and> inProtocol ib = AmneziaWG \<and> ignoreId > 0
      then if amneziawgnetSocksSelfConflict ib ignoreId \<noteq> [] then Inl (NewError [amneziawgnetSocksSelfConflict ib ignoreId])
        else or_else (checkAmneziawgnetSocksRelayCollision db ignoreId) (checkAmneziawgnetSocksReverseConflict db ignoreId)
      else Inr None)"

definition checkPortConflictTx :: "db \<Rightarrow> string option \<Rightarrow> inbound \<Rightarrow> int \<Rightarrow> check" where
  "checkPortConflictTx db tmpl ib ignoreId =
     (if inPort ib \<le> 0 then Inr None
      else if \<not> gatewayOccupiesListen ib then Inr None
      else if SettingsBehindCover (inProtocol ib) (inSettings ib) then Inr None
      else let newBits = inboundTransports (inProtocol ib) (inStreamSettings ib) (inSettings ib) in
        or_else (checkBridges db ib ignoreId newBits) (
        or_else (checkReserved tmpl ib newBits) (
        or_else (if inNodeID ib = None \<and> listenOverlaps ''127.0.0.1'' (inListen ib)
                 then checkAmneziawgnetSocksConflict db ib ignoreId newBits else Inr None) (
        or_else (checkOwnRelay db ib ignoreId) (
        or_else (with_bits newBits (amneziawgForwardedPortOwner db ib ignoreId)) (
        or_else (checkRows db ib ignoreId newBits)
          (checkCoverHTTPPorts db ib ignoreId newBits)))))))"

section \<open>Tags\<close>

definition baseInboundTag :: "int \<Rightarrow> string" where
  "baseInboundTag port = ''in-'' @ itoa port"

definition nodeTagPrefix :: "int option \<Rightarrow> string" where
  "nodeTagPrefix nodeID = (case nodeID of None \<Rightarrow> [] | Some n \<Rightarrow> CHR ''n'' # itoa n @ ''-'')"

definition composeInboundTag :: "int \<Rightarrow> int option \<Rightarrow> transportBits \<Rightarrow> string" where
  "composeInboundTag port nodeID bits = nodeTagPrefix nodeID @ baseInboundTag port @ ''-'' @ transportTagSuffix bits"

definition isAutoGeneratedTag :: "string \<Rightarrow> int \<Rightarrow> int option \<Rightarrow> transportBits \<Rightarrow> bool" where
  "isAutoGeneratedTag tag port nodeID bits =
     (let base = composeInboundTag port nodeID bits in
      if tag = base then True
      else if \<not> prefix (base @ ''-'') tag then False
      else let suffix = drop (length base + 1) tag in suffix \<noteq> [] \<and> list_all is_digit suffix)"

definition tagExists :: "db \<Rightarrow> string \<Rightarrow> int \<Rightarrow> string + bool" where
  "tagExists db tag ignoreId = (case db (\<lambda>c. inTag c = tag \<and> other_than ignoreId c) of
     Inl e \<Rightarrow> Inl e | Inr rows \<Rightarrow> Inr (length rows > 0))"

fun try_suffixes :: "db \<Rightarrow> int \<Rightarrow> string \<Rightarrow> int \<Rightarrow> nat \<Rightarrow> nat \<Rightarrow> string + string" where
  "try_suffixes db ignoreId candidate port i 0 = Inl (NewError [''could not pick a unique inbound tag for port:'', itoa port])"
| "try_suffixes db ignoreId candidate port i (Suc n) =
     (let c = candidate @ ''-'' @ itoa (int i) in
      case tagExists db c ignoreId of Inl e \<Rightarrow> Inl e
      | Inr exists \<Rightarrow> if \<not> exists then Inr c else try_suffixes db ignoreId candidate port (Suc i) n)"

definition generateInboundTag :: "db \<Rightarrow> inbound \<Rightarrow> int \<Rightarrow> string + string" where
  "generateInboundTag db ib ignoreId =
     (let bits = inboundTransports (inProtocol ib) (inStreamSettings ib) (inSettings ib);
          candidate = composeInboundTag (inPort ib) (inNodeID ib) bits in
      case tagExists db candidate ignoreId of Inl e \<Rightarrow> Inl e
      | Inr exists \<Rightarrow> if \<not> exists then Inr candidate else try_suffixes db ignoreId candidate (inPort ib) 2 98)"

definition resolveInboundTag :: "db \<Rightarrow> inbound \<Rightarrow> int \<Rightarrow> string + string" where
  "resolveInboundTag db ib ignoreId =
     (if inTag ib \<noteq> [] then (case tagExists db (inTag ib) ignoreId of Inl e \<Rightarrow> Inl e
        | Inr taken \<Rightarrow> if \<not> taken then Inr (inTag ib) else generateInboundTag db ib ignoreId)
      else generateInboundTag db ib ignoreId)"

section \<open>A failing database\<close>

definition db_laws :: "db \<Rightarrow> inbound list \<Rightarrow> bool" where
  "db_laws db rows \<longleftrightarrow> (\<forall>P. db P = Inr (filter P rows) \<or> (\<exists>e. db P = Inl e))"

definition ideal :: "inbound list \<Rightarrow> db" where
  "ideal rows P = Inr (filter P rows)"

text \<open>A result is as the ideal one or an error.\<close>

definition err_or :: "string + 'a \<Rightarrow> string + 'a \<Rightarrow> bool" where
  "err_or r r' \<longleftrightarrow> (\<exists>e. r = Inl e) \<or> r = r'"

named_theorems err_or_intros

lemma err_or_refl [err_or_intros]: "err_or r r"
  by (simp add: err_or_def)

lemma err_or_find_row [err_or_intros]: "db_laws db rows \<Longrightarrow> err_or (find_row db P f) (find_row (ideal rows) P f)"
proof -
  assume "db_laws db rows"
  then have "db P = ideal rows P \<or> (\<exists>e. db P = Inl e)" unfolding db_laws_def ideal_def by blast
  then show ?thesis by (elim disjE exE) (simp_all add: err_or_def find_row_def)
qed

lemma err_or_or_else [err_or_intros]: "err_or r r' \<Longrightarrow> err_or k k' \<Longrightarrow> err_or (or_else r k) (or_else r' k')"
  by (auto simp: err_or_def or_else_def split: sum.splits option.splits)

lemma err_or_with_bits [err_or_intros]: "err_or r r' \<Longrightarrow> err_or (with_bits b r) (with_bits b r')"
  by (auto simp: err_or_def with_bits_def)

lemma err_or_if [err_or_intros]: "err_or a a' \<Longrightarrow> err_or b b' \<Longrightarrow> err_or (if c then a else b) (if c then a' else b')"
  by simp

lemmas check_defs = checkPortConflictTx_def checkBridges_def checkReserved_def checkOwnRelay_def
  checkAmneziawgnetSocksConflict_def checkAmneziawgnetSocksRelayCollision_def checkAmneziawgnetSocksReverseConflict_def
  amneziawgForwardedPortOwner_def checkRows_def checkCoverHTTPPorts_def


section \<open>What the check decides\<close>

lemma find_row_None:
  "find_row (ideal rows) P f = Inr None \<longleftrightarrow> (\<forall>c\<in>set rows. P c \<longrightarrow> f c = None)"
proof (cases "find (\<lambda>c. f c \<noteq> None) (filter P rows)")
  case None
  then have "\<forall>c\<in>set rows. P c \<longrightarrow> f c = None" by (auto simp: find_None_iff)
  with None show ?thesis by (simp add: find_row_def ideal_def)
next
  case (Some c)
  then obtain i where "i < length (filter P rows)" "f (filter P rows ! i) \<noteq> None" "c = filter P rows ! i"
    by (auto simp: find_Some_iff)
  then have "c \<in> set (filter P rows)" "f c \<noteq> None"
    using nth_mem [of i "filter P rows"] by (simp_all only: not_False_eq_True)
  with Some show ?thesis by (auto simp: find_row_def ideal_def)
qed

lemma or_else_None: "or_else r k = Inr None \<longleftrightarrow> r = Inr None \<and> k = Inr None"
  by (auto simp: or_else_def split: sum.splits option.splits)

lemma with_bits_None: "with_bits b r = Inr None \<longleftrightarrow> r = Inr None"
  by (auto simp: with_bits_def split: sum.splits option.splits)

lemma or_bits: "b \<in> {0, 1, 2, 3} \<Longrightarrow> b OR transportTCP \<in> {0, 1, 2, 3} \<and> b OR transportUDP \<in> {0, 1, 2, 3}"
  by (auto simp: transportTCP_def transportUDP_def)

lemma csvBits_cases: "csvBits n \<in> {0, 1, 2, 3}"
proof -
  have "foldl (\<lambda>bits part. if trim_space part = ''tcp'' then bits OR transportTCP
     else if trim_space part = ''udp'' then bits OR transportUDP else bits) b ps \<in> {0, 1, 2, 3}" if "b \<in> {0, 1, 2, 3}" for b ps
    using that
  proof (induction ps arbitrary: b)
    case (Cons p ps)
    have "(if trim_space p = ''tcp'' then b OR transportTCP
     else if trim_space p = ''udp'' then b OR transportUDP else b) \<in> {0, 1, 2, 3}"
      using or_bits [OF Cons.prems] Cons.prems by presburger
    from Cons.IH [OF this] show ?case by simp
  qed simp
  then show ?thesis by (simp add: csvBits_def)
qed

lemma bindingBits_cases: "bindingBits raw \<in> {0, 1, 2, 3}"
proof -
  have "foldl (\<lambda>bits item. case item of
       JObj m \<Rightarrow> if upper (trim_space (get_str m ''protocol'')) = ''UDP'' then bits OR transportUDP else bits OR transportTCP
     | _ \<Rightarrow> bits) b ps \<in> {0, 1, 2, 3}" if "b \<in> {0, 1, 2, 3}" for b ps
    using that
  proof (induction ps arbitrary: b)
    case (Cons p ps)
    have "(case p of JObj m \<Rightarrow> if upper (trim_space (get_str m ''protocol'')) = ''UDP'' then b OR transportUDP else b OR transportTCP
     | _ \<Rightarrow> b) \<in> {0, 1, 2, 3}" using or_bits [OF Cons.prems] Cons.prems by (simp split: json.split)
    from Cons.IH [OF this] show ?case by simp
  qed simp
  then show ?thesis by (simp add: bindingBits_def)
qed

lemma inboundTransports_cases: "inboundTransports p ss st \<in> {1, 2, 3}"
proof -
  let ?net = "if streamNetwork ss \<in> {''kcp'', ''quic''} then transportUDP else transportTCP"
  define inner where "inner = (if st = [] then ?net else case any_map st of None \<Rightarrow> ?net | Some m \<Rightarrow>
      if p = ''shadowsocks'' \<or> p = ''tunnel'' then
        (let n = get_str m (if p = ''tunnel'' then ''allowedNetwork'' else ''network'') in if n \<noteq> [] then csvBits n else ?net)
      else if p = ''mixed'' then (if map_of m ''udp'' = Some (JBool True) then ?net OR transportUDP else ?net)
      else if p = ''mieru'' then (case map_of m ''portBindings'' of Some (JArr raw) \<Rightarrow> bindingBits raw | _ \<Rightarrow> 0)
      else ?net)"
  have net: "?net \<in> {0, 1, 2, 3}" by (simp add: transportUDP_def transportTCP_def)
  have zero: "(0 :: transportBits) \<in> {0, 1, 2, 3}" by simp
  have bind: "(case x of Some (JArr raw) \<Rightarrow> bindingBits raw | _ \<Rightarrow> 0) \<in> {0, 1, 2, 3}" for x :: "json option"
    using bindingBits_cases zero by (auto simp only: split: option.splits json.splits)
  have "inner \<in> {0, 1, 2, 3}"
  proof (cases "any_map st")
    case None
    then show ?thesis using net by (simp only: inner_def option.case if_cancel)
  next
    case (Some m)
    then show ?thesis
      using net bind [of "map_of m ''portBindings''"] csvBits_cases or_bits [OF net]
      unfolding inner_def Some option.case Let_def by presburger
  qed
  then have "(if inner = 0 then transportTCP else inner) \<in> {1, 2, 3}" by (auto simp: transportTCP_def)
  moreover have "transportUDP \<in> {1, 2, 3}" "transportTCP \<in> {1, 2, 3}" "transportTCP OR transportUDP \<in> {1, 2, 3}"
    by (simp_all add: transportTCP_def transportUDP_def)
  ultimately show ?thesis
    unfolding inboundTransports_def Let_def inner_def by presburger
qed

text \<open>A claim on a port of a host: the address, the port and the transports.\<close>

record holding =
  hNode :: "int option"
  hListen :: string
  hPort :: int
  hBits :: transportBits

definition clash :: "holding \<Rightarrow> holding \<Rightarrow> bool" where
  "clash a b \<longleftrightarrow> sameNode (hNode a) (hNode b) \<and> hPort a = hPort b \<and> listenOverlaps (hListen a) (hListen b) \<and>
     hBits a AND hBits b \<noteq> 0"

definition both :: transportBits where
  "both = transportTCP OR transportUDP"

definition own_holding :: "inbound \<Rightarrow> holding" where
  "own_holding ib = \<lparr>hNode = inNodeID ib, hListen = inListen ib, hPort = inPort ib,
     hBits = inboundTransports (inProtocol ib) (inStreamSettings ib) (inSettings ib)\<rparr>"

definition loopback_holding :: "int \<Rightarrow> transportBits \<Rightarrow> holding" where
  "loopback_holding port bits = \<lparr>hNode = None, hListen = ''127.0.0.1'', hPort = port, hBits = bits\<rparr>"

definition http_holding :: "inbound \<Rightarrow> holding" where
  "http_holding ib = \<lparr>hNode = inNodeID ib, hListen = inListen ib, hPort = 80, hBits = transportTCP\<rparr>"

definition binds_nothing :: "inbound \<Rightarrow> bool" where
  "binds_nothing ib \<longleftrightarrow> inPort ib \<le> 0 \<or> \<not> gatewayOccupiesListen ib \<or> SettingsBehindCover (inProtocol ib) (inSettings ib)"

text \<open>What is already held: by the rows that bind their port, by the API and the egress bridge, by the relays
  of the local AmneziaWG rows, by the transparent-proxy bridges, by the listeners of forwarded ports and by
  the HTTP side of cover sites.\<close>

definition held :: "inbound list \<Rightarrow> string option \<Rightarrow> int \<Rightarrow> holding set" where
  "held rows tmpl ignoreId =
     {own_holding c | c. c \<in> set rows \<and> other_than ignoreId c \<and> \<not> SettingsBehindCover (inProtocol c) (inSettings c) \<and>
        gatewayOccupiesListen c}
     \<union> {loopback_holding p transportTCP | p. p = reservedAPIPort tmpl \<or> p = EgressBasePort}
     \<union> {loopback_holding (SOCKSPortForInbound (inId c)) both | c. c \<in> set rows \<and> inProtocol c = AmneziaWG \<and>
        inNodeID c = None \<and> other_than ignoreId c}
     \<union> {loopback_holding p both | c p. c \<in> set rows \<and> inProtocol c = AWG \<and> inNodeID c = None \<and> inId c \<noteq> ignoreId \<and>
        bridgeTproxyPort c = Some p}
     \<union> {\<lparr>hNode = inNodeID c, hListen = [], hPort = kPort k, hBits = both\<rparr> | c inst k. c \<in> set rows \<and>
        inProtocol c = AmneziaWG \<and> other_than ignoreId c \<and> InstanceFromInbound c = Some inst \<and>
        k \<in> set (desiredPortForwardKeys inst)}
     \<union> {http_holding c | c. c \<in> set rows \<and> inProtocol c = Cover \<and> other_than ignoreId c \<and> inEnable c \<and>
        \<not> IsLoopbackListen (inListen c)}"

text \<open>The further claims of a cover site, on the HTTP port, and of a stored AmneziaWG row, on its relay port.\<close>

definition http_free :: "inbound list \<Rightarrow> inbound \<Rightarrow> int \<Rightarrow> bool" where
  "http_free rows ib ignoreId \<longleftrightarrow> (inProtocol ib = Cover \<and> \<not> IsLoopbackListen (inListen ib) \<longrightarrow>
     (\<forall>c\<in>set rows. other_than ignoreId c \<and> \<not> SettingsBehindCover (inProtocol c) (inSettings c) \<longrightarrow>
        \<not> clash (http_holding ib) (own_holding c)))"

definition relay_free :: "inbound list \<Rightarrow> inbound \<Rightarrow> int \<Rightarrow> bool" where
  "relay_free rows ib ignoreId \<longleftrightarrow> (inNodeID ib = None \<and> inProtocol ib = AmneziaWG \<and> ignoreId > 0 \<longrightarrow>
     (let relay = loopback_holding (SOCKSPortForInbound ignoreId) both in
      \<not> clash relay (own_holding ib) \<and>
      (\<forall>c\<in>set rows. inId c \<noteq> ignoreId \<longrightarrow> \<not> clash relay (own_holding c) \<and>
         (inProtocol c = AmneziaWG \<and> inNodeID c = None \<longrightarrow>
            \<not> clash relay (loopback_holding (SOCKSPortForInbound (inId c)) both)))))"

lemma sameNode_sym: "sameNode a b = sameNode b a"
  by (auto simp: sameNode_def split: option.splits)

lemma listenOverlaps_sym: "listenOverlaps a b = listenOverlaps b a"
  by (auto simp: listenOverlaps_def)

lemma sameNode_None: "sameNode a None \<longleftrightarrow> a = None" "sameNode None a \<longleftrightarrow> a = None"
  by (auto simp: sameNode_def split: option.splits)

lemma bits_both: "inboundTransports p ss st AND both \<noteq> 0" "both AND inboundTransports p ss st \<noteq> 0"
  using inboundTransports_cases [of p ss st] by (auto simp: both_def transportTCP_def transportUDP_def)

lemma listen_self: "listenOverlaps a a" "listenOverlaps a []" "listenOverlaps [] a"
  by (simp_all add: listenOverlaps_def isAnyListen_def)

lemmas clash_simps = clash_def own_holding_def loopback_holding_def http_holding_def sameNode_None bits_both listen_self

lemma forward_key: "ForwardedPortOwner inst p \<noteq> None \<longleftrightarrow> p \<in> kPort ` set (desiredPortForwardKeys inst)"
proof
  assume "ForwardedPortOwner inst p \<noteq> None"
  then obtain q where "q \<in> set (forwardingPeers inst)" "p \<in> set (ExpandForwardedPorts (pForwardedPorts q))"
    by (auto simp: ForwardedPortOwner_def owner_loop_iff(2) simp del: not_None_eq)
  then have "\<lparr>kEmail = pEmail q, kPort = p, kProto = tcpForward\<rparr> \<in> set (desiredPortForwardKeys inst)"
    by (auto simp: desired_keys_iff)
  then show "p \<in> kPort ` set (desiredPortForwardKeys inst)" by force
qed (auto simp: ForwardedPortOwner_def owner_loop_iff(2) desired_keys_iff simp del: not_None_eq)

lemma checkBridges_None:
  "checkBridges (ideal rows) ib ignoreId bits = Inr None \<longleftrightarrow>
     (\<forall>c\<in>set rows. \<forall>p. inProtocol c = AWG \<and> inNodeID c = None \<and> inId c \<noteq> ignoreId \<and> bridgeTproxyPort c = Some p \<longrightarrow>
       \<not> clash (own_holding ib) (loopback_holding p both))"
  unfolding checkBridges_def
  by (auto simp: find_row_None clash_simps listenOverlaps_sym [of "inListen ib"] split: if_splits)

lemma checkReserved_None:
  "checkReserved tmpl ib (inboundTransports (inProtocol ib) (inStreamSettings ib) (inSettings ib)) = Inr None \<longleftrightarrow>
     \<not> clash (own_holding ib) (loopback_holding (reservedAPIPort tmpl) transportTCP) \<and>
     \<not> clash (own_holding ib) (loopback_holding EgressBasePort transportTCP)"
  by (auto simp: checkReserved_def clash_simps listenOverlaps_sym [of "inListen ib"] split: if_splits)

lemma checkRelays_None:
  "(if inNodeID ib = None \<and> listenOverlaps ''127.0.0.1'' (inListen ib)
     then checkAmneziawgnetSocksConflict (ideal rows) ib ignoreId bits else Inr None) = Inr None \<longleftrightarrow>
     (\<forall>c\<in>set rows. inProtocol c = AmneziaWG \<and> inNodeID c = None \<and> other_than ignoreId c \<longrightarrow>
       \<not> clash (own_holding ib) (loopback_holding (SOCKSPortForInbound (inId c)) both))"
  by (auto simp: checkAmneziawgnetSocksConflict_def find_row_None clash_simps listenOverlaps_sym [of "inListen ib"] split: if_splits)

lemma checkForward_None:
  "amneziawgForwardedPortOwner (ideal rows) ib ignoreId = Inr None \<longleftrightarrow>
     (\<forall>c\<in>set rows. \<forall>inst. \<forall>k\<in>set (desiredPortForwardKeys inst). inProtocol c = AmneziaWG \<and> other_than ignoreId c \<and>
        InstanceFromInbound c = Some inst \<longrightarrow>
       \<not> clash (own_holding ib) \<lparr>hNode = inNodeID c, hListen = [], hPort = kPort k, hBits = both\<rparr>)"
proof -
  have row: "(if \<not> sameNode (inNodeID c) (inNodeID ib) then None
      else case InstanceFromInbound c of None \<Rightarrow> None
        | Some inst \<Rightarrow> (case ForwardedPortOwner inst (inPort ib) of None \<Rightarrow> None
            | Some email \<Rightarrow> Some ((row_detail c [] (inPort ib) False 0)\<lparr>cdForwardedBy := email\<rparr>))) = None
      \<longleftrightarrow> (\<forall>inst. \<forall>k\<in>set (desiredPortForwardKeys inst). InstanceFromInbound c = Some inst \<longrightarrow>
        \<not> clash (own_holding ib) \<lparr>hNode = inNodeID c, hListen = [], hPort = kPort k, hBits = both\<rparr>)" (is "?l \<longleftrightarrow> ?r") for c
  proof (cases "InstanceFromInbound c")
    case (Some inst)
    have "?l \<longleftrightarrow> (sameNode (inNodeID c) (inNodeID ib) \<longrightarrow> ForwardedPortOwner inst (inPort ib) = None)"
      using Some by (simp split: option.splits)
    also have "\<dots> \<longleftrightarrow> (sameNode (inNodeID c) (inNodeID ib) \<longrightarrow> inPort ib \<notin> kPort ` set (desiredPortForwardKeys inst))"
      using forward_key [of inst "inPort ib"] by blast
    also have "\<dots> \<longleftrightarrow> ?r"
      using Some by (auto simp: clash_simps sameNode_sym [of "inNodeID ib"])
    finally show ?thesis .
  qed simp
  show ?thesis
    unfolding amneziawgForwardedPortOwner_def find_row_None row by blast
qed

lemma bits_comm: "(a :: transportBits) AND b = b AND a"
  by (rule and.commute)

lemma checkRows_None:
  "checkRows (ideal rows) ib ignoreId (inboundTransports (inProtocol ib) (inStreamSettings ib) (inSettings ib)) = Inr None \<longleftrightarrow>
     (\<forall>c\<in>set rows. other_than ignoreId c \<and> \<not> SettingsBehindCover (inProtocol c) (inSettings c) \<and> gatewayOccupiesListen c \<longrightarrow>
       \<not> clash (own_holding ib) (own_holding c))"
proof -
  have row: "(inPort c = inPort ib \<and> other_than ignoreId c \<longrightarrow>
     (if SettingsBehindCover (inProtocol c) (inSettings c) then None
          else if \<not> gatewayOccupiesListen c then None
          else if \<not> sameNode (inNodeID c) (inNodeID ib) then None
          else if \<not> listenOverlaps (inListen c) (inListen ib) then None
          else let shared = inboundTransports (inProtocol c) (inStreamSettings c) (inSettings c) AND
                 inboundTransports (inProtocol ib) (inStreamSettings ib) (inSettings ib) in
            if shared = 0 then None else Some (row_detail c (inListen c) (inPort c) False shared)) = None)
    \<longleftrightarrow> (other_than ignoreId c \<and> \<not> SettingsBehindCover (inProtocol c) (inSettings c) \<and> gatewayOccupiesListen c \<longrightarrow>
       \<not> clash (own_holding ib) (own_holding c))" for c
    using bits_comm [of "inboundTransports (inProtocol c) (inStreamSettings c) (inSettings c)"]
      sameNode_sym [of "inNodeID c"] listenOverlaps_sym [of "inListen c"]
    by (auto simp: clash_simps Let_def split: if_splits)
  show ?thesis unfolding checkRows_def find_row_None by (simp only: row)
qed

lemma checkCoverHTTPPorts_None:
  assumes "inPort ib > 0"
  shows "checkCoverHTTPPorts (ideal rows) ib ignoreId (inboundTransports (inProtocol ib) (inStreamSettings ib) (inSettings ib)) = Inr None \<longleftrightarrow>
     http_free rows ib ignoreId \<and>
     (\<forall>c\<in>set rows. inProtocol c = Cover \<and> other_than ignoreId c \<and> inEnable c \<and> \<not> IsLoopbackListen (inListen c) \<longrightarrow>
       \<not> clash (own_holding ib) (http_holding c))"
proof -
  let ?b = "inboundTransports (inProtocol ib) (inStreamSettings ib) (inSettings ib)"
  have cover: "?b AND transportTCP \<noteq> 0" if "inProtocol ib = Cover"
    using that by (simp add: inboundTransports_def Cover_def udpOnly_def tcpOnly_def transportTCP_def)
  have http: "(inPort c = 80 \<and> other_than ignoreId c \<longrightarrow>
      (if SettingsBehindCover (inProtocol c) (inSettings c) then None
              else if \<not> sameNode (inNodeID c) (inNodeID ib) \<or> \<not> listenOverlaps (inListen c) (inListen ib) then None
              else if inboundTransports (inProtocol c) (inStreamSettings c) (inSettings c) AND transportTCP = 0 then None
              else Some (row_detail c (inListen c) 80 False transportTCP)) = None)
     \<longleftrightarrow> (other_than ignoreId c \<and> \<not> SettingsBehindCover (inProtocol c) (inSettings c) \<longrightarrow> \<not> clash (http_holding ib) (own_holding c))" for c
    using bits_comm [of transportTCP] sameNode_sym [of "inNodeID c"] listenOverlaps_sym [of "inListen c"]
    by (auto simp: clash_simps split: if_splits)
  have on80: "(inProtocol c = Cover \<and> other_than ignoreId c \<longrightarrow>
      (if \<not> inEnable c \<or> IsLoopbackListen (inListen c) \<or> \<not> sameNode (inNodeID c) (inNodeID ib) \<or>
                  \<not> listenOverlaps (inListen c) (inListen ib) then None
              else Some (row_detail c (inListen c) 80 False transportTCP)) = None)
     \<longleftrightarrow> (inProtocol c = Cover \<and> other_than ignoreId c \<and> inEnable c \<and> \<not> IsLoopbackListen (inListen c) \<longrightarrow>
       \<not> (sameNode (inNodeID ib) (inNodeID c) \<and> listenOverlaps (inListen ib) (inListen c)))" for c
    using sameNode_sym [of "inNodeID c"] listenOverlaps_sym [of "inListen c"] by auto
  show ?thesis
  proof (cases "?b AND transportTCP = 0")
    case True
    then have "inProtocol ib \<noteq> Cover" using cover by blast
    then show ?thesis using True by (simp add: checkCoverHTTPPorts_def http_free_def clash_simps)
  next
    case False
    have 1: "(if inProtocol ib = Cover \<and> \<not> IsLoopbackListen (inListen ib)
         then find_row (ideal rows) (\<lambda>c. inPort c = 80 \<and> other_than ignoreId c)
           (\<lambda>c. if SettingsBehindCover (inProtocol c) (inSettings c) then None
              else if \<not> sameNode (inNodeID c) (inNodeID ib) \<or> \<not> listenOverlaps (inListen c) (inListen ib) then None
              else if inboundTransports (inProtocol c) (inStreamSettings c) (inSettings c) AND transportTCP = 0 then None
              else Some (row_detail c (inListen c) 80 False transportTCP))
         else Inr None) = Inr None \<longleftrightarrow> http_free rows ib ignoreId"
      unfolding http_free_def using http by (simp only: find_row_None split: if_splits) blast
    have 2: "(if inPort ib \<noteq> 80 then Inr None
         else find_row (ideal rows) (\<lambda>c. inProtocol c = Cover \<and> other_than ignoreId c)
           (\<lambda>c. if \<not> inEnable c \<or> IsLoopbackListen (inListen c) \<or> \<not> sameNode (inNodeID c) (inNodeID ib) \<or>
                  \<not> listenOverlaps (inListen c) (inListen ib) then None
              else Some (row_detail c (inListen c) 80 False transportTCP))) = Inr None
       \<longleftrightarrow> (\<forall>c\<in>set rows. inProtocol c = Cover \<and> other_than ignoreId c \<and> inEnable c \<and> \<not> IsLoopbackListen (inListen c) \<longrightarrow>
       \<not> clash (own_holding ib) (http_holding c))"
      using on80 False by (simp only: find_row_None clash_def own_holding_def http_holding_def holding.simps split: if_splits) blast
    show ?thesis
      using False by (simp only: checkCoverHTTPPorts_def if_False or_else_None 1 2)
  qed
qed

lemma checkOwnRelay_None:
  assumes "inPort ib > 0"
  shows "checkOwnRelay (ideal rows) ib ignoreId = Inr None \<longleftrightarrow> relay_free rows ib ignoreId"
proof -
  have self: "amneziawgnetSocksSelfConflict ib ignoreId = [] \<longleftrightarrow>
      \<not> clash (loopback_holding (SOCKSPortForInbound ignoreId) both) (own_holding ib)"
    if "inNodeID ib = None" "ignoreId > 0"
    using that by (auto simp: amneziawgnetSocksSelfConflict_def clash_simps)
  have rev: "(inPort c = SOCKSPortForInbound n \<and> inNodeID c = None \<and> inId c \<noteq> n \<longrightarrow>
      (if \<not> listenOverlaps ''127.0.0.1'' (inListen c) then None
          else Some (row_detail c (inListen c) (SOCKSPortForInbound n) True transportTCP)) = None)
     \<longleftrightarrow> (inId c \<noteq> n \<longrightarrow> \<not> clash (loopback_holding (SOCKSPortForInbound n) both) (own_holding c))" for c n
    by (auto simp: clash_simps)
  have col: "(inProtocol c = AmneziaWG \<and> inNodeID c = None \<and> inId c \<noteq> n \<longrightarrow>
      (if SOCKSPortForInbound (inId c) \<noteq> SOCKSPortForInbound n then None
          else Some (row_detail c ''127.0.0.1'' (SOCKSPortForInbound n) True transportTCP)) = None)
     \<longleftrightarrow> (inId c \<noteq> n \<longrightarrow> inProtocol c = AmneziaWG \<and> inNodeID c = None \<longrightarrow>
       \<not> clash (loopback_holding (SOCKSPortForInbound n) both) (loopback_holding (SOCKSPortForInbound (inId c)) both))" for c n
    by (auto simp: clash_simps both_def transportTCP_def transportUDP_def)
  show ?thesis
  proof (cases "inNodeID ib = None \<and> inProtocol ib = AmneziaWG \<and> ignoreId > 0")
    case True
    then show ?thesis
      unfolding checkOwnRelay_def relay_free_def Let_def checkAmneziawgnetSocksRelayCollision_def
        checkAmneziawgnetSocksReverseConflict_def
      using self by (simp add: or_else_None find_row_None rev col del: split_paired_All) blast
  next
    case False
    then show ?thesis by (simp only: checkOwnRelay_def relay_free_def if_False simp_thms)
  qed
qed

text \<open>C2: For an inbound that binds a port of its own, the check reports no conflict exactly when its claim on
  address, port and transports clashes with nothing that is held on its host (the other rows, the API and
  egress ports, the AmneziaWG relays, the transparent-proxy bridges, the forwarded ports, the HTTP side of
  cover sites), and the further claims of a cover site on port 80 and of a stored AmneziaWG row on its
  relay port are free as well.\<close>

theorem checkPortConflictTx_iff:
  assumes "\<not> binds_nothing ib"
  shows "checkPortConflictTx (ideal rows) tmpl ib ignoreId = Inr None \<longleftrightarrow>
    (\<forall>h\<in>held rows tmpl ignoreId. \<not> clash (own_holding ib) h) \<and> http_free rows ib ignoreId \<and> relay_free rows ib ignoreId"
proof -
  have p: "\<not> inPort ib \<le> 0" "gatewayOccupiesListen ib" "\<not> SettingsBehindCover (inProtocol ib) (inSettings ib)"
    using assms by (simp_all add: binds_nothing_def)
  then have pos: "inPort ib > 0" by simp
  have held: "(\<forall>h\<in>held rows tmpl ignoreId. \<not> clash (own_holding ib) h) \<longleftrightarrow>
     (\<forall>c\<in>set rows. other_than ignoreId c \<and> \<not> SettingsBehindCover (inProtocol c) (inSettings c) \<and> gatewayOccupiesListen c \<longrightarrow>
       \<not> clash (own_holding ib) (own_holding c)) \<and>
     (\<not> clash (own_holding ib) (loopback_holding (reservedAPIPort tmpl) transportTCP) \<and>
      \<not> clash (own_holding ib) (loopback_holding EgressBasePort transportTCP)) \<and>
     (\<forall>c\<in>set rows. inProtocol c = AmneziaWG \<and> inNodeID c = None \<and> other_than ignoreId c \<longrightarrow>
       \<not> clash (own_holding ib) (loopback_holding (SOCKSPortForInbound (inId c)) both)) \<and>
     (\<forall>c\<in>set rows. \<forall>p. inProtocol c = AWG \<and> inNodeID c = None \<and> inId c \<noteq> ignoreId \<and> bridgeTproxyPort c = Some p \<longrightarrow>
       \<not> clash (own_holding ib) (loopback_holding p both)) \<and>
     (\<forall>c\<in>set rows. \<forall>inst. \<forall>k\<in>set (desiredPortForwardKeys inst). inProtocol c = AmneziaWG \<and> other_than ignoreId c \<and>
        InstanceFromInbound c = Some inst \<longrightarrow>
       \<not> clash (own_holding ib) \<lparr>hNode = inNodeID c, hListen = [], hPort = kPort k, hBits = both\<rparr>) \<and>
     (\<forall>c\<in>set rows. inProtocol c = Cover \<and> other_than ignoreId c \<and> inEnable c \<and> \<not> IsLoopbackListen (inListen c) \<longrightarrow>
       \<not> clash (own_holding ib) (http_holding c))"
    unfolding held_def by blast
  show ?thesis
    unfolding held checkPortConflictTx_def Let_def
    by (simp only: p if_False if_True simp_thms or_else_None with_bits_None checkBridges_None checkReserved_None
        checkRelays_None checkOwnRelay_None [OF pos] checkForward_None checkRows_None checkCoverHTTPPorts_None [OF pos])
      blast
qed

definition sample_row :: "string \<Rightarrow> int \<Rightarrow> string \<Rightarrow> inbound" where
  "sample_row protocol port settings = \<lparr>inId = 7, inRemark = ''r'', inEnable = True, inListen = [], inPort = port,
     inProtocol = protocol, inSettings = settings, inStreamSettings = [], inTag = ''in-443-tcp'', inNodeID = None\<rparr>"

lemma sample_check:
  "checkPortConflictTx (ideal [sample_row ''vless'' 443 ''{}'']) None (sample_row ''hysteria'' 443 ''{}'') 0 = Inr None"
  by code_simp

theorem checkPortConflictTx_iff_witness:
  "\<not> clash (own_holding (sample_row ''hysteria'' 443 ''{}'')) (own_holding (sample_row ''vless'' 443 ''{}'')) \<and>
   checkPortConflictTx (ideal [sample_row ''vless'' 443 ''{}'']) None (sample_row ''hysteria'' 443 ''{}'') 0 = Inr None"
proof -
  have b: "\<not> binds_nothing (sample_row ''hysteria'' 443 ''{}'')" by code_simp
  have "own_holding (sample_row ''vless'' 443 ''{}'') \<in> held [sample_row ''vless'' 443 ''{}''] None 0"
  proof -
    have "\<not> SettingsBehindCover (inProtocol (sample_row ''vless'' 443 ''{}'')) (inSettings (sample_row ''vless'' 443 ''{}''))"
      "gatewayOccupiesListen (sample_row ''vless'' 443 ''{}'')" "other_than 0 (sample_row ''vless'' 443 ''{}'')"
      by code_simp+
    then show ?thesis unfolding held_def by auto
  qed
  with checkPortConflictTx_iff [OF b, of "[sample_row ''vless'' 443 ''{}'']" None 0] sample_check show ?thesis by blast
qed


text \<open>A client that forwards port 80, and a cover site on 443.\<close>

definition forward_row :: inbound where
  "forward_row = sample_row ''amneziawg'' 51820
     ''{\"server\":{\"subnetIp\":\"10.8.1.0\"},\"clients\":[{\"email\":\"a\",\"enable\":true,\"publicKey\":\"k\",\"allowedIPs\":[\"10.8.1.2/32\"],\"forwardedPorts\":\"80\"}]}''"

lemma forward_row_key:
  "map_option (\<lambda>i. map kPort (desiredPortForwardKeys i)) (InstanceFromInbound forward_row) = Some [80, 80]"
  by code_simp

text \<open>A cover site also serves port 80, but the check looks only for rows whose own port is 80: it accepts
  a cover site on a host where a client's forwarded port already listens on port 80.\<close>

theorem cover_http_misses_forward:
  "checkPortConflictTx (ideal [forward_row]) None (sample_row ''cover'' 443 ''{}'') 0 = Inr None \<and>
   (\<exists>h\<in>held [forward_row] None 0. clash (http_holding (sample_row ''cover'' 443 ''{}'')) h)"
proof
  show "checkPortConflictTx (ideal [forward_row]) None (sample_row ''cover'' 443 ''{}'') 0 = Inr None"
    by code_simp
  obtain i where i: "InstanceFromInbound forward_row = Some i" "map kPort (desiredPortForwardKeys i) = [80, 80]"
    using forward_row_key by auto
  have "80 \<in> set (map kPort (desiredPortForwardKeys i))" unfolding i(2) by simp
  then obtain k where k: "InstanceFromInbound forward_row = Some i" "k \<in> set (desiredPortForwardKeys i)" "kPort k = 80"
    using i(1) by force
  have "\<lparr>hNode = inNodeID forward_row, hListen = [], hPort = kPort k, hBits = both\<rparr> \<in> held [forward_row] None 0"
    unfolding held_def using k(1,2) by (auto simp: forward_row_def sample_row_def AmneziaWG_def other_than_def)
  moreover have "clash (http_holding (sample_row ''cover'' 443 ''{}'')) \<lparr>hNode = inNodeID forward_row, hListen = [], hPort = kPort k, hBits = both\<rparr>"
    using k(3) by (simp add: clash_simps forward_row_def sample_row_def both_def transportTCP_def transportUDP_def)
  ultimately show "\<exists>h\<in>held [forward_row] None 0. clash (http_holding (sample_row ''cover'' 443 ''{}'')) h" by blast
qed

section \<open>Tags identify their port\<close>

lemma auto_tag_parts:
  assumes "isAutoGeneratedTag tag port nodeID bits"
  obtains r where "tag = composeInboundTag port nodeID bits @ r" "r = [] \<or> (\<exists>ds. r = CHR ''-'' # ds)"
proof -
  let ?base = "composeInboundTag port nodeID bits"
  consider "tag = ?base" | "prefix (?base @ ''-'') tag"
    using assms by (auto simp: isAutoGeneratedTag_def Let_def split: if_splits)
  then show ?thesis
  proof cases
    case 1
    then show ?thesis by (intro that [of "[]"]) simp_all
  next
    case 2
    then obtain ds where "tag = (?base @ ''-'') @ ds" by (auto simp: prefix_def)
    then show ?thesis by (intro that [of "CHR ''-'' # ds"]) simp_all
  qed
qed

lemma cut_number: "cut CHR ''-'' (itoa_nat n @ CHR ''-'' # s) = Some (itoa_nat n, s)"
  by (rule cut_append) (rule minus_notin_itoa)

lemma itoa_nat_inj: "itoa_nat m = itoa_nat n \<Longrightarrow> m = n"
  by (metis parse_nat_itoa option.inject)

lemma number_inj: "itoa_nat m @ CHR ''-'' # s = itoa_nat n @ CHR ''-'' # t \<Longrightarrow> m = n \<and> s = t"
proof -
  assume "itoa_nat m @ CHR ''-'' # s = itoa_nat n @ CHR ''-'' # t"
  then have "Some (itoa_nat m, s) = Some (itoa_nat n, t)" unfolding cut_number [symmetric] by (rule arg_cong)
  then show ?thesis by (elim option.inject [THEN iffD1, THEN Pair_inject]) (blast dest: itoa_nat_inj)
qed

lemma suffix_take:
  assumes "b \<in> {1, 2, 3}" and "r = [] \<or> (\<exists>ds. r = CHR ''-'' # ds)"
  shows "takeWhile (\<lambda>c. c \<noteq> CHR ''-'') (transportTagSuffix b @ r) = transportTagSuffix b"
  using assms by (auto simp: transportTagSuffix_def transportTCP_def transportUDP_def)

lemma suffix_inj:
  assumes "b \<in> {1, 2, 3}" "b' \<in> {1, 2, 3}" and "transportTagSuffix b = transportTagSuffix b'"
  shows "b = b'"
  using assms by (auto simp: transportTagSuffix_def transportTCP_def transportUDP_def split: if_splits)

text \<open>A generated tag identifies what it was generated for: one tag is never the automatic tag of two
  different combinations of port, node and transports, numbered variants included.\<close>

theorem auto_tag_identifies:
  assumes "isAutoGeneratedTag tag (int p) (map_option int n) b" and "isAutoGeneratedTag tag (int p') (map_option int n') b'"
    and "b \<in> {1, 2, 3}" and "b' \<in> {1, 2, 3}"
  shows "(p, n, b) = (p', n', b')"
proof -
  obtain r r' where r: "composeInboundTag (int p) (map_option int n) b @ r = composeInboundTag (int p') (map_option int n') b' @ r'"
    "r = [] \<or> (\<exists>ds. r = CHR ''-'' # ds)" "r' = [] \<or> (\<exists>ds. r' = CHR ''-'' # ds)"
    using auto_tag_parts [OF assms(1)] auto_tag_parts [OF assms(2)] by metis
  let ?t = "\<lambda>p b r. ''in-'' @ itoa_nat p @ CHR ''-'' # transportTagSuffix b @ r"
  have c: "composeInboundTag (int p) (map_option int n) b @ r
      = (case n of None \<Rightarrow> [] | Some k \<Rightarrow> CHR ''n'' # itoa_nat k @ ''-'') @ ?t p b r" for p n b r
    by (simp add: composeInboundTag_def baseInboundTag_def nodeTagPrefix_def split: option.splits)
  have "n = n' \<and> ?t p b r = ?t p' b' r'"
  proof (cases n; cases n')
    fix k k' assume n: "n = Some k" "n' = Some k'"
    then have "itoa_nat k @ CHR ''-'' # ?t p b r = itoa_nat k' @ CHR ''-'' # ?t p' b' r'" using r(1) unfolding c by simp
    then show ?thesis using number_inj n by blast
  qed (use r(1) [unfolded c] in auto)
  then have "itoa_nat p @ CHR ''-'' # transportTagSuffix b @ r = itoa_nat p' @ CHR ''-'' # transportTagSuffix b' @ r'" "n = n'"
    by simp_all
  then have pr: "p = p'" "transportTagSuffix b @ r = transportTagSuffix b' @ r'" using number_inj by blast+
  then have "transportTagSuffix b = transportTagSuffix b'"
    using suffix_take [OF assms(3) r(2)] suffix_take [OF assms(4) r(3)] by simp
  then show ?thesis using suffix_inj [OF assms(3,4)] pr(1) \<open>n = n'\<close> by simp
qed

theorem auto_tag_identifies_witness:
  "isAutoGeneratedTag ''n3-in-443-tcp-12'' 443 (Some 3) transportTCP \<and>
   \<not> isAutoGeneratedTag ''n3-in-443-tcp-12'' 44 (Some 3) transportTCP \<and>
   \<not> isAutoGeneratedTag ''n3-in-443-tcp-12'' 443 None transportTCP"
proof (intro conjI notI)
  show a: "isAutoGeneratedTag ''n3-in-443-tcp-12'' 443 (Some 3) transportTCP" by code_simp
  have a': "isAutoGeneratedTag ''n3-in-443-tcp-12'' (int 443) (map_option int (Some 3)) transportTCP" using a by simp
  have t: "transportTCP \<in> {1, 2, 3}" by (simp add: transportTCP_def)
  show False if "isAutoGeneratedTag ''n3-in-443-tcp-12'' 44 (Some 3) transportTCP"
    using auto_tag_identifies [OF a' _ t t, of 44 "Some 3"] that by simp
  show False if "isAutoGeneratedTag ''n3-in-443-tcp-12'' 443 None transportTCP"
    using auto_tag_identifies [OF a' _ t t, of 443 None] that by simp
qed

lemma tagExists_free:
  assumes "db_laws db rows" and "tagExists db tag ignoreId = Inr False"
  shows "\<forall>c\<in>set rows. other_than ignoreId c \<longrightarrow> inTag c \<noteq> tag"
proof -
  have "db (\<lambda>c. inTag c = tag \<and> other_than ignoreId c) = Inr (filter (\<lambda>c. inTag c = tag \<and> other_than ignoreId c) rows)
      \<or> (\<exists>e. db (\<lambda>c. inTag c = tag \<and> other_than ignoreId c) = Inl e)"
    using assms(1) unfolding db_laws_def by blast
  then show ?thesis using assms(2) by (auto simp: tagExists_def filter_empty_conv)
qed

lemma is_digit_itoa: "list_all is_digit (itoa (int i))"
  by (simp add: itoa_nat_digits)

lemma try_suffixes_free:
  assumes "db_laws db rows" and "try_suffixes db ignoreId candidate port i n = Inr t"
  shows "(\<forall>c\<in>set rows. other_than ignoreId c \<longrightarrow> inTag c \<noteq> t) \<and> (\<exists>j. t = candidate @ ''-'' @ itoa (int j))"
  using assms(2)
  by (induction n arbitrary: i) (auto simp: Let_def dest: tagExists_free [OF assms(1)] split: sum.splits if_splits)

text \<open>C34: The tag resolved for an inbound is one no other row has, and it is the tag the inbound asked for or one
  recognised as generated for its port, node and transports.\<close>

theorem resolveInboundTag_unique:
  assumes "db_laws db rows" and "resolveInboundTag db ib ignoreId = Inr t"
  shows "(\<forall>c\<in>set rows. other_than ignoreId c \<longrightarrow> inTag c \<noteq> t) \<and>
    (t = inTag ib \<or> isAutoGeneratedTag t (inPort ib) (inNodeID ib) (inboundTransports (inProtocol ib) (inStreamSettings ib) (inSettings ib)))"
proof -
  let ?base = "composeInboundTag (inPort ib) (inNodeID ib) (inboundTransports (inProtocol ib) (inStreamSettings ib) (inSettings ib))"
  have auto: "isAutoGeneratedTag (?base @ ''-'' @ itoa (int j)) (inPort ib) (inNodeID ib)
      (inboundTransports (inProtocol ib) (inStreamSettings ib) (inSettings ib))" for j
    using is_digit_itoa [of j] by (simp add: isAutoGeneratedTag_def Let_def)
  have base: "isAutoGeneratedTag ?base (inPort ib) (inNodeID ib)
      (inboundTransports (inProtocol ib) (inStreamSettings ib) (inSettings ib))"
    by (simp add: isAutoGeneratedTag_def)
  have gen: "(\<forall>c\<in>set rows. other_than ignoreId c \<longrightarrow> inTag c \<noteq> t) \<and>
      isAutoGeneratedTag t (inPort ib) (inNodeID ib) (inboundTransports (inProtocol ib) (inStreamSettings ib) (inSettings ib))"
    if g: "generateInboundTag db ib ignoreId = Inr t"
  proof -
    consider "t = ?base" "tagExists db ?base ignoreId = Inr False"
      | "try_suffixes db ignoreId ?base (inPort ib) 2 98 = Inr t"
    proof (cases "tagExists db ?base ignoreId")
      case (Inl e)
      then show ?thesis using g by (simp only: generateInboundTag_def Let_def sum.case sum.distinct)
    next
      case (Inr exists)
      have "(if \<not> exists then Inr ?base else try_suffixes db ignoreId ?base (inPort ib) 2 98) = Inr t"
        using g unfolding generateInboundTag_def Let_def Inr sum.case .
      then show ?thesis using that Inr by (cases "exists") (simp_all only: if_True if_False simp_thms sum.inject)
    qed
    then show ?thesis
    proof cases
      case 1
      show ?thesis using tagExists_free [OF assms(1) 1(2)] base unfolding 1(1) by blast
    next
      case 2
      from try_suffixes_free [OF assms(1) 2] auto show ?thesis by blast
    qed
  qed
  show ?thesis
  proof (cases "t = inTag ib \<and> tagExists db (inTag ib) ignoreId = Inr False")
    case True
    then have "tagExists db t ignoreId = Inr False" by (simp only:)
    from tagExists_free [OF assms(1) this] True show ?thesis by (simp only: simp_thms)
  next
    case False
    have "generateInboundTag db ib ignoreId = Inr t"
    proof (cases "inTag ib = []")
      case True
      then show ?thesis using assms(2) unfolding resolveInboundTag_def by (simp only: if_False simp_thms)
    next
      case tag: False
      show ?thesis
      proof (cases "tagExists db (inTag ib) ignoreId")
        case (Inl e)
        then show ?thesis using assms(2) tag unfolding resolveInboundTag_def by (simp only: sum.case if_True simp_thms sum.distinct)
      next
        case (Inr taken)
        with assms(2) tag have "(if \<not> taken then Inr (inTag ib) else generateInboundTag db ib ignoreId) = Inr t"
          unfolding resolveInboundTag_def by (simp only: sum.case if_True simp_thms)
        then show ?thesis using False Inr by (cases taken) (simp_all only: if_True if_False simp_thms sum.inject)
      qed
    qed
    from gen [OF this] show ?thesis by (elim conjE) (intro conjI disjI2)
  qed
qed

theorem resolveInboundTag_unique_witness:
  "\<exists>t. resolveInboundTag (ideal [sample_row ''vless'' 443 []]) (sample_row ''vless'' 443 []) 0 = Inr t \<and> t \<noteq> ''in-443-tcp''"
proof -
  have r: "resolveInboundTag (ideal [sample_row ''vless'' 443 []]) (sample_row ''vless'' 443 []) 0 = Inr ''in-443-tcp-2''"
    by code_simp
  have "db_laws (ideal [sample_row ''vless'' 443 []]) [sample_row ''vless'' 443 []]" by (simp add: db_laws_def ideal_def)
  from resolveInboundTag_unique [OF this r] have "inTag (sample_row ''vless'' 443 []) \<noteq> ''in-443-tcp-2''"
    by (simp add: other_than_def)
  then show ?thesis using r by auto
qed

end
