(* ===== verification/Go_Prefix.thy ===== *)
theory Go_Prefix
  imports Go_Netip
begin

text \<open>
  More of the Go package \<open>net/netip\<close>: prefixes that contain addresses, single-host prefixes, printing
  a prefix; and the fact the address pool rests on: every address without a zone is read back from
  its text, the compressed and the IPv4-mapped forms of IPv6 included.
\<close>

section \<open>Prefixes\<close>

definition BitLen :: "addr \<Rightarrow> nat" where
  "BitLen a = (if Is6 a then 128 else 32)"

definition withoutZone :: "addr \<Rightarrow> addr" where
  "withoutZone a = (case a of V4 n \<Rightarrow> V4 n | V6 n _ \<Rightarrow> V6 n [])"

definition PrefixFrom :: "addr \<Rightarrow> nat \<Rightarrow> addr \<times> nat" where
  "PrefixFrom a bits = (withoutZone a, bits)"

definition prefix_String :: "addr \<times> nat \<Rightarrow> string" where
  "prefix_String p = addr_String (Some (fst p)) @ ''/'' @ itoa (int (snd p))"

definition Contains :: "addr \<times> nat \<Rightarrow> addr \<Rightarrow> bool" where
  "Contains p a = (case (p, a) of
     ((V4 q, bits), V4 n) \<Rightarrow> n div 2 ^ (32 - bits) = q div 2 ^ (32 - bits)
   | ((V6 q _, bits), V6 n z) \<Rightarrow> z = [] \<and> n div 2 ^ (128 - bits) = q div 2 ^ (128 - bits)
   | _ \<Rightarrow> False)"

text \<open>\<open>Addr.Prefix(24)\<close> and its like, for a length within the address.\<close>

definition addr_Prefix :: "addr \<Rightarrow> nat \<Rightarrow> addr \<times> nat" where
  "addr_Prefix a bits = (Masked (withoutZone a, bits), bits)"

text \<open>The number of an address, and the address of the same family with another number.\<close>

definition addr_num :: "addr \<Rightarrow> int" where
  "addr_num a = (case a of V4 n \<Rightarrow> n | V6 n _ \<Rightarrow> n)"

definition with_num :: "addr \<Rightarrow> int \<Rightarrow> addr" where
  "with_num a k = (case a of V4 _ \<Rightarrow> V4 k | V6 _ z \<Rightarrow> V6 k z)"

definition zoneless :: "addr \<Rightarrow> bool" where
  "zoneless a \<longleftrightarrow> (case a of V4 _ \<Rightarrow> True | V6 _ z \<Rightarrow> z = [])"

definition addr_ok :: "addr \<Rightarrow> bool" where
  "addr_ok a \<longleftrightarrow> 0 \<le> addr_num a \<and> addr_num a < 2 ^ BitLen a"

lemmas addr_view = addr_num_def with_num_def zoneless_def addr_ok_def BitLen_def Is6_def Is4_def

section \<open>Numbers and groups\<close>

lemma length_to_groups [simp]: "length (to_groups b k n) = k"
  by (induction k) simp_all

lemma to_groups_range: "0 < b \<Longrightarrow> g \<in> set (to_groups b k n) \<Longrightarrow> 0 \<le> g \<and> g < b"
  by (induction k) auto

lemma of_to_groups: "0 < b \<Longrightarrow> of_groups b (to_groups b k n) = n mod b ^ k"
proof (induction k)
  case (Suc k)
  have "n mod (b ^ k * b) = b ^ k * (n div b ^ k mod b) + n mod b ^ k"
    by (rule zmod_zmult2_eq) (use Suc.prems in simp)
  with Suc show ?case by (simp add: ac_simps)
qed simp

lemma of_groups_append: "of_groups b (gs @ hs) = of_groups b gs * b ^ length hs + of_groups b hs"
  by (induction gs) (simp_all add: algebra_simps power_add)

lemma of_groups_zeros [simp]: "of_groups b (replicate k 0) = 0"
  by (induction k) simp_all

section \<open>One group of an IPv6 address\<close>

definition hexs :: "string \<Rightarrow> bool" where
  "hexs s \<longleftrightarrow> list_all (\<lambda>c. hex_val c \<noteq> None) s"

lemma hex_num_snoc: "hex_num (s @ [c]) = hex_num s * 16 + int (the (hex_val c))"
  by (simp add: hex_num_def)

lemma hex_str_group:
  assumes "0 \<le> n" "n < 16 ^ Suc k"
  shows "hexs (hex_str (Suc k) n) \<and> hex_str (Suc k) n \<noteq> [] \<and> length (hex_str (Suc k) n) \<le> Suc k \<and>
    hex_num (hex_str (Suc k) n) = n"
  using assms
proof (induction k arbitrary: n)
  case 0
  then show ?case by (simp add: hexs_def hex_num_def)
next
  case (Suc k)
  show ?case
  proof (cases "n < 16")
    case True
    then show ?thesis using Suc.prems by (simp add: hexs_def hex_num_def)
  next
    case False
    have "n div 16 < 16 ^ Suc k" using Suc.prems(2) by (simp add: div_less_iff_less_mult)
    then have ih: "hexs (hex_str (Suc k) (n div 16))" "hex_str (Suc k) (n div 16) \<noteq> []"
      "length (hex_str (Suc k) (n div 16)) \<le> Suc k" "hex_num (hex_str (Suc k) (n div 16)) = n div 16"
      using Suc.IH [of "n div 16"] Suc.prems(1) by simp_all
    have eq: "hex_str (Suc (Suc k)) n = hex_str (Suc k) (n div 16) @ [hex_digit (nat (n mod 16))]"
      using False by simp
    have d: "nat (n mod 16) < 16" by simp
    show ?thesis unfolding eq hex_num_snoc using ih d by (simp add: hexs_def)
  qed
qed

definition tok :: "int \<Rightarrow> string" where
  "tok g = hex_str 4 g"

lemma tok_facts:
  assumes "0 \<le> g" "g < 65536"
  shows "hexs (tok g)" "tok g \<noteq> []" "length (tok g) \<le> 4" "hex_num (tok g) = g"
proof -
  have four: "(4 :: nat) = Suc 3" by simp
  show "hexs (tok g)" "tok g \<noteq> []" "length (tok g) \<le> 4" "hex_num (tok g) = g"
    using hex_str_group [of g 3] assms unfolding tok_def four by auto
qed

lemma not_hex [simp]: "hex_val CHR '':'' = None" "hex_val CHR ''.'' = None" "hex_val CHR ''%'' = None"
  by (simp_all add: hex_val_def Let_def)

lemma takeWhile_hexs:
  "hexs s \<Longrightarrow> r = [] \<or> hex_val (hd r) = None \<Longrightarrow> takeWhile (\<lambda>c. hex_val c \<noteq> None) (s @ r) = s"
  by (induction s) (cases r; auto simp: hexs_def)+

section \<open>IPv6 addresses read back\<close>

definition groups_ok :: "int list \<Rightarrow> bool" where
  "groups_ok gs \<longleftrightarrow> (\<forall>g\<in>set gs. 0 \<le> g \<and> g < 65536)"

lemma groups_ok_simps [simp]:
  "groups_ok []" "groups_ok (g # gs) \<longleftrightarrow> 0 \<le> g \<and> g < 65536 \<and> groups_ok gs"
  by (auto simp: groups_ok_def)

lemma groups_ok_sub: "groups_ok gs \<Longrightarrow> set hs \<subseteq> set gs \<Longrightarrow> groups_ok hs"
  by (auto simp: groups_ok_def)

lemma parse_v6_tok:
  assumes g: "0 \<le> g" "g < 65536" and len: "length gs < 8" and r: "r = [] \<or> hd r = CHR '':''"
  shows "parse_v6 (tok g @ r) gs e =
    (if r = [] then Some (gs @ [g], e)
     else if length r = 1 then None
     else if hd (tl r) = CHR '':'' then
       if e \<noteq> None then None
       else if tl (tl r) = [] then Some (gs @ [g], Some (Suc (length gs)))
       else parse_v6 (tl (tl r)) (gs @ [g]) (Some (Suc (length gs)))
     else parse_v6 (tl r) (gs @ [g]) e)"
proof -
  note t = tok_facts [OF g]
  have tw: "takeWhile (\<lambda>c. hex_val c \<noteq> None) (tok g @ r) = tok g" using t(1) r by (intro takeWhile_hexs) auto
  have dr: "drop (length (tok g)) (tok g @ r) = r" by simp
  have cs: "(8 \<le> length gs) = False" "(tok g = [] \<or> 4 < length (tok g)) = False" "(r \<noteq> [] \<and> hd r = CHR ''.'') = False"
    using len t(2,3) r by auto
  show ?thesis
    by (subst parse_v6.simps, simp only: Let_def tw dr cs t(4) if_False) (use r in auto)
qed

lemma colons_Cons: "ks \<noteq> [] \<Longrightarrow> join_colons (x # ks) = x @ CHR '':'' # join_colons ks"
  by (cases ks) simp_all

lemma join_tok_hd:
  assumes "groups_ok ks" "ks \<noteq> []"
  shows "\<exists>c s. join_colons (map tok ks) = c # s \<and> c \<noteq> CHR '':''"
proof -
  obtain g gs where ks: "ks = g # gs" using assms(2) by (cases ks) auto
  note t = tok_facts [of g]
  have "tok g \<noteq> []" "hexs (tok g)" using t assms(1) ks by auto
  then obtain c s where c: "tok g = c # s" "hex_val c \<noteq> None" by (cases "tok g") (auto simp: hexs_def)
  then have "c \<noteq> CHR '':''" by auto
  with c show ?thesis by (cases gs) (simp_all add: ks)
qed

lemma parse_v6_groups:
  assumes "groups_ok ks" "ks \<noteq> []" "length gs + length ks \<le> 8"
  shows "parse_v6 (join_colons (map tok ks)) gs e = Some (gs @ ks, e)"
  using assms
proof (induction ks arbitrary: gs)
  case (Cons g ks)
  show ?case
  proof (cases "ks = []")
    case True
    then show ?thesis using Cons.prems parse_v6_tok [of g gs "[]" e] by simp
  next
    case False
    obtain c s where c: "join_colons (map tok ks) = c # s" "c \<noteq> CHR '':''"
      using join_tok_hd [of ks] Cons.prems False by auto
    have "parse_v6 (tok g @ CHR '':'' # c # s) gs e = parse_v6 (c # s) (gs @ [g]) e"
      using parse_v6_tok [of g gs "CHR '':'' # c # s" e] Cons.prems c(2) by simp
    then show ?thesis using Cons.IH [of "gs @ [g]"] Cons.prems False c(1) by (simp add: colons_Cons)
  qed
qed simp

lemma parse_v6_gap:
  assumes "groups_ok hs" "groups_ok ks" "hs \<noteq> []" "length gs + length hs + length ks < 8"
  shows "parse_v6 (join_colons (map tok hs) @ ''::'' @ join_colons (map tok ks)) gs None =
    Some (gs @ hs @ ks, Some (length gs + length hs))"
  using assms
proof (induction hs arbitrary: gs)
  case (Cons g hs)
  have g: "0 \<le> g" "g < 65536" using Cons.prems by simp_all
  have len: "length gs < 8" using Cons.prems by simp
  show ?case
  proof (cases "hs = []")
    case True
    have "parse_v6 (tok g @ ''::'' @ join_colons (map tok ks)) gs None =
      (if join_colons (map tok ks) = [] then Some (gs @ [g], Some (Suc (length gs)))
       else parse_v6 (join_colons (map tok ks)) (gs @ [g]) (Some (Suc (length gs))))"
      using parse_v6_tok [OF g len, of "''::'' @ join_colons (map tok ks)" None] by simp
    moreover have "parse_v6 (join_colons (map tok ks)) (gs @ [g]) (Some (Suc (length gs))) = Some ((gs @ [g]) @ ks, Some (Suc (length gs)))"
      if "ks \<noteq> []" using that Cons.prems by (intro parse_v6_groups) auto
    moreover have "join_colons (map tok ks) = [] \<longleftrightarrow> ks = []" using join_tok_hd [of ks] Cons.prems(2) by (cases ks) auto
    ultimately show ?thesis using True by auto
  next
    case False
    obtain c s where c: "join_colons (map tok hs) = c # s" "c \<noteq> CHR '':''"
      using join_tok_hd [of hs] Cons.prems False by auto
    have "parse_v6 (tok g @ CHR '':'' # c # s @ r) gs None = parse_v6 (c # s @ r) (gs @ [g]) None" for r
      using parse_v6_tok [OF g len, of "CHR '':'' # c # s @ r" None] c(2) by simp
    from this [of "''::'' @ join_colons (map tok ks)"] show ?thesis
      using Cons.IH [of "gs @ [g]"] Cons.prems False c(1) by (simp add: colons_Cons)
  qed
qed simp

lemma zero_run_split: "zs = replicate (zero_run zs) 0 @ drop (zero_run zs) zs" and zero_run_le: "zero_run zs \<le> length zs"
proof -
  show "zs = replicate (zero_run zs) 0 @ drop (zero_run zs) zs" by (induction zs) auto
  show "zero_run zs \<le> length zs" by (induction zs) auto
qed

lemma find_run_split:
  assumes "find_run i gs best = (j, l)" and "gs = drop i all"
    and "snd best = 0 \<or> (2 \<le> snd best \<and> zero_run (drop (fst best) all) = snd best \<and> fst best \<le> length all)"
  shows "l = 0 \<or> (2 \<le> l \<and> zero_run (drop j all) = l \<and> j \<le> length all)"
  using assms
proof (induction i gs best rule: find_run.induct)
  case (1 i best)
  then show ?case by simp
next
  case (2 i g gs best)
  have le: "i \<le> length all" using "2.prems"(2) by (metis drop_all list.distinct(1) nat_le_linear)
  have tl: "gs = drop (Suc i) all" using "2.prems"(2) by (metis drop_Suc list.sel(3) tl_drop)
  have g: "g # gs = drop i all" using "2.prems"(2) .
  let ?l = "zero_run (g # gs)" and ?best = "if 2 \<le> zero_run (g # gs) \<and> snd best < zero_run (g # gs) then (i, zero_run (g # gs)) else best"
  have run: "find_run (Suc i) gs ?best = (j, l)" using "2.prems"(1) by (simp only: find_run.simps Let_def)
  have best: "snd ?best = 0 \<or> (2 \<le> snd ?best \<and> zero_run (drop (fst ?best) all) = snd ?best \<and> fst ?best \<le> length all)"
    using "2.prems"(3) le unfolding g by (cases "2 \<le> zero_run (drop i all) \<and> snd best < zero_run (drop i all)") auto
  show ?case by (rule "2.IH" [OF refl run tl best])
qed

lemma hexs_no_special: "hexs s \<Longrightarrow> CHR ''%'' \<notin> set s \<and> CHR '':'' \<notin> set s \<and> CHR ''.'' \<notin> set s"
  by (auto simp: hexs_def list_all_iff)

lemma join_no_percent: "groups_ok gs \<Longrightarrow> CHR ''%'' \<notin> set (join_colons (map tok gs))"
proof (induction gs)
  case (Cons g gs)
  then show ?case
    by (cases gs) (auto simp: colons_Cons dest: hexs_no_special [OF tok_facts(1)])
qed simp

lemma join_find:
  assumes "groups_ok gs" "gs \<noteq> []" "length gs \<ge> 2 \<or> r \<noteq> []" "r = [] \<or> hd r = CHR '':''"
  shows "find (\<lambda>c. c \<in> {CHR ''.'', CHR '':'', CHR ''%''}) (join_colons (map tok gs) @ r) = Some CHR '':''"
proof -
  obtain g hs where gs: "gs = g # hs" using assms(2) by (cases gs) auto
  have f: "find (\<lambda>c. c \<in> {CHR ''.'', CHR '':'', CHR ''%''}) (s @ CHR '':'' # u) = Some CHR '':''" if "hexs s" for s u
    using hexs_no_special [OF that] by (induction s) auto
  have "hexs (tok g)" using assms(1) gs by (auto intro: tok_facts)
  note f = f [OF this]
  show ?thesis
  proof (cases "hs = []")
    case True
    then obtain u where "r = CHR '':'' # u" using assms(3,4) gs by (cases r) auto
    then show ?thesis using f True gs by simp
  next
    case False
    then show ?thesis using f [of "join_colons (map tok hs) @ r"] gs by (simp add: colons_Cons)
  qed
qed

lemma parseIPv6_groups:
  assumes ok: "groups_ok gs" and len: "length gs = 8"
    and run: "l = 0 \<or> (2 \<le> l \<and> zero_run (drop i gs) = l \<and> i \<le> 8)"
  defines "s \<equiv> (if l = 0 then join_colons (map tok gs)
     else join_colons (take i (map tok gs)) @ ''::'' @ join_colons (drop (i + l) (map tok gs)))"
  shows "ParseAddr s = Some (V6 (of_groups 65536 gs) [])"
proof (cases "l = 0")
  case True
  then have s: "s = join_colons (map tok gs)" by (simp add: s_def)
  have ne: "gs \<noteq> []" using len by auto
  obtain c t where c: "s = c # t" "c \<noteq> CHR '':''" using join_tok_hd [OF ok ne] s by auto
  have "cut CHR ''%'' s = None" using join_no_percent [OF ok] by (simp add: s cut_None)
  moreover have "parse_v6 s [] None = Some (gs, None)" using parse_v6_groups [OF ok ne, of "[]" None] len s by simp
  moreover have "take 2 s \<noteq> ''::''" "s \<noteq> ''::''" using c by (auto simp: numeral_2_eq_2)
  ultimately have "parseIPv6 s = Some (V6 (of_groups 65536 gs) [])" by (simp add: parseIPv6_def expand_v6_def len)
  then show ?thesis using join_find [OF ok ne, of "[]"] len s by (simp add: ParseAddr_def)
next
  case False
  then have l: "2 \<le> l" "zero_run (drop i gs) = l" "i \<le> 8" using run by simp_all
  have il: "i + l \<le> 8" using zero_run_le [of "drop i gs"] l len by simp
  let ?h = "take i gs" and ?k = "drop (i + l) gs"
  have split: "gs = ?h @ replicate l 0 @ ?k"
    using zero_run_split [of "drop i gs"] append_take_drop_id [of i gs] l(2) by (simp add: add.commute)
  have okh: "groups_ok ?h" "groups_ok ?k" using ok by (auto simp: groups_ok_def dest: in_set_takeD in_set_dropD)
  have s: "s = join_colons (map tok ?h) @ ''::'' @ join_colons (map tok ?k)"
    using False by (simp add: s_def take_map drop_map)
  have pc: "cut CHR ''%'' s = None" using join_no_percent [OF okh(1)] join_no_percent [OF okh(2)] by (simp add: s cut_None)
  have lens: "length ?h = i" "length ?k = 8 - (i + l)" "8 - length (?h @ ?k) = l" using il len by simp_all
  have exp: "expand_v6 (?h @ ?k, Some i) = Some gs"
  proof -
    have "length (?h @ ?k) < 8" "take i (?h @ ?k) = ?h" "drop i (?h @ ?k) = ?k" using lens l il by simp_all
    then show ?thesis using split lens(3) by (simp only: expand_v6_def prod.case if_True option.case)
  qed
  show ?thesis
  proof (cases "i = 0")
    case True
    then have s': "s = ''::'' @ join_colons (map tok ?k)" using s by simp
    have fnd: "find (\<lambda>c. c \<in> {CHR ''.'', CHR '':'', CHR ''%''}) s = Some CHR '':''" by (simp add: s')
    show ?thesis
    proof (cases "?k = []")
      case True
      then have "gs = replicate l 0" using split \<open>i = 0\<close> by simp
      then have "of_groups 65536 gs = 0" by simp
      then show ?thesis using pc fnd s' True by (simp add: ParseAddr_def parseIPv6_def)
    next
      case False
      have "parse_v6 (join_colons (map tok ?k)) [] (Some 0) = Some (?k, Some 0)"
        using parse_v6_groups [OF okh(2) False, of "[]" "Some 0"] lens by simp
      moreover obtain c t where "join_colons (map tok ?k) = c # t" using join_tok_hd [OF okh(2) False] by auto
      moreover have "expand_v6 (?k, Some 0) = Some gs" using exp True by simp
      ultimately have "parseIPv6 s = Some (V6 (of_groups 65536 gs) [])" using pc by (simp add: s' parseIPv6_def)
      then show ?thesis using fnd by (simp add: ParseAddr_def)
    qed
  next
    case i: False
    then have ne: "?h \<noteq> []" using len by auto
    obtain c t where c: "join_colons (map tok ?h) = c # t" "c \<noteq> CHR '':''" using join_tok_hd [OF okh(1) ne] by auto
    have "parse_v6 s [] None = Some (?h @ ?k, Some i)"
      using parse_v6_gap [OF okh ne, of "[]"] lens il l len s by simp
    moreover have "take 2 s \<noteq> ''::''" "s \<noteq> ''::''" using c s by (auto simp: numeral_2_eq_2)
    ultimately have "parseIPv6 s = Some (V6 (of_groups 65536 gs) [])" using pc exp by (simp add: parseIPv6_def)
    moreover have "find (\<lambda>c. c \<in> {CHR ''.'', CHR '':'', CHR ''%''}) s = Some CHR '':''"
      using join_find [OF okh(1) ne, of "''::'' @ join_colons (map tok ?k)"] s by simp
    ultimately show ?thesis by (simp add: ParseAddr_def)
  qed
qed

lemma ParseAddr_string6:
  assumes "0 \<le> n" "n < 2 ^ 128"
  shows "ParseAddr (string6 n) = Some (V6 n [])"
proof -
  let ?gs = "to_groups 65536 8 n"
  obtain i l where fr: "find_run 0 ?gs (0, 0) = (i, l)" by fastforce
  have ok: "groups_ok ?gs" using to_groups_range [of 65536 _ 8 n] by (auto simp: groups_ok_def)
  have run: "l = 0 \<or> (2 \<le> l \<and> zero_run (drop i ?gs) = l \<and> i \<le> 8)"
    using find_run_split [OF fr, of ?gs] by simp
  have pow: "(65536 :: int) ^ 8 = 2 ^ 128" by simp
  have num: "of_groups 65536 ?gs = n" using of_to_groups [of 65536 8 n] assms unfolding pow by simp
  have map: "map (hex_str 4) ?gs = map tok ?gs" by (simp add: tok_def)
  show ?thesis
    using parseIPv6_groups [OF ok length_to_groups run] unfolding num
    by (simp only: string6_def Let_def fr map prod.case)
qed

lemma digits_hexs: "list_all is_digit s \<Longrightarrow> hexs s"
  unfolding hexs_def by (erule list.pred_mono_strong) (auto simp: is_digit_def less_eq_char_def hex_val_def Let_def)

lemma length_itoa_octet: "a < 256 \<Longrightarrow> length (itoa_nat a) \<le> 4"
  by (subst itoa_nat.simps, subst itoa_nat.simps, subst itoa_nat.simps) auto

lemma of_groups4: "of_groups 256 [a, b, c, d] = ((a * 256 + b) * 256 + c) * 256 + d"
  by simp

lemma expand_mapped:
  "map_option (\<lambda>gs. V6 (of_groups 65536 gs) z) (expand_v6 ([0xFFFF, a * 256 + b, c * 256 + d], Some 0))
    = Some (V6 (0xFFFF * 2 ^ 32 + (((a * 256 + b) * 256 + c) * 256 + d)) z)"
  by (simp add: expand_v6_def numeral_eq_Suc)

lemma ParseAddr_mapped:
  assumes "0 \<le> m" "m < 2 ^ 32"
  shows "ParseAddr (''::ffff:'' @ string4 m) = Some (V6 (0xFFFF * 2 ^ 32 + m) [])"
proof -
  let ?g = "\<lambda>k :: int. nat (m div k mod 256)"
  have gs: "to_groups 256 4 m = [int (?g 16777216), int (?g 65536), int (?g 256), int (?g 1)]"
    by (simp add: numeral_eq_Suc)
  have s: "string4 m = itoa_nat (?g 16777216) @ ''.'' @ itoa_nat (?g 65536) @ ''.'' @ itoa_nat (?g 256) @ ''.'' @ itoa_nat (?g 1)"
    by (simp only: string4_def gs list.map itoa_int list.case)
  have lt: "?g k < 256" for k :: int by (simp add: nat_less_iff)
  have p4: "parse_v4 [] 0 0 (string4 m) = Some [int (?g 16777216), int (?g 65536), int (?g 256), int (?g 1)]"
    unfolding s by (rule parse_v4_groups) (rule lt)+
  obtain t where t: "string4 m = itoa_nat (?g 16777216) @ CHR ''.'' # t" using s by simp
  obtain d ds where d: "itoa_nat (?g 16777216) = d # ds" "is_digit d"
    using itoa_nat_digits [of "?g 16777216"] by (cases "itoa_nat (?g 16777216)") auto
  have tw: "takeWhile (\<lambda>c. hex_val c \<noteq> None) (string4 m) = itoa_nat (?g 16777216)"
    unfolding t by (rule takeWhile_hexs) (simp_all add: digits_hexs itoa_nat_digits)
  have dr: "drop (length (itoa_nat (?g 16777216))) (string4 m) = CHR ''.'' # t" by (simp add: t)
  have sz: "\<not> (itoa_nat (?g 16777216) = [] \<or> 4 < length (itoa_nat (?g 16777216)))"
    using length_itoa_octet [OF lt, of 16777216] by simp
  have "parse_v6 (string4 m) [0xFFFF] (Some 0) =
      Some ([0xFFFF] @ [int (?g 16777216) * 256 + int (?g 65536), int (?g 256) * 256 + int (?g 1)], Some 0)"
    by (subst parse_v6.simps, simp only: Let_def tw dr if_not_P [OF sz]) (simp add: p4)
  moreover have "parse_v6 (tok 0xFFFF @ CHR '':'' # string4 m) [] (Some 0) = parse_v6 (string4 m) [0xFFFF] (Some 0)"
  proof -
    have "d \<noteq> CHR '':''" using d(2) by (auto simp: is_digit_def less_eq_char_def)
    then show ?thesis using parse_v6_tok [where g = "0xFFFF" and gs = "[]" and r = "CHR '':'' # string4 m" and e = "Some 0"] by (simp add: t d(1))
  qed
  moreover have "tok 0xFFFF = ''ffff''" by code_simp
  ultimately have p6: "parse_v6 (''ffff:'' @ string4 m) [] (Some 0) =
      Some ([0xFFFF, int (?g 16777216) * 256 + int (?g 65536), int (?g 256) * 256 + int (?g 1)], Some 0)" by simp
  have m: "((int (?g 16777216) * 256 + int (?g 65536)) * 256 + int (?g 256)) * 256 + int (?g 1) = m"
    using groups4 [OF assms] unfolding gs of_groups4 .
  note x = expand_mapped [of "[]" "int (?g 16777216)" "int (?g 65536)" "int (?g 256)" "int (?g 1)", unfolded m]
  moreover have "CHR ''%'' \<notin> set (string4 m)"
    unfolding s using itoa_nat_digits digits_hexs hexs_no_special by simp
  ultimately show ?thesis using p6 x by (simp add: ParseAddr_def parseIPv6_def cut_None)
qed

text \<open>What is printed is read back.\<close>

lemma ParseAddr_String:
  assumes "addr_ok a" and "zoneless a"
  shows "ParseAddr (addr_String (Some a)) = Some a"
proof (cases a)
  case (V4 n)
  then show ?thesis using assms ParseAddr_string4 [of n] by (simp add: addr_String_def addr_view)
next
  case (V6 n z)
  then have n: "0 \<le> n" "n < 2 ^ 128" "z = []" using assms by (simp_all add: addr_view)
  show ?thesis
  proof (cases "n div 2 ^ 32 = 0xFFFF")
    case True
    then have "n = 0xFFFF * 2 ^ 32 + n mod 2 ^ 32" using mult_div_mod_eq [of "2 ^ 32" n] by simp
    then show ?thesis using ParseAddr_mapped [of "n mod 2 ^ 32"] True n(3) V6 by (simp add: addr_String_def Is4In6_def)
  next
    case False
    then show ?thesis using ParseAddr_string6 [OF n(1,2)] n(3) V6 by (simp add: addr_String_def Is4In6_def)
  qed
qed

lemma ParsePrefix_String:
  assumes "addr_ok a" "zoneless a" "b \<le> BitLen a"
  shows "ParsePrefix (prefix_String (a, b)) = Some (a, b)"
proof -
  have "rev (prefix_String (a, b)) = rev (itoa_nat b) @ CHR ''/'' # rev (addr_String (Some a))" by (simp add: prefix_String_def)
  then have cut: "cut CHR ''/'' (rev (prefix_String (a, b))) = Some (rev (itoa_nat b), rev (addr_String (Some a)))"
    using cut_append [of "CHR ''/''" "rev (itoa_nat b)"] slash_notin_itoa by simp
  have "(2 :: nat) ^ 63 > 128" by simp
  moreover have "b \<le> 128" using assms(3) by (auto simp: BitLen_def split: if_splits)
  ultimately have p: "parse_int64 (itoa_nat b) = Some (int b)" by (intro parse_int64_itoa_nat) simp
  have lead: "\<not> (length (itoa_nat b) > 1 \<and> \<not> (CHR ''1'' \<le> hd (itoa_nat b) \<and> hd (itoa_nat b) \<le> CHR ''9''))"
  proof (cases "b = 0")
    case True
    have "length (itoa_nat 0) = 1" by (subst itoa_nat.simps) simp
    with True show ?thesis by simp
  next
    case False
    then show ?thesis using hd_itoa_nat [of b] by simp
  qed
  show ?thesis
    unfolding ParsePrefix_def cut
    using ParseAddr_String [OF assms(1,2)] lead assms(2,3)
    by (cases a) (auto simp: p addr_view)
qed

section \<open>What parsing yields is an address\<close>

definition within :: "int \<Rightarrow> int list \<Rightarrow> bool" where
  "within b gs \<longleftrightarrow> (\<forall>g\<in>set gs. 0 \<le> g \<and> g < b)"

lemma within_simps [simp]:
  "within b []" "within b (g # gs) \<longleftrightarrow> 0 \<le> g \<and> g < b \<and> within b gs"
  "within b (gs @ hs) \<longleftrightarrow> within b gs \<and> within b hs"
  by (auto simp: within_def)

lemma of_groups_within: "within b gs \<Longrightarrow> 0 \<le> of_groups b gs \<and> of_groups b gs < b ^ length gs"
proof (induction gs)
  case (Cons g gs)
  then have g: "0 \<le> g" "g \<le> b - 1" and ih: "0 \<le> of_groups b gs" "of_groups b gs < b ^ length gs" by auto
  have p: "0 \<le> b ^ length gs" using g by simp
  have "g * b ^ length gs \<le> (b - 1) * b ^ length gs" by (rule mult_right_mono [OF g(2) p])
  then have "g * b ^ length gs + of_groups b gs < (b - 1) * b ^ length gs + b ^ length gs" using ih by linarith
  also have "\<dots> = b ^ length (g # gs)" by (simp add: algebra_simps)
  finally show ?case using g ih p by simp
qed simp

lemma parse_v4_within:
  "parse_v4 fs v k s = Some gs \<Longrightarrow> within 256 fs \<Longrightarrow> 0 \<le> v \<and> v < 256 \<Longrightarrow> length fs \<le> 3 \<Longrightarrow> within 256 gs \<and> length gs = 4"
proof (induction fs v k s rule: parse_v4.induct)
  case (1 fs v k)
  then show ?case by (auto split: if_splits)
next
  case (2 fs v k c s)
  show ?case
  proof (cases "is_digit c")
    case True
    then show ?thesis using 2 by (auto simp: Let_def split: if_splits)
  next
    case False
    then show ?thesis using 2 by (auto split: if_splits)
  qed
qed

lemma hex_num_range: "hexs ds \<Longrightarrow> 0 \<le> hex_num ds \<and> hex_num ds < 16 ^ length ds"
proof (induction ds rule: rev_induct)
  case Nil
  then show ?case by (simp add: hex_num_def)
next
  case (snoc c ds)
  then have "hexs ds" and c: "hex_val c \<noteq> None" by (simp_all add: hexs_def)
  then have "the (hex_val c) < 16" by (auto simp: hex_val_def Let_def split: if_splits)
  then show ?case using snoc.IH [OF \<open>hexs ds\<close>] by (simp add: hex_num_snoc)
qed

lemma hex_group_range:
  assumes "ds = takeWhile (\<lambda>c. hex_val c \<noteq> None) s" "length ds \<le> 4"
  shows "0 \<le> hex_num ds \<and> hex_num ds < 65536"
proof -
  have "hexs ds" unfolding hexs_def assms(1) by (metis (mono_tags, lifting) list_all_iff set_takeWhileD)
  from hex_num_range [OF this] have "0 \<le> hex_num ds" "hex_num ds < 16 ^ length ds" by simp_all
  moreover have "(16 :: int) ^ length ds \<le> 16 ^ 4" using assms(2) by (rule power_increasing) simp
  ultimately show ?thesis by simp
qed

lemma parse_v4_quad:
  assumes "(case parse_v4 [] 0 0 s of Some [a, b, c, d] \<Rightarrow> Some (gs @ [a * 256 + b, c * 256 + d], e) | _ \<Rightarrow> None) = Some r"
    and "within 65536 gs" "length gs \<le> 6"
  shows "within 65536 (fst r) \<and> length (fst r) \<le> 8"
proof -
  obtain qs where q: "parse_v4 [] 0 0 s = Some qs" using assms(1) by (auto split: option.splits)
  from parse_v4_within [OF q] obtain a b c d where qs: "qs = [a, b, c, d]" "within 256 [a, b, c, d]"
    by (auto simp: length_Suc_conv eval_nat_numeral)
  then have "r = (gs @ [a * 256 + b, c * 256 + d], e)" using assms(1) q by simp
  then show ?thesis using qs(2) assms(2,3) by simp
qed

lemma parse_v6_within:
  "parse_v6 s gs e = Some r \<Longrightarrow> within 65536 gs \<Longrightarrow> length gs \<le> 8 \<Longrightarrow> within 65536 (fst r) \<and> length (fst r) \<le> 8"
proof (induction s gs e rule: parse_v6.induct)
  case (1 s gs e)
  let ?ds = "takeWhile (\<lambda>c. hex_val c \<noteq> None) s"
  let ?r = "drop (length ?ds) s"
  note step = "1.prems"(1) [unfolded parse_v6.simps [of s gs e] Let_def]
  show ?case
  proof (cases "8 \<le> length gs")
    case True
    with step "1.prems"(2,3) show ?thesis by (auto split: if_splits)
  next
    case len: False
    show ?thesis
    proof (cases "?ds = [] \<or> 4 < length ?ds")
      case True
      with step len show ?thesis by simp
    next
      case ds: False
      have h: "0 \<le> hex_num ?ds \<and> hex_num ?ds < 65536" using hex_group_range [OF refl] ds by simp
      then have w: "within 65536 (gs @ [hex_num ?ds])" "length (gs @ [hex_num ?ds]) \<le> 8" using "1.prems"(2) len by simp_all
      note step = step [unfolded if_not_P [OF len] if_not_P [OF ds]]
      show ?thesis
      proof (cases "?r \<noteq> [] \<and> hd ?r = CHR ''.''")
        case True
        note step = step [unfolded if_P [OF True]]
        show ?thesis
        proof (cases "e = None \<and> length gs \<noteq> 6 \<or> 6 < length gs")
          case True
          with step show ?thesis by simp
        next
          case False
          show ?thesis by (rule parse_v4_quad [OF step [unfolded if_not_P [OF False]] "1.prems"(2)]) (use False in auto)
        qed
      next
        case dot: False
        note step = step [unfolded if_not_P [OF dot]]
        show ?thesis
        proof (cases "?r = []")
          case True
          with step w show ?thesis by auto
        next
          case nil: False
          note step = step [unfolded if_not_P [OF nil]]
          show ?thesis
          proof (cases "hd ?r \<noteq> CHR '':'' \<or> length ?r = 1")
            case True
            with step show ?thesis by simp
          next
            case col: False
            note step = step [unfolded if_not_P [OF col]]
            show ?thesis
            proof (cases "hd (tl ?r) = CHR '':''")
              case True
              note step = step [unfolded if_P [OF True]]
              show ?thesis
              proof (cases "e \<noteq> None")
                case True
                with step show ?thesis by simp
              next
                case e: False
                note step = step [unfolded if_not_P [OF e]]
                show ?thesis
                proof (cases "tl (tl ?r) = []")
                  case True
                  with step w show ?thesis by auto
                next
                  case False
                  note step = step [unfolded if_not_P [OF False]]
                  show ?thesis
                    by (rule "1.IH"(1) [OF len refl refl ds dot nil col True e False step w])
                qed
              qed
            next
              case False
              note step = step [unfolded if_not_P [OF False]]
              show ?thesis by (rule "1.IH"(2) [OF len refl refl ds dot nil col False step w])
            qed
          qed
        qed
      qed
    qed
  qed
qed

lemma expand_v6_within:
  assumes "expand_v6 r = Some gs" "within 65536 (fst r)" "length (fst r) \<le> 8"
  shows "within 65536 gs \<and> length gs = 8"
proof -
  have "within 65536 (take k hs @ replicate m 0 @ drop k hs)" if "within 65536 hs" for k m hs
    using that by (auto simp: within_def dest: in_set_takeD in_set_dropD)
  then show ?thesis using assms by (cases r) (auto simp: expand_v6_def split: if_splits option.splits)
qed

lemma parseIPv6_ok:
  assumes "parseIPv6 s = Some a"
  shows "addr_ok a"
proof -
  have grp: "addr_ok (V6 (of_groups 65536 gs) z)" if "within 65536 gs" "length gs = 8" for gs z
    using of_groups_within [OF that(1)] that(2) by (simp add: addr_view)
  have "addr_ok (V6 (of_groups 65536 gs) z)" if "Option.bind (parse_v6 t [] e) expand_v6 = Some gs" for t e gs z
    using that grp expand_v6_within parse_v6_within [of t "[]" e] by (auto simp: bind_eq_Some_conv)
  then show ?thesis using assms
    by (auto simp: parseIPv6_def Let_def addr_view split: option.splits if_splits prod.splits)
qed

lemma ParseAddr_ok: "ParseAddr s = Some a \<Longrightarrow> addr_ok a"
proof -
  have "addr_ok a" if v4: "parseIPv4 s = Some a"
  proof -
    obtain gs where g: "parse_v4 [] 0 0 s = Some gs" "a = V4 (of_groups 256 gs)" using v4 by (auto simp: parseIPv4_def)
    from parse_v4_within [OF g(1)] have "within 256 gs" "length gs = 4" by simp_all
    with of_groups_within [of 256 gs] g(2) show ?thesis by (simp add: addr_view)
  qed
  then show "ParseAddr s = Some a \<Longrightarrow> addr_ok a"
    by (auto simp: ParseAddr_def parseIPv6_ok split: option.splits if_splits)
qed

lemma ParsePrefix_ok:
  assumes "ParsePrefix s = Some (a, b)"
  shows "addr_ok a \<and> zoneless a \<and> b \<le> BitLen a"
  using assms unfolding ParsePrefix_def
  by (auto simp: Let_def addr_view dest!: ParseAddr_ok split: option.splits if_splits addr.splits)

lemma Masked_ok:
  assumes "addr_ok a"
  shows "addr_ok (Masked (a, b))"
proof -
  have m: "0 \<le> n - n mod 2 ^ k" "n - n mod 2 ^ k \<le> n" if "0 \<le> n" for n :: int and k
    using that by (simp_all add: zmod_le_nonneg_dividend)
  show ?thesis
  proof (cases a)
    case (V4 n)
    then show ?thesis using assms by (simp add: Masked_def addr_view order_le_less_trans [OF m(2)] zmod_le_nonneg_dividend)
  next
    case (V6 n z)
    then show ?thesis using assms by (simp add: Masked_def addr_view order_le_less_trans [OF m(2)] zmod_le_nonneg_dividend)
  qed
qed

lemma withoutZone_ok [simp]: "addr_ok (withoutZone a) \<longleftrightarrow> addr_ok a" "zoneless (withoutZone a)"
  "BitLen (withoutZone a) = BitLen a"
  by (cases a; simp add: withoutZone_def addr_view)+

section \<open>The characters of a printed address\<close>

definition addr_char :: "char \<Rightarrow> bool" where
  "addr_char c \<longleftrightarrow> hex_val c \<noteq> None \<or> c = CHR ''.'' \<or> c = CHR '':''"

lemma addr_char_seps [simp]: "addr_char CHR ''.''" "addr_char CHR '':''" "addr_char CHR ''f''"
  by (simp_all add: addr_char_def hex_val_def Let_def)

lemma addr_char_graphic: "addr_char c \<Longrightarrow> graphic c"
  by (auto simp: addr_char_def hex_val_def graphic_def less_eq_char_def Let_def split: if_splits)

lemma digits_addr: "list_all addr_char (itoa_nat n)"
  using digits_hexs [OF itoa_nat_digits [of n]] by (auto simp: hexs_def addr_char_def list_all_iff)

lemma string4_addr: "list_all addr_char (string4 n)" "string4 n \<noteq> []"
proof -
  obtain a b c d where g: "to_groups 256 4 n = [a, b, c, d]" by (simp add: numeral_eq_Suc)
  have range: "0 \<le> x" if "x \<in> {a, b, c, d}" for x
    using to_groups_range [of 256 x 4 n] that unfolding g by auto
  have "list_all addr_char (itoa x)" if "x \<in> {a, b, c, d}" for x
    using range [OF that] digits_addr by (auto simp: itoa_def)
  then show "list_all addr_char (string4 n)" by (simp add: string4_def g)
  show "string4 n \<noteq> []" by (simp add: string4_def g)
qed

lemma join_addr: "groups_ok gs \<Longrightarrow> list_all addr_char (join_colons (map tok gs))"
proof (induction gs)
  case (Cons g gs)
  then have "list_all addr_char (tok g)" using tok_facts(1) [of g] by (auto simp: hexs_def addr_char_def list_all_iff)
  with Cons show ?case by (cases gs) (auto simp: colons_Cons)
qed simp

lemma string6_addr: "list_all addr_char (string6 n)"
proof -
  let ?gs = "to_groups 65536 8 n"
  have ok: "groups_ok ?gs" using to_groups_range [of 65536 _ 8 n] by (auto simp: groups_ok_def)
  then have sub: "groups_ok (take i ?gs)" "groups_ok (drop j ?gs)" for i j
    by (auto simp: groups_ok_def dest: in_set_takeD in_set_dropD)
  have map: "map (hex_str 4) ?gs = map tok ?gs" by (simp add: tok_def)
  show ?thesis
    using ok sub by (auto simp: string6_def Let_def map take_map drop_map join_addr split: prod.split)
qed

lemma addr_String_chars: "zoneless a \<Longrightarrow> list_all addr_char (addr_String (Some a))"
proof (cases a)
  case (V6 n z)
  with V6 show ?thesis if "zoneless a"
    using that string4_addr(1) string6_addr by (auto simp: addr_String_def addr_view)
qed (use string4_addr in \<open>simp add: addr_String_def\<close>)

lemma prefix_String_graphic: "zoneless a \<Longrightarrow> list_all graphic (prefix_String (a, b))"
proof -
  have g: "list_all graphic s" if "list_all addr_char s" for s using that addr_char_graphic by (auto simp: list_all_iff)
  have "graphic CHR ''/''" by code_simp
  then show ?thesis if "zoneless a"
    using that g [OF addr_String_chars] g [OF digits_addr [of b]] by (simp add: prefix_String_def)
qed

lemma trim_graphic: "list_all graphic s \<Longrightarrow> trim_space s = s"
  by (cases "s = []") (auto intro!: trim_space_graphic simp: list_all_iff)

lemma prefix_String_trim [simp]: "zoneless a \<Longrightarrow> trim_space (prefix_String (a, b)) = prefix_String (a, b)"
  by (rule trim_graphic) (rule prefix_String_graphic)

lemma prefix_String_nonempty [simp]: "prefix_String p \<noteq> []"
  by (simp add: prefix_String_def)

end
