(* ===== verification/Go_Base64.thy ===== *)
theory Go_Base64
  imports Go_Strings
begin

text \<open>
  The part of the Go package \<open>encoding/base64\<close> the modelled code uses: the standard and the URL
  alphabet, with and without padding.  As in Go, the decoder ignores carriage returns and newlines
  wherever they stand and the unused low bits of the last group.
\<close>

section \<open>Digits\<close>

definition b64_alphabet :: "bool \<Rightarrow> string" where
  "b64_alphabet url = ''ABCDEFGHIJKLMNOPQRSTUVWXYZabcdefghijklmnopqrstuvwxyz0123456789'' @ (if url then ''-_'' else ''+/'')"

definition b64_digit :: "bool \<Rightarrow> nat \<Rightarrow> char" where
  "b64_digit url d = b64_alphabet url ! d"

fun index_of :: "char \<Rightarrow> string \<Rightarrow> nat option" where
  "index_of c [] = None"
| "index_of c (x # xs) = (if c = x then Some 0 else map_option Suc (index_of c xs))"

definition b64_val :: "bool \<Rightarrow> char \<Rightarrow> nat option" where
  "b64_val url c = index_of c (b64_alphabet url)"

section \<open>Encoding and decoding\<close>

text \<open>\<open>StdEncoding.EncodeToString\<close>.\<close>

fun b64_encode :: "byte list \<Rightarrow> string" where
  "b64_encode [] = []"
| "b64_encode [a] = [b64_digit False (unat a div 4), b64_digit False (unat a mod 4 * 16), CHR ''='', CHR ''='']"
| "b64_encode [a, b] = [b64_digit False (unat a div 4), b64_digit False (unat a mod 4 * 16 + unat b div 16),
     b64_digit False (unat b mod 16 * 4), CHR ''='']"
| "b64_encode (a # b # c # bs) =
     b64_digit False (unat a div 4) # b64_digit False (unat a mod 4 * 16 + unat b div 16)
     # b64_digit False (unat b mod 16 * 4 + unat c div 64) # b64_digit False (unat c mod 64) # b64_encode bs"

definition join2 :: "nat \<Rightarrow> nat \<Rightarrow> byte" where
  "join2 p q = word_of_nat (p * 4 + q div 16)"

definition join3 :: "nat \<Rightarrow> nat \<Rightarrow> byte" where
  "join3 q r = word_of_nat (q mod 16 * 16 + r div 4)"

definition join4 :: "nat \<Rightarrow> nat \<Rightarrow> byte" where
  "join4 r s = word_of_nat (r mod 4 * 64 + s)"

fun b64_quads :: "bool \<Rightarrow> bool \<Rightarrow> string \<Rightarrow> byte list option" where
  "b64_quads url pad [] = Some []"
| "b64_quads url pad [a] = None"
| "b64_quads url pad [a, b] =
     (if pad then None else case (b64_val url a, b64_val url b) of
        (Some p, Some q) \<Rightarrow> Some [join2 p q] | _ \<Rightarrow> None)"
| "b64_quads url pad [a, b, c] =
     (if pad then None else case (b64_val url a, b64_val url b, b64_val url c) of
        (Some p, Some q, Some r) \<Rightarrow> Some [join2 p q, join3 q r] | _ \<Rightarrow> None)"
| "b64_quads url pad (a # b # c # d # s) =
     (case (b64_val url a, b64_val url b) of
        (Some p, Some q) \<Rightarrow>
          (case b64_val url c of
             None \<Rightarrow> if pad \<and> c = CHR ''='' \<and> d = CHR ''='' \<and> s = [] then Some [join2 p q] else None
           | Some r \<Rightarrow>
               (case b64_val url d of
                  None \<Rightarrow> if pad \<and> d = CHR ''='' \<and> s = [] then Some [join2 p q, join3 q r] else None
                | Some t \<Rightarrow> map_option (\<lambda>bs. join2 p q # join3 q r # join4 r t # bs) (b64_quads url pad s)))
      | _ \<Rightarrow> None)"

definition b64_decode :: "bool \<Rightarrow> bool \<Rightarrow> string \<Rightarrow> byte list option" where
  "b64_decode url pad s = b64_quads url pad (filter (\<lambda>c. c \<noteq> CHR 0x0A \<and> c \<noteq> CHR 0x0D) s)"

abbreviation StdEncoding_DecodeString :: "string \<Rightarrow> byte list option" where
  "StdEncoding_DecodeString \<equiv> b64_decode False True"

abbreviation RawStdEncoding_DecodeString :: "string \<Rightarrow> byte list option" where
  "RawStdEncoding_DecodeString \<equiv> b64_decode False False"

abbreviation RawURLEncoding_DecodeString :: "string \<Rightarrow> byte list option" where
  "RawURLEncoding_DecodeString \<equiv> b64_decode True False"

section \<open>Round trip\<close>

lemma b64_val_digit [simp]:
  assumes "d < 64"
  shows "b64_val url (b64_digit url d) = Some d"
proof -
  have "\<forall>d\<in>set [0..<64]. \<forall>url\<in>{False, True}. b64_val url (b64_digit url d) = Some d" by code_simp
  then show ?thesis using assms by (cases url) auto
qed

lemma b64_digit_char:
  assumes "d < 64"
  shows "graphic (b64_digit url d) \<and> b64_digit url d \<noteq> CHR ''=''"
proof -
  have "\<forall>d\<in>set [0..<64]. \<forall>url\<in>{False, True}. graphic (b64_digit url d) \<and> b64_digit url d \<noteq> CHR ''=''" by code_simp
  then show ?thesis using assms by (cases url) auto
qed

lemma byte_of_unat [simp]: "word_of_nat (unat a) = (a :: byte)"
  by simp

lemma join_bytes:
  fixes a b c :: byte
  shows "join2 (unat a div 4) (unat a mod 4 * 16) = a"
    and "join2 (unat a div 4) (unat a mod 4 * 16 + unat b div 16) = a"
    and "join3 (unat a mod 4 * 16 + unat b div 16) (unat b mod 16 * 4) = b"
    and "join3 (unat a mod 4 * 16 + unat b div 16) (unat b mod 16 * 4 + unat c div 64) = b"
    and "join4 (unat b mod 16 * 4 + unat c div 64) (unat c mod 64) = c"
proof -
  have lt: "unat b div 16 < 16" "unat c div 64 < 4"
    using unat_byte_less [of b] unat_byte_less [of c] by (simp_all add: less_mult_imp_div_less)
  have q: "(unat a mod 4 * 16 + unat b div 16) div 16 = unat a mod 4" using lt(1) by simp
  have r: "(unat a mod 4 * 16 + unat b div 16) mod 16 = unat b div 16" using lt(1) by simp
  have s: "(unat b mod 16 * 4 + unat c div 64) div 4 = unat b mod 16" using lt(2) by simp
  have t: "(unat b mod 16 * 4 + unat c div 64) mod 4 = unat c div 64" using lt(2) by simp
  show "join2 (unat a div 4) (unat a mod 4 * 16) = a" by (simp add: join2_def)
  show "join2 (unat a div 4) (unat a mod 4 * 16 + unat b div 16) = a" unfolding join2_def q by simp
  show "join3 (unat a mod 4 * 16 + unat b div 16) (unat b mod 16 * 4) = b" unfolding join3_def r by simp
  show "join3 (unat a mod 4 * 16 + unat b div 16) (unat b mod 16 * 4 + unat c div 64) = b"
    unfolding join3_def r s by simp
  show "join4 (unat b mod 16 * 4 + unat c div 64) (unat c mod 64) = c" unfolding join4_def t by simp
qed

lemma digit_ranges:
  fixes a b c :: byte
  shows "unat a div 4 < 64" "unat a mod 4 * 16 < 64" "unat a mod 4 * 16 + unat b div 16 < 64"
    "unat b mod 16 * 4 < 64" "unat b mod 16 * 4 + unat c div 64 < 64" "unat c mod 64 < 64"
proof -
  have lt: "unat b div 16 < 16" "unat c div 64 < 4" "unat a div 4 < 64"
    using unat_byte_less [of a] unat_byte_less [of b] unat_byte_less [of c] by (simp_all add: less_mult_imp_div_less)
  have "unat a mod 4 < 4" "unat b mod 16 < 16" by simp_all
  with lt show "unat a div 4 < 64" "unat a mod 4 * 16 < 64" "unat a mod 4 * 16 + unat b div 16 < 64"
    "unat b mod 16 * 4 < 64" "unat b mod 16 * 4 + unat c div 64 < 64" "unat c mod 64 < 64"
    by linarith+
qed

text \<open>The digits alone, as the unpadded encodings have them.\<close>

fun b64_raw :: "byte list \<Rightarrow> string" where
  "b64_raw [] = []"
| "b64_raw [a] = [b64_digit False (unat a div 4), b64_digit False (unat a mod 4 * 16)]"
| "b64_raw [a, b] = [b64_digit False (unat a div 4), b64_digit False (unat a mod 4 * 16 + unat b div 16),
     b64_digit False (unat b mod 16 * 4)]"
| "b64_raw (a # b # c # bs) =
     b64_digit False (unat a div 4) # b64_digit False (unat a mod 4 * 16 + unat b div 16)
     # b64_digit False (unat b mod 16 * 4 + unat c div 64) # b64_digit False (unat c mod 64) # b64_raw bs"

lemma b64_encode_raw: "\<exists>k. b64_encode bs = b64_raw bs @ replicate k CHR ''=''"
proof (induction bs rule: b64_raw.induct)
  case 1
  show ?case by (intro exI [of _ 0]) simp
next
  case (2 a)
  show ?case by (intro exI [of _ "Suc (Suc 0)"]) simp
next
  case (3 a b)
  show ?case by (intro exI [of _ 1]) simp
qed auto

lemma b64_raw_ok: "list_all (\<lambda>ch. graphic ch \<and> ch \<noteq> CHR ''='') (b64_raw bs)"
  by (induction bs rule: b64_raw.induct) (simp_all add: b64_digit_char digit_ranges)

lemma b64_raw_chars: "ch \<in> set (b64_raw bs) \<Longrightarrow> graphic ch \<and> ch \<noteq> CHR ''=''"
  using b64_raw_ok [of bs] by (auto simp: list_all_iff)

lemma b64_val_url:
  assumes "d < 64" and "b64_digit False d \<noteq> CHR ''+''" and "b64_digit False d \<noteq> CHR ''/''"
  shows "b64_val True (b64_digit False d) = Some d"
proof -
  have "\<forall>d\<in>set [0..<64]. b64_digit False d = CHR ''+'' \<or> b64_digit False d = CHR ''/'' \<or> b64_val True (b64_digit False d) = Some d"
    by code_simp
  then show ?thesis using assms by auto
qed

lemma b64_val_either:
  "d < 64 \<Longrightarrow> \<not> url \<or> b64_digit False d \<noteq> CHR ''+'' \<and> b64_digit False d \<noteq> CHR ''/''
    \<Longrightarrow> b64_val url (b64_digit False d) = Some d"
  by (cases url) (simp_all add: b64_val_url)

lemma b64_quads_raw:
  assumes "\<not> url \<or> CHR ''+'' \<notin> set (b64_raw bs) \<and> CHR ''/'' \<notin> set (b64_raw bs)"
  shows "b64_quads url False (b64_raw bs) = Some bs"
  using assms
  by (induction bs rule: b64_raw.induct) (auto simp: b64_val_either digit_ranges join_bytes)

lemma b64_quads_encode: "b64_quads False True (b64_encode bs) = Some bs"
proof -
  have "b64_val False CHR ''='' = None" by code_simp
  then show ?thesis by (induction bs rule: b64_encode.induct) (simp_all add: digit_ranges join_bytes)
qed

lemma graphic_no_newline: "list_all graphic s \<Longrightarrow> filter (\<lambda>c. c \<noteq> CHR 0x0A \<and> c \<noteq> CHR 0x0D) s = s"
  by (induction s) (auto simp: graphic_def less_eq_char_def)

lemma b64_encode_graphic: "list_all graphic (b64_encode bs)"
  using b64_encode_raw [of bs] b64_raw_chars [of _ bs] by (auto simp: list_all_iff graphic_def less_eq_char_def)

lemma StdEncoding_roundtrip [simp]: "StdEncoding_DecodeString (b64_encode bs) = Some bs"
  by (simp add: b64_decode_def graphic_no_newline [OF b64_encode_graphic] b64_quads_encode)

lemma Raw_roundtrip:
  "\<not> url \<or> CHR ''+'' \<notin> set (b64_raw bs) \<and> CHR ''/'' \<notin> set (b64_raw bs) \<Longrightarrow> b64_decode url False (b64_raw bs) = Some bs"
  using b64_quads_raw [of url bs] b64_raw_chars [of _ bs] by (simp add: b64_decode_def graphic_no_newline list_all_iff)

lemma length_b64_encode: "length (b64_encode bs) = 4 * ((length bs + 2) div 3)"
proof (induction bs rule: b64_encode.induct)
  case (4 a b c bs)
  have "(n + 3) div 3 = Suc (n div 3)" for n :: nat by simp
  from this [of "length bs + 2"] 4 show ?case by (simp add: add.commute)
qed simp_all

end
