(* ===== verification/Wg_Keys.thy ===== *)
theory Wg_Keys
  imports Go_Base64
begin

text \<open>
  \<open>internal/util/wireguard/wireguard.go\<close>: key pairs, pre-shared keys and the two written forms of a
  key.  Curve25519 is not under the repository: multiplication with the base point is the parameter
  \<open>baseMult\<close>, about which nothing is assumed.  \<open>crypto/rand\<close> does not fail in the Go release the
  module names.
\<close>

unbundle bit_operations_syntax

section \<open>Reading a key\<close>

datatype key_error = EmptyKey | NotBase64 | Not32Bytes

definition trim_right :: "char \<Rightarrow> string \<Rightarrow> string" where
  "trim_right c s = rev (dropWhile (\<lambda>x. x = c) (rev s))"

definition decodeWireguardKey :: "string \<Rightarrow> key_error + byte list" where
  "decodeWireguardKey key =
     (if key = [] then Inl EmptyKey
      else case (if length key = 64 then hex_decode key else None) of
        Some raw \<Rightarrow> if length raw \<noteq> 32 then Inl Not32Bytes else Inr raw
      | None \<Rightarrow>
          (let trimmed = trim_right CHR ''='' key;
               raw = (if CHR ''+'' \<in> set trimmed \<or> CHR ''/'' \<in> set trimmed
                      then RawStdEncoding_DecodeString trimmed else RawURLEncoding_DecodeString trimmed)
           in case raw of None \<Rightarrow> Inl NotBase64
              | Some raw \<Rightarrow> if length raw \<noteq> 32 then Inl Not32Bytes else Inr raw))"

section \<open>Making keys\<close>

definition clamp :: "byte list \<Rightarrow> byte list" where
  "clamp priv = (let priv = priv[0 := priv ! 0 AND 248]; priv = priv[31 := priv ! 31 AND 127]
     in priv[31 := priv ! 31 OR 64])"

definition GenerateWireguardKeypair :: "(byte list \<Rightarrow> byte list) \<Rightarrow> rng \<Rightarrow> (string \<times> string) \<times> rng" where
  "GenerateWireguardKeypair baseMult rs =
     (let (priv, rs) = randomBytes 32 rs; priv = clamp priv; pub = baseMult priv
      in ((b64_encode priv, b64_encode pub), rs))"

definition GenerateWireguardPSK :: "rng \<Rightarrow> string \<times> rng" where
  "GenerateWireguardPSK rs = (let (psk, rs) = randomBytes 32 rs in (b64_encode psk, rs))"

definition PublicKeyFromPrivate :: "(byte list \<Rightarrow> byte list) \<Rightarrow> string \<Rightarrow> key_error + string" where
  "PublicKeyFromPrivate baseMult privateKey =
     (case decodeWireguardKey privateKey of Inl e \<Rightarrow> Inl e | Inr priv \<Rightarrow> Inr (b64_encode (baseMult priv)))"

definition KeyToHex :: "string \<Rightarrow> key_error + string" where
  "KeyToHex key = (if key = [] then Inr []
     else case decodeWireguardKey key of Inl e \<Rightarrow> Inl e | Inr raw \<Rightarrow> Inr (hex_encode raw))"

section \<open>Both written forms are read\<close>

lemma trim_right_raw:
  "trim_right CHR ''='' (b64_encode bs) = b64_raw bs"
proof -
  obtain k where k: "b64_encode bs = b64_raw bs @ replicate k CHR ''=''" using b64_encode_raw by blast
  have d: "dropWhile (\<lambda>x. x = c) (replicate k c @ r) = dropWhile (\<lambda>x. x = c) r" for c and r :: string
    by (induction k) simp_all
  have "dropWhile (\<lambda>x. x = CHR ''='') (rev (b64_raw bs)) = rev (b64_raw bs)"
  proof -
    have "b64_raw bs = [] \<or> last (b64_raw bs) \<noteq> CHR ''=''" using b64_raw_chars last_in_set by blast
    then show ?thesis by (simp add: dropWhile_eq_self_iff hd_rev)
  qed
  then show ?thesis by (simp add: trim_right_def k d)
qed

lemma decode_base64:
  assumes "length bs = 32"
  shows "decodeWireguardKey (b64_encode bs) = Inr bs"
proof -
  have len: "length (b64_encode bs) = 44" by (simp add: length_b64_encode assms)
  then have "b64_encode bs \<noteq> []" "length (b64_encode bs) \<noteq> 64" by auto
  moreover have "(if CHR ''+'' \<in> set (b64_raw bs) \<or> CHR ''/'' \<in> set (b64_raw bs)
      then RawStdEncoding_DecodeString (b64_raw bs) else RawURLEncoding_DecodeString (b64_raw bs)) = Some bs"
    by (simp add: Raw_roundtrip)
  ultimately show ?thesis by (simp add: decodeWireguardKey_def trim_right_raw assms)
qed

lemma decode_hex:
  assumes "length bs = 32"
  shows "decodeWireguardKey (hex_encode bs) = Inr bs"
proof -
  have "length (hex_encode bs) = 64" by (simp add: assms)
  moreover from this have "hex_encode bs \<noteq> []" by (metis list.size(3) zero_neq_numeral)
  ultimately show ?thesis by (simp add: decodeWireguardKey_def assms)
qed

text \<open>A key is read the same from its base64 form and from its hexadecimal form, and rendering it for
  the core is idempotent: the hexadecimal form renders to itself.\<close>

theorem KeyToHex_forms:
  assumes "length bs = 32"
  shows "KeyToHex (b64_encode bs) = Inr (hex_encode bs) \<and> KeyToHex (hex_encode bs) = Inr (hex_encode bs)"
proof -
  have "b64_encode bs \<noteq> []" using length_b64_encode [of bs] assms by auto
  moreover have "hex_encode bs \<noteq> []" using length_hex_encode [of bs] assms by (metis list.size(3) mult_eq_0_iff zero_neq_numeral)
  ultimately show ?thesis by (simp add: KeyToHex_def decode_base64 decode_hex assms)
qed

theorem KeyToHex_forms_witness:
  "KeyToHex (b64_encode (replicate 32 7)) = Inr (hex_encode (replicate 32 7)) \<and>
   KeyToHex (hex_encode (replicate 32 7)) = Inr (hex_encode (replicate 32 7))"
  by (rule KeyToHex_forms) simp

lemma length_clamp [simp]: "length (clamp bs) = length bs"
  by (simp add: clamp_def Let_def)

text \<open>The public key derived later from a stored private key is the one that was generated with it,
  and the private key is a clamped Curve25519 scalar, whatever the draws.\<close>

theorem generated_pair_matches:
  "case GenerateWireguardKeypair baseMult rs of ((priv, pub), _) \<Rightarrow>
     PublicKeyFromPrivate baseMult priv = Inr pub \<and>
     (\<exists>k. decodeWireguardKey priv = Inr k \<and> length k = 32 \<and> k ! 0 AND 7 = 0 \<and> k ! 31 AND 192 = 64)"
proof -
  obtain bs rs' where r: "randomBytes 32 rs = (bs, rs')" by fastforce
  then have len: "length bs = 32" by (rule randomBytes_length)
  have d: "decodeWireguardKey (b64_encode (clamp bs)) = Inr (clamp bs)" using len by (intro decode_base64) simp
  have b0: "(b AND 248) AND 7 = 0" and b31: "((b AND 127) OR 64) AND 192 = 64" for b :: byte
    by (simp_all add: and.assoc bit.conj_disj_distrib2)
  have "clamp bs ! 0 AND 7 = 0" "clamp bs ! 31 AND 192 = 64"
    by (simp_all add: clamp_def Let_def len b0 b31)
  with d len show ?thesis
    by (simp add: GenerateWireguardKeypair_def r PublicKeyFromPrivate_def Let_def)
qed

end
