(* ===== verification/Wg_Alloc.thy ===== *)
theory Wg_Alloc
  imports Go_Prefix Awg_Instance Wg_Keys
begin

text \<open>
  \<open>internal/web/service/client_wireguard.go\<close>: the tunnel addresses of clients.  A new client gets the
  first free host of its inbound's subnet; addresses an administrator enters are brought into
  canonical form and refused when another client holds them.
\<close>

section \<open>Choosing an address\<close>

datatype tunnel_error = BadBase string | NoFreeAddress string | BadAllowedIPs string | NoUsableEntry
  | EntryUsed string | EntryUsedOn string string | BadKey key_error | BadSettings | MissingServer

definition defaultWireguardBase :: string where
  "defaultWireguardBase = ''10.0.0.0/24''"

definition wireguardHostAddr :: "string \<Rightarrow> addr option" where
  "wireguardHostAddr s0 =
     (let s = trim_space s0 in
      if s = [] then None
      else case ParsePrefix s of Some p \<Rightarrow> Some (fst p) | None \<Rightarrow> ParseAddr s)"

definition IsUnspecified :: "addr \<Rightarrow> bool" where
  "IsUnspecified a = (a = V4 0 \<or> a = V6 0 [])"

fun wireguardAllocationBase :: "string list \<Rightarrow> string \<Rightarrow> string" where
  "wireguardAllocationBase [] fallback = fallback"
| "wireguardAllocationBase (u # us) fallback =
     (case wireguardHostAddr u of
        None \<Rightarrow> wireguardAllocationBase us fallback
      | Some a \<Rightarrow> if \<not> Is4 a \<or> IsUnspecified a then wireguardAllocationBase us fallback
                 else prefix_String (addr_Prefix a 24))"

definition wireguardPoolFloorBits :: nat where
  "wireguardPoolFloorBits = 16"

text \<open>The end of a block, which the scan cannot pass.\<close>

definition block_end :: "addr \<times> nat \<Rightarrow> int" where
  "block_end p = (case p of (V4 q, b) \<Rightarrow> (q div 2 ^ (32 - b) + 1) * 2 ^ (32 - b)
     | (V6 q _, b) \<Rightarrow> (q div 2 ^ (128 - b) + 1) * 2 ^ (128 - b))"

lemma div_block_end:
  assumes "0 < B" and "n div B = q div B"
  shows "n < (q div B + 1) * (B :: int)"
proof -
  have "n = B * (n div B) + n mod B" "n mod B < B" using assms(1) by simp_all
  then have "n < B * (n div B) + B" by linarith
  then show ?thesis unfolding assms(2) by (simp add: algebra_simps)
qed

lemma Contains_block_end:
  assumes "Contains p a"
  shows "addr_num a < block_end p"
proof -
  obtain q b where "p = (q, b)" by fastforce
  with assms show ?thesis
    by (cases q; cases a) (simp_all add: Contains_def block_end_def addr_num_def div_block_end)
qed

lemma Next_num: "Next a = Some b \<Longrightarrow> b = with_num a (addr_num a + 1)"
  by (auto simp: Next_def addr_view split: addr.splits if_splits)

lemma addr_num_with [simp]: "addr_num (with_num a k) = k"
  by (cases a) (simp_all add: addr_view)

function first_free :: "addr list \<Rightarrow> addr \<times> nat \<Rightarrow> addr option \<Rightarrow> addr option" where
  "first_free taken scope None = None"
| "first_free taken scope (Some a) =
     (if Contains scope a then
        if a \<notin> set taken then Some a else first_free taken scope (Next a)
      else None)"
  by pat_completeness auto
termination
  by (relation "measure (\<lambda>(taken, scope, a). case a of None \<Rightarrow> 0 | Some a \<Rightarrow> Suc (nat (block_end scope - addr_num a)))")
    (auto simp: split: option.splits dest!: Next_num Contains_block_end)

declare first_free.simps(2) [simp del]

definition pool_start :: "addr \<times> nat \<Rightarrow> addr option" where
  "pool_start scope = Option.bind (Next (Masked scope)) Next"

fun scan_scopes :: "addr list \<Rightarrow> (addr \<times> nat) list \<Rightarrow> addr option" where
  "scan_scopes taken [] = None"
| "scan_scopes taken (scope # scopes) =
     (case first_free taken scope (pool_start scope) of
        Some a \<Rightarrow> Some a | None \<Rightarrow> scan_scopes taken scopes)"

definition pool_scopes :: "bool \<Rightarrow> addr \<times> nat \<Rightarrow> (addr \<times> nat) list" where
  "pool_scopes allowWidening pfx = pfx #
     (if allowWidening \<and> Is4 (fst pfx) \<and> snd pfx > wireguardPoolFloorBits
      then [addr_Prefix (fst pfx) wireguardPoolFloorBits] else [])"

definition allocateWireguardAddress :: "string list \<Rightarrow> string \<Rightarrow> bool \<Rightarrow> tunnel_error + string" where
  "allocateWireguardAddress used base0 allowWidening =
     (let base = (if base0 = [] then defaultWireguardBase else base0) in
      case ParsePrefix base of None \<Rightarrow> Inl (BadBase base) | Some pfx \<Rightarrow>
        (let hostBits = (if Is6 (fst pfx) then ''128'' else ''32'');
             taken = List.map_filter wireguardHostAddr used;
             scopes = pool_scopes allowWidening pfx
         in case scan_scopes taken scopes of
              Some a \<Rightarrow> Inr (addr_String (Some a) @ ''/'' @ hostBits)
            | None \<Rightarrow> Inl (NoFreeAddress (prefix_String (last scopes)))))"

section \<open>Entries an administrator makes\<close>

definition entry_prefix :: "string \<Rightarrow> (addr \<times> nat) option" where
  "entry_prefix v = (case ParsePrefix v of Some p \<Rightarrow> Some p
     | None \<Rightarrow> (case ParseAddr v of None \<Rightarrow> None | Some a \<Rightarrow> Some (PrefixFrom a (BitLen a))))"

fun normalize_loop :: "string list \<Rightarrow> string list \<Rightarrow> tunnel_error + string list" where
  "normalize_loop [] out = Inr out"
| "normalize_loop (v # vs) out =
     (let v = trim_space v in
      if v = [] then normalize_loop vs out
      else case entry_prefix v of
             None \<Rightarrow> Inl (BadAllowedIPs v)
           | Some p \<Rightarrow> (let n = prefix_String p in
               if n \<in> set out then normalize_loop vs out else normalize_loop vs (out @ [n])))"

definition normalizeWireguardAllowedIPs :: "string list \<Rightarrow> tunnel_error + string list" where
  "normalizeWireguardAllowedIPs values = normalize_loop values []"

text \<open>The first entry in use, the empty text when there is none.\<close>

definition wireguardAllowedIPsCollision :: "string list \<Rightarrow> string list \<Rightarrow> string" where
  "wireguardAllowedIPsCollision entries used =
     (case find (\<lambda>e. e \<in> trim_space ` set used) entries of None \<Rightarrow> [] | Some e \<Rightarrow> e)"

section \<open>The first free address\<close>

lemma Next_eq:
  "addr_ok a \<Longrightarrow> Next a = (if addr_num a + 1 = 2 ^ BitLen a then None else Some (with_num a (addr_num a + 1)))"
  by (cases a) (simp_all add: Next_def addr_view)

lemma Contains_family: "Contains p a \<Longrightarrow> Is6 a = Is6 (fst p) \<and> zoneless a"
  by (cases p; cases a; cases "fst p") (auto simp: Contains_def addr_view)

lemma same_addr:
  "Is6 a = Is6 b \<Longrightarrow> zoneless a \<Longrightarrow> zoneless b \<Longrightarrow> addr_num a = addr_num b \<Longrightarrow> a = b"
  by (cases a; cases b) (auto simp: addr_view)

lemma div_convex: "0 < B \<Longrightarrow> q - q mod B \<le> n \<Longrightarrow> n \<le> k \<Longrightarrow> k div B = q div B \<Longrightarrow> n div B = q div (B :: int)"
proof -
  assume a: "0 < B" "q - q mod B \<le> n" "n \<le> k" "k div B = q div B"
  have "(q - q mod B) div B = q div B" using a(1) by (simp add: minus_mod_eq_div_mult)
  moreover have "(q - q mod B) div B \<le> n div B" "n div B \<le> k div B" using a(1-3) by (simp_all add: zdiv_mono1)
  ultimately show ?thesis using a(4) by linarith
qed

lemma Contains_convex:
  assumes "Contains p b" "Is6 a = Is6 (fst p)" "zoneless a" "addr_num (Masked p) \<le> addr_num a" "addr_num a \<le> addr_num b"
  shows "Contains p a"
proof -
  obtain q l where p: "p = (q, l)" by fastforce
  show ?thesis
    using assms unfolding p
    by (cases q; cases a; cases b)
      (auto simp: Contains_def Masked_def addr_view intro: div_convex [of "2 ^ (32 - l)"] div_convex [of "2 ^ (128 - l)"])
qed

definition free_from :: "addr list \<Rightarrow> addr \<times> nat \<Rightarrow> int \<Rightarrow> addr option \<Rightarrow> bool" where
  "free_from taken scope n r \<longleftrightarrow> (case r of
     Some c \<Rightarrow> addr_ok c \<and> Contains scope c \<and> n \<le> addr_num c \<and> c \<notin> set taken \<and>
       (\<forall>b. addr_ok b \<and> Contains scope b \<and> n \<le> addr_num b \<and> addr_num b < addr_num c \<longrightarrow> b \<in> set taken)
   | None \<Rightarrow> \<forall>b. addr_ok b \<and> Contains scope b \<and> n \<le> addr_num b \<longrightarrow> b \<in> set taken)"

lemma free_from_step:
  assumes "a \<in> set taken" "Contains scope a" "free_from taken scope (addr_num a + 1) r"
  shows "free_from taken scope (addr_num a) r"
proof -
  have "b \<in> set taken \<or> addr_num a + 1 \<le> addr_num b" if "Contains scope b" "addr_num a \<le> addr_num b" for b
    using same_addr [of a b] Contains_family [OF assms(2)] Contains_family [OF that(1)] that(2) assms(1) by force
  then show ?thesis using assms(3) by (cases r) (auto simp: free_from_def)
qed

lemma with_num_simps [simp]:
  "Is6 (with_num a k) = Is6 a" "zoneless (with_num a k) = zoneless a" "BitLen (with_num a k) = BitLen a"
  by (cases a; simp add: addr_view)+

lemma first_free_from:
  assumes "addr_ok a" "zoneless a" "Is6 a = Is6 (fst scope)" "addr_num (Masked scope) \<le> addr_num a"
  shows "free_from taken scope (addr_num a) (first_free taken scope (Some a))"
  using assms
proof (induction taken scope "Some a" arbitrary: a rule: first_free.induct)
  case (2 taken scope a)
  have eq: "first_free taken scope (Some a) =
      (if Contains scope a then if a \<notin> set taken then Some a else first_free taken scope (Next a) else None)"
    by (rule first_free.simps)
  consider "\<not> Contains scope a" | "Contains scope a" "a \<notin> set taken" | "Contains scope a" "a \<in> set taken" by blast
  then show ?case
  proof cases
    case 1
    then have "\<forall>b. addr_ok b \<and> Contains scope b \<and> addr_num a \<le> addr_num b \<longrightarrow> b \<in> set taken"
      using Contains_convex [of scope _ a] "2.prems" by blast
    with 1 show ?thesis by (simp add: eq free_from_def)
  next
    case 2
    then show ?thesis using "2.prems" by (auto simp: eq free_from_def)
  next
    case 3
    show ?thesis
    proof (cases "addr_num a + 1 = 2 ^ BitLen a")
      case True
      have "addr_num b < 2 ^ BitLen a" if "addr_ok b" "Contains scope b" for b
        using that Contains_family [OF that(2)] Contains_family [OF 3(1)] by (simp add: addr_ok_def BitLen_def)
      then have "free_from taken scope (addr_num a + 1) None" using True by (force simp: free_from_def)
      then show ?thesis using free_from_step [OF 3(2,1)] 3 True Next_eq [OF "2.prems"(1)] by (simp add: eq)
    next
      case False
      let ?b = "with_num a (addr_num a + 1)"
      have n: "Next a = Some ?b" using False Next_eq [OF "2.prems"(1)] by simp
      have ok: "addr_ok ?b" using "2.prems"(1) False by (simp add: addr_ok_def)
      have "free_from taken scope (addr_num ?b) (first_free taken scope (Some ?b))"
        using "2.hyps" [OF 3(1) _ n] 3(2) ok "2.prems"(2-4) by simp
      then show ?thesis using free_from_step [OF 3(2,1)] 3 n by (simp add: eq)
    qed
  qed
qed

text \<open>The hosts of a subnet a client may get: all from the third address on, the network address and the
  server's own being the first two.\<close>

definition pool :: "addr \<times> nat \<Rightarrow> addr set" where
  "pool scope = {a. addr_ok a \<and> Contains scope a \<and> addr_num (Masked scope) + 2 \<le> addr_num a}"

lemma Masked_family: "Is6 (Masked p) = Is6 (fst p)" "zoneless (fst p) \<Longrightarrow> zoneless (Masked p)"
  by (cases p; cases "fst p"; simp add: Masked_def addr_view)+

lemma scan_scope:
  assumes "addr_ok (fst scope)" "zoneless (fst scope)"
  shows "case first_free taken scope (pool_start scope) of
      Some c \<Rightarrow> c \<in> pool scope \<and> c \<notin> set taken \<and> (\<forall>b\<in>pool scope. addr_num b < addr_num c \<longrightarrow> b \<in> set taken)
    | None \<Rightarrow> pool scope \<subseteq> set taken"
proof -
  let ?m = "Masked scope"
  have ok: "addr_ok ?m" using Masked_ok [of "fst scope" "snd scope"] assms(1) by simp
  note fam = Masked_family(1) [of scope] Masked_family(2) [OF assms(2)]
  have max: "addr_num b < 2 ^ BitLen ?m" if "b \<in> pool scope" for b
    using that Contains_family [of scope b] fam by (auto simp: pool_def addr_ok_def BitLen_def)
  have pool: "pool scope = {a. addr_ok a \<and> Contains scope a \<and> addr_num ?m + 2 \<le> addr_num a}" by (simp add: pool_def)
  consider "addr_num ?m + 1 = 2 ^ BitLen ?m \<or> addr_num ?m + 2 = 2 ^ BitLen ?m" | "addr_num ?m + 2 < 2 ^ BitLen ?m"
    using ok by (force simp: addr_ok_def)
  then show ?thesis
  proof cases
    case 1
    have "pool_start scope = None"
    proof (cases "addr_num ?m + 1 = 2 ^ BitLen ?m")
      case True
      then show ?thesis using Next_eq [OF ok] by (simp add: pool_start_def)
    next
      case False
      have "addr_ok (with_num ?m (addr_num ?m + 1))" using ok False by (simp add: addr_ok_def)
      then show ?thesis using 1 False Next_eq [OF ok] Next_eq [of "with_num ?m (addr_num ?m + 1)"]
        by (simp add: pool_start_def)
    qed
    moreover have "pool scope = {}" using max 1 by (force simp: pool)
    ultimately show ?thesis by simp
  next
    case 2
    let ?s = "with_num ?m (addr_num ?m + 2)"
    have "addr_ok (with_num ?m (addr_num ?m + 1))" using ok 2 by (simp add: addr_ok_def)
    then have start: "pool_start scope = Some ?s"
      using 2 Next_eq [OF ok] Next_eq [of "with_num ?m (addr_num ?m + 1)"]
      by (cases ?m) (simp_all add: pool_start_def addr_view)
    have "addr_ok ?s" using ok 2 by (simp add: addr_ok_def)
    then have "free_from taken scope (addr_num ?s) (first_free taken scope (Some ?s))"
      by (rule first_free_from) (use fam in simp_all)
    then show ?thesis unfolding start by (auto simp: free_from_def pool split: option.splits)
  qed
qed

definition hosts :: "string list \<Rightarrow> addr set" where
  "hosts used = {a. \<exists>u\<in>set used. wireguardHostAddr u = Some a}"

lemma set_hosts [simp]: "set (List.map_filter wireguardHostAddr used) = hosts used"
  by (force simp: hosts_def List.map_filter_def)

lemma wireguardHostAddr_String:
  assumes "addr_ok a" "zoneless a" "b \<le> BitLen a"
  shows "wireguardHostAddr (prefix_String (a, b)) = Some a"
  using ParsePrefix_String [OF assms] assms(2) by (simp add: wireguardHostAddr_def)

lemma pool_D:
  assumes "a \<in> pool scope"
  shows "addr_ok a \<and> Contains scope a \<and> Is6 a = Is6 (fst scope) \<and> zoneless a"
  using assms Contains_family [of scope a] by (auto simp: pool_def)

lemma pool_scopes_ok:
  assumes "addr_ok (fst p)" "zoneless (fst p)" "scope \<in> set (pool_scopes w p)"
  shows "addr_ok (fst scope) \<and> zoneless (fst scope) \<and> Is6 (fst scope) = Is6 (fst p)"
  using assms Masked_ok [of "withoutZone (fst p)" wireguardPoolFloorBits]
    Masked_family [of "(withoutZone (fst p), wireguardPoolFloorBits)"]
  by (auto simp: pool_scopes_def addr_Prefix_def Is4_def Is6_def withoutZone_def split: if_splits addr.splits)

lemma scan_scopes_spec:
  assumes "addr_ok (fst p)" "zoneless (fst p)"
  shows "case scan_scopes taken (pool_scopes w p) of
      Some a \<Rightarrow> \<exists>scope\<in>set (pool_scopes w p). a \<in> pool scope \<and> a \<notin> set taken \<and>
        (\<forall>b\<in>pool scope. addr_num b < addr_num a \<longrightarrow> b \<in> set taken) \<and> (scope \<noteq> p \<longrightarrow> pool p \<subseteq> set taken)
    | None \<Rightarrow> \<forall>scope\<in>set (pool_scopes w p). pool scope \<subseteq> set taken"
proof -
  have scan: "case first_free taken scope (pool_start scope) of
      Some c \<Rightarrow> c \<in> pool scope \<and> c \<notin> set taken \<and> (\<forall>b\<in>pool scope. addr_num b < addr_num c \<longrightarrow> b \<in> set taken)
    | None \<Rightarrow> pool scope \<subseteq> set taken" if "scope \<in> set (pool_scopes w p)" for scope
    using scan_scope [of scope taken] pool_scopes_ok [OF assms that] by simp
  obtain scopes where ps: "pool_scopes w p = p # scopes" "scopes = [] \<or> (\<exists>wide. scopes = [wide])"
    by (simp add: pool_scopes_def)
  show ?thesis
  proof (cases "first_free taken p (pool_start p)")
    case (Some c)
    then show ?thesis using scan [of p] ps by auto
  next
    case None
    then have sub: "pool p \<subseteq> set taken" using scan [of p] ps by simp
    show ?thesis
    proof (cases scopes)
      case Nil
      then show ?thesis using ps None sub by simp
    next
      case (Cons wide rest)
      then have ps: "pool_scopes w p = [p, wide]" using ps by simp
      show ?thesis
        using scan [of wide] sub None by (cases "first_free taken wide (pool_start wide)") (auto simp: ps)
    qed
  qed
qed

lemma allocate_spec:
  assumes "ParsePrefix (if base = [] then defaultWireguardBase else base) = Some p"
  shows "case allocateWireguardAddress used base widen of
      Inr s \<Rightarrow> \<exists>scope\<in>set (pool_scopes widen p). \<exists>a\<in>pool scope.
        s = prefix_String (a, BitLen a) \<and> wireguardHostAddr s = Some a \<and> a \<notin> hosts used \<and>
        (\<forall>b\<in>pool scope. addr_num b < addr_num a \<longrightarrow> b \<in> hosts used) \<and> (scope \<noteq> p \<longrightarrow> pool p \<subseteq> hosts used)
    | Inl e \<Rightarrow> \<forall>scope\<in>set (pool_scopes widen p). pool scope \<subseteq> hosts used"
proof -
  let ?taken = "List.map_filter wireguardHostAddr used"
  have p: "addr_ok (fst p)" "zoneless (fst p)" using ParsePrefix_ok [of _ "fst p" "snd p"] assms by simp_all
  note spec = scan_scopes_spec [OF p, where taken = ?taken and w = widen, unfolded set_hosts]
  show ?thesis
  proof (cases "scan_scopes ?taken (pool_scopes widen p)")
    case None
    then show ?thesis using spec by (simp add: allocateWireguardAddress_def Let_def assms)
  next
    case (Some a)
    then obtain scope where s: "scope \<in> set (pool_scopes widen p)" "a \<in> pool scope" "a \<notin> hosts used"
      "\<forall>b\<in>pool scope. addr_num b < addr_num a \<longrightarrow> b \<in> hosts used" "scope \<noteq> p \<longrightarrow> pool p \<subseteq> hosts used"
      using spec by auto
    have a: "addr_ok a" "Is6 a = Is6 (fst p)" "zoneless a" using pool_D [OF s(2)] pool_scopes_ok [OF p s(1)] by simp_all
    have bits: "''128'' = itoa_nat 128" "''32'' = itoa_nat 32" by code_simp+
    have "allocateWireguardAddress used base widen = Inr (prefix_String (a, BitLen a))"
      using Some a(2) by (simp add: allocateWireguardAddress_def Let_def assms prefix_String_def BitLen_def bits)
    moreover have "wireguardHostAddr (prefix_String (a, BitLen a)) = Some a"
      using a by (intro wireguardHostAddr_String) simp_all
    ultimately show ?thesis using s by auto
  qed
qed

text \<open>C13: The address handed out is the first host of the subnet (from the one after the server's own)
  that no listed entry names, read back from its own text; the enclosing /16 is used only when the subnet
  has none left; and an error means that every host of every scope is taken.\<close>

theorem allocateWireguardAddress_first_free:
  assumes "ParsePrefix (if base = [] then defaultWireguardBase else base) = Some p"
  shows "case allocateWireguardAddress used base widen of
      Inr s \<Rightarrow> \<exists>scope\<in>set (pool_scopes widen p). \<exists>a\<in>pool scope.
        s = prefix_String (a, BitLen a) \<and> wireguardHostAddr s = Some a \<and> a \<notin> hosts used \<and>
        (\<forall>b\<in>pool scope. addr_num b < addr_num a \<longrightarrow> b \<in> hosts used) \<and> (scope \<noteq> p \<longrightarrow> pool p \<subseteq> hosts used)
    | Inl e \<Rightarrow> \<forall>scope\<in>set (pool_scopes widen p). pool scope \<subseteq> hosts used"
  using assms by (rule allocate_spec)

theorem allocateWireguardAddress_witness:
  "allocateWireguardAddress [''10.0.0.2/24'', '' 10.0.0.3 ''] ''10.0.0.9/29'' False = Inr ''10.0.0.10/32'' \<and>
   V4 0x0A00000A \<notin> hosts [''10.0.0.2/24'', '' 10.0.0.3 '']"
proof -
  let ?r = "allocateWireguardAddress [''10.0.0.2/24'', '' 10.0.0.3 ''] ''10.0.0.9/29'' False"
  have r: "?r = Inr ''10.0.0.10/32''" by code_simp
  have "ParsePrefix (if ''10.0.0.9/29'' = [] then defaultWireguardBase else ''10.0.0.9/29'') = Some (V4 0x0A000009, 29)"
    by code_simp
  from allocateWireguardAddress_first_free [OF this, where used = "[''10.0.0.2/24'', '' 10.0.0.3 '']" and widen = False]
  obtain a where "wireguardHostAddr ''10.0.0.10/32'' = Some a" "a \<notin> hosts [''10.0.0.2/24'', '' 10.0.0.3 '']"
    unfolding r by auto
  moreover have "wireguardHostAddr ''10.0.0.10/32'' = Some (V4 0x0A00000A)" by code_simp
  ultimately show ?thesis using r by simp
qed

section \<open>Canonical entries\<close>

definition canonical :: "string \<Rightarrow> bool" where
  "canonical e \<longleftrightarrow> (\<exists>a b. e = prefix_String (a, b) \<and> addr_ok a \<and> zoneless a \<and> b \<le> BitLen a)"

lemma entry_prefix_canonical: "entry_prefix v = Some p \<Longrightarrow> canonical (prefix_String p)"
proof -
  assume p: "entry_prefix v = Some p"
  obtain a b where ab: "p = (a, b)" by fastforce
  have "addr_ok a \<and> zoneless a \<and> b \<le> BitLen a"
    using p ParsePrefix_ok [of v a b]
    by (auto simp: entry_prefix_def PrefixFrom_def ab dest: ParseAddr_ok split: option.splits)
  then show ?thesis unfolding canonical_def ab by blast
qed

lemma canonical_facts:
  assumes "canonical e"
  shows "trim_space e = e" "list_all graphic e" "e \<noteq> []" "\<exists>p. entry_prefix e = Some p \<and> prefix_String p = e"
proof -
  obtain a b where e: "e = prefix_String (a, b)" "addr_ok a" "zoneless a" "b \<le> BitLen a"
    using assms by (auto simp: canonical_def)
  show "trim_space e = e" "list_all graphic e" "e \<noteq> []" using e prefix_String_graphic by simp_all
  show "\<exists>p. entry_prefix e = Some p \<and> prefix_String p = e"
    using ParsePrefix_String [OF e(2-4)] e(1) by (simp add: entry_prefix_def)
qed

lemma normalize_loop_Inr:
  "normalize_loop vs out = Inr es \<Longrightarrow> distinct out \<Longrightarrow> list_all canonical out \<Longrightarrow>
    distinct es \<and> list_all canonical es \<and>
    set es = set out \<union> prefix_String ` {p. \<exists>v\<in>set vs. trim_space v \<noteq> [] \<and> entry_prefix (trim_space v) = Some p}"
proof (induction vs arbitrary: out)
  case (Cons v vs)
  let ?v = "trim_space v"
  show ?case
  proof (cases "?v = []")
    case True
    with Cons.prems have "normalize_loop vs out = Inr es" by (simp add: Let_def)
    from Cons.IH [OF this Cons.prems(2,3)] True show ?thesis by auto
  next
    case False
    with Cons.prems(1) obtain p where p: "entry_prefix ?v = Some p" by (auto simp: Let_def split: option.splits)
    have c: "canonical (prefix_String p)" using p by (rule entry_prefix_canonical)
    let ?out = "if prefix_String p \<in> set out then out else out @ [prefix_String p]"
    have "normalize_loop vs ?out = Inr es" using Cons.prems(1) False p by (simp add: Let_def split: if_splits)
    from Cons.IH [OF this] Cons.prems(2,3) c
    have "distinct es \<and> list_all canonical es \<and>
      set es = set ?out \<union> prefix_String ` {p. \<exists>v\<in>set vs. trim_space v \<noteq> [] \<and> entry_prefix (trim_space v) = Some p}"
      by (simp split: if_splits)
    then show ?thesis using False p by (auto split: if_splits)
  qed
qed auto

lemma normalize_loop_Inl:
  "normalize_loop vs out = Inl e \<Longrightarrow> \<exists>v\<in>set vs. trim_space v \<noteq> [] \<and> entry_prefix (trim_space v) = None"
  by (induction vs arbitrary: out) (auto simp: Let_def split: if_splits option.splits)

lemma normalize_canonical:
  "list_all canonical es \<Longrightarrow> distinct (out @ es) \<Longrightarrow> normalize_loop es out = Inr (out @ es)"
proof (induction es arbitrary: out)
  case (Cons e es)
  then have c: "canonical e" by simp
  from canonical_facts(4) [OF c] obtain p where p: "entry_prefix e = Some p" "prefix_String p = e" by blast
  show ?case using Cons canonical_facts(1,3) [OF c] p by (auto simp: Let_def)
qed simp

text \<open>Bringing the entered addresses into canonical form keeps exactly the prefixes they name, without
  repetitions and in printable text only, does not change what is already canonical, and fails exactly when
  an entry that is not blank names no prefix.\<close>

theorem normalizeWireguardAllowedIPs_correct:
  "case normalizeWireguardAllowedIPs vs of
      Inr es \<Rightarrow> distinct es \<and> list_all (list_all graphic) es \<and> normalizeWireguardAllowedIPs es = Inr es \<and>
        set es = prefix_String ` {p. \<exists>v\<in>set vs. trim_space v \<noteq> [] \<and> entry_prefix (trim_space v) = Some p} \<and>
        list_all (\<lambda>v. trim_space v = [] \<or> entry_prefix (trim_space v) \<noteq> None) vs
    | Inl e \<Rightarrow> \<exists>v\<in>set vs. trim_space v \<noteq> [] \<and> entry_prefix (trim_space v) = None"
proof (cases "normalizeWireguardAllowedIPs vs")
  case (Inl e)
  then show ?thesis using normalize_loop_Inl by (auto simp: normalizeWireguardAllowedIPs_def)
next
  case (Inr es)
  then have loop: "normalize_loop vs [] = Inr es" by (simp add: normalizeWireguardAllowedIPs_def)
  note r = normalize_loop_Inr [OF loop]
  have "list_all canonical es" "distinct es" using r by simp_all
  then have same: "normalizeWireguardAllowedIPs es = Inr es"
    using normalize_canonical [of es "[]"] by (simp add: normalizeWireguardAllowedIPs_def)
  have "normalize_loop vs out = Inr es \<Longrightarrow> list_all (\<lambda>v. trim_space v = [] \<or> entry_prefix (trim_space v) \<noteq> None) vs" for out
    by (induction vs arbitrary: out) (auto simp: Let_def split: if_splits option.splits)
  then have "list_all (\<lambda>v. trim_space v = [] \<or> entry_prefix (trim_space v) \<noteq> None) vs" using loop by blast
  moreover have "list_all (list_all graphic) es"
    using \<open>list_all canonical es\<close> by (rule list.pred_mono_strong) (rule canonical_facts(2))
  ultimately show ?thesis using same r unfolding Inr by simp
qed

theorem normalizeWireguardAllowedIPs_witness:
  "normalizeWireguardAllowedIPs ['' 10.0.0.7'', ''10.0.0.7/32'', ''fe80::0:1%eth0''] = Inr [''10.0.0.7/32'', ''fe80::1/128''] \<and>
   normalizeWireguardAllowedIPs [''10.0.0.7/32'', ''fe80::1/128''] = Inr [''10.0.0.7/32'', ''fe80::1/128'']"
proof -
  have r: "normalizeWireguardAllowedIPs ['' 10.0.0.7'', ''10.0.0.7/32'', ''fe80::0:1%eth0''] = Inr [''10.0.0.7/32'', ''fe80::1/128'']"
    by code_simp
  then show ?thesis
    using normalizeWireguardAllowedIPs_correct [of "['' 10.0.0.7'', ''10.0.0.7/32'', ''fe80::0:1%eth0'']"] unfolding r by simp
qed

lemma collision_none:
  assumes "[] \<notin> set es"
  shows "wireguardAllowedIPsCollision es used = [] \<longleftrightarrow> set es \<inter> trim_space ` set used = {}"
proof (cases "find (\<lambda>e. e \<in> trim_space ` set used) es")
  case None
  moreover from None have "set es \<inter> trim_space ` set used = {}" by (auto simp: find_None_iff)
  ultimately show ?thesis by (simp add: wireguardAllowedIPsCollision_def)
next
  case (Some e)
  then have "e \<in> set es" "e \<in> trim_space ` set used" by (metis find_Some_iff nth_mem)+
  then show ?thesis using assms Some by (auto simp: wireguardAllowedIPsCollision_def)
qed

lemma host_trim: "trim_space u = trim_space v \<Longrightarrow> wireguardHostAddr u = wireguardHostAddr v"
  by (simp add: wireguardHostAddr_def)

text \<open>What the fillers of new clients need: an allocated entry is canonical and in no use.\<close>

lemma allocate_entry:
  assumes "allocateWireguardAddress used base widen = Inr s"
  shows "canonical s \<and> s \<notin> trim_space ` set used \<and>
    (\<exists>p a. ParsePrefix (if base = [] then defaultWireguardBase else base) = Some p \<and> s = prefix_String (a, BitLen a) \<and>
       Is6 a = Is6 (fst p) \<and> addr_ok a \<and> zoneless a)"
proof -
  obtain p where p: "ParsePrefix (if base = [] then defaultWireguardBase else base) = Some p"
    using assms by (auto simp: allocateWireguardAddress_def Let_def split: option.splits)
  obtain scope a where a: "scope \<in> set (pool_scopes widen p)" "a \<in> pool scope" "s = prefix_String (a, BitLen a)"
    "wireguardHostAddr s = Some a" "a \<notin> hosts used"
    using allocate_spec [OF p, where used = used and widen = widen] unfolding assms by auto
  have pa: "addr_ok (fst p)" "zoneless (fst p)" using ParsePrefix_ok [of _ "fst p" "snd p"] p by simp_all
  have ok: "addr_ok a" "zoneless a" "Is6 a = Is6 (fst p)" using pool_D [OF a(2)] pool_scopes_ok [OF pa a(1)] by simp_all
  have c: "canonical s" using ok a(3) by (auto simp: canonical_def)
  have "s \<noteq> trim_space u" if "u \<in> set used" for u
  proof
    assume "s = trim_space u"
    then have "trim_space u = trim_space s" using canonical_facts(1) [OF c] by (rule trans [OF sym sym])
    then have "wireguardHostAddr u = Some a" using host_trim a(4) by metis
    then have "a \<in> hosts used" using that unfolding hosts_def by blast
    then show False using a(5) by blast
  qed
  then have "s \<notin> trim_space ` set used" by blast
  then show ?thesis using c p ok a(3) by blast
qed

end
