(* ===== verification/Wg_Clients.thy ===== *)
theory Wg_Clients
  imports Wg_Alloc "HOL-Library.AList"
begin

text \<open>
  Filling in new tunnel clients: \<open>defaultWireguardClients\<close> (\<open>client_wireguard.go\<close>),
  \<open>defaultAmneziaWGClients\<close> (\<open>client_amneziawg.go\<close>) and \<open>fillAwgClients\<close> (\<open>client_awg.go\<close>).  The three
  run the same loop over the clients and their raw JSON counterparts and differ in how one client is
  settled.  On an error the code has changed the clients before the failing one; every caller drops them,
  and so does the model.
\<close>

section \<open>Clients\<close>

record tunnel_client = client +
  clPrivateKey :: string
  clKeepAlive :: string

definition KeepAlive_IsZero :: "string \<Rightarrow> bool" where
  "KeepAlive_IsZero k = (let s = trim_space k in s = [] \<or> s = ''0'' \<or> s = ''0-0'')"

definition KeepAlive_String :: "string \<Rightarrow> string" where
  "KeepAlive_String k = trim_space k"

type_synonym settled = "(tunnel_error + tunnel_client) \<times> rng"

definition fill_keys :: "(byte list \<Rightarrow> byte list) \<Rightarrow> tunnel_client \<Rightarrow> rng \<Rightarrow> settled" where
  "fill_keys baseMult c rs =
     (if clPrivateKey c = [] \<and> clPublicKey c = [] then
        (let ((priv, pub), rs) = GenerateWireguardKeypair baseMult rs
         in (Inr (c\<lparr>clPrivateKey := priv, clPublicKey := pub\<rparr>), rs))
      else if clPublicKey c = [] \<and> clPrivateKey c \<noteq> [] then
        (case PublicKeyFromPrivate baseMult (clPrivateKey c) of
           Inl e \<Rightarrow> (Inl (BadKey e), rs) | Inr pub \<Rightarrow> (Inr (c\<lparr>clPublicKey := pub\<rparr>), rs))
      else (Inr c, rs))"

text \<open>The addresses a client came with.  \<open>owners\<close> says on which other inbound an address is used.\<close>

definition checked_entries :: "(string \<times> string) list \<Rightarrow> string list \<Rightarrow> string list \<Rightarrow> tunnel_error + string list" where
  "checked_entries owners used ips =
     (case normalizeWireguardAllowedIPs ips of Inl e \<Rightarrow> Inl e | Inr entries \<Rightarrow>
        if length entries = 0 then Inl NoUsableEntry
        else let hit = wireguardAllowedIPsCollision entries used in
          if hit \<noteq> [] then
            (let place = (case map_of owners hit of None \<Rightarrow> [] | Some l \<Rightarrow> l)
             in if place \<noteq> [] then Inl (EntryUsedOn hit place) else Inl (EntryUsed hit))
          else Inr entries)"

definition set_entries :: "tunnel_error + string list \<Rightarrow> (tunnel_client \<Rightarrow> tunnel_client) \<Rightarrow> settled \<Rightarrow> settled" where
  "set_entries ips upd r = (case r of
     (Inl e, rs) \<Rightarrow> (Inl e, rs)
   | (Inr c, rs) \<Rightarrow> (case ips of Inl e \<Rightarrow> (Inl e, rs) | Inr es \<Rightarrow> (Inr (upd (c\<lparr>clAllowedIPs := es\<rparr>)), rs)))"

section \<open>The loop\<close>

text \<open>The raw counterpart of a client, when it is an object.\<close>

definition set_members :: "(string \<times> json) list \<Rightarrow> json \<Rightarrow> json" where
  "set_members kvs v = (case v of JObj ms \<Rightarrow> JObj (foldl (\<lambda>ms (k, w). AList.update k w ms) ms kvs) | _ \<Rightarrow> v)"

definition raw_members :: "bool \<Rightarrow> tunnel_client \<Rightarrow> (string \<times> json) list" where
  "raw_members withKeepAlive c =
     [(''privateKey'', JStr (clPrivateKey c)), (''publicKey'', JStr (clPublicKey c)),
      (''allowedIPs'', JArr (map JStr (clAllowedIPs c)))]
     @ (if clPreSharedKey c \<noteq> [] then [(''preSharedKey'', JStr (clPreSharedKey c))] else [])
     @ (if withKeepAlive then [(''keepAlive'', JStr (KeepAlive_String (clKeepAlive c)))] else [])"

fun fill_clients ::
  "(string list \<Rightarrow> tunnel_client \<Rightarrow> rng \<Rightarrow> settled) \<Rightarrow> bool \<Rightarrow> tunnel_client list \<Rightarrow> json list \<Rightarrow> string list \<Rightarrow> rng
    \<Rightarrow> (tunnel_error + (tunnel_client list \<times> json list)) \<times> rng" where
  "fill_clients settle ka [] raws used rs = (Inr ([], raws), rs)"
| "fill_clients settle ka (c # cs) raws used rs =
     (case settle used c rs of
        (Inl e, rs) \<Rightarrow> (Inl e, rs)
      | (Inr c, rs) \<Rightarrow>
          (let here = map (set_members (raw_members ka c)) (take 1 raws) in
           case fill_clients settle ka cs (drop 1 raws) (used @ clAllowedIPs c) rs of
             (Inl e, rs) \<Rightarrow> (Inl e, rs)
           | (Inr (cs, raws), rs) \<Rightarrow> (Inr (c # cs, here @ raws), rs)))"

section \<open>WireGuard\<close>

record subnetSettings =
  suIP :: string
  suCIDR :: int

definition subnet_fields :: "subnetSettings field list" where
  "subnet_fields = [fld ''subnetIp'' suIP suIP_update s_string, fld ''subnetCidr'' suCIDR suCIDR_update s_int]"

definition explicitWireguardSubnetBase :: "string \<Rightarrow> string" where
  "explicitWireguardSubnetBase settingsJSON =
     (case Unmarshal (s_struct subnet_fields) \<lparr>suIP = [], suCIDR = 0\<rparr> settingsJSON of (ok, parsed) \<Rightarrow>
        if \<not> ok then []
        else let ip = trim_space (suIP parsed) in
          if ip = [] \<or> suCIDR parsed \<le> 0 then []
          else let base = ip @ ''/'' @ itoa (suCIDR parsed) in
            if ParsePrefix base = None then [] else base)"

definition settle_wireguard ::
  "(byte list \<Rightarrow> byte list) \<Rightarrow> string \<Rightarrow> (string \<times> string) list \<Rightarrow> string list \<Rightarrow> tunnel_client \<Rightarrow> rng \<Rightarrow> settled" where
  "settle_wireguard baseMult base owners used c rs =
     set_entries
       (if length (clAllowedIPs c) = 0
        then (case allocateWireguardAddress used base True of Inl e \<Rightarrow> Inl e | Inr a \<Rightarrow> Inr [a])
        else checked_entries owners used (clAllowedIPs c))
       (\<lambda>c. if KeepAlive_IsZero (clKeepAlive c) then c\<lparr>clKeepAlive := ''25''\<rparr> else c)
       (fill_keys baseMult c rs)"

definition defaultWireguardClients ::
  "(byte list \<Rightarrow> byte list) \<Rightarrow> string \<Rightarrow> client list \<Rightarrow> tunnel_client list \<Rightarrow> json list \<Rightarrow> (string \<times> string) list \<Rightarrow> rng
    \<Rightarrow> (tunnel_error + (tunnel_client list \<times> json list)) \<times> rng" where
  "defaultWireguardClients baseMult settingsJSON existing clients raws crossInboundUsed rs =
     (let used = concat (map clAllowedIPs existing);
          base = explicitWireguardSubnetBase settingsJSON;
          base = (if base = [] then wireguardAllocationBase used defaultWireguardBase else base);
          used = used @ map fst crossInboundUsed
      in fill_clients (settle_wireguard baseMult base crossInboundUsed) True clients raws used rs)"

section \<open>AmneziaWG\<close>

definition defaultAmneziaWGSubnetBases :: "string \<Rightarrow> tunnel_error + (string \<times> string)" where
  "defaultAmneziaWGSubnetBases settingsJSON =
     (case Unmarshal (s_struct settings_fields) \<lparr>isServer = None, isClients = []\<rparr> settingsJSON of (ok, parsed) \<Rightarrow>
        if \<not> ok then Inl BadSettings
        else case isServer parsed of None \<Rightarrow> Inl MissingServer | Some server \<Rightarrow>
          (let cidr = (if ssSubnetCIDR server \<le> 0 then 24 else ssSubnetCIDR server);
               v4Base = ssSubnetIP server @ ''/'' @ itoa cidr;
               v6Base = (if ssIPv6Enabled server \<and> ssIPv6Subnet server \<noteq> [] then ssIPv6Subnet server else [])
           in Inr (v4Base, v6Base)))"

definition settle_amneziawg ::
  "(byte list \<Rightarrow> byte list) \<Rightarrow> string \<Rightarrow> string \<Rightarrow> (string \<times> string) list \<Rightarrow> string list \<Rightarrow> tunnel_client \<Rightarrow> rng \<Rightarrow> settled" where
  "settle_amneziawg baseMult v4Base v6Base owners used c rs =
     set_entries
       (if length (clAllowedIPs c) = 0
        then (case allocateWireguardAddress used v4Base False of Inl e \<Rightarrow> Inl e | Inr a \<Rightarrow>
              if v6Base \<noteq> []
              then (case allocateWireguardAddress used v6Base False of Inl e \<Rightarrow> Inl e | Inr a6 \<Rightarrow> Inr [a, a6])
              else Inr [a])
        else checked_entries owners used (clAllowedIPs c))
       (\<lambda>c. c) (fill_keys baseMult c rs)"

definition defaultAmneziaWGClients ::
  "(byte list \<Rightarrow> byte list) \<Rightarrow> string \<Rightarrow> client list \<Rightarrow> tunnel_client list \<Rightarrow> json list \<Rightarrow> (string \<times> string) list \<Rightarrow> rng
    \<Rightarrow> (tunnel_error + (tunnel_client list \<times> json list)) \<times> rng" where
  "defaultAmneziaWGClients baseMult settingsJSON existing clients raws crossInboundUsed rs =
     (case defaultAmneziaWGSubnetBases settingsJSON of Inl e \<Rightarrow> (Inl e, rs) | Inr (v4Base, v6Base) \<Rightarrow>
        (let used = concat (map clAllowedIPs existing) @ map fst crossInboundUsed
         in fill_clients (settle_amneziawg baseMult v4Base v6Base crossInboundUsed) False clients raws used rs))"

section \<open>Kernel AmneziaWG\<close>

text \<open>The texts of the addresses stored for an identity, under its email and under its public key.\<close>

type_synonym own_map = "(string \<times> string list) list"

definition rememberOwn :: "string \<Rightarrow> string list \<Rightarrow> own_map \<Rightarrow> own_map" where
  "rememberOwn key ips own = (if key = [] then own
     else AList.update key ((case map_of own key of None \<Rightarrow> [] | Some s \<Rightarrow> s) @ map trim_space ips) own)"

definition own_addresses :: "client list \<Rightarrow> own_map" where
  "own_addresses existing = foldl (\<lambda>own c. rememberOwn (clPublicKey c) (clAllowedIPs c)
     (rememberOwn (lower (trim_space (clEmail c))) (clAllowedIPs c) own)) [] existing"

definition awgOwnAllowedIPs :: "own_map \<Rightarrow> tunnel_client \<Rightarrow> string list option" where
  "awgOwnAllowedIPs own c = (case map_of own (lower (trim_space (clEmail c))) of
     Some s \<Rightarrow> Some s
   | None \<Rightarrow> if clPublicKey c \<noteq> [] then map_of own (clPublicKey c) else None)"

definition awgKnownClient :: "client list \<Rightarrow> tunnel_client \<Rightarrow> bool" where
  "awgKnownClient existing c =
     (let email = lower (trim_space (clEmail c)); pub = trim_space (clPublicKey c)
      in list_ex (\<lambda>e. (email \<noteq> [] \<and> lower (trim_space (clEmail e)) = email)
           \<or> (pub \<noteq> [] \<and> trim_space (clPublicKey e) = pub)) existing)"

definition foreign_used :: "own_map \<Rightarrow> tunnel_client \<Rightarrow> string list \<Rightarrow> string list" where
  "foreign_used own c used = (case awgOwnAllowedIPs own c of None \<Rightarrow> used
     | Some self \<Rightarrow> filter (\<lambda>u. trim_space u \<notin> set self) used)"

definition fill_psk :: "bool \<Rightarrow> tunnel_client \<Rightarrow> rng \<Rightarrow> tunnel_client \<times> rng" where
  "fill_psk known c rs = (if clPreSharedKey c = [] \<and> \<not> known
     then (let (psk, rs) = GenerateWireguardPSK rs in (c\<lparr>clPreSharedKey := psk\<rparr>, rs)) else (c, rs))"

definition settle_awg ::
  "(byte list \<Rightarrow> byte list) \<Rightarrow> client list \<Rightarrow> own_map \<Rightarrow> string \<Rightarrow> string \<Rightarrow> string list \<Rightarrow> tunnel_client \<Rightarrow> rng \<Rightarrow> settled" where
  "settle_awg baseMult existing own base keepDefault used c rs =
     (case fill_keys baseMult c rs of
        (Inl e, rs) \<Rightarrow> (Inl e, rs)
      | (Inr c', rs) \<Rightarrow>
          (let (c', rs) = fill_psk (awgKnownClient existing c) c' rs in
           set_entries
             (if length (clAllowedIPs c') = 0
              then (case allocateWireguardAddress used base False of Inl e \<Rightarrow> Inl e | Inr a \<Rightarrow> Inr [a])
              else checked_entries [] (foreign_used own c' used) (clAllowedIPs c'))
             (\<lambda>c. if KeepAlive_IsZero (clKeepAlive c) then c\<lparr>clKeepAlive := keepDefault\<rparr> else c)
             (Inr c', rs)))"

definition fillAwgClients ::
  "(byte list \<Rightarrow> byte list) \<Rightarrow> client list \<Rightarrow> tunnel_client list \<Rightarrow> json list \<Rightarrow> string \<Rightarrow> string list \<Rightarrow> string \<Rightarrow> rng
    \<Rightarrow> (tunnel_error + (tunnel_client list \<times> json list)) \<times> rng" where
  "fillAwgClients baseMult existing clients raws base extraUsed keepDefault0 rs =
     (let keepDefault = (if KeepAlive_IsZero keepDefault0 then ''25'' else keepDefault0);
          used = extraUsed @ concat (map clAllowedIPs existing);
          own = own_addresses existing
      in fill_clients (settle_awg baseMult existing own base keepDefault) True clients raws used rs)"

section \<open>The contract of a settling step\<close>

text \<open>The result of a filler: every client has canonical addresses, its raw counterpart says the same, and a
  client that had a public key keeps its keys.\<close>

definition filled_ok :: "bool \<Rightarrow> tunnel_client list \<Rightarrow> json list \<Rightarrow> tunnel_client list \<Rightarrow> json list \<Rightarrow> bool" where
  "filled_ok ka clients raws cs raws' \<longleftrightarrow>
     length cs = length clients \<and> list_all (\<lambda>c. clAllowedIPs c \<noteq> [] \<and> list_all canonical (clAllowedIPs c)) cs \<and>
     list_all2 (\<lambda>c c'. clEmail c' = clEmail c \<and> (clPublicKey c \<noteq> [] \<longrightarrow> clPublicKey c' = clPublicKey c)) clients cs \<and>
     raws' = map2 (\<lambda>c. set_members (raw_members ka c)) cs raws @ drop (length clients) raws"

text \<open>\<open>own\<close> are the entries a client may share with those in use because they are its own.\<close>

locale tunnel_settle =
  fixes settle :: "string list \<Rightarrow> tunnel_client \<Rightarrow> rng \<Rightarrow> settled"
    and own :: "tunnel_client \<Rightarrow> string set"
  assumes settle_entries: "settle used c rs = (Inr c', rs') \<Longrightarrow>
      clAllowedIPs c' \<noteq> [] \<and> distinct (clAllowedIPs c') \<and> list_all canonical (clAllowedIPs c') \<and>
      set (clAllowedIPs c') \<inter> trim_space ` set used \<subseteq> own c'"
    and settle_identity: "settle used c rs = (Inr c', rs') \<Longrightarrow>
      clEmail c' = clEmail c \<and> (clPublicKey c \<noteq> [] \<longrightarrow> clPublicKey c' = clPublicKey c \<and> clPrivateKey c' = clPrivateKey c)"
begin

lemma settled_trim:
  assumes "settle used c rs = (Inr c', rs')"
  shows "trim_space ` set (clAllowedIPs c') = set (clAllowedIPs c')"
proof -
  have "list_all canonical (clAllowedIPs c')" using settle_entries [OF assms] by blast
  then have "trim_space e = e" if "e \<in> set (clAllowedIPs c')" for e
    using that by (auto simp: list_all_iff intro: canonical_facts(1))
  then show ?thesis by simp
qed

lemma fill_invariant:
  assumes "fill_clients settle ka cs raws used rs = (Inr (cs', raws'), rs')"
  shows "length cs' = length cs \<and> length raws' = length raws \<and>
    list_all (\<lambda>c. clAllowedIPs c \<noteq> [] \<and> distinct (clAllowedIPs c) \<and> list_all canonical (clAllowedIPs c)) cs' \<and>
    list_all (\<lambda>c. set (clAllowedIPs c) \<inter> trim_space ` set used \<subseteq> own c) cs' \<and>
    (\<forall>i<length cs'. \<forall>j<i. set (clAllowedIPs (cs' ! i)) \<inter> set (clAllowedIPs (cs' ! j)) \<subseteq> own (cs' ! i)) \<and>
    raws' = map2 (\<lambda>c. set_members (raw_members ka c)) cs' raws @ drop (length cs) raws \<and>
    list_all2 (\<lambda>c c'. clEmail c' = clEmail c \<and> (clPublicKey c \<noteq> [] \<longrightarrow> clPublicKey c' = clPublicKey c)) cs cs'"
  using assms
proof (induction cs arbitrary: raws used rs cs' raws' rs')
  case (Cons c cs)
  obtain c1 rs1 where s: "settle used c rs = (Inr c1, rs1)"
    using Cons.prems by (auto split: prod.splits sum.splits)
  obtain cs1 raws1 rs2 where f: "fill_clients settle ka cs (drop 1 raws) (used @ clAllowedIPs c1) rs1 = (Inr (cs1, raws1), rs2)"
    using Cons.prems s by (auto simp: Let_def split: prod.splits sum.splits)
  have eq: "cs' = c1 # cs1" "raws' = map (set_members (raw_members ka c1)) (take 1 raws) @ raws1"
    using Cons.prems s f by (auto simp: Let_def)
  note e = settle_entries [OF s] and k = settle_identity [OF s] and ih = Cons.IH [OF f]
  have later: "set (clAllowedIPs (cs1 ! i)) \<inter> (trim_space ` set used \<union> set (clAllowedIPs c1)) \<subseteq> own (cs1 ! i)"
    if "i < length cs1" for i
  proof -
    have un: "trim_space ` set (used @ clAllowedIPs c1) = trim_space ` set used \<union> set (clAllowedIPs c1)"
      by (simp add: image_Un settled_trim [OF s])
    have "list_all (\<lambda>c. set (clAllowedIPs c) \<inter> trim_space ` set (used @ clAllowedIPs c1) \<subseteq> own c) cs1" using ih by blast
    then show ?thesis using that unfolding un list_all_length by blast
  qed
  have "set (clAllowedIPs (cs' ! i)) \<inter> set (clAllowedIPs (cs' ! j)) \<subseteq> own (cs' ! i)" if "i < length cs'" "j < i" for i j
  proof -
    obtain i' where i: "i = Suc i'" using \<open>j < i\<close> by (cases i) auto
    then show ?thesis using later [of i'] ih that by (cases j) (auto simp: eq)
  qed
  moreover have "list_all (\<lambda>c. set (clAllowedIPs c) \<inter> trim_space ` set used \<subseteq> own c) cs'"
  proof -
    have "list_all (\<lambda>c. set (clAllowedIPs c) \<inter> trim_space ` set used \<subseteq> own c) cs1"
      unfolding list_all_length using later by blast
    then show ?thesis using e by (simp add: eq)
  qed
  moreover have "raws' = map2 (\<lambda>c. set_members (raw_members ka c)) cs' raws @ drop (length (c # cs)) raws" "length raws' = length raws"
    using ih by (cases raws; simp add: eq)+
  ultimately show ?case using e k ih by (simp add: eq)
qed simp

lemma fill_ok:
  "fill_clients settle ka cs raws used rs = (Inr (cs', raws'), rs') \<Longrightarrow> filled_ok ka cs raws cs' raws'"
  using fill_invariant [of ka cs raws used rs cs' raws' rs'] by (simp add: filled_ok_def list_all_iff)

end

text \<open>Where no client brings entries of its own, no entry is given twice.\<close>

locale tunnel_settle_strict = tunnel_settle +
  assumes own_empty: "own c = {}"
begin

lemma fill_distinct:
  assumes "fill_clients settle ka cs raws used rs = (Inr (cs', raws'), rs')"
  shows "distinct (concat (map clAllowedIPs cs')) \<and> set (concat (map clAllowedIPs cs')) \<inter> trim_space ` set used = {}"
proof -
  note inv = fill_invariant [OF assms, unfolded own_empty]
  have each: "list_all (\<lambda>c. distinct (clAllowedIPs c)) cs'" using inv by (simp add: list_all_iff)
  have pairs: "\<forall>i<length cs'. \<forall>j<i. set (clAllowedIPs (cs' ! i)) \<inter> set (clAllowedIPs (cs' ! j)) = {}" using inv by simp
  have "distinct (concat (map clAllowedIPs ds))"
    if "list_all (\<lambda>c. distinct (clAllowedIPs c)) ds" "\<forall>i<length ds. \<forall>j<i. set (clAllowedIPs (ds ! i)) \<inter> set (clAllowedIPs (ds ! j)) = {}" for ds
    using that
  proof (induction ds)
    case (Cons d ds)
    have tl: "\<forall>i<length ds. \<forall>j<i. set (clAllowedIPs (ds ! i)) \<inter> set (clAllowedIPs (ds ! j)) = {}"
      using Cons.prems(2) by (metis (no_types, lifting) Suc_less_eq length_Cons nth_Cons_Suc)
    have "set (clAllowedIPs (ds ! i)) \<inter> set (clAllowedIPs d) = {}" if "i < length ds" for i
      using Cons.prems(2) [rule_format, of "Suc i" 0] that by simp
    then have "set (clAllowedIPs d) \<inter> set (concat (map clAllowedIPs ds)) = {}" by (force simp: in_set_conv_nth)
    then show ?case using Cons.IH Cons.prems(1) tl by simp
  qed simp
  moreover have "set (clAllowedIPs c) \<inter> trim_space ` set used = {}" if "c \<in> set cs'" for c
    using inv that by (auto simp: list_all_iff)
  ultimately show ?thesis using each pairs by auto
qed

end

section \<open>The three steps keep the contract\<close>

definition fresh_entries :: "string list \<Rightarrow> string set \<Rightarrow> string list \<Rightarrow> bool" where
  "fresh_entries used own es \<longleftrightarrow> es \<noteq> [] \<and> distinct es \<and> list_all canonical es \<and> set es \<inter> trim_space ` set used \<subseteq> own"

lemma fresh_checked:
  assumes "checked_entries owners used ips = Inr es"
  shows "fresh_entries used own es"
proof -
  have n: "normalizeWireguardAllowedIPs ips = Inr es" "es \<noteq> []" "wireguardAllowedIPsCollision es used = []"
    using assms by (auto simp: checked_entries_def Let_def split: sum.splits if_splits)
  then have d: "distinct es" "list_all canonical es"
    using normalize_loop_Inr [of ips "[]" es] by (simp_all add: normalizeWireguardAllowedIPs_def)
  then have "[] \<notin> set es" using canonical_facts(3) by (auto simp: list_all_iff)
  then have "set es \<inter> trim_space ` set used = {}" using collision_none n(3) by blast
  with d n(2) show ?thesis by (simp add: fresh_entries_def)
qed

lemma fresh_alloc:
  assumes "(case allocateWireguardAddress used base widen of Inl e \<Rightarrow> Inl e | Inr a \<Rightarrow> Inr [a]) = (Inr es :: tunnel_error + string list)"
  shows "fresh_entries used own es"
proof -
  obtain a where a: "allocateWireguardAddress used base widen = Inr a" "es = [a]"
    using assms by (auto split: sum.splits)
  have "canonical a" "a \<notin> trim_space ` set used" using allocate_entry [OF a(1)] by blast+
  then show ?thesis by (simp add: fresh_entries_def a(2))
qed

lemma fill_keys_identity:
  assumes "fill_keys baseMult c rs = (Inr c', rs')"
  shows "clEmail c' = clEmail c \<and> (clPublicKey c \<noteq> [] \<longrightarrow> clPublicKey c' = clPublicKey c \<and> clPrivateKey c' = clPrivateKey c)"
proof (cases "clPublicKey c = []")
  case True
  then show ?thesis using assms by (auto simp: fill_keys_def split: if_splits sum.splits prod.splits)
next
  case False
  then show ?thesis using assms by (simp add: fill_keys_def)
qed

lemma set_entries_Inr:
  assumes "set_entries ips upd r = (Inr c', rs')"
  obtains c es where "r = (Inr c, rs')" "ips = Inr es" "c' = upd (c\<lparr>clAllowedIPs := es\<rparr>)"
proof -
  obtain x rs where r: "r = (x, rs)" by fastforce
  show ?thesis
    using assms that by (cases x; cases ips) (simp_all add: set_entries_def r)
qed

text \<open>What a step does after the addresses leaves them and the identity alone.\<close>

definition keeps :: "(tunnel_client \<Rightarrow> tunnel_client) \<Rightarrow> bool" where
  "keeps upd \<longleftrightarrow> (\<forall>c. clAllowedIPs (upd c) = clAllowedIPs c \<and> clEmail (upd c) = clEmail c \<and>
     clPublicKey (upd c) = clPublicKey c \<and> clPrivateKey (upd c) = clPrivateKey c)"

lemma keeps_simps [simp]:
  "keeps (\<lambda>c. c)" "keeps (\<lambda>c. if P c then c\<lparr>clKeepAlive := k\<rparr> else c)"
  by (simp_all add: keeps_def)

lemma settle_law:
  assumes "set_entries ips upd r = (Inr c', rs')" and "keeps upd"
    and "\<And>c1 rs1. r = (Inr c1, rs1) \<Longrightarrow> clEmail c1 = clEmail c \<and>
      (clPublicKey c \<noteq> [] \<longrightarrow> clPublicKey c1 = clPublicKey c \<and> clPrivateKey c1 = clPrivateKey c)"
    and "\<And>es. ips = Inr es \<Longrightarrow> fresh_entries used own es"
  shows "clAllowedIPs c' \<noteq> [] \<and> distinct (clAllowedIPs c') \<and> list_all canonical (clAllowedIPs c') \<and>
      set (clAllowedIPs c') \<inter> trim_space ` set used \<subseteq> own"
    and "clEmail c' = clEmail c \<and> (clPublicKey c \<noteq> [] \<longrightarrow> clPublicKey c' = clPublicKey c \<and> clPrivateKey c' = clPrivateKey c)"
proof -
  obtain c1 es where r: "r = (Inr c1, rs')" "ips = Inr es" "c' = upd (c1\<lparr>clAllowedIPs := es\<rparr>)"
    using assms(1) by (rule set_entries_Inr)
  then have c': "clAllowedIPs c' = es" "clEmail c' = clEmail c1" "clPublicKey c' = clPublicKey c1" "clPrivateKey c' = clPrivateKey c1"
    using assms(2) by (simp_all add: keeps_def)
  show "clAllowedIPs c' \<noteq> [] \<and> distinct (clAllowedIPs c') \<and> list_all canonical (clAllowedIPs c') \<and>
      set (clAllowedIPs c') \<inter> trim_space ` set used \<subseteq> own"
    using assms(4) [OF r(2)] by (simp add: c' fresh_entries_def)
  show "clEmail c' = clEmail c \<and> (clPublicKey c \<noteq> [] \<longrightarrow> clPublicKey c' = clPublicKey c \<and> clPrivateKey c' = clPrivateKey c)"
    using assms(3) [OF r(1)] by (simp add: c')
qed

interpretation wg: tunnel_settle_strict "settle_wireguard baseMult base owners" "\<lambda>_. {}"
  for baseMult base owners
proof
  fix used c rs c' rs'
  assume s: "settle_wireguard baseMult base owners used c rs = (Inr c', rs')"
  have ips: "fresh_entries used {} es" if "(if length (clAllowedIPs c) = 0
      then (case allocateWireguardAddress used base True of Inl e \<Rightarrow> Inl e | Inr a \<Rightarrow> Inr [a])
      else checked_entries owners used (clAllowedIPs c)) = Inr es" for es
    using that fresh_alloc fresh_checked by (metis (full_types))
  show "clAllowedIPs c' \<noteq> [] \<and> distinct (clAllowedIPs c') \<and> list_all canonical (clAllowedIPs c') \<and>
      set (clAllowedIPs c') \<inter> trim_space ` set used \<subseteq> {}"
    by (rule settle_law(1) [OF s [unfolded settle_wireguard_def] keeps_simps(2)]) (erule fill_keys_identity, erule ips)
  show "clEmail c' = clEmail c \<and> (clPublicKey c \<noteq> [] \<longrightarrow> clPublicKey c' = clPublicKey c \<and> clPrivateKey c' = clPrivateKey c)"
    by (rule settle_law(2) [OF s [unfolded settle_wireguard_def] keeps_simps(2)]) (erule fill_keys_identity, erule ips)
qed simp

lemma fresh_dual:
  assumes "allocateWireguardAddress used v4Base False = Inr a" and "allocateWireguardAddress used v6Base False = Inr a6"
    and "v4Base \<noteq> []" "v6Base \<noteq> []" and "ParsePrefix v4Base = Some p4" "\<not> Is6 (fst p4)" and "ParsePrefix v6Base = Some p6" "Is6 (fst p6)"
  shows "fresh_entries used own [a, a6]"
proof -
  note e4 = allocate_entry [OF assms(1)] and e6 = allocate_entry [OF assms(2)]
  obtain x where x: "a = prefix_String (x, BitLen x)" "\<not> Is6 x" "addr_ok x" "zoneless x" using e4 assms(3,5,6) by auto
  obtain y where y: "a6 = prefix_String (y, BitLen y)" "Is6 y" "addr_ok y" "zoneless y" using e6 assms(4,7,8) by auto
  have "ParsePrefix a = Some (x, BitLen x)" "ParsePrefix a6 = Some (y, BitLen y)"
    using ParsePrefix_String [OF x(3,4)] ParsePrefix_String [OF y(3,4)] by (simp_all add: x(1) y(1))
  then have "a \<noteq> a6" using x(2) y(2) by auto
  with e4 e6 show ?thesis by (simp add: fresh_entries_def)
qed

lemma amneziawg_settle:
  assumes "v6Base = [] \<or> v4Base \<noteq> [] \<and> (\<exists>p4 p6. ParsePrefix v4Base = Some p4 \<and> \<not> Is6 (fst p4) \<and>
    ParsePrefix v6Base = Some p6 \<and> Is6 (fst p6))"
  shows "tunnel_settle_strict (settle_amneziawg baseMult v4Base v6Base owners) (\<lambda>_. {})"
proof
  fix used c rs c' rs'
  assume s: "settle_amneziawg baseMult v4Base v6Base owners used c rs = (Inr c', rs')"
  have "fresh_entries used {} es"
    if dual: "(case allocateWireguardAddress used v4Base False of Inl e \<Rightarrow> Inl e | Inr a \<Rightarrow>
        if v6Base \<noteq> []
        then (case allocateWireguardAddress used v6Base False of Inl e \<Rightarrow> Inl e | Inr a6 \<Rightarrow> Inr [a, a6])
        else Inr [a]) = (Inr es :: tunnel_error + string list)" for es
  proof (cases "v6Base = []")
    case True
    have "(case allocateWireguardAddress used v4Base False of Inl e \<Rightarrow> Inl e | Inr a \<Rightarrow> Inr [a]) = (Inr es :: tunnel_error + string list)"
      using dual True by (simp split: sum.splits)
    then show ?thesis by (rule fresh_alloc)
  next
    case False
    then obtain a a6 where a: "allocateWireguardAddress used v4Base False = Inr a"
      "allocateWireguardAddress used v6Base False = Inr a6" "es = [a, a6]"
      using dual by (auto split: sum.splits)
    then show ?thesis using fresh_dual [OF a(1,2)] assms False by auto
  qed
  note dual = this
  have ips: "fresh_entries used {} es" if step: "(if length (clAllowedIPs c) = 0
      then (case allocateWireguardAddress used v4Base False of Inl e \<Rightarrow> Inl e | Inr a \<Rightarrow>
        if v6Base \<noteq> []
        then (case allocateWireguardAddress used v6Base False of Inl e \<Rightarrow> Inl e | Inr a6 \<Rightarrow> Inr [a, a6])
        else Inr [a])
      else checked_entries owners used (clAllowedIPs c)) = Inr es" for es
  proof (cases "length (clAllowedIPs c) = 0")
    case True
    show ?thesis by (rule dual) (use step [unfolded if_P [OF True]] in assumption)
  next
    case False
    show ?thesis by (rule fresh_checked) (use step [unfolded if_not_P [OF False]] in assumption)
  qed
  show "clAllowedIPs c' \<noteq> [] \<and> distinct (clAllowedIPs c') \<and> list_all canonical (clAllowedIPs c') \<and>
      set (clAllowedIPs c') \<inter> trim_space ` set used \<subseteq> {}"
    by (rule settle_law(1) [OF s [unfolded settle_amneziawg_def] keeps_simps(1)]) (erule fill_keys_identity, erule ips)
  show "clEmail c' = clEmail c \<and> (clPublicKey c \<noteq> [] \<longrightarrow> clPublicKey c' = clPublicKey c \<and> clPrivateKey c' = clPrivateKey c)"
    by (rule settle_law(2) [OF s [unfolded settle_amneziawg_def] keeps_simps(1)]) (erule fill_keys_identity, erule ips)
qed simp

interpretation amnezia4: tunnel_settle_strict "settle_amneziawg baseMult v4Base [] owners" "\<lambda>_. {}"
  for baseMult v4Base owners
  by (rule amneziawg_settle) simp

definition own_of :: "own_map \<Rightarrow> tunnel_client \<Rightarrow> string set" where
  "own_of own c = (case awgOwnAllowedIPs own c of None \<Rightarrow> {} | Some s \<Rightarrow> set s)"

lemma foreign_used_own: "trim_space ` set used \<subseteq> trim_space ` set (foreign_used own c used) \<union> own_of own c"
  by (auto simp: foreign_used_def own_of_def split: option.splits)

lemma fresh_foreign:
  assumes "fresh_entries (foreign_used own c used) {} es"
  shows "fresh_entries used (own_of own c) es"
  using assms foreign_used_own [of used own c] by (auto simp: fresh_entries_def)

lemma fill_psk_keeps:
  "clEmail (fst (fill_psk known c rs)) = clEmail c" "clPublicKey (fst (fill_psk known c rs)) = clPublicKey c"
  "clPrivateKey (fst (fill_psk known c rs)) = clPrivateKey c" "clAllowedIPs (fst (fill_psk known c rs)) = clAllowedIPs c"
  by (simp_all add: fill_psk_def split: prod.split)

lemma own_of_cong: "clEmail c = clEmail d \<Longrightarrow> clPublicKey c = clPublicKey d \<Longrightarrow> own_of own c = own_of own d"
  by (simp only: own_of_def awgOwnAllowedIPs_def)

interpretation awg: tunnel_settle "settle_awg baseMult existing own base keepDefault" "own_of own"
  for baseMult existing own base keepDefault
proof
  fix used c rs c' rs'
  assume s: "settle_awg baseMult existing own base keepDefault used c rs = (Inr c', rs')"
  obtain c1 rs1 where k: "fill_keys baseMult c rs = (Inr c1, rs1)"
    using s by (auto simp: settle_awg_def split: prod.splits sum.splits)
  obtain c2 rs2 where p: "fill_psk (awgKnownClient existing c) c1 rs1 = (c2, rs2)" by fastforce
  let ?ips = "if length (clAllowedIPs c2) = 0
     then (case allocateWireguardAddress used base False of Inl e \<Rightarrow> Inl e | Inr a \<Rightarrow> Inr [a])
     else checked_entries [] (foreign_used own c2 used) (clAllowedIPs c2)"
  have set: "set_entries ?ips (\<lambda>c. if KeepAlive_IsZero (clKeepAlive c) then c\<lparr>clKeepAlive := keepDefault\<rparr> else c)
     (Inr c2, rs2) = (Inr c', rs')"
    using s by (simp add: settle_awg_def k p)
  have same: "clEmail c2 = clEmail c1" "clPublicKey c2 = clPublicKey c1" "clPrivateKey c2 = clPrivateKey c1"
    using fill_psk_keeps [of "awgKnownClient existing c" c1 rs1] by (simp_all add: p)
  have ips: "fresh_entries used (own_of own c2) es" if "?ips = Inr es" for es
    using that fresh_alloc fresh_foreign [OF fresh_checked] by (metis (full_types))
  have id: "clEmail c2 = clEmail c \<and> (clPublicKey c \<noteq> [] \<longrightarrow> clPublicKey c2 = clPublicKey c \<and> clPrivateKey c2 = clPrivateKey c)"
    using fill_keys_identity [OF k] by (simp add: same)
  obtain es where c': "c' = (if KeepAlive_IsZero (clKeepAlive c2) then (c2\<lparr>clAllowedIPs := es\<rparr>)\<lparr>clKeepAlive := keepDefault\<rparr>
      else c2\<lparr>clAllowedIPs := es\<rparr>)"
    using set by (auto elim!: set_entries_Inr)
  then have own: "own_of own c' = own_of own c2" by (intro own_of_cong) simp_all
  show "clAllowedIPs c' \<noteq> [] \<and> distinct (clAllowedIPs c') \<and> list_all canonical (clAllowedIPs c') \<and>
      set (clAllowedIPs c') \<inter> trim_space ` set used \<subseteq> own_of own c'"
    unfolding own by (rule settle_law(1) [OF set keeps_simps(2)]) (use id ips in auto)
  show "clEmail c' = clEmail c \<and> (clPublicKey c \<noteq> [] \<longrightarrow> clPublicKey c' = clPublicKey c \<and> clPrivateKey c' = clPrivateKey c)"
    by (rule settle_law(2) [OF set keeps_simps(2), where own = "own_of own c2" and used = used]) (use id ips in auto)
qed

section \<open>What the fillers guarantee\<close>


lemma not_Is6: "\<not> Is6 a \<longleftrightarrow> Is4 a"
  by (cases a) (simp_all add: Is4_def Is6_def)

text \<open>The same for AmneziaWG, where a client of a dual-stack inbound gets one address of each family.\<close>

theorem amneziawg_clients_disjoint:
  assumes "defaultAmneziaWGClients baseMult settings existing clients raws cross rs = (Inr (cs, raws'), rs')"
    and "defaultAmneziaWGSubnetBases settings = Inr (v4Base, v6Base)"
    and "v6Base = [] \<or> (\<exists>p4 p6. ParsePrefix v4Base = Some p4 \<and> Is4 (fst p4) \<and> ParsePrefix v6Base = Some p6 \<and> Is6 (fst p6))"
  shows "filled_ok False clients raws cs raws' \<and> distinct (concat (map clAllowedIPs cs)) \<and>
    set (concat (map clAllowedIPs cs)) \<inter> trim_space ` (set (concat (map clAllowedIPs existing)) \<union> fst ` set cross) = {}"
proof -
  have "v4Base \<noteq> []" using assms(2) by (auto simp: defaultAmneziaWGSubnetBases_def Let_def split: prod.splits option.splits if_splits)
  then have "v6Base = [] \<or> v4Base \<noteq> [] \<and> (\<exists>p4 p6. ParsePrefix v4Base = Some p4 \<and> \<not> Is6 (fst p4) \<and>
      ParsePrefix v6Base = Some p6 \<and> Is6 (fst p6))"
    using assms(3) by (auto simp: not_Is6)
  note step = amneziawg_settle [OF this, of baseMult cross]
  have f: "fill_clients (settle_amneziawg baseMult v4Base v6Base cross) False clients raws
      (concat (map clAllowedIPs existing) @ map fst cross) rs = (Inr (cs, raws'), rs')"
    using assms(1,2) by (simp add: defaultAmneziaWGClients_def Let_def)
  show ?thesis
    using tunnel_settle.fill_ok [OF tunnel_settle_strict.axioms(1) [OF step] f] tunnel_settle_strict.fill_distinct [OF step f] by simp
qed

definition entry_set :: "own_map \<Rightarrow> string \<Rightarrow> string set" where
  "entry_set own k = (case map_of own k of None \<Rightarrow> {} | Some s \<Rightarrow> set s)"

lemma remember_entries:
  "entry_set (rememberOwn key ips own) k = entry_set own k \<union> (if k = key \<and> key \<noteq> [] then trim_space ` set ips else {})"
  "map_of (rememberOwn key ips own) k = None \<longleftrightarrow> map_of own k = None \<and> \<not> (k = key \<and> key \<noteq> [])"
  by (auto simp: entry_set_def rememberOwn_def AList.update_conv' split: option.splits)

definition has_key :: "string \<Rightarrow> client \<Rightarrow> bool" where
  "has_key k x \<longleftrightarrow> k \<noteq> [] \<and> (k = lower (trim_space (clEmail x)) \<or> k = clPublicKey x)"

lemma UN_filter_snoc:
  "(\<Union>y\<in>{y. (y = x \<or> y \<in> set xs) \<and> P y}. f y) = (\<Union>y\<in>{y \<in> set xs. P y}. f y) \<union> (if P x then f x else {})"
  by auto

lemma own_addresses_entries:
  "entry_set (own_addresses existing) k = (\<Union>x\<in>{x \<in> set existing. has_key k x}. trim_space ` set (clAllowedIPs x))"
  "map_of (own_addresses existing) k = None \<longleftrightarrow> \<not> (\<exists>x\<in>set existing. has_key k x)"
proof -
  have "entry_set (own_addresses existing) k = (\<Union>x\<in>{x \<in> set existing. has_key k x}. trim_space ` set (clAllowedIPs x)) \<and>
    (map_of (own_addresses existing) k = None \<longleftrightarrow> \<not> (\<exists>x\<in>set existing. has_key k x))"
  proof (induction existing rule: rev_induct)
    case Nil
    then show ?case by (simp add: own_addresses_def entry_set_def)
  next
    case (snoc x existing)
    have step: "own_addresses (existing @ [x]) = rememberOwn (clPublicKey x) (clAllowedIPs x)
        (rememberOwn (lower (trim_space (clEmail x))) (clAllowedIPs x) (own_addresses existing))"
      by (simp add: own_addresses_def)
    have key: "has_key k x \<longleftrightarrow> (k = lower (trim_space (clEmail x)) \<and> lower (trim_space (clEmail x)) \<noteq> []) \<or>
        (k = clPublicKey x \<and> clPublicKey x \<noteq> [])" by (auto simp: has_key_def)
    have "entry_set (own_addresses (existing @ [x])) k = entry_set (own_addresses existing) k \<union>
        (if has_key k x then trim_space ` set (clAllowedIPs x) else {})"
      unfolding step remember_entries key by (rule set_eqI) (simp only: Un_iff if_bool_eq_conj split: if_split, blast)
    moreover have "map_of (own_addresses (existing @ [x])) k = None \<longleftrightarrow> map_of (own_addresses existing) k = None \<and> \<not> has_key k x"
      unfolding step remember_entries key by blast
    ultimately show ?case using snoc by (simp add: UN_filter_snoc) blast
  qed
  then show "entry_set (own_addresses existing) k = (\<Union>x\<in>{x \<in> set existing. has_key k x}. trim_space ` set (clAllowedIPs x))"
    "map_of (own_addresses existing) k = None \<longleftrightarrow> \<not> (\<exists>x\<in>set existing. has_key k x)" by blast+
qed

text \<open>The stored clients an identity of the request counts as.\<close>

definition same_identity :: "client \<Rightarrow> tunnel_client \<Rightarrow> bool" where
  "same_identity x c \<longleftrightarrow> has_key (lower (trim_space (clEmail c))) x \<or> has_key (clPublicKey c) x"

lemma own_of_existing:
  assumes "e \<in> own_of (own_addresses existing) c"
  shows "\<exists>x\<in>set existing. same_identity x c \<and> e \<in> trim_space ` set (clAllowedIPs x)"
proof -
  have "e \<in> entry_set (own_addresses existing) (lower (trim_space (clEmail c))) \<or> e \<in> entry_set (own_addresses existing) (clPublicKey c)"
    using assms by (auto simp: own_of_def awgOwnAllowedIPs_def entry_set_def split: option.splits if_splits)
  then show ?thesis unfolding own_addresses_entries same_identity_def by blast
qed

text \<open>A kernel AmneziaWG client is only given an entry in use when that entry is already stored for the same
  identity: an entry shared with a stored client, with an outbound or with another client of the request is
  always one of a stored client with its email or its public key.\<close>

theorem awg_clients_share_own:
  assumes "fillAwgClients baseMult existing clients raws base extraUsed keepDefault rs = (Inr (cs, raws'), rs')"
    and "i < length cs" and "e \<in> set (clAllowedIPs (cs ! i))"
    and "e \<in> trim_space ` set (extraUsed @ concat (map clAllowedIPs existing)) \<or> (\<exists>j<i. e \<in> set (clAllowedIPs (cs ! j)))"
  shows "canonical e \<and> (\<exists>x\<in>set existing. same_identity x (cs ! i) \<and> e \<in> trim_space ` set (clAllowedIPs x))"
proof -
  obtain keep where f: "fill_clients (settle_awg baseMult existing (own_addresses existing) base keep) True clients raws
      (extraUsed @ concat (map clAllowedIPs existing)) rs = (Inr (cs, raws'), rs')"
    using assms(1) by (simp add: fillAwgClients_def Let_def)
  note inv = awg.fill_invariant [OF f]
  have "list_all canonical (clAllowedIPs (cs ! i))" using inv assms(2) by (auto simp: list_all_length)
  then have "canonical e" using assms(3) by (simp add: list_all_iff)
  moreover have "e \<in> own_of (own_addresses existing) (cs ! i)"
    using inv assms(2-4) unfolding list_all_length by blast
  ultimately show ?thesis using own_of_existing by blast
qed

lemma fill_clients_same:
  assumes "\<And>c used. c \<in> set cs \<Longrightarrow> \<exists>c'. settle used c rs = (Inr c', rs) \<and> clAllowedIPs c' = clAllowedIPs c"
  shows "\<exists>cs' raws'. fill_clients settle ka cs raws used rs = (Inr (cs', raws'), rs) \<and> map clAllowedIPs cs' = map clAllowedIPs cs"
  using assms
proof (induction cs arbitrary: raws used)
  case (Cons c cs)
  obtain c' where c': "settle used c rs = (Inr c', rs)" "clAllowedIPs c' = clAllowedIPs c" using Cons.prems [of c used] by auto
  obtain cs' raws' where r: "fill_clients settle ka cs (drop 1 raws) (used @ clAllowedIPs c') rs = (Inr (cs', raws'), rs)"
    "map clAllowedIPs cs' = map clAllowedIPs cs"
    using Cons.IH [of "drop 1 raws" "used @ clAllowedIPs c'"] Cons.prems by auto
  then show ?case using c' by (simp add: Let_def)
qed simp

text \<open>C23: Saving an inbound with its own clients is never refused for their addresses: a stored client that
  comes back with its keys and its canonical addresses is accepted with exactly these addresses, whatever
  else is in use, and no key is drawn.\<close>

theorem awg_resubmission_accepted:
  assumes "list_all (\<lambda>c. clPublicKey c \<noteq> [] \<and> lower (trim_space (clEmail c)) \<noteq> [] \<and> clAllowedIPs c \<noteq> [] \<and>
      distinct (clAllowedIPs c) \<and> list_all canonical (clAllowedIPs c) \<and>
      list_ex (\<lambda>x. clEmail x = clEmail c \<and> clAllowedIPs x = clAllowedIPs c) existing) clients"
  shows "\<exists>cs raws'. fillAwgClients baseMult existing clients raws base extraUsed keepDefault rs = (Inr (cs, raws'), rs) \<and>
    map clAllowedIPs cs = map clAllowedIPs clients"
proof -
  let ?own = "own_addresses existing"
  have one: "\<exists>c'. settle_awg baseMult existing ?own base keep used c rs = (Inr c', rs) \<and> clAllowedIPs c' = clAllowedIPs c"
    if mem: "c \<in> set clients" for c used keep
  proof -
    obtain x where c: "clPublicKey c \<noteq> []" "lower (trim_space (clEmail c)) \<noteq> []" "clAllowedIPs c \<noteq> []"
      "distinct (clAllowedIPs c)" "list_all canonical (clAllowedIPs c)"
      and x: "x \<in> set existing" "clEmail x = clEmail c" "clAllowedIPs x = clAllowedIPs c"
      using assms mem unfolding list_all_iff list_ex_iff by blast
    have known: "awgKnownClient existing c" unfolding awgKnownClient_def Let_def list_ex_iff using x(1,2) c(2) by metis
    have trim: "trim_space ` set (clAllowedIPs c) = set (clAllowedIPs c)"
      using c(5) canonical_facts(1) by (force simp: list_all_iff)
    have key: "has_key (lower (trim_space (clEmail c))) x" using c(2) x(2) by (simp add: has_key_def)
    then have "set (clAllowedIPs c) \<subseteq> entry_set ?own (lower (trim_space (clEmail c)))"
      using x trim unfolding own_addresses_entries by auto
    moreover have "map_of ?own (lower (trim_space (clEmail c))) \<noteq> None" using key x(1) own_addresses_entries(2) by blast
    ultimately obtain s where s: "awgOwnAllowedIPs ?own c = Some s" "set (clAllowedIPs c) \<subseteq> set s"
      by (auto simp: awgOwnAllowedIPs_def entry_set_def)
    then have free: "set (clAllowedIPs c) \<inter> trim_space ` set (foreign_used ?own c used) = {}"
      by (auto simp: foreign_used_def)
    have n: "normalizeWireguardAllowedIPs (clAllowedIPs c) = Inr (clAllowedIPs c)"
      using normalize_canonical [of "clAllowedIPs c" "[]"] c by (simp add: normalizeWireguardAllowedIPs_def)
    have "[] \<notin> set (clAllowedIPs c)" using c(5) canonical_facts(3) by (auto simp: list_all_iff)
    then have hit: "wireguardAllowedIPsCollision (clAllowedIPs c) (foreign_used ?own c used) = []"
      using collision_none free by blast
    have "checked_entries [] (foreign_used ?own c used) (clAllowedIPs c) = Inr (clAllowedIPs c)"
      using n hit c(3) by (simp add: checked_entries_def)
    then show ?thesis using c(1,3) known by (simp add: settle_awg_def fill_keys_def fill_psk_def set_entries_def)
  qed
  show ?thesis unfolding fillAwgClients_def Let_def by (rule fill_clients_same) (rule one)
qed

section \<open>Examples\<close>

definition stored_client :: "string \<Rightarrow> string list \<Rightarrow> client" where
  "stored_client email ips = zero_client\<lparr>clEmail := email, clPublicKey := ''key-'' @ email, clAllowedIPs := ips\<rparr>"

definition sent_client :: "string \<Rightarrow> string list \<Rightarrow> tunnel_client" where
  "sent_client email ips = \<lparr>clEmail = email, clEnable = True, clPublicKey = ''key-'' @ email, clPreSharedKey = [],
     clAllowedIPs = ips, clForwardedPorts = [], clPrivateKey = [], clKeepAlive = ''25''\<rparr>"


theorem amneziawg_clients_disjoint_witness:
  "\<exists>cs raws' rs'. defaultAmneziaWGClients (\<lambda>b. b)
       ''{\"server\":{\"subnetIp\":\"10.8.1.0\",\"ipv6Enabled\":true,\"ipv6Subnet\":\"fd00::/64\"}}''
       [] [sent_client ''b'' [], sent_client ''c'' []] [] [] [] = (Inr (cs, raws'), rs') \<and>
     map clAllowedIPs cs = [[''10.8.1.2/32'', ''fd00::2/128''], [''10.8.1.3/32'', ''fd00::3/128'']] \<and>
     distinct (concat (map clAllowedIPs cs))"
proof -
  let ?s = "''{\"server\":{\"subnetIp\":\"10.8.1.0\",\"ipv6Enabled\":true,\"ipv6Subnet\":\"fd00::/64\"}}''"
  let ?cs = "[sent_client ''b'' [''10.8.1.2/32'', ''fd00::2/128''], sent_client ''c'' [''10.8.1.3/32'', ''fd00::3/128'']]"
  have r: "defaultAmneziaWGClients (\<lambda>b. b) ?s [] [sent_client ''b'' [], sent_client ''c'' []] [] [] [] = (Inr (?cs, []), [])"
    by code_simp
  have b: "defaultAmneziaWGSubnetBases ?s = Inr (''10.8.1.0/24'', ''fd00::/64'')" by code_simp
  have "(case (ParsePrefix ''10.8.1.0/24'', ParsePrefix ''fd00::/64'') of (Some p4, Some p6) \<Rightarrow> Is4 (fst p4) \<and> Is6 (fst p6) | _ \<Rightarrow> False)"
    by code_simp
  then have fam: "\<exists>p4 p6. ParsePrefix ''10.8.1.0/24'' = Some p4 \<and> Is4 (fst p4) \<and> ParsePrefix ''fd00::/64'' = Some p6 \<and> Is6 (fst p6)"
    by (auto split: option.splits)
  from amneziawg_clients_disjoint [OF r b disjI2 [OF fam]] r show ?thesis by (auto simp: sent_client_def)
qed

theorem awg_clients_share_own_witness:
  "\<exists>cs raws'. fillAwgClients (\<lambda>b. b) [stored_client ''a'' [''10.9.0.2/32'']] [sent_client ''A '' [''10.9.0.2'', ''10.9.0.7'']] []
       ''10.9.0.0/24'' [] ''25'' [] = (Inr (cs, raws'), []) \<and> map clAllowedIPs cs = [[''10.9.0.2/32'', ''10.9.0.7/32'']] \<and>
     same_identity (stored_client ''a'' [''10.9.0.2/32'']) (hd cs)"
proof -
  let ?x = "stored_client ''a'' [''10.9.0.2/32'']" and ?c = "sent_client ''A '' [''10.9.0.2/32'', ''10.9.0.7/32'']"
  have r: "fillAwgClients (\<lambda>b. b) [?x] [sent_client ''A '' [''10.9.0.2'', ''10.9.0.7'']] [] ''10.9.0.0/24'' [] ''25'' [] = (Inr ([?c], []), [])"
    by code_simp
  have t: "trim_space ''10.9.0.2/32'' = ''10.9.0.2/32''" by code_simp
  then have "''10.9.0.2/32'' \<in> trim_space ` set ([] @ concat (map clAllowedIPs [?x]))" by (simp add: stored_client_def)
  with awg_clients_share_own [OF r, of 0 "''10.9.0.2/32''"] have "same_identity ?x ?c" by (simp add: sent_client_def)
  with r show ?thesis by (simp add: sent_client_def)
qed

text \<open>The check of an entered address compares texts: an address another client or an AmneziaWG outbound
  holds in any other notation is accepted, although the allocator of addresses counts it as taken.\<close>

theorem collision_by_text:
  "wireguardHostAddr ''10.8.0.2/24'' = wireguardHostAddr ''10.8.0.2/32'' \<and>
   (\<exists>cs raws'. fillAwgClients (\<lambda>b. b) [] [sent_client ''b'' [''10.8.0.2'']] [] ''10.8.0.0/24'' [''10.8.0.2/24''] ''25'' [1] =
      (Inr (cs, raws'), []) \<and> map clAllowedIPs cs = [[''10.8.0.2/32'']]) \<and>
   allocateWireguardAddress [''10.8.0.2/24''] ''10.8.0.0/24'' False = Inr ''10.8.0.3/32''"
proof (intro conjI)
  show "wireguardHostAddr ''10.8.0.2/24'' = wireguardHostAddr ''10.8.0.2/32''" by code_simp
  show "allocateWireguardAddress [''10.8.0.2/24''] ''10.8.0.0/24'' False = Inr ''10.8.0.3/32''" by code_simp
  have "map_sum (\<lambda>_. ()) (\<lambda>(cs, _). map clAllowedIPs cs)
      (fst (fillAwgClients (\<lambda>b. b) [] [sent_client ''b'' [''10.8.0.2'']] [] ''10.8.0.0/24'' [''10.8.0.2/24''] ''25'' [1]))
    = Inr [[''10.8.0.2/32'']] \<and>
    snd (fillAwgClients (\<lambda>b. b) [] [sent_client ''b'' [''10.8.0.2'']] [] ''10.8.0.0/24'' [''10.8.0.2/24''] ''25'' [1]) = []"
    by code_simp
  then show "\<exists>cs raws'. fillAwgClients (\<lambda>b. b) [] [sent_client ''b'' [''10.8.0.2'']] [] ''10.8.0.0/24'' [''10.8.0.2/24''] ''25'' [1] =
      (Inr (cs, raws'), []) \<and> map clAllowedIPs cs = [[''10.8.0.2/32'']]"
    by (cases "fillAwgClients (\<lambda>b. b) [] [sent_client ''b'' [''10.8.0.2'']] [] ''10.8.0.0/24'' [''10.8.0.2/24''] ''25'' [1]"; cases "fst (fillAwgClients (\<lambda>b. b) [] [sent_client ''b'' [''10.8.0.2'']] [] ''10.8.0.0/24'' [''10.8.0.2/24''] ''25'' [1])")
      auto
qed

theorem awg_resubmission_accepted_witness:
  "\<exists>cs raws'. fillAwgClients (\<lambda>b. b) [stored_client ''a'' [''10.9.0.2/32'']] [sent_client ''a'' [''10.9.0.2/32'']] []
       ''10.9.0.0/24'' [''10.9.0.2/32''] ''25'' [] = (Inr (cs, raws'), []) \<and> map clAllowedIPs cs = [[''10.9.0.2/32'']]"
proof -
  have c: "canonical ''10.9.0.2/32''"
    unfolding canonical_def
  proof (intro exI conjI)
    show "''10.9.0.2/32'' = prefix_String (V4 0x0A090002, 32)" by code_simp
  qed (simp_all add: addr_view)
  have "list_all (\<lambda>c. clPublicKey c \<noteq> [] \<and> lower (trim_space (clEmail c)) \<noteq> [] \<and> clAllowedIPs c \<noteq> [] \<and>
      distinct (clAllowedIPs c) \<and> list_all canonical (clAllowedIPs c) \<and>
      list_ex (\<lambda>x. clEmail x = clEmail c \<and> clAllowedIPs x = clAllowedIPs c) [stored_client ''a'' [''10.9.0.2/32'']])
    [sent_client ''a'' [''10.9.0.2/32'']]"
  proof -
    have "lower (trim_space ''a'') = ''a''" by code_simp
    then show ?thesis using c by (simp add: sent_client_def stored_client_def)
  qed
  from awg_resubmission_accepted [OF this, of "\<lambda>b. b" "[]" "''10.9.0.0/24''" "[''10.9.0.2/32'']" "''25''" "[]"]
  show ?thesis by (simp add: sent_client_def)
qed

end
