(* ===== verification/Awg_Params.thy ===== *)
theory Awg_Params
  imports Awg_Instance Go_Base64
begin

text \<open>
  \<open>internal/amneziawg/params.go\<close>: the AmneziaWG 3.1 obfuscation parameters, generated and validated.
  \<open>crypto/rand\<close> does not fail in the Go release the module names, so the branches for a failing source are
  never taken.
\<close>

section \<open>Ranges\<close>

definition awgHMax :: int where
  "awgHMax = 2147483647"

definition hMaxValid :: int where
  "hMaxValid = 4294967295"

text \<open>\<open>parseUintRange\<close>: a number, or two separated by a minus sign.\<close>

definition parseUintRange :: "string \<Rightarrow> (int \<times> int) option" where
  "parseUintRange v0 =
     (let v = trim_space v0 in
      if v = [] then None
      else case cut CHR ''-'' v of
        Some (loS, hiS) \<Rightarrow>
          (case (parse_int64 (trim_space loS), parse_int64 (trim_space hiS)) of
             (Some l, Some h) \<Rightarrow> Some (l, h) | _ \<Rightarrow> None)
      | None \<Rightarrow> (case parse_int64 v of None \<Rightarrow> None | Some n \<Rightarrow> Some (n, n)))"

text \<open>Control characters are bytes below 0x20 and 0x7F: in UTF-8 every other character is made of other
  bytes.\<close>

definition is_control :: "char \<Rightarrow> bool" where
  "is_control c \<longleftrightarrow> c < CHR 0x20 \<or> c = CHR 0x7F"

definition ValidateConfigValue :: "string \<Rightarrow> bool" where
  "ValidateConfigValue v \<longleftrightarrow> \<not> list_ex is_control v"

datatype range_error = ControlChars | NotARange | RangeBounds int

definition validateUintRange :: "string \<Rightarrow> int \<Rightarrow> range_error option" where
  "validateUintRange v minAllowed =
     (if trim_space v = [] then None
      else if \<not> ValidateConfigValue v then Some ControlChars
      else case parseUintRange v of
        None \<Rightarrow> Some NotARange
      | Some (lo, hi) \<Rightarrow> if lo < minAllowed \<or> hi > hMaxValid \<or> lo > hi then Some (RangeBounds minAllowed) else None)"

definition CanonicalizeUintRange :: "string \<Rightarrow> string" where
  "CanonicalizeUintRange v = filter (\<lambda>c. c \<noteq> CHR '' '') (trim_space v)"

section \<open>Signature packets\<close>

datatype chain_error = MissingBracket | EmptyTag | UnknownTag string

definition obfChainTags :: "string list" where
  "obfChainTags = [''b'', ''t'', ''r'', ''rc'', ''rd'', ''d'', ''ds'', ''dz'']"

function chain_loop :: "string \<Rightarrow> chain_error option" where
  "chain_loop remaining =
     (case cut CHR ''<'' remaining of None \<Rightarrow> None
      | Some (_, r) \<Rightarrow> (case cut CHR ''>'' r of
          None \<Rightarrow> Some MissingBracket
        | Some (tag, rest) \<Rightarrow> (case Go_Strings.fields tag of
            [] \<Rightarrow> Some EmptyTag
          | f # _ \<Rightarrow> if f \<notin> set obfChainTags then Some (UnknownTag f) else chain_loop rest)))"
  by pat_completeness auto

lemma length_cut: "cut c s = Some (a, b) \<Longrightarrow> length b < length s"
proof -
  assume c: "cut c s = Some (a, b)"
  then have "s \<noteq> []" "b = tl (dropWhile (\<lambda>x. x \<noteq> c) s)" by (auto simp: cut_def split: if_splits)
  moreover have "length (dropWhile (\<lambda>x. x \<noteq> c) s) \<le> length s" by (rule length_dropWhile_le)
  ultimately show ?thesis by (simp, cases s, auto)
qed

termination chain_loop
  by (relation "measure length") (auto dest!: length_cut)

declare chain_loop.simps [simp del]

definition validateObfChain :: "string \<Rightarrow> chain_error option" where
  "validateObfChain spec = (if trim_space spec = [] then None else chain_loop spec)"

section \<open>Validation\<close>

datatype obf_error = JminJmax int int | OutOfRange string int int | BadI nat chain_error | BadS4 int | S1S2 int int
  | BadH nat range_error | HOverlap nat nat | BadKeyChars | KeyNotBase64 | KeyLength nat | ShortS nat int
  | BadField string range_error | RekeyReject int int

definition first_error :: "'e option list \<Rightarrow> 'e option" where
  "first_error es = (case find (\<lambda>e. e \<noteq> None) es of None \<Rightarrow> None | Some e \<Rightarrow> e)"

definition maxS1 :: int where "maxS1 = 1700 - 148"
definition maxS2 :: int where "maxS2 = 1700 - 92"
definition maxS3 :: int where "maxS3 = 1700 - 64"

text \<open>The header range the engine ends up with: a blank one keeps WireGuard's own type.\<close>

definition header_range :: "nat \<Rightarrow> string \<Rightarrow> int \<times> int" where
  "header_range i h = (case parseUintRange h of Some r \<Rightarrow> r | None \<Rightarrow> (int i, int i))"

definition overlap :: "int \<times> int \<Rightarrow> int \<times> int \<Rightarrow> bool" where
  "overlap a b \<longleftrightarrow> fst a \<le> snd b \<and> fst b \<le> snd a"

definition validateHNoOverlap :: "string list \<Rightarrow> obf_error option" where
  "validateHNoOverlap hs =
     (let rs = map (\<lambda>(i, h). header_range i h) (zip [1..<5] hs) in
      first_error (map (\<lambda>(i, j). if overlap (rs ! i) (rs ! j) then Some (HOverlap (Suc i) (Suc j)) else None)
        [(0, 1), (0, 2), (0, 3), (1, 2), (1, 3), (2, 3)]))"

definition validateHeaderProtectionKey :: "string \<Rightarrow> obf_error option" where
  "validateHeaderProtectionKey v =
     (if v = [] then None
      else if \<not> ValidateConfigValue v then Some BadKeyChars
      else case StdEncoding_DecodeString v of
        None \<Rightarrow> Some KeyNotBase64
      | Some key \<Rightarrow> if length key \<noteq> 32 then Some (KeyLength (length key)) else None)"

definition check_int :: "string \<Rightarrow> int \<Rightarrow> int \<Rightarrow> obf_error option" where
  "check_int name v mx = (if v < 0 \<or> v > mx then Some (OutOfRange name v mx) else None)"

definition check_rekey :: "obfuscation31 \<Rightarrow> obf_error option" where
  "check_rekey obf =
     (if obRekeyAfterTime obf \<noteq> [] \<or> obRejectAfterTime obf \<noteq> [] then
        (let rekeyHi = (if obRekeyAfterTime obf \<noteq> []
               then (case parseUintRange (obRekeyAfterTime obf) of Some r \<Rightarrow> snd r | None \<Rightarrow> 0) else 120);
             rejectLo = (if obRejectAfterTime obf \<noteq> []
               then (case parseUintRange (obRejectAfterTime obf) of Some r \<Rightarrow> fst r | None \<Rightarrow> 0) else 180)
         in if rekeyHi \<ge> rejectLo then Some (RekeyReject rekeyHi rejectLo) else None)
      else None)"

definition ValidateObfuscation :: "obfuscation31 \<Rightarrow> obf_error option" where
  "ValidateObfuscation obf =
     first_error
       ([if obJmin obf > obJmax obf then Some (JminJmax (obJmin obf) (obJmax obf)) else None,
         check_int ''Jc'' (obJc obf) 4294967295, check_int ''Jmin'' (obJmin obf) 4294967295,
         check_int ''Jmax'' (obJmax obf) 4294967295, check_int ''S1'' (obS1 obf) maxS1,
         check_int ''S2'' (obS2 obf) maxS2, check_int ''S3'' (obS3 obf) maxS3]
        @ map (\<lambda>(i, spec). map_option (BadI i) (validateObfChain spec))
            (zip [1..<6] [obI1 obf, obI2 obf, obI3 obf, obI4 obf, obI5 obf])
        @ [if obS4 obf < 0 \<or> obS4 obf > 32 then Some (BadS4 (obS4 obf)) else None,
           if obS1 obf + 56 = obS2 obf then Some (S1S2 (obS1 obf) (obS2 obf)) else None]
        @ map (\<lambda>(i, h). map_option (BadH i) (validateUintRange h 0)) (zip [1..<5] [obH1 obf, obH2 obf, obH3 obf, obH4 obf])
        @ [validateHNoOverlap [obH1 obf, obH2 obf, obH3 obf, obH4 obf],
           validateHeaderProtectionKey (obHeaderProtectionKey obf)]
        @ (if obHeaderProtectionKey obf \<noteq> []
           then map (\<lambda>(i, s). if s < 12 then Some (ShortS i s) else None) (zip [1..<5] [obS1 obf, obS2 obf, obS3 obf, obS4 obf])
           else [])
        @ map_option (BadField ''contentPaddingAddition'') (validateUintRange (obContentPaddingAddition obf) 0)
        # map (\<lambda>(f, v). map_option (BadField f) (validateUintRange v 1))
            [(''rekeyAfterTime'', obRekeyAfterTime obf), (''rekeyTimeout'', obRekeyTimeout obf),
             (''rejectAfterTime'', obRejectAfterTime obf), (''keepaliveTimeout'', obKeepaliveTimeout obf),
             (''maxHandshakeAttempts'', obMaxHandshakeAttempts obf)]
        @ [check_rekey obf])"

section \<open>Generation\<close>

definition randInt :: "int \<Rightarrow> int \<Rightarrow> rng \<Rightarrow> int \<times> rng" where
  "randInt mn mx rs = (if mx \<le> mn then (mn, rs)
     else let (n, rs) = intn (nat (mx - mn + 1)) rs in (mn + int n, rs))"

text \<open>The loop that draws S2 again has no bound.\<close>

partial_function (option) redrawS2 :: "int \<Rightarrow> int \<Rightarrow> rng \<Rightarrow> (int \<times> rng) option" where
  "redrawS2 s1 s2 rs = (if s1 + 56 = s2 then redrawS2 s1 (fst (randInt 15 150 rs)) (snd (randInt 15 150 rs))
     else Some (s2, rs))"

definition generateHeaderProtectionKey :: "rng \<Rightarrow> string \<times> rng" where
  "generateHeaderProtectionKey rs = (let (key, rs) = randomBytes 32 rs in (b64_encode key, rs))"

definition hBandSize :: int where
  "hBandSize = (awgHMax - 5 + 1) div 4"

definition hValue :: "int \<Rightarrow> rng \<Rightarrow> string \<times> rng" where
  "hValue i rs = (let bandLo = 5 + i * hBandSize; bandHi = bandLo + hBandSize - 1;
       (v, rs) = randInt bandLo bandHi rs in (itoa v, rs))"

definition range_text :: "int \<Rightarrow> int \<Rightarrow> string" where
  "range_text lo hi = itoa lo @ ''-'' @ itoa hi"

text \<open>A window: its low end drawn from one interval, its width from another.\<close>

definition drawWindow :: "int \<Rightarrow> int \<Rightarrow> int \<Rightarrow> int \<Rightarrow> rng \<Rightarrow> (int \<times> int) \<times> rng" where
  "drawWindow lo1 lo2 w1 w2 rs = (let (lo, rs) = randInt lo1 lo2 rs; (w, rs) = randInt w1 w2 rs in ((lo, lo + w), rs))"

definition GenerateObfuscation31 :: "rng \<Rightarrow> (obfuscation31 \<times> rng) option" where
  "GenerateObfuscation31 rs =
     (let (jc, rs) = randInt 3 6 rs;
          ((jmin, jmax), rs) = drawWindow 40 89 50 250 rs;
          (s1, rs) = randInt 15 150 rs;
          (s2, rs) = randInt 15 150 rs
      in case redrawS2 s1 s2 rs of None \<Rightarrow> None | Some (s2, rs) \<Rightarrow>
        (let (s3, rs) = randInt 12 55 rs;
             (s4, rs) = randInt 12 27 rs;
             (h1, rs) = hValue 0 rs; (h2, rs) = hValue 1 rs; (h3, rs) = hValue 2 rs; (h4, rs) = hValue 3 rs;
             (n, rs) = randInt 32 256 rs;
             (key, rs) = generateHeaderProtectionKey rs;
             (cp, rs) = drawWindow 8 24 8 40 rs;
             (rk, rs) = drawWindow 100 120 10 40 rs;
             (gap, rs) = randInt 30 60 rs; rjLo = snd rk + gap;
             (rjW, rs) = randInt 30 90 rs;
             (rt, rs) = drawWindow 3 6 1 4 rs;
             (ka, rs) = drawWindow 8 12 2 8 rs;
             (ha, rs) = drawWindow 15 25 5 25 rs
         in Some (\<lparr>obJc = jc, obJmin = jmin, obJmax = jmax, obS1 = s1, obS2 = s2, obS3 = s3, obS4 = s4,
              obH1 = h1, obH2 = h2, obH3 = h3, obH4 = h4, obI1 = ''<r '' @ itoa n @ ''>'', obI2 = [], obI3 = [], obI4 = [], obI5 = [],
              obHeaderProtectionKey = key, obContentPaddingAddition = range_text (fst cp) (snd cp),
              obRekeyAfterTime = range_text (fst rk) (snd rk), obRekeyTimeout = range_text (fst rt) (snd rt),
              obRejectAfterTime = range_text rjLo (rjLo + rjW), obKeepaliveTimeout = range_text (fst ka) (snd ka),
              obMaxHandshakeAttempts = range_text (fst ha) (snd ha), obRandomTrailers = True, obDisableCookies = True\<rparr>, rs)))"

definition DefaultMTU :: int where "DefaultMTU = 1420"

definition EffectiveMTU :: "int \<Rightarrow> int \<Rightarrow> int" where
  "EffectiveMTU configuredMTU s4 = (if configuredMTU > 0 then configuredMTU else max (DefaultMTU - max s4 0) 1280)"

section \<open>What the generator draws\<close>

lemma randInt_range:
  assumes "randInt mn mx rs = (v, rs')" "mn \<le> mx"
  shows "mn \<le> v \<and> v \<le> mx"
proof (cases "mx \<le> mn")
  case True
  then show ?thesis using assms by (simp add: randInt_def)
next
  case False
  obtain n rs1 where n: "intn (nat (mx - mn + 1)) rs = (n, rs1)" by fastforce
  have "n < nat (mx - mn + 1)" using intn_lessD [OF n] False by simp
  then have "int n < mx - mn + 1" by linarith
  then show ?thesis using assms n False by (simp add: randInt_def)
qed

lemma drawWindow_range:
  assumes "drawWindow lo1 lo2 w1 w2 rs = ((lo, hi), rs')" "lo1 \<le> lo2" "w1 \<le> w2"
  shows "lo1 \<le> lo \<and> lo \<le> lo2 \<and> lo + w1 \<le> hi \<and> hi \<le> lo + w2"
proof -
  obtain l rs1 where l: "randInt lo1 lo2 rs = (l, rs1)" by fastforce
  obtain w rs2 where w: "randInt w1 w2 rs1 = (w, rs2)" by fastforce
  show ?thesis using assms(1) randInt_range [OF l assms(2)] randInt_range [OF w assms(3)]
    by (auto simp: drawWindow_def l w)
qed

lemma redrawS2_stop: "s1 + 56 \<noteq> s2 \<Longrightarrow> redrawS2 s1 s2 rs = Some (s2, rs)"
  by (simp add: redrawS2.simps)

lemma redrawS2_again: "s1 + 56 = s2 \<Longrightarrow> randInt 15 150 rs = (v, rs1) \<Longrightarrow> redrawS2 s1 s2 rs = redrawS2 s1 v rs1"
  using redrawS2.simps [of s1 s2 rs] by simp

lemma redrawS2_returns:
  assumes "15 \<le> s1" "15 \<le> s2 \<and> s2 \<le> 150"
  shows "\<exists>s2' rs'. redrawS2 s1 s2 rs = Some (s2', rs') \<and> s1 + 56 \<noteq> s2' \<and> 15 \<le> s2' \<and> s2' \<le> 150"
  using assms(2)
proof (induction rs arbitrary: s2)
  case Nil
  have d: "randInt 15 150 [] = (15, [])" by (simp add: randInt_def)
  show ?case
  proof (cases "s1 + 56 = s2")
    case True
    have "redrawS2 s1 s2 [] = Some (15, [])" 
      using redrawS2_again [OF True d] redrawS2_stop [of s1 15 "[]"] assms(1) by simp
    then show ?thesis using assms(1) by simp
  qed (use Nil in \<open>simp add: redrawS2_stop\<close>)
next
  case (Cons r rs)
  obtain v where v: "randInt 15 150 (r # rs) = (v, rs)" by (simp add: randInt_def)
  show ?case
  proof (cases "s1 + 56 = s2")
    case True
    then show ?thesis using redrawS2_again [OF True v] Cons.IH [of v] randInt_range [OF v] by simp
  qed (use Cons.prems in \<open>simp add: redrawS2_stop\<close>)
qed

section \<open>What the validator accepts\<close>

lemma first_error_None: "first_error es = None \<longleftrightarrow> list_all (\<lambda>e. e = None) es"
proof (cases "find (\<lambda>e. e \<noteq> None) es")
  case None
  then have "first_error es = None" by (simp only: first_error_def option.case)
  moreover have "list_all (\<lambda>e. e = None) es" using None by (auto simp: find_None_iff list_all_iff)
  ultimately show ?thesis by simp
next
  case (Some e)
  then have "e \<in> set es" "e \<noteq> None" by (auto simp: find_Some_iff in_set_conv_nth)
  then show ?thesis using Some by (auto simp: first_error_def list_all_iff)
qed


lemma natural: "0 \<le> n \<Longrightarrow> itoa n = itoa_nat (nat n)"
  using itoa_int [of "nat n"] by simp

lemma parseUintRange_itoa: "0 \<le> n \<Longrightarrow> n < 2 ^ 63 \<Longrightarrow> parseUintRange (itoa n) = Some (n, n)"
  by (simp add: parseUintRange_def natural cut_None minus_notin_itoa parse_int64_itoa_nat)

lemma trim_range_text: "0 \<le> lo \<Longrightarrow> 0 \<le> hi \<Longrightarrow> trim_space (range_text lo hi) = range_text lo hi"
  using itoa_nat_hd [of "nat lo"] itoa_nat_last [of "nat hi"] is_digit_graphic
  by (intro trim_space_graphic) (auto simp: range_text_def natural)

lemma parseUintRange_text:
  assumes "0 \<le> lo" "lo < 2 ^ 63" "0 \<le> hi" "hi < 2 ^ 63"
  shows "parseUintRange (range_text lo hi) = Some (lo, hi)"
proof -
  have "cut CHR ''-'' (range_text lo hi) = Some (itoa lo, itoa hi)"
    using assms minus_notin_itoa by (simp add: range_text_def natural cut_append)
  moreover have "range_text lo hi \<noteq> []" by (simp add: range_text_def)
  ultimately show ?thesis using assms
    by (simp add: parseUintRange_def trim_range_text natural parse_int64_itoa_nat)
qed

lemma graphic_not_control: "graphic c \<Longrightarrow> \<not> is_control c"
  by (auto simp: graphic_def is_control_def less_eq_char_def less_char_def)

lemma ValidateConfigValue_graphic: "list_all graphic v \<Longrightarrow> ValidateConfigValue v"
  by (auto simp: ValidateConfigValue_def list_all_iff list_ex_iff graphic_not_control)

lemma itoa_graphic: "0 \<le> n \<Longrightarrow> list_all graphic (itoa n)"
  using itoa_nat_digits [of "nat n"] is_digit_graphic by (auto simp: natural list_all_iff)

lemma range_text_graphic: "0 \<le> lo \<Longrightarrow> 0 \<le> hi \<Longrightarrow> list_all graphic (range_text lo hi)"
  using itoa_graphic by (simp add: range_text_def graphic_def less_eq_char_def)

lemma validateUintRange_itoa:
  "0 \<le> n \<Longrightarrow> mn \<le> n \<Longrightarrow> n \<le> hMaxValid \<Longrightarrow> validateUintRange (itoa n) mn = None"
  by (simp add: validateUintRange_def ValidateConfigValue_graphic itoa_graphic parseUintRange_itoa hMaxValid_def)

lemma validateUintRange_text:
  assumes "0 \<le> lo" "mn \<le> lo" "lo \<le> hi" "hi \<le> hMaxValid"
  shows "validateUintRange (range_text lo hi) mn = None"
  using assms by (simp add: validateUintRange_def ValidateConfigValue_graphic range_text_graphic parseUintRange_text hMaxValid_def)

lemma fields_acc_graphic: "list_all graphic s \<Longrightarrow> fields_acc cur s = (if cur = [] \<and> s = [] then [] else [rev cur @ s])"
proof (induction s arbitrary: cur)
  case Nil
  then show ?case by (subst fields_acc.simps) simp
next
  case (Cons c s)
  then show ?case by (subst fields_acc.simps) (simp add: space_prefix_graphic)
qed

lemma fields_two:
  assumes "list_all graphic a" "a \<noteq> []" "list_all graphic b" "b \<noteq> []"
  shows "Go_Strings.fields (a @ CHR '' '' # b) = [a, b]"
proof -
  have sp: "space_prefix unicode_spaces (CHR '' '' # b) = 1"
    by (simp add: space_prefix_def unicode_spaces_def)
  have "fields_acc cur (a @ CHR '' '' # b) = [rev cur @ a] @ [b]" if "cur \<noteq> [] \<or> a \<noteq> []" for cur
    using assms(1) that
  proof (induction a arbitrary: cur)
    case Nil
    then show ?case using assms(3,4) by (subst fields_acc.simps) (simp add: sp fields_acc_graphic)
  next
    case (Cons c a)
    then show ?case by (subst fields_acc.simps) (simp add: space_prefix_graphic)
  qed
  from this [of "[]"] show ?thesis using assms(2) by (simp add: Go_Strings.fields_def)
qed

lemma validateObfChain_random:
  assumes "0 \<le> n"
  shows "validateObfChain (''<r '' @ itoa n @ ''>'') = None"
proof -
  have g: "list_all graphic (itoa n)" by (rule itoa_graphic [OF assms])
  have d: "CHR ''>'' \<notin> set (itoa n)"
    using itoa_nat_digits [of "nat n"] by (auto simp: natural assms list_all_iff is_digit_def less_eq_char_def)
  have c1: "cut CHR ''<'' (''<r '' @ itoa n @ ''>'') = Some ([], ''r '' @ itoa n @ ''>'')"
    by (simp add: cut_def)
  have c2: "cut CHR ''>'' (''r '' @ itoa n @ ''>'') = Some (''r '' @ itoa n, [])"
    using cut_append [of "CHR ''>''" "''r '' @ itoa n" "[]"] d by simp
  have f: "Go_Strings.fields (''r '' @ itoa n) = [''r'', itoa n]"
    using fields_two [of "''r''" "itoa n"] g by (simp add: natural assms graphic_def less_eq_char_def)
  have "chain_loop [] = None" by (subst chain_loop.simps) (simp add: cut_def)
  then have "chain_loop (''<r '' @ itoa n @ ''>'') = None"
    by (subst chain_loop.simps) (simp only: c1 c2 f option.case prod.case list.case, simp add: obfChainTags_def)
  then show ?thesis by (simp only: validateObfChain_def) simp
qed


lemma guarded_None: "(if b then Some x else None) = None \<longleftrightarrow> \<not> b"
  by simp

lemma list_all_guarded: "list_all P (if b then xs else []) \<longleftrightarrow> (b \<longrightarrow> list_all P xs)"
  by simp

lemma validateHNoOverlap_None:
  "validateHNoOverlap [h1, h2, h3, h4] = None \<longleftrightarrow>
     (let r1 = header_range 1 h1; r2 = header_range 2 h2; r3 = header_range 3 h3; r4 = header_range 4 h4
      in \<not> overlap r1 r2 \<and> \<not> overlap r1 r3 \<and> \<not> overlap r1 r4 \<and> \<not> overlap r2 r3 \<and> \<not> overlap r2 r4 \<and> \<not> overlap r3 r4)"
proof -
  have u: "[Suc 0..<5] = [1, 2, 3, 4]" by (simp add: upt_rec)
  show ?thesis by (simp add: validateHNoOverlap_def first_error_None u Let_def guarded_None eval_nat_numeral)
qed

lemma check_int_None: "check_int f v mx = None \<longleftrightarrow> 0 \<le> v \<and> v \<le> mx"
  by (auto simp: check_int_def)

lemma ValidateObfuscation_iff:
  "ValidateObfuscation obf = None \<longleftrightarrow>
     (obJmin obf \<le> obJmax obf \<and> list_all (\<lambda>v. 0 \<le> v \<and> v \<le> 4294967295) [obJc obf, obJmin obf, obJmax obf]
      \<and> 0 \<le> obS1 obf \<and> obS1 obf \<le> maxS1 \<and> 0 \<le> obS2 obf \<and> obS2 obf \<le> maxS2 \<and> 0 \<le> obS3 obf \<and> obS3 obf \<le> maxS3
      \<and> 0 \<le> obS4 obf \<and> obS4 obf \<le> 32)
     \<and> list_all (\<lambda>spec. validateObfChain spec = None) [obI1 obf, obI2 obf, obI3 obf, obI4 obf, obI5 obf]
     \<and> obS1 obf + 56 \<noteq> obS2 obf
     \<and> list_all (\<lambda>h. validateUintRange h 0 = None) [obH1 obf, obH2 obf, obH3 obf, obH4 obf]
     \<and> validateHNoOverlap [obH1 obf, obH2 obf, obH3 obf, obH4 obf] = None
     \<and> validateHeaderProtectionKey (obHeaderProtectionKey obf) = None
     \<and> (obHeaderProtectionKey obf \<noteq> [] \<longrightarrow> list_all (\<lambda>s. 12 \<le> s) [obS1 obf, obS2 obf, obS3 obf, obS4 obf])
     \<and> validateUintRange (obContentPaddingAddition obf) 0 = None
     \<and> list_all (\<lambda>v. validateUintRange v 1 = None) [obRekeyAfterTime obf, obRekeyTimeout obf, obRejectAfterTime obf,
           obKeepaliveTimeout obf, obMaxHandshakeAttempts obf]
     \<and> check_rekey obf = None"
proof -
  have u: "[Suc 0..<5] = [1, 2, 3, 4]" "[Suc 0..<6] = [1, 2, 3, 4, 5]" by (simp_all add: upt_rec)
  show ?thesis
    by (simp add: ValidateObfuscation_def first_error_None u check_int_None not_less guarded_None list_all_guarded
      split del: if_split) argo
qed

text \<open>A header range that passes lies between zero and the largest 32-bit number.\<close>

lemma validateUintRange_parse:
  assumes "validateUintRange v mn = None" "parseUintRange v = Some (lo, hi)"
  shows "mn \<le> lo \<and> lo \<le> hi \<and> hi \<le> hMaxValid"
proof -
  have "trim_space v \<noteq> []" using assms(2) by (auto simp: parseUintRange_def)
  then show ?thesis using assms by (auto simp: validateUintRange_def split: if_splits)
qed

text \<open>The message types a received header can stand for.\<close>

definition header_types :: "obfuscation31 \<Rightarrow> int \<Rightarrow> nat list" where
  "header_types obf x = filter (\<lambda>i. let (lo, hi) = header_range i ([obH1 obf, obH2 obf, obH3 obf, obH4 obf] ! (i - 1)) in lo \<le> x \<and> x \<le> hi) [1..<5]"

lemma not_overlap: "\<not> overlap r s \<Longrightarrow> \<not> (fst r \<le> x \<and> x \<le> snd r \<and> fst s \<le> x \<and> x \<le> snd s)"
  by (auto simp: overlap_def)

lemma header_types_unique:
  assumes "validateHNoOverlap [obH1 obf, obH2 obf, obH3 obf, obH4 obf] = None"
  shows "length (header_types obf x) \<le> 1"
proof -
  let ?h = "[obH1 obf, obH2 obf, obH3 obf, obH4 obf]"
  define P where "P i \<longleftrightarrow> fst (header_range i (?h ! (i - 1))) \<le> x \<and> x \<le> snd (header_range i (?h ! (i - 1)))" for i
  have u: "[1..<5] = [1, 2, 3, 4 :: nat]" by (simp add: upt_rec)
  have e: "header_types obf x = filter P [1, 2, 3, 4]"
    unfolding header_types_def u P_def [abs_def] case_prod_beta Let_def by (rule refl)
  note no = assms [unfolded validateHNoOverlap_None Let_def]
  have "\<not> (P 1 \<and> P 2)" "\<not> (P 1 \<and> P 3)" "\<not> (P 1 \<and> P 4)" "\<not> (P 2 \<and> P 3)" "\<not> (P 2 \<and> P 4)" "\<not> (P 3 \<and> P 4)"
    using no by (simp_all add: P_def not_overlap del: de_Morgan_conj)
  then show ?thesis unfolding e by (cases "P 1"; cases "P 2"; cases "P 3"; cases "P 4"; simp)
qed

text \<open>The number of seconds a timing field stands for at the latest and at the earliest, where a blank one keeps
  WireGuard's own.\<close>

definition rekey_latest :: "obfuscation31 \<Rightarrow> int" where
  "rekey_latest obf = (case parseUintRange (obRekeyAfterTime obf) of Some r \<Rightarrow> snd r | None \<Rightarrow> 120)"

definition reject_earliest :: "obfuscation31 \<Rightarrow> int" where
  "reject_earliest obf = (case parseUintRange (obRejectAfterTime obf) of Some r \<Rightarrow> fst r | None \<Rightarrow> 180)"

lemma reads_or_blank:
  assumes "validateUintRange v mn = None"
  shows "trim_space v = [] \<or> (\<exists>r. parseUintRange v = Some r)"
  using assms by (auto simp: validateUintRange_def split: if_splits option.splits)

lemma blank_parse: "trim_space v = [] \<Longrightarrow> parseUintRange v = None"
  by (simp add: parseUintRange_def)


lemma rekey_before_reject:
  assumes ok: "ValidateObfuscation obf = None"
    and blank: "obRekeyAfterTime obf = [] \<or> trim_space (obRekeyAfterTime obf) \<noteq> []"
      "obRejectAfterTime obf = [] \<or> trim_space (obRejectAfterTime obf) \<noteq> []"
  shows "rekey_latest obf < reject_earliest obf"
proof -
  note v = ok [unfolded ValidateObfuscation_iff list.pred_inject, simplified]
  have rk: "obRekeyAfterTime obf = [] \<or> (\<exists>r. parseUintRange (obRekeyAfterTime obf) = Some r)"
    and rj: "obRejectAfterTime obf = [] \<or> (\<exists>r. parseUintRange (obRejectAfterTime obf) = Some r)"
    using v blank reads_or_blank by blast+
  have "parseUintRange [] = None" by (simp add: blank_parse)
  then show ?thesis using v rk rj
    by (auto simp: check_rekey_def rekey_latest_def reject_earliest_def Let_def split: if_splits)
qed

text \<open>The lengths of the first three message types on the wire.\<close>

definition padded_lengths :: "obfuscation31 \<Rightarrow> int list" where
  "padded_lengths obf = [148 + obS1 obf, 92 + obS2 obf, 64 + obS3 obf]"

text \<open>C26: Parameters the validator accepts keep the promises it is there for: a header value stands for at most one
  message type, the padded initiation and response differ in length and every handshake message fits the smallest
  receive buffer, and a session is always renewed before it can expire. A timing field of white space only, which
  the callers reduce to an empty one before validating, is excluded.\<close>
theorem accepted_parameters_sound:
  assumes "ValidateObfuscation obf = None"
    and "obRekeyAfterTime obf = [] \<or> trim_space (obRekeyAfterTime obf) \<noteq> []"
    and "obRejectAfterTime obf = [] \<or> trim_space (obRejectAfterTime obf) \<noteq> []"
  shows "length (header_types obf x) \<le> 1 \<and> padded_lengths obf ! 0 \<noteq> padded_lengths obf ! 1
    \<and> list_all (\<lambda>n. 64 \<le> n \<and> n \<le> 1700) (padded_lengths obf) \<and> rekey_latest obf < reject_earliest obf"
proof -
  have v: "validateHNoOverlap [obH1 obf, obH2 obf, obH3 obf, obH4 obf] = None" "obS1 obf + 56 \<noteq> obS2 obf"
    "0 \<le> obS1 obf" "obS1 obf \<le> maxS1" "0 \<le> obS2 obf" "obS2 obf \<le> maxS2" "0 \<le> obS3 obf" "obS3 obf \<le> maxS3"
    using assms(1) [unfolded ValidateObfuscation_iff] by blast+
  then show ?thesis using header_types_unique [OF v(1)] rekey_before_reject [OF assms]
    by (auto simp: padded_lengths_def maxS1_def maxS2_def maxS3_def)
qed

definition example_obfuscation :: obfuscation31 where
  "example_obfuscation = zero_obfuscation \<lparr>obJc := 4, obJmin := 40, obJmax := 70, obS1 := 20, obS2 := 30,
     obH1 := ''100-800'', obH2 := ''1000'', obI1 := ''<r 40>'', obRekeyAfterTime := ''100 - 120''\<rparr>"

theorem accepted_parameters_sound_witness:
  "ValidateObfuscation example_obfuscation = None \<and> header_types example_obfuscation 500 = [1]
     \<and> length (header_types example_obfuscation 500) \<le> 1"
proof -
  have ok: "ValidateObfuscation example_obfuscation = None" by code_simp
  have b: "obRekeyAfterTime example_obfuscation = [] \<or> trim_space (obRekeyAfterTime example_obfuscation) \<noteq> []"
    "obRejectAfterTime example_obfuscation = [] \<or> trim_space (obRejectAfterTime example_obfuscation) \<noteq> []"
    by code_simp+
  have "header_types example_obfuscation 500 = [1]" by code_simp
  then show ?thesis using ok accepted_parameters_sound [OF ok b, of 500] by blast
qed


lemma hValue_range:
  assumes "hValue i rs = (h, rs')"
  shows "\<exists>v. h = itoa v \<and> 5 + i * hBandSize \<le> v \<and> v < 5 + (i + 1) * hBandSize"
proof -
  obtain v rs1 where v: "randInt (5 + i * hBandSize) (5 + i * hBandSize + hBandSize - 1) rs = (v, rs1)" by fastforce
  have "hBandSize \<ge> 1" by (simp add: hBandSize_def awgHMax_def)
  then have "5 + i * hBandSize \<le> v \<and> v \<le> 5 + i * hBandSize + hBandSize - 1" using randInt_range [OF v] by simp
  moreover have "h = itoa v" using assms v by (simp add: hValue_def Let_def)
  ultimately show ?thesis by (intro exI [of _ v]) (simp add: algebra_simps)
qed

lemma generateHeaderProtectionKey_ok:
  assumes "generateHeaderProtectionKey rs = (key, rs')"
  shows "validateHeaderProtectionKey key = None"
proof -
  obtain bs rs1 where b: "randomBytes 32 rs = (bs, rs1)" by fastforce
  then have "key = b64_encode bs" using assms by (simp add: generateHeaderProtectionKey_def)
  then show ?thesis using randomBytes_length [OF b]
    by (simp add: validateHeaderProtectionKey_def ValidateConfigValue_graphic b64_encode_graphic)
qed

lemma header_range_itoa: "0 \<le> v \<Longrightarrow> v < 2 ^ 63 \<Longrightarrow> header_range i (itoa v) = (v, v)"
  by (simp add: header_range_def parseUintRange_itoa)

lemma validateObfChain_Nil: "validateObfChain [] = None"
  by (simp add: validateObfChain_def)

lemma check_rekey_text:
  assumes "obRekeyAfterTime obf = range_text a b" "obRejectAfterTime obf = range_text c d" "b < c"
    "0 \<le> a" "a \<le> b" "c \<le> d" "d < 2 ^ 63"
  shows "check_rekey obf = None"
proof -
  have n: "range_text x y \<noteq> []" for x y by (simp add: range_text_def)
  have "parseUintRange (range_text a b) = Some (a, b)" "parseUintRange (range_text c d) = Some (c, d)"
    using assms by (auto intro!: parseUintRange_text)
  then show ?thesis using assms by (simp add: check_rekey_def n)
qed

text \<open>Header values drawn from four bands one after the other do not overlap.\<close>

lemma bands_disjoint:
  assumes h: "hValue 0 r0 = (h1, q1)" "hValue 1 r1 = (h2, q2)" "hValue 2 r2 = (h3, q3)" "hValue 3 r3 = (h4, q4)"
  shows "validateHNoOverlap [h1, h2, h3, h4] = None \<and> list_all (\<lambda>h. validateUintRange h 0 = None) [h1, h2, h3, h4]"
proof -
  have B: "hBandSize = 536870910" by (simp add: hBandSize_def awgHMax_def)
  obtain v1 where v1: "h1 = itoa v1" "5 \<le> v1" "v1 < 536870915" using hValue_range [OF h(1)] by (auto simp: B)
  obtain v2 where v2: "h2 = itoa v2" "536870915 \<le> v2" "v2 < 1073741825" using hValue_range [OF h(2)] by (auto simp: B)
  obtain v3 where v3: "h3 = itoa v3" "1073741825 \<le> v3" "v3 < 1610612735" using hValue_range [OF h(3)] by (auto simp: B)
  obtain v4 where v4: "h4 = itoa v4" "1610612735 \<le> v4" "v4 < 2147483645" using hValue_range [OF h(4)] by (auto simp: B)
  have r: "header_range i h1 = (v1, v1)" "header_range i h2 = (v2, v2)" "header_range i h3 = (v3, v3)"
    "header_range i h4 = (v4, v4)" for i
    using v1 v2 v3 v4 by (simp_all add: header_range_itoa)
  have "validateHNoOverlap [h1, h2, h3, h4] = None"
    unfolding validateHNoOverlap_None r Let_def overlap_def fst_conv snd_conv using v1 v2 v3 v4 by linarith
  moreover have "validateUintRange (itoa v) 0 = None" if "0 \<le> v" "v < 2147483645" for v
    using that by (intro validateUintRange_itoa) (simp_all add: hMaxValid_def)
  ultimately show ?thesis using v1 v2 v3 v4 by simp
qed

text \<open>C10: Whatever the random source delivers, generation of a parameter set returns, and its result passes the
  validator, so a new inbound is never stored with parameters the panel itself would refuse. The source is a finite
  list of draws that continues with the lowest value; the loop that draws S2 again ends at the first draw other than
  S1 + 56.\<close>
theorem generated_parameters_accepted:
  "\<exists>obf rs'. GenerateObfuscation31 rs = Some (obf, rs') \<and> ValidateObfuscation obf = None"
proof -
  obtain jc r1 where jc: "randInt 3 6 rs = (jc, r1)" by fastforce
  obtain jmin jmax r2 where j: "drawWindow 40 89 50 250 r1 = ((jmin, jmax), r2)" by (metis prod.exhaust)
  obtain s1 r3 where s1: "randInt 15 150 r2 = (s1, r3)" by fastforce
  obtain s20 r4 where s20: "randInt 15 150 r3 = (s20, r4)" by fastforce
  obtain s2 r5 where s2: "redrawS2 s1 s20 r4 = Some (s2, r5)" "s1 + 56 \<noteq> s2" "15 \<le> s2" "s2 \<le> 150"
    using redrawS2_returns [of s1 s20 r4] randInt_range [OF s1] randInt_range [OF s20] by auto
  obtain s3 r6 where s3: "randInt 12 55 r5 = (s3, r6)" by fastforce
  obtain s4 r7 where s4: "randInt 12 27 r6 = (s4, r7)" by fastforce
  obtain h1 r8 where h1: "hValue 0 r7 = (h1, r8)" by fastforce
  obtain h2 r9 where h2: "hValue 1 r8 = (h2, r9)" by fastforce
  obtain h3 r10 where h3: "hValue 2 r9 = (h3, r10)" by fastforce
  obtain h4 r11 where h4: "hValue 3 r10 = (h4, r11)" by fastforce
  obtain n r12 where n: "randInt 32 256 r11 = (n, r12)" by fastforce
  obtain key r13 where key: "generateHeaderProtectionKey r12 = (key, r13)" by fastforce
  obtain c1 c2 r14 where cp: "drawWindow 8 24 8 40 r13 = ((c1, c2), r14)" by (metis prod.exhaust)
  obtain k1 k2 r15 where rk: "drawWindow 100 120 10 40 r14 = ((k1, k2), r15)" by (metis prod.exhaust)
  obtain gap r16 where gap: "randInt 30 60 r15 = (gap, r16)" by fastforce
  obtain w r17 where w: "randInt 30 90 r16 = (w, r17)" by fastforce
  obtain t1 t2 r18 where rt: "drawWindow 3 6 1 4 r17 = ((t1, t2), r18)" by (metis prod.exhaust)
  obtain a1 a2 r19 where ka: "drawWindow 8 12 2 8 r18 = ((a1, a2), r19)" by (metis prod.exhaust)
  obtain g1 g2 r20 where ha: "drawWindow 15 25 5 25 r19 = ((g1, g2), r20)" by (metis prod.exhaust)
  note draws = jc j s1 s20 s2(1) s3 s4 h1 h2 h3 h4 n key cp rk gap w rt ka ha
  note ranges = randInt_range [OF jc] drawWindow_range [OF j] randInt_range [OF s1] randInt_range [OF s3]
    randInt_range [OF s4] randInt_range [OF n] drawWindow_range [OF cp] drawWindow_range [OF rk] randInt_range [OF gap]
    randInt_range [OF w] drawWindow_range [OF rt] drawWindow_range [OF ka] drawWindow_range [OF ha]
  define obf where "obf = fst (the (GenerateObfuscation31 rs))"
  have g: "GenerateObfuscation31 rs = Some (obf, r20)"
    unfolding obf_def GenerateObfuscation31_def by (simp add: draws Let_def)
  have obf: "obf = \<lparr>obJc = jc, obJmin = jmin, obJmax = jmax, obS1 = s1, obS2 = s2, obS3 = s3, obS4 = s4,
      obH1 = h1, obH2 = h2, obH3 = h3, obH4 = h4, obI1 = ''<r '' @ itoa n @ ''>'', obI2 = [], obI3 = [], obI4 = [], obI5 = [],
      obHeaderProtectionKey = key, obContentPaddingAddition = range_text c1 c2,
      obRekeyAfterTime = range_text k1 k2, obRekeyTimeout = range_text t1 t2,
      obRejectAfterTime = range_text (k2 + gap) (k2 + gap + w), obKeepaliveTimeout = range_text a1 a2,
      obMaxHandshakeAttempts = range_text g1 g2, obRandomTrailers = True, obDisableCookies = True\<rparr>"
    unfolding obf_def GenerateObfuscation31_def by (simp add: draws Let_def)
  have windows: "validateUintRange (range_text c1 c2) 0 = None" "validateUintRange (range_text k1 k2) 1 = None"
    "validateUintRange (range_text t1 t2) 1 = None" "validateUintRange (range_text (k2 + gap) (k2 + gap + w)) 1 = None"
    "validateUintRange (range_text a1 a2) 1 = None" "validateUintRange (range_text g1 g2) 1 = None"
    using ranges by (auto intro!: validateUintRange_text simp: hMaxValid_def)
  have rekey: "check_rekey obf = None"
    by (rule check_rekey_text [where a = k1 and b = k2 and c = "k2 + gap" and d = "k2 + gap + w"]) (use ranges in \<open>auto simp: obf\<close>)
  have chain: "validateObfChain (''<r '' @ itoa n @ ''>'') = None" by (rule validateObfChain_random) (use ranges in simp)
  have "ValidateObfuscation obf = None"
    using ranges s2 windows chain rekey bands_disjoint [OF h1 h2 h3 h4] generateHeaderProtectionKey_ok [OF key]
    unfolding ValidateObfuscation_iff obf list.pred_inject
    by (simp add: validateObfChain_Nil maxS1_def maxS2_def maxS3_def)
  with g show ?thesis by blast
qed

end
