(* ===== verification/Go_Text.thy ===== *)
theory Go_Text
  imports Go_Json
begin

text \<open>
  Texts made of lines, as the configuration files of the panel are: joining, splitting, the value \<open>strconv.Atoi\<close>
  leaves behind when the code ignores its error, and trimming at the end of a line.
\<close>

section \<open>Joining and lines\<close>

text \<open>\<open>strings.Join\<close>.\<close>

fun join :: "string \<Rightarrow> string list \<Rightarrow> string" where
  "join sep [] = []"
| "join sep [x] = x"
| "join sep (x # xs) = x @ sep @ join sep xs"

abbreviation newline :: char where
  "newline \<equiv> CHR 0x0A"

definition unlines :: "string list \<Rightarrow> string" where
  "unlines ls = concat (map (\<lambda>l. l @ [newline]) ls)"

definition one_line :: "string \<Rightarrow> bool" where
  "one_line l \<longleftrightarrow> newline \<notin> set l"

lemma one_line_simps [simp]:
  "one_line []" "one_line (c # l) \<longleftrightarrow> c \<noteq> newline \<and> one_line l" "one_line (a @ b) \<longleftrightarrow> one_line a \<and> one_line b"
  by (auto simp: one_line_def)

lemma split_on_one: "c \<notin> set l \<Longrightarrow> split_on c l = [l]"
  by (induction l) auto

lemma split_on_cut: "c \<notin> set l \<Longrightarrow> split_on c (l @ c # r) = l # split_on c r"
  by (induction l) auto

lemma split_on_not_Nil [simp]: "split_on c s \<noteq> []"
  by (cases s) (auto split: list.split)

lemma unlines_simps [simp]: "unlines [] = []" "unlines (l # ls) = l @ newline # unlines ls"
  "unlines (ls @ ls') = unlines ls @ unlines ls'"
  by (simp_all add: unlines_def)

lemma split_unlines: "list_all one_line ls \<Longrightarrow> split_on newline (unlines ls) = ls @ [[]]"
proof (induction ls)
  case (Cons l ls)
  then have "newline \<notin> set l" by (simp add: one_line_def)
  with Cons show ?case by (simp only: unlines_simps split_on_cut list.pred_inject append_Cons simp_thms)
qed simp

lemma unlines_inject: "list_all one_line ls \<Longrightarrow> list_all one_line ls' \<Longrightarrow> unlines ls = unlines ls' \<Longrightarrow> ls = ls'"
  by (metis append_same_eq split_unlines)

lemma split_on_pieces: "x \<in> set (split_on c s) \<Longrightarrow> c \<notin> set x"
  by (induction s arbitrary: x) (auto split: list.splits if_splits)

lemma split_on_join: "xs \<noteq> [] \<Longrightarrow> \<forall>x \<in> set xs. c \<notin> set x \<Longrightarrow> split_on c (join [c] xs) = xs"
  by (induction "[c]" xs rule: join.induct) (simp_all add: split_on_one split_on_cut)

lemma join_split_on: "join [c] (split_on c s) = s"
proof (induction s)
  case (Cons x xs)
  then show ?case by (cases "split_on c xs") (auto simp: neq_Nil_conv split: list.splits, cases "tl (split_on c xs)", auto)
qed simp

section \<open>Numbers whose error is ignored\<close>

text \<open>What \<open>strconv.Atoi\<close> and \<open>strconv.ParseInt\<close> return beside an error: zero for a text that is no number, the
  nearest value of the type for one that is out of range.\<close>

definition atoi_val :: "string \<Rightarrow> int" where
  "atoi_val s =
     (let (neg, ds) = (case s of [] \<Rightarrow> (False, []) | c # r \<Rightarrow>
            if c = CHR ''-'' then (True, r) else if c = CHR ''+'' then (False, r) else (False, s))
      in case parse_nat ds of None \<Rightarrow> 0
         | Some n \<Rightarrow> if neg then max (- (2 ^ 63)) (- int n) else min (2 ^ 63 - 1) (int n))"

lemma atoi_parse: "parse_int64 s = Some n \<Longrightarrow> atoi_val s = n"
  by (auto simp: parse_int64_def atoi_val_def Let_def split: list.splits if_splits option.splits)

lemma parse_int64_itoa: "- (2 ^ 63) \<le> n \<Longrightarrow> n < 2 ^ 63 \<Longrightarrow> parse_int64 (itoa n) = Some n"
proof (cases "n < 0")
  case True
  assume "- (2 ^ 63) \<le> n"
  with True show ?thesis by (simp add: itoa_def parse_int64_def Let_def)
next
  case False
  assume "n < 2 ^ 63"
  with False have "nat n < 2 ^ 63" by simp
  then show ?thesis using False parse_int64_itoa_nat [of "nat n"] by (simp add: itoa_def)
qed

lemma atoi_itoa: "- (2 ^ 63) \<le> n \<Longrightarrow> n < 2 ^ 63 \<Longrightarrow> atoi_val (itoa n) = n"
  by (rule atoi_parse) (rule parse_int64_itoa)

text \<open>\<open>strconv.ParseUint(s, 10, 32)\<close>.\<close>

definition parse_uint32 :: "string \<Rightarrow> nat option" where
  "parse_uint32 s = (case parse_nat s of Some n \<Rightarrow> if n < 2 ^ 32 then Some n else None | None \<Rightarrow> None)"

lemma itoa_chars: "c \<in> set (itoa n) \<Longrightarrow> is_digit c \<or> c = CHR ''-''"
  using itoa_nat_digits by (auto simp: itoa_def list_all_iff split: if_splits)

lemma itoa_one_line [simp]: "one_line (itoa n)"
  using itoa_chars [of newline n] by (auto simp: one_line_def is_digit_def less_eq_char_def)

section \<open>Trimming\<close>

text \<open>A text without white space at its ends.\<close>

definition trimmed :: "string \<Rightarrow> bool" where
  "trimmed v \<longleftrightarrow> space_prefix unicode_spaces v = 0 \<and> space_prefix (map rev unicode_spaces) (rev v) = 0"

lemma strip_left_stop: "space_prefix ws s = 0 \<Longrightarrow> strip_left ws s = s"
  by (subst strip_left.simps) simp

lemma trim_trimmed: "trimmed v \<Longrightarrow> trim_space v = v"
  by (simp add: trimmed_def trim_space_def strip_left_stop)

end
