(* ===== verification/Awg_Kernel.thy ===== *)
theory Awg_Kernel
  imports Awg_Instance Cps_Descriptor Go_Text
begin

text \<open>
  \<open>internal/awg/instance.go\<close>: the desired configuration of a kernel AmneziaWG interface, as it is derived from a
  stored inbound, and the checks of its fields. The obfuscation fields of the code lie flat in each of its structs;
  they are one record here, the one of the embedded engine.
\<close>

section \<open>Timers and values\<close>

text \<open>\<open>^[0-9]+(-[0-9]+)?$\<close>, the pattern of timers and of H1-H4.\<close>

definition digits :: "string \<Rightarrow> bool" where
  "digits s \<longleftrightarrow> s \<noteq> [] \<and> list_all is_digit s"

definition awgTimerPat :: "string \<Rightarrow> bool" where
  "awgTimerPat s \<longleftrightarrow> (case cut CHR ''-'' s of None \<Rightarrow> digits s | Some (lo, hi) \<Rightarrow> digits lo \<and> digits hi)"

text \<open>\<open>AwgTimer.UnmarshalJSON\<close>, which sees the text of any value and never fails.\<close>

definition s_timer :: "string setter" where
  "s_timer old v = (True, case v of
       JStr str \<Rightarrow> (let s = trim_space str in if s \<noteq> [] \<and> \<not> awgTimerPat s then [] else s)
     | JNum t \<Rightarrow> if awgTimerPat t then t else []
     | _ \<Rightarrow> [])"

definition timer_IsZero :: "string \<Rightarrow> bool" where
  "timer_IsZero t \<longleftrightarrow> (let s = trim_space t in s = [] \<or> s = ''0'' \<or> s = ''0-0'')"

definition char_between :: "char \<Rightarrow> char \<Rightarrow> char \<Rightarrow> bool" where
  "char_between lo hi c \<longleftrightarrow> lo \<le> c \<and> c \<le> hi"

definition ascii_letter :: "char \<Rightarrow> bool" where
  "ascii_letter c \<longleftrightarrow> char_between CHR ''a'' CHR ''z'' c \<or> char_between CHR ''A'' CHR ''Z'' c"

lemmas ascii_letter_simps = ascii_letter_def char_between_def

definition validIptablesIface :: "string \<Rightarrow> bool" where
  "validIptablesIface name \<longleftrightarrow> name \<noteq> [] \<and> length name \<le> 15
     \<and> list_all (\<lambda>c. ascii_letter c \<or> is_digit c \<or> c \<in> set ''_.-'') name"

text \<open>\<open>strings.Map\<close> drops line breaks and NUL and writes U+FFFD for a byte that is no character.\<close>

function confValue :: "string \<Rightarrow> string" where
  "confValue v = (if v = [] then []
     else if utf8_len v = 0 then replacement @ confValue (tl v)
     else (if hd v = CHR 0x0A \<or> hd v = CHR 0x0D \<or> hd v = CHR 0x00 then [] else take (utf8_len v) v)
       @ confValue (drop (utf8_len v) v))"
  by pat_completeness auto
termination by (relation "measure length") auto

declare confValue.simps [simp del]

definition orDefault :: "int \<Rightarrow> int \<Rightarrow> int" where
  "orDefault v d = (if v = 0 then d else v)"

definition ifnameFor :: "int \<Rightarrow> string" where
  "ifnameFor n = ''awg'' @ itoa n"

section \<open>Versions\<close>

definition NormalizeAWGVersion :: "string \<Rightarrow> string" where
  "NormalizeAWGVersion v = (if v \<in> set [''1.5'', ''2'', ''3'', ''3.1''] then v else ''2'')"

definition IsAwg3Plus :: "string \<Rightarrow> bool" where
  "IsAwg3Plus v \<longleftrightarrow> NormalizeAWGVersion v = ''3'' \<or> NormalizeAWGVersion v = ''3.1''"

definition IsAwg31 :: "string \<Rightarrow> bool" where
  "IsAwg31 v \<longleftrightarrow> NormalizeAWGVersion v = ''3.1''"

definition CollapseTimerForVersion :: "string \<Rightarrow> string \<Rightarrow> string" where
  "CollapseTimerForVersion raw version =
     (let s = trim_space raw in
      if s = [] \<or> s = ''0'' \<or> s = ''0-0'' then []
      else if \<not> IsAwg3Plus version then
        (case cut CHR ''-'' s of None \<Rightarrow> s | Some (a, _) \<Rightarrow> if a = [] then s else trim_space a)
      else s)"

text \<open>The first \<open>v\<close> before a digit starts a version; \<open>-1\<close> twice when there is none.\<close>

fun parseAwgToolsVersion :: "string \<Rightarrow> int \<times> int" where
  "parseAwgToolsVersion (c # d # r) =
     (if c = CHR ''v'' \<and> is_digit d then
        (let ds = takeWhile is_digit (d # r); rest = dropWhile is_digit (d # r) in
         case parse_int64 ds of None \<Rightarrow> (-1, -1)
         | Some maj \<Rightarrow> (maj, case rest of [] \<Rightarrow> 0 | x # r2 \<Rightarrow>
             let ks = takeWhile is_digit r2 in if x = CHR ''.'' \<and> ks \<noteq> [] then atoi_val ks else 0))
      else parseAwgToolsVersion (d # r))"
| "parseAwgToolsVersion _ = (-1, -1)"

definition awgToolsAtLeast :: "string \<Rightarrow> int \<Rightarrow> int \<Rightarrow> bool" where
  "awgToolsAtLeast s wantMajor wantMinor =
     (let (maj, mnr) = parseAwgToolsVersion s in
      if maj < 0 then False else if maj \<noteq> wantMajor then maj > wantMajor else mnr \<ge> wantMinor)"

definition AwgVersionFieldsAllowed :: "bool \<Rightarrow> bool \<Rightarrow> bool \<Rightarrow> bool" where
  "AwgVersionFieldsAllowed versionAsks localInbound hostSupports =
     (if \<not> versionAsks then False else if \<not> localInbound then True else hostSupports)"

section \<open>Checks before saving\<close>

datatype awg_error = EmptyHeader nat | HeaderPattern nat | HeaderRange15 nat
  | TimerPattern string | TimerOutOfRange string

definition check_header :: "string \<Rightarrow> bool \<Rightarrow> nat \<times> string \<Rightarrow> awg_error option" where
  "check_header ver obfuscated ih =
     (let i = fst ih; h = trim_space (snd ih) in
      if h = [] then (if obfuscated then Some (EmptyHeader i) else None)
      else if \<not> awgTimerPat h then Some (HeaderPattern i)
      else if ver = ''1.5'' \<and> CHR ''-'' \<in> set h then Some (HeaderRange15 i) else None)"

definition ValidateObfuscationFields ::
  "string \<Rightarrow> int \<Rightarrow> int \<Rightarrow> string \<Rightarrow> string \<Rightarrow> string \<Rightarrow> string \<Rightarrow> awg_error option" where
  "ValidateObfuscationFields version jc s1 h1 h2 h3 h4 =
     (let ver = NormalizeAWGVersion version; obfuscated = (jc > 0 \<or> s1 > 0);
          errs = map (check_header ver obfuscated) (zip [1..<5] [h1, h2, h3, h4])
      in case find (\<lambda>e. e \<noteq> None) errs of None \<Rightarrow> None | Some e \<Rightarrow> e)"

definition ValidateDeviceTimer :: "string \<Rightarrow> string \<Rightarrow> awg_error option" where
  "ValidateDeviceTimer name t =
     (if timer_IsZero t then None
      else let s = trim_space t in
        if \<not> awgTimerPat s then Some (TimerPattern name)
        else let (lo, hi) = (case cut CHR ''-'' s of None \<Rightarrow> (s, s) | Some p \<Rightarrow> p) in
          case (parse_uint32 lo, parse_uint32 hi) of
            (Some l, Some h) \<Rightarrow> if l > 65535 \<or> h > 65535 then Some (TimerOutOfRange name)
              else if h < l then Some (TimerOutOfRange name) else None
          | _ \<Rightarrow> Some (TimerOutOfRange name))"

section \<open>How long a handshake counts as online\<close>

definition handshakeOnlineTTL :: int where
  "handshakeOnlineTTL = 180"

definition timerHi :: "string \<Rightarrow> int" where
  "timerHi t =
     (let s = trim_space t in
      if s = [] \<or> s = ''0'' \<or> s = ''0-0'' then 0
      else let s = (if CHR ''-'' \<in> set s then trim_space (rev (takeWhile (\<lambda>c. c \<noteq> CHR ''-'') (rev s))) else s)
        in atoi_val s)"

text \<open>The sum is an \<open>int64\<close>.\<close>

definition wrap64 :: "int \<Rightarrow> int" where
  "wrap64 n = (n + 2 ^ 63) mod 2 ^ 64 - 2 ^ 63"

section \<open>The interface an inbound asks for\<close>

record kpeer =
  kpPrivateKey :: string
  kpPublicKey :: string
  kpPSK :: string
  kpKeepalive :: string
  kpAllowedIPs :: string
  kpEmail :: string
  kpForwardedPorts :: string

record kernel_instance =
  kId :: int
  kTag :: string
  kListen :: string
  kPort :: int
  kIfname :: string
  kMTU :: int
  kDNS :: string
  kAddress :: string
  kPrivateKey :: string
  kObf :: obfuscation31
  kAwgVersion :: string
  kPeers :: "kpeer list"
  kRouteThroughXray :: bool
  kXrayRoutingMode :: string
  kTproxyPort :: int
  kOutboundTag :: string
  kP2P :: bool

definition onlineTTLSeconds :: "kernel_instance \<Rightarrow> int" where
  "onlineTTLSeconds inst =
     (let hi = wrap64 (timerHi (obRekeyAfterTime (kObf inst)) + 60) in if hi > handshakeOnlineTTL then hi else handshakeOnlineTTL)"

record kclient =
  kcPublicKey :: string
  kcPrivateKey :: string
  kcPreSharedKey :: string
  kcAllowedIPs :: "string list"
  kcKeepAlive :: string
  kcEmail :: string
  kcForwardedPorts :: string
  kcID :: string
  kcPassword :: string
  kcEnable :: "bool option"

definition zero_kclient :: kclient where
  "zero_kclient = \<lparr>kcPublicKey = [], kcPrivateKey = [], kcPreSharedKey = [], kcAllowedIPs = [], kcKeepAlive = [],
     kcEmail = [], kcForwardedPorts = [], kcID = [], kcPassword = [], kcEnable = None\<rparr>"

definition kclient_fields :: "kclient field list" where
  "kclient_fields =
     [fld ''publicKey'' kcPublicKey kcPublicKey_update s_string, fld ''privateKey'' kcPrivateKey kcPrivateKey_update s_string,
      fld ''preSharedKey'' kcPreSharedKey kcPreSharedKey_update s_string,
      fld ''allowedIPs'' kcAllowedIPs kcAllowedIPs_update (s_list s_string []),
      fld ''keepAlive'' kcKeepAlive kcKeepAlive_update s_timer, fld ''email'' kcEmail kcEmail_update s_string,
      fld ''forwardedPorts'' kcForwardedPorts kcForwardedPorts_update s_string, fld ''id'' kcID kcID_update s_string,
      fld ''password'' kcPassword kcPassword_update s_string, fld ''enable'' kcEnable kcEnable_update (s_ptr s_bool False)]"

record ksettings =
  ksPrivateKey :: string
  ksMTU :: int
  ksDNS :: string
  ksAddress :: string
  ksObf :: obfuscation31
  ksAwgVersion :: string
  ksRouteThroughXray :: bool
  ksXrayRoutingMode :: string
  ksTproxyPort :: int
  ksOutboundTag :: string
  ksP2P :: bool
  ksClients :: "kclient list"

definition zero_ksettings :: ksettings where
  "zero_ksettings = \<lparr>ksPrivateKey = [], ksMTU = 0, ksDNS = [], ksAddress = [], ksObf = zero_obfuscation, ksAwgVersion = [],
     ksRouteThroughXray = False, ksXrayRoutingMode = [], ksTproxyPort = 0, ksOutboundTag = [], ksP2P = False, ksClients = []\<rparr>"

definition kob :: "string \<Rightarrow> (obfuscation31 \<Rightarrow> 'b) \<Rightarrow> (('b \<Rightarrow> 'b) \<Rightarrow> obfuscation31 \<Rightarrow> obfuscation31) \<Rightarrow> 'b setter \<Rightarrow> ksettings field" where
  "kob name get upd = fld name (\<lambda>s. get (ksObf s)) (\<lambda>f. ksObf_update (upd f))"

definition ksettings_fields :: "ksettings field list" where
  "ksettings_fields =
     [fld ''privateKey'' ksPrivateKey ksPrivateKey_update s_string, fld ''mtu'' ksMTU ksMTU_update s_int,
      fld ''dns'' ksDNS ksDNS_update s_string, fld ''address'' ksAddress ksAddress_update s_string,
      kob ''jc'' obJc obJc_update s_int, kob ''jmin'' obJmin obJmin_update s_int, kob ''jmax'' obJmax obJmax_update s_int,
      kob ''s1'' obS1 obS1_update s_int, kob ''s2'' obS2 obS2_update s_int, kob ''s3'' obS3 obS3_update s_int,
      kob ''s4'' obS4 obS4_update s_int, kob ''h1'' obH1 obH1_update s_string, kob ''h2'' obH2 obH2_update s_string,
      kob ''h3'' obH3 obH3_update s_string, kob ''h4'' obH4 obH4_update s_string, kob ''i1'' obI1 obI1_update s_string,
      kob ''i2'' obI2 obI2_update s_string, kob ''i3'' obI3 obI3_update s_string, kob ''i4'' obI4 obI4_update s_string,
      kob ''i5'' obI5 obI5_update s_string,
      kob ''headerProtectionKey'' obHeaderProtectionKey obHeaderProtectionKey_update s_string,
      fld ''awgVersion'' ksAwgVersion ksAwgVersion_update s_string,
      fld ''routeThroughXray'' ksRouteThroughXray ksRouteThroughXray_update s_bool,
      fld ''xrayRoutingMode'' ksXrayRoutingMode ksXrayRoutingMode_update s_string,
      fld ''tproxyPort'' ksTproxyPort ksTproxyPort_update s_int, fld ''outboundTag'' ksOutboundTag ksOutboundTag_update s_string,
      fld ''p2p'' ksP2P ksP2P_update s_bool,
      fld ''clients'' ksClients ksClients_update (s_list (s_struct kclient_fields) zero_kclient),
      kob ''contentPaddingAddition'' obContentPaddingAddition obContentPaddingAddition_update s_timer,
      kob ''rekeyAfterTime'' obRekeyAfterTime obRekeyAfterTime_update s_timer,
      kob ''rekeyTimeout'' obRekeyTimeout obRekeyTimeout_update s_timer,
      kob ''rejectAfterTime'' obRejectAfterTime obRejectAfterTime_update s_timer,
      kob ''keepaliveTimeout'' obKeepaliveTimeout obKeepaliveTimeout_update s_timer,
      kob ''maxHandshakeAttempts'' obMaxHandshakeAttempts obMaxHandshakeAttempts_update s_timer,
      kob ''randomTrailers'' obRandomTrailers obRandomTrailers_update s_bool,
      kob ''disableCookies'' obDisableCookies obDisableCookies_update s_bool]"

text \<open>A disabled client, one without a key and one without an address get no peer. The password is a pre-shared
  key only in the old form without a public key.\<close>

definition kernel_peer :: "kclient \<Rightarrow> kpeer option" where
  "kernel_peer c =
     (if kcEnable c = Some False then None
      else let pub0 = trim_space (kcPublicKey c); psk0 = trim_space (kcPreSharedKey c);
             pub = (if pub0 = [] then trim_space (kcID c) else pub0);
             psk = (if psk0 = [] \<and> trim_space (kcPublicKey c) = [] then trim_space (kcPassword c) else psk0)
        in if pub = [] then None
           else if length (kcAllowedIPs c) = 0 \<or> trim_space (hd (kcAllowedIPs c)) = [] then None
           else Some \<lparr>kpPrivateKey = kcPrivateKey c, kpPublicKey = pub, kpPSK = psk, kpKeepalive = kcKeepAlive c,
               kpAllowedIPs = join '', '' (kcAllowedIPs c), kpEmail = kcEmail c, kpForwardedPorts = kcForwardedPorts c\<rparr>)"

definition kernel_DefaultMTU :: int where
  "kernel_DefaultMTU = 1420"

definition KernelInstanceFromInbound :: "inbound \<Rightarrow> kernel_instance option" where
  "KernelInstanceFromInbound ib =
     (if inProtocol ib \<noteq> ''awg'' then None
      else case Unmarshal (s_struct ksettings_fields) zero_ksettings (inSettings ib) of
        (ok, s) \<Rightarrow>
          if \<not> ok then None else if ksPrivateKey s = [] then None
          else Some \<lparr>kId = inId ib, kTag = inTag ib, kListen = inListen ib, kPort = inPort ib, kIfname = ifnameFor (inId ib),
              kMTU = orDefault (ksMTU s) kernel_DefaultMTU, kDNS = ksDNS s, kAddress = ksAddress s, kPrivateKey = ksPrivateKey s,
              kObf = ksObf s, kAwgVersion = NormalizeAWGVersion (ksAwgVersion s),
              kPeers = List.map_filter kernel_peer (ksClients s),
              kRouteThroughXray = ksRouteThroughXray s, kXrayRoutingMode = ksXrayRoutingMode s, kTproxyPort = ksTproxyPort s,
              kOutboundTag = ksOutboundTag s, kP2P = ksP2P s\<rparr>)"

end
