(* ===== verification/Awg_Nat.thy ===== *)
theory Awg_Nat
  imports Awg_Kernel Go_Prefix
begin

text \<open>
  The shell commands a kernel interface runs when it comes up and goes down (\<open>internal/awg/manager.go\<close>:
  \<open>natPostUpPostDown\<close>, \<open>natRulesFor\<close>; \<open>internal/awg/tproxy.go\<close>). A firewall rule is its table, its chain and
  the words of its specification; the texts of the code are these words with spaces between them.
\<close>

section \<open>Names and numbers\<close>

definition tunNameFor :: "int \<Rightarrow> string" where
  "tunNameFor n = ''tun'' @ itoa n"

definition awgRouteTable :: "int \<Rightarrow> int" where
  "awgRouteTable n = 1000 + n"

text \<open>\<open>0xA0000 | (id & 0xFFFF)\<close>: the two halves share no bit.\<close>

definition awgNatMark :: "int \<Rightarrow> int" where
  "awgNatMark n = 655360 + (if n < 0 then 0 else n) mod 65536"

definition clientSubnet :: "string \<Rightarrow> string" where
  "clientSubnet address0 =
     (let address = trim_space address0 in
      if address = [] then []
      else case ParsePrefix address of None \<Rightarrow> []
        | Some pfx \<Rightarrow> if snd pfx < 8 then [] else prefix_String (Masked pfx, snd pfx))"

definition UsesTproxy :: "kernel_instance \<Rightarrow> bool" where
  "UsesTproxy inst \<longleftrightarrow> kRouteThroughXray inst \<and> kXrayRoutingMode inst = ''tproxy''"

section \<open>Rules and commands\<close>

record rule =
  rTable :: string
  rChain :: string
  rSpec :: "string list"

definition rule_make :: "string \<Rightarrow> string \<Rightarrow> string list \<Rightarrow> rule" where
  "rule_make t c s = \<lparr>rTable = t, rChain = c, rSpec = s\<rparr>"

datatype command =
    Run string
  | Ensure rule
  | Drop rule

text \<open>The default table is not named.\<close>

definition iptables :: "string \<Rightarrow> rule \<Rightarrow> string" where
  "iptables op r = ''iptables '' @ (if rTable r = ''filter'' then [] else ''-t '' @ rTable r @ '' '') @ op @ '' ''
     @ rChain r @ '' '' @ join '' '' (rSpec r)"

fun command_text :: "command \<Rightarrow> string" where
  "command_text (Run s) = s"
| "command_text (Ensure r) = iptables ''-C'' r @ '' 2>/dev/null || '' @ iptables ''-A'' r"
| "command_text (Drop r) = iptables ''-D'' r @ '' 2>/dev/null || true''"

definition script :: "command list \<Rightarrow> string" where
  "script cs = join ''; '' (map command_text cs)"

definition accept_rule :: "string \<Rightarrow> string \<Rightarrow> rule" where
  "accept_rule dir iface = rule_make ''filter'' ''FORWARD'' [dir, iface, ''-j'', ''ACCEPT'']"

definition mss_rule :: "string \<Rightarrow> string \<Rightarrow> rule" where
  "mss_rule dir iface = rule_make ''mangle'' ''FORWARD''
     [''-p'', ''tcp'', ''--tcp-flags'', ''SYN,RST'', ''SYN'', dir, iface, ''-j'', ''TCPMSS'', ''--clamp-mss-to-pmtu'']"

definition xray_rules :: "string \<Rightarrow> string \<Rightarrow> rule list" where
  "xray_rules iface tun =
     [accept_rule ''-i'' iface, accept_rule ''-o'' iface, accept_rule ''-i'' tun, accept_rule ''-o'' tun,
      mss_rule ''-o'' tun, mss_rule ''-i'' tun, mss_rule ''-o'' iface, mss_rule ''-i'' iface]"

definition mark_rule :: "string \<Rightarrow> string \<Rightarrow> rule" where
  "mark_rule iface mark = rule_make ''mangle'' ''PREROUTING'' [''-i'', iface, ''-j'', ''MARK'', ''--set-mark'', mark]"

definition masq_subnet :: "string \<Rightarrow> string \<Rightarrow> rule" where
  "masq_subnet subnet ext = rule_make ''nat'' ''POSTROUTING'' [''-s'', subnet, ''-o'', ext, ''-j'', ''MASQUERADE'']"

definition masq_mark :: "string \<Rightarrow> string \<Rightarrow> rule" where
  "masq_mark mark ext = rule_make ''nat'' ''POSTROUTING'' [''-m'', ''mark'', ''--mark'', mark, ''-o'', ext, ''-j'', ''MASQUERADE'']"

definition nat_up_rules :: "string \<Rightarrow> string \<Rightarrow> string \<Rightarrow> string \<Rightarrow> rule list" where
  "nat_up_rules iface mark subnet ext =
     [mark_rule iface mark, masq_subnet subnet ext, masq_mark mark ext, accept_rule ''-i'' iface, accept_rule ''-o'' iface,
      mss_rule ''-o'' iface, mss_rule ''-i'' iface]"

definition nat_down_rules :: "string \<Rightarrow> string \<Rightarrow> string \<Rightarrow> string \<Rightarrow> rule list" where
  "nat_down_rules iface mark subnet ext =
     [masq_subnet subnet ext, masq_mark mark ext, mark_rule iface mark, accept_rule ''-i'' iface, accept_rule ''-o'' iface,
      mss_rule ''-o'' iface, mss_rule ''-i'' iface]"

definition ip_forward_cmd :: string where
  "ip_forward_cmd = ''echo 1 > /proc/sys/net/ipv4/ip_forward''"

text \<open>The commands without TPROXY. \<open>ext\<close> is what \<open>defaultRouteInterface\<close> found.\<close>

definition nat_commands :: "string \<Rightarrow> kernel_instance \<Rightarrow> command list \<times> command list" where
  "nat_commands ext inst =
     (let subnet = clientSubnet (kAddress inst); iface = kIfname inst; tun = tunNameFor (kId inst);
          table = itoa (awgRouteTable (kId inst)); mark = itoa (awgNatMark (kId inst));
          iif = '' iif '' @ iface @ '' lookup '' @ table in
      if subnet = [] then ([], [])
      else if kRouteThroughXray inst then
        ([Run ip_forward_cmd, Run (''sysctl -qw net.ipv4.conf.'' @ iface @ ''.rp_filter=2'')]
           @ map Ensure (xray_rules iface tun)
           @ [Run (''ip rule del'' @ iif @ '' 2>/dev/null || true''), Run (''ip rule add'' @ iif)],
         [Run (''ip rule del'' @ iif @ '' 2>/dev/null || true''),
          Run (''ip route flush table '' @ table @ '' 2>/dev/null || true'')]
           @ map Drop (xray_rules iface tun))
      else if ext = [] \<or> \<not> validIptablesIface ext then ([], [])
      else (Run ip_forward_cmd # map Ensure (nat_up_rules iface mark subnet ext),
            map Drop (nat_down_rules iface mark subnet ext)))"

definition natRulesFor :: "kernel_instance \<Rightarrow> string \<Rightarrow> rule list" where
  "natRulesFor inst ext =
     (if kRouteThroughXray inst \<or> kIfname inst = [] \<or> ext = [] then []
      else if clientSubnet (kAddress inst) = [] then []
      else let mark = itoa (awgNatMark (kId inst)); subnet = clientSubnet (kAddress inst) in
        [mark_rule (kIfname inst) mark, masq_subnet subnet ext, masq_mark mark ext,
         accept_rule ''-i'' (kIfname inst), accept_rule ''-o'' (kIfname inst)])"

definition p2pDropSpec :: "string \<Rightarrow> string list" where
  "p2pDropSpec ifname = [''-i'', ifname, ''-o'', ifname, ''-j'', ''DROP'']"

definition ensureXrayRoutingCmds :: "kernel_instance \<Rightarrow> string list list" where
  "ensureXrayRoutingCmds inst =
     (let tun = tunNameFor (kId inst) in
      [[''ip'', ''route'', ''replace'', ''default'', ''dev'', tun, ''table'', itoa (awgRouteTable (kId inst))],
       [''sysctl'', ''-qw'', ''net.ipv4.conf.'' @ tun @ ''.rp_filter=2'']])"

definition has_suffix :: "string \<Rightarrow> string \<Rightarrow> bool" where
  "has_suffix suf s \<longleftrightarrow> prefix (rev suf) (rev s)"

definition ruleMissing :: "string \<Rightarrow> int \<Rightarrow> bool" where
  "ruleMissing ruleOutput table =
     (\<not> list_ex (\<lambda>line. has_suffix (''lookup '' @ itoa table) (trim_space line)) (split_on newline ruleOutput))"

section \<open>TPROXY\<close>

datatype tproxy_error = TproxyId | TproxyPort | TproxySubnet | TproxyPeer

definition peer_inside :: "addr \<times> nat \<Rightarrow> string \<Rightarrow> bool" where
  "peer_inside subnet raw \<longleftrightarrow> trim_space raw = [] \<or>
     (case ParsePrefix (trim_space raw) of None \<Rightarrow> False
      | Some p \<Rightarrow> Is4 (fst p) \<and> snd p \<ge> snd subnet \<and> Contains (Masked subnet, snd subnet) (fst p))"

definition validateTproxy :: "kernel_instance \<Rightarrow> tproxy_error option" where
  "validateTproxy inst =
     (if kId inst < 1 \<or> kId inst > 65535 \<or> kIfname inst \<noteq> ifnameFor (kId inst) then Some TproxyId
      else if kTproxyPort inst < 1024 \<or> kTproxyPort inst > 65535 then Some TproxyPort
      else case ParsePrefix (kAddress inst) of None \<Rightarrow> Some TproxySubnet
        | Some subnet \<Rightarrow>
            if \<not> Is4 (fst subnet) \<or> snd subnet < 8 \<or> snd subnet > 30 then Some TproxySubnet
            else if list_all (\<lambda>p. list_all (peer_inside subnet) (split_on CHR '','' (kpAllowedIPs p))) (kPeers inst)
            then None else Some TproxyPeer)"

fun hex_nat :: "nat \<Rightarrow> string" where
  "hex_nat n = (if n < 16 then [hex_digit n] else hex_nat (n div 16) @ [hex_digit (n mod 16)])"

declare hex_nat.simps [simp del]

definition tproxy_chain :: "int \<Rightarrow> string" where
  "tproxy_chain n = ''LXAT'' @ itoa n"

definition tproxy_mark :: "int \<Rightarrow> string" where
  "tproxy_mark n = ''0x'' @ hex_nat (nat (1073741824 + n)) @ ''/0xffffffff''"

definition tproxy_table :: "int \<Rightarrow> string" where
  "tproxy_table n = itoa (40000 + n)"

text \<open>A rule with the program it is for.\<close>

type_synonym tproxyRule = "string \<times> rule"

definition tproxy_rule :: "string \<Rightarrow> string \<Rightarrow> string \<Rightarrow> string list \<Rightarrow> tproxyRule" where
  "tproxy_rule bin t c s = (bin, rule_make t c s)"

definition tproxyRules :: "kernel_instance \<Rightarrow> tproxyRule list" where
  "tproxyRules inst =
     (let chain = tproxy_chain (kId inst); mark = tproxy_mark (kId inst); iface = kIfname inst in
      [tproxy_rule ''iptables'' ''mangle'' chain [''-d'', clientSubnet (kAddress inst), ''-j'', ''RETURN'']]
      @ map (\<lambda>proto. tproxy_rule ''iptables'' ''mangle'' chain
            [''-p'', proto, ''-j'', ''TPROXY'', ''--on-ip'', ''127.0.0.1'', ''--on-port'', itoa (kTproxyPort inst), ''--tproxy-mark'', mark])
          [''tcp'', ''udp'']
      @ [tproxy_rule ''iptables'' ''filter'' ''INPUT'' [''-i'', iface, ''-m'', ''mark'', ''--mark'', mark, ''-j'', ''ACCEPT'']]
      @ (if kP2P inst then [tproxy_rule ''iptables'' ''filter'' ''FORWARD'' [''-i'', iface, ''-o'', iface, ''-j'', ''ACCEPT'']] else [])
      @ [tproxy_rule ''iptables'' ''filter'' ''FORWARD''
           (if kP2P inst then [''-i'', iface, ''!'', ''-o'', iface, ''-j'', ''DROP''] else [''-i'', iface, ''-j'', ''DROP'']),
         tproxy_rule ''ip6tables'' ''filter'' ''FORWARD'' [''-i'', iface, ''-j'', ''DROP''],
         tproxy_rule ''ip6tables'' ''filter'' ''INPUT'' [''-i'', iface, ''-j'', ''DROP''],
         tproxy_rule ''iptables'' ''mangle'' ''PREROUTING'' [''-i'', iface, ''-j'', chain]])"

definition tproxy_command :: "string \<Rightarrow> tproxyRule \<Rightarrow> string" where
  "tproxy_command op br = fst br @ '' -w 5 -t '' @ rTable (snd br) @ '' '' @ op @ '' '' @ rChain (snd br) @ '' ''
     @ join '' '' (rSpec (snd br)) @ '' -m comment --comment lucx-awg-tproxy''"

definition tproxy_cleanup_rules :: "int \<Rightarrow> tproxyRule list" where
  "tproxy_cleanup_rules n =
     (let chain = tproxy_chain n; mark = tproxy_mark n; iface = ifnameFor n in
      [tproxy_rule ''iptables'' ''mangle'' ''PREROUTING'' [''-i'', iface, ''-j'', chain],
       tproxy_rule ''iptables'' ''filter'' ''INPUT'' [''-i'', iface, ''-m'', ''mark'', ''--mark'', mark, ''-j'', ''ACCEPT''],
       tproxy_rule ''iptables'' ''filter'' ''FORWARD'' [''-i'', iface, ''-o'', iface, ''-j'', ''ACCEPT''],
       tproxy_rule ''iptables'' ''filter'' ''FORWARD'' [''-i'', iface, ''-j'', ''DROP''],
       tproxy_rule ''iptables'' ''filter'' ''FORWARD'' [''-i'', iface, ''!'', ''-o'', iface, ''-j'', ''DROP''],
       tproxy_rule ''ip6tables'' ''filter'' ''FORWARD'' [''-i'', iface, ''-j'', ''DROP''],
       tproxy_rule ''ip6tables'' ''filter'' ''INPUT'' [''-i'', iface, ''-j'', ''DROP'']])"


definition tproxy_selector :: "kernel_instance \<Rightarrow> string" where
  "tproxy_selector inst = ''iif '' @ kIfname inst @ '' fwmark '' @ tproxy_mark (kId inst) @ '' lookup '' @ tproxy_table (kId inst)"

text \<open>The commands before the rules: they fail when the routing table or the chain holds something foreign.\<close>

definition tproxy_guards :: "kernel_instance \<Rightarrow> string list" where
  "tproxy_guards inst =
     (let chain = tproxy_chain (kId inst); table = tproxy_table (kId inst); selector = tproxy_selector inst in
      [''(all=$(ip -4 route show table '' @ table @ '' 2>/dev/null | wc -l); owned=$(ip -4 route show table '' @ table
         @ '' proto 242 2>/dev/null | wc -l); [ \"$all\" = \"$owned\" ])'',
       ''sysctl -qw net.ipv4.ip_forward=1'',
       ''sysctl -qw net.ipv4.conf.'' @ kIfname inst @ ''.rp_filter=2'',
       ''ip -4 route replace local default dev lo table '' @ table @ '' proto 242'',
       ''(rules=$(ip -4 rule show '' @ selector @ '') && { [ -n \"$rules\" ] || ip -4 rule add pref 10000 '' @ selector @ ''; })'',
       ''(iptables -w 5 -t mangle -S '' @ chain @ '' >/dev/null 2>&1 || iptables -w 5 -t mangle -N '' @ chain @ '')'',
       ''[ -z \"$(iptables -w 5 -t mangle -S '' @ chain @ '' | grep -v -e '' @ [CHR 0x27] @ ''^-N '' @ [CHR 0x27] @ '' -e ''
         @ [CHR 0x27] @ ''lucx-awg-tproxy'' @ [CHR 0x27] @ '')\" ]''])"

text \<open>The rules with the operation that installs them: all but the first three and the last one from the end,
  each before what is there already, so that they end up in their order; then the first three and the jump.\<close>

definition tproxy_ops :: "tproxyRule list \<Rightarrow> (string \<times> tproxyRule) list" where
  "tproxy_ops rules =
     map (\<lambda>i. (''-I'', rules ! i)) (rev [3..<length rules - 1])
     @ map (\<lambda>br. (if rChain (snd br) = ''PREROUTING'' \<or> has_suffix ''-j RETURN'' (join '' '' (rSpec (snd br)))
           then ''-I'' else ''-A'', br)) (take 3 rules @ [last rules])"

definition tproxy_ensure_text :: "string \<times> tproxyRule \<Rightarrow> string" where
  "tproxy_ensure_text ob_r = ''('' @ tproxy_command ''-C'' (snd ob_r) @ '' 2>/dev/null || '' @ tproxy_command (fst ob_r) (snd ob_r) @ '')''"

definition tproxyCleanup :: "int \<Rightarrow> string" where
  "tproxyCleanup n =
     (if n < 1 \<or> n > 65535 then ''true''
      else let chain = tproxy_chain n in join ''; ''
        (map (\<lambda>br. ''while '' @ tproxy_command ''-D'' br @ '' 2>/dev/null; do :; done'') (tproxy_cleanup_rules n)
         @ [''if [ -z \"$(iptables -w 5 -t mangle -S '' @ chain @ '' 2>/dev/null | grep -v -e '' @ [CHR 0x27] @ ''^-N '' @ [CHR 0x27]
              @ '' -e '' @ [CHR 0x27] @ ''lucx-awg-tproxy'' @ [CHR 0x27] @ '')\" ]; then iptables -w 5 -t mangle -F '' @ chain
              @ '' 2>/dev/null || true; iptables -w 5 -t mangle -X '' @ chain @ '' 2>/dev/null || true; fi'',
            ''while ip -4 rule del pref 10000 iif '' @ ifnameFor n @ '' fwmark '' @ tproxy_mark n @ '' lookup '' @ tproxy_table n
              @ '' 2>/dev/null; do :; done'',
            ''ip -4 route del local default dev lo table '' @ tproxy_table n @ '' proto 242 2>/dev/null || true'']))"

definition tproxyPostUpPostDown :: "kernel_instance \<Rightarrow> string \<times> string" where
  "tproxyPostUpPostDown inst =
     (if validateTproxy inst \<noteq> None then (''false'', ''true'')
      else (''('' @ join '' && '' (tproxy_guards inst @ map tproxy_ensure_text (tproxy_ops (tproxyRules inst))) @ '')'',
            tproxyCleanup (kId inst)))"

definition natPostUpPostDown :: "string \<Rightarrow> kernel_instance \<Rightarrow> string \<times> string" where
  "natPostUpPostDown ext inst =
     (if UsesTproxy inst then tproxyPostUpPostDown inst
      else let (up, down) = nat_commands ext inst in (script up, script down))"

section \<open>What the commands do to a firewall\<close>

text \<open>A chain is the list of its rules, by program, table and name. \<open>-C\<close> fails when the rule is missing, \<open>-A\<close>
  appends, \<open>-I\<close> puts in front, \<open>-D\<close> removes the first equal rule.\<close>

type_synonym chain_id = "string \<times> string \<times> string"
type_synonym firewall = "chain_id \<Rightarrow> string list list"

definition chain_of :: "tproxyRule \<Rightarrow> chain_id" where
  "chain_of br = (fst br, rTable (snd br), rChain (snd br))"

definition ensure_op :: "string \<Rightarrow> tproxyRule \<Rightarrow> firewall \<Rightarrow> firewall" where
  "ensure_op op br fw =
     (let k = chain_of br; s = rSpec (snd br) in
      if s \<in> set (fw k) then fw else fw(k := (if op = ''-I'' then s # fw k else fw k @ [s])))"

definition drop_op :: "tproxyRule \<Rightarrow> firewall \<Rightarrow> firewall" where
  "drop_op br fw = fw(chain_of br := remove1 (rSpec (snd br)) (fw (chain_of br)))"

text \<open>\<open>while iptables -D \<dots>; do :; done\<close>\<close>

definition drop_all_op :: "tproxyRule \<Rightarrow> firewall \<Rightarrow> firewall" where
  "drop_all_op br fw = fw(chain_of br := removeAll (rSpec (snd br)) (fw (chain_of br)))"

fun run_command :: "command \<Rightarrow> firewall \<Rightarrow> firewall" where
  "run_command (Run s) fw = fw"
| "run_command (Ensure r) fw = ensure_op ''-A'' (''iptables'', r) fw"
| "run_command (Drop r) fw = drop_op (''iptables'', r) fw"

definition run_commands :: "command list \<Rightarrow> firewall \<Rightarrow> firewall" where
  "run_commands cs fw = fold run_command cs fw"

definition has_rule :: "firewall \<Rightarrow> tproxyRule \<Rightarrow> bool" where
  "has_rule fw br \<longleftrightarrow> rSpec (snd br) \<in> set (fw (chain_of br))"


section \<open>Chain by chain\<close>

definition specs_at :: "chain_id \<Rightarrow> tproxyRule list \<Rightarrow> string list list" where
  "specs_at k brs = map (\<lambda>br. rSpec (snd br)) (filter (\<lambda>br. chain_of br = k) brs)"

lemma specs_at_simps [simp]:
  "specs_at k [] = []"
  "specs_at k (br # brs) = (if chain_of br = k then rSpec (snd br) # specs_at k brs else specs_at k brs)"
  by (simp_all add: specs_at_def)

definition add_missing :: "'a \<Rightarrow> 'a list \<Rightarrow> 'a list" where
  "add_missing x xs = (if x \<in> set xs then xs else xs @ [x])"

lemma ensure_op_at: "ensure_op ''-A'' br fw k = (if chain_of br = k then add_missing (rSpec (snd br)) (fw k) else fw k)"
  by (simp add: ensure_op_def add_missing_def Let_def)

lemma drop_op_at: "drop_op br fw k = (if chain_of br = k then remove1 (rSpec (snd br)) (fw k) else fw k)"
  by (auto simp: drop_op_def)

lemma ensure_append_at:
  "fold (ensure_op ''-A'') brs fw k = fold add_missing (specs_at k brs) (fw k)"
  by (induction brs arbitrary: fw) (simp_all add: ensure_op_at)

lemma drop_at: "fold drop_op brs fw k = fold remove1 (specs_at k brs) (fw k)"
  by (induction brs arbitrary: fw) (simp_all add: drop_op_at)

lemma drop_all_op_at: "drop_all_op br fw k = (if chain_of br = k then removeAll (rSpec (snd br)) (fw k) else fw k)"
  by (simp add: drop_all_op_def)

lemma filter_removeAll: "filter (\<lambda>s. s \<notin> A) (removeAll x xs) = filter (\<lambda>s. s \<notin> insert x A) xs"
  by (induction xs) auto

lemma drop_all_at: "fold drop_all_op brs fw k = filter (\<lambda>s. s \<notin> set (specs_at k brs)) (fw k)"
proof (induction brs arbitrary: fw)
  case (Cons br brs)
  have "fold drop_all_op (br # brs) fw k = filter (\<lambda>s. s \<notin> set (specs_at k brs)) (drop_all_op br fw k)"
    using Cons.IH [of "drop_all_op br fw"] by (simp only: fold_simps)
  also have "\<dots> = filter (\<lambda>s. s \<notin> set (specs_at k (br # brs))) (fw k)"
    unfolding drop_all_op_at [of br fw k] by (cases "chain_of br = k") (simp_all only: specs_at_simps if_True if_False filter_removeAll list.set simp_thms)
  finally show ?case .
qed simp

lemma add_missing_cases: "s \<in> set ys \<Longrightarrow> add_missing s ys = ys" "s \<notin> set ys \<Longrightarrow> add_missing s ys = ys @ [s]"
  by (simp_all add: add_missing_def)

lemma fold_add_missing: "\<exists>zs. fold add_missing ss ys = ys @ zs \<and> distinct zs \<and> set zs = set ss - set ys"
proof (induction ss arbitrary: ys)
  case Nil
  then show ?case by (intro exI [of _ "[]"]) simp
next
  case (Cons s ss)
  obtain zs where z: "fold add_missing (s # ss) ys = add_missing s ys @ zs" "distinct zs"
    "set zs = set ss - set (add_missing s ys)" using Cons.IH [of "add_missing s ys"] by auto
  show ?case
  proof (cases "s \<in> set ys")
    case True
    then show ?thesis using z unfolding add_missing_cases(1) [OF True] by (intro exI [of _ zs]) auto
  next
    case False
    then show ?thesis using z unfolding add_missing_cases(2) [OF False] by (intro exI [of _ "s # zs"]) auto
  qed
qed

lemma fold_add_present: "set ss \<subseteq> set ys \<Longrightarrow> fold add_missing ss ys = ys"
  by (induction ss) (simp_all add: add_missing_cases)

lemma fold_remove1:
  "set ss \<inter> set ys = {} \<Longrightarrow> distinct zs \<Longrightarrow> set zs \<subseteq> set ss \<Longrightarrow> fold remove1 ss (ys @ zs) = ys"
proof (induction ss arbitrary: zs)
  case (Cons s ss)
  have "set (remove1 s zs) \<subseteq> set ss" using Cons.prems(2,3) by auto
  moreover have "s \<notin> set ys" using Cons.prems(1) by auto
  ultimately show ?case using Cons.IH [of "remove1 s zs"] Cons.prems by (auto simp: remove1_append)
qed simp

lemma undo_missing:
  assumes "set ss \<inter> set ys = {}" "set ss' = set ss"
  shows "fold remove1 ss' (fold add_missing ss ys) = ys"
proof -
  obtain zs where "fold add_missing ss ys = ys @ zs" "distinct zs" "set zs = set ss - set ys"
    using fold_add_missing [of ss ys] by blast
  then show ?thesis using fold_remove1 [of ss' ys zs] assms by auto
qed

section \<open>Going down undoes coming up\<close>

lemma run_commands_simps [simp]:
  "run_commands [] fw = fw" "run_commands (c # cs) fw = run_commands cs (run_command c fw)"
  "run_commands (cs @ ds) fw = run_commands ds (run_commands cs fw)"
  by (simp_all add: run_commands_def)

lemma run_ensures: "run_commands (map Ensure rs) fw = fold (ensure_op ''-A'') (map (Pair ''iptables'') rs) fw"
  by (induction rs arbitrary: fw) simp_all

lemma run_drops: "run_commands (map Drop rs) fw = fold drop_op (map (Pair ''iptables'') rs) fw"
  by (induction rs arbitrary: fw) simp_all

lemma set_specs_at: "set (specs_at k (map (Pair b) rs)) = {rSpec r | r. r \<in> set rs \<and> (b, rTable r, rChain r) = k}"
  by (induction rs) (auto simp: chain_of_def)

lemma ensures_then_drops:
  assumes "set rs' = set rs" "\<forall>r \<in> set rs. \<not> has_rule fw (b, r)"
  shows "fold drop_op (map (Pair b) rs') (fold (ensure_op ''-A'') (map (Pair b) rs) fw) = fw"
proof (rule ext)
  fix k
  have "set (specs_at k (map (Pair b) rs)) \<inter> set (fw k) = {}"
    using assms(2) by (auto simp: set_specs_at has_rule_def chain_of_def)
  moreover have "set (specs_at k (map (Pair b) rs')) = set (specs_at k (map (Pair b) rs))"
    using assms(1) by (simp add: set_specs_at)
  ultimately show "fold drop_op (map (Pair b) rs') (fold (ensure_op ''-A'') (map (Pair b) rs) fw) k = fw k"
    by (simp add: drop_at ensure_append_at undo_missing)
qed

lemma ensures_twice:
  "fold (ensure_op ''-A'') brs (fold (ensure_op ''-A'') brs fw) = fold (ensure_op ''-A'') brs fw"
proof (rule ext)
  fix k
  have "set (specs_at k brs) \<subseteq> set (fold add_missing (specs_at k brs) (fw k))"
    using fold_add_missing [of "specs_at k brs" "fw k"] by auto
  then show "fold (ensure_op ''-A'') brs (fold (ensure_op ''-A'') brs fw) k = fold (ensure_op ''-A'') brs fw k"
    by (simp add: ensure_append_at fold_add_present)
qed

text \<open>The rules of a list of commands, and what it leaves when the others do nothing to the firewall.\<close>

definition ensured :: "command list \<Rightarrow> rule list" where
  "ensured cs = List.map_filter (\<lambda>c. case c of Ensure r \<Rightarrow> Some r | _ \<Rightarrow> None) cs"

lemma ensured_simps [simp]:
  "ensured [] = []" "ensured (Run s # cs) = ensured cs" "ensured (Ensure r # cs) = r # ensured cs"
  "ensured (Drop r # cs) = ensured cs" "ensured (map Ensure rs) = rs" "ensured (map Drop rs) = []"
  "ensured (cs @ ds) = ensured cs @ ensured ds"
  by (simp_all add: ensured_def List.map_filter_def comp_def)


lemma run_commands_twice: "run_commands cs (run_commands cs fw) = run_commands cs fw" if "list_all (\<lambda>c. \<forall>r. c \<noteq> Drop r) cs"
proof -
  have e: "run_commands cs fw = fold (ensure_op ''-A'') (map (Pair ''iptables'') (ensured cs)) fw" for fw
    using that
  proof (induction cs arbitrary: fw)
    case (Cons c cs)
    then show ?case by (cases c) simp_all
  qed simp
  show ?thesis unfolding e by (rule ensures_twice)
qed

lemma nat_rules_same: "set (nat_down_rules iface mark subnet ext) = set (nat_up_rules iface mark subnet ext)"
  by (auto simp: nat_down_rules_def nat_up_rules_def)

text \<open>The three shapes of a pair of command lists.\<close>

lemma nat_commands_cases:
  assumes "nat_commands ext inst = (up, down)"
  obtains (none) "up = []" "down = []"
  | (xray) a b c d rs where "kRouteThroughXray inst" "up = Run a # Run b # map Ensure rs @ [Run c, Run d]"
      "\<exists>x y. down = Run x # Run y # map Drop rs"
  | (nat) a iface mark subnet where "\<not> kRouteThroughXray inst" "iface = kIfname inst" "mark = itoa (awgNatMark (kId inst))"
      "subnet = clientSubnet (kAddress inst)" "up = Run a # map Ensure (nat_up_rules iface mark subnet ext)"
      "down = map Drop (nat_down_rules iface mark subnet ext)"
proof (cases "clientSubnet (kAddress inst) = [] \<or> \<not> kRouteThroughXray inst \<and> (ext = [] \<or> \<not> validIptablesIface ext)")
  case True
  then have "nat_commands ext inst = ([], [])" by (auto simp: nat_commands_def Let_def)
  then show ?thesis using assms by (intro none) simp_all
next
  case False
  show ?thesis
  proof (cases "kRouteThroughXray inst")
    case True
    with False have "clientSubnet (kAddress inst) \<noteq> []" by blast
    with True assms have e: "up = fst (nat_commands ext inst)" "down = snd (nat_commands ext inst)" by simp_all
    let ?iif = "'' iif '' @ kIfname inst @ '' lookup '' @ itoa (awgRouteTable (kId inst))"
    show ?thesis
      by (rule xray [OF True, where rs = "xray_rules (kIfname inst) (tunNameFor (kId inst))" and a = ip_forward_cmd
            and b = "''sysctl -qw net.ipv4.conf.'' @ kIfname inst @ ''.rp_filter=2''"
            and c = "''ip rule del'' @ ?iif @ '' 2>/dev/null || true''" and d = "''ip rule add'' @ ?iif"])
        (use True \<open>clientSubnet (kAddress inst) \<noteq> []\<close> in \<open>simp_all add: e nat_commands_def Let_def\<close>)
  next
    case F: False
    with False have "clientSubnet (kAddress inst) \<noteq> []" "ext \<noteq> []" "validIptablesIface ext" by blast+
    with F assms show ?thesis by (intro nat [OF F refl refl refl, where a = ip_forward_cmd]) (simp_all add: nat_commands_def Let_def)
  qed
qed

text \<open>C14: Taking an interface down removes exactly the firewall rules that bringing it up added, so no rule of a
  deleted or moved inbound stays behind and none of the host's own is lost; bringing it up again adds nothing; and
  every rule the periodic repair puts back is one of those rules, so that going down removes it as well.\<close>
theorem nat_down_undoes_up:
  assumes "nat_commands ext inst = (up, down)"
    and "\<forall>r \<in> set (ensured up). \<not> has_rule fw (''iptables'', r)"
    and "ext = [] \<or> validIptablesIface ext"
  shows "run_commands down (run_commands up fw) = fw \<and> run_commands up (run_commands up fw) = run_commands up fw
    \<and> set (natRulesFor inst ext) \<subseteq> set (ensured up)"
proof -
  note [simp] = run_ensures run_drops
  from assms(1) show ?thesis
  proof (cases rule: nat_commands_cases)
    case none
    then show ?thesis using assms by (auto simp: nat_commands_def natRulesFor_def Let_def split: if_splits)
  next
    case (xray a b c d rs)
    then have "run_commands down (run_commands up fw) = fw" using assms(2) by (auto simp: ensures_then_drops)
    moreover have "run_commands up (run_commands up fw) = run_commands up fw"
      by (rule run_commands_twice) (auto simp: xray list_all_iff)
    ultimately show ?thesis using xray by (simp add: natRulesFor_def)
  next
    case (nat a iface mark subnet)
    then have "run_commands down (run_commands up fw) = fw"
      using assms(2) by (simp add: ensures_then_drops [OF nat_rules_same])
    moreover have "run_commands up (run_commands up fw) = run_commands up fw"
      by (rule run_commands_twice) (auto simp: nat list_all_iff)
    ultimately show ?thesis using nat by (auto simp: natRulesFor_def nat_up_rules_def Let_def)
  qed
qed


definition example_kernel :: kernel_instance where
  "example_kernel = \<lparr>kId = 3, kTag = ''t'', kListen = [], kPort = 51820, kIfname = ''awg3'', kMTU = 1420, kDNS = [],
     kAddress = ''10.8.0.1/24'', kPrivateKey = ''k'', kObf = zero_obfuscation, kAwgVersion = ''2'', kPeers = [],
     kRouteThroughXray = False, kXrayRoutingMode = [], kTproxyPort = 0, kOutboundTag = [], kP2P = False\<rparr>"

theorem nat_down_undoes_up_witness:
  "(let (up, down) = nat_commands ''eth0'' example_kernel in
      length (ensured up) = 7 \<and> run_commands down (run_commands up (\<lambda>_. [])) = (\<lambda>_. []))"
proof -
  obtain up down where c: "nat_commands ''eth0'' example_kernel = (up, down)" by fastforce
  have v: "validIptablesIface ''eth0''" by code_simp
  have "clientSubnet ''10.8.0.1/24'' = ''10.8.0.0/24''" by code_simp
  then have "length (ensured up) = 7" using c v
    by (auto simp: nat_commands_def Let_def example_kernel_def nat_up_rules_def)
  then show ?thesis using nat_down_undoes_up [OF c, of "\<lambda>_. []"] v by (simp add: c has_rule_def)
qed

section \<open>TPROXY: nothing leaks and nothing stays\<close>

definition run_ops :: "(string \<times> tproxyRule) list \<Rightarrow> firewall \<Rightarrow> firewall" where
  "run_ops ops fw = fold (\<lambda>x. ensure_op (fst x) (snd x)) ops fw"

definition ops_of :: "bool \<Rightarrow> (string \<times> tproxyRule) list \<Rightarrow> tproxyRule list" where
  "ops_of front ops = map snd (filter (\<lambda>x. (fst x = ''-I'') = front) ops)"

lemma ops_of_simps [simp]:
  "ops_of f [] = []" "ops_of f (x # ops) = (if (fst x = ''-I'') = f then snd x # ops_of f ops else ops_of f ops)"
  by (simp_all add: ops_of_def)

definition rule_id :: "tproxyRule \<Rightarrow> chain_id \<times> string list" where
  "rule_id br = (chain_of br, rSpec (snd br))"

lemma ensure_absent_at:
  "\<not> has_rule fw br \<Longrightarrow> ensure_op op br fw k = (if chain_of br \<noteq> k then fw k
     else if op = ''-I'' then rSpec (snd br) # fw k else fw k @ [rSpec (snd br)])"
  by (auto simp: ensure_op_def has_rule_def Let_def)

lemma run_ops_at:
  assumes "distinct (map (\<lambda>x. rule_id (snd x)) ops)" "\<forall>x \<in> set ops. \<not> has_rule fw (snd x)"
  shows "run_ops ops fw k = rev (specs_at k (ops_of True ops)) @ fw k @ specs_at k (ops_of False ops)"
  using assms
proof (induction ops arbitrary: fw)
  case Nil
  then show ?case by (simp add: run_ops_def)
next
  case (Cons x ops)
  let ?fw = "ensure_op (fst x) (snd x) fw"
  have x: "\<not> has_rule fw (snd x)" using Cons.prems by simp
  have "\<not> has_rule ?fw (snd y)" if "y \<in> set ops" for y
  proof -
    have "rule_id (snd x) \<notin> (\<lambda>x. rule_id (snd x)) ` set ops" using Cons.prems(1) by simp
    moreover have "rule_id (snd y) \<in> (\<lambda>x. rule_id (snd x)) ` set ops" using that by (rule imageI)
    ultimately have "rule_id (snd y) \<noteq> rule_id (snd x)" by metis
    moreover have "\<not> has_rule fw (snd y)" using that Cons.prems(2) by simp
    ultimately show ?thesis using x by (auto simp: has_rule_def [of ?fw] ensure_absent_at rule_id_def has_rule_def [of fw])
  qed
  then have "run_ops ops ?fw k = rev (specs_at k (ops_of True ops)) @ ?fw k @ specs_at k (ops_of False ops)"
    using Cons by simp
  then show ?case using x by (simp add: run_ops_def ensure_absent_at)
qed


lemma tproxy_rule_simps [simp]:
  "chain_of (tproxy_rule b t c s) = (b, t, c)" "rSpec (snd (tproxy_rule b t c s)) = s" "rChain (snd (tproxy_rule b t c s)) = c"
  "rule_id (tproxy_rule b t c s) = ((b, t, c), s)"
  by (simp_all add: tproxy_rule_def rule_make_def chain_of_def rule_id_def)

lemma has_suffix_append: "has_suffix s (x @ s)"
  by (simp add: has_suffix_def)

lemma has_suffix_last: "has_suffix s x \<Longrightarrow> s \<noteq> [] \<Longrightarrow> x \<noteq> [] \<and> last x = last s"
  by (cases s rule: rev_cases; cases x rule: rev_cases) (auto simp: has_suffix_def)

lemma chain_names [simp]:
  "tproxy_chain n \<noteq> ''INPUT''" "tproxy_chain n \<noteq> ''FORWARD''" "tproxy_chain n \<noteq> ''PREROUTING''"
  "''INPUT'' \<noteq> tproxy_chain n" "''FORWARD'' \<noteq> tproxy_chain n" "''PREROUTING'' \<noteq> tproxy_chain n"
  by (simp_all add: tproxy_chain_def)

abbreviation return_rule :: "kernel_instance \<Rightarrow> tproxyRule" where
  "return_rule inst \<equiv> tproxy_rule ''iptables'' ''mangle'' (tproxy_chain (kId inst)) [''-d'', clientSubnet (kAddress inst), ''-j'', ''RETURN'']"

abbreviation divert_rule :: "kernel_instance \<Rightarrow> string \<Rightarrow> tproxyRule" where
  "divert_rule inst proto \<equiv> tproxy_rule ''iptables'' ''mangle'' (tproxy_chain (kId inst))
     [''-p'', proto, ''-j'', ''TPROXY'', ''--on-ip'', ''127.0.0.1'', ''--on-port'', itoa (kTproxyPort inst), ''--tproxy-mark'', tproxy_mark (kId inst)]"

abbreviation jump_rule :: "kernel_instance \<Rightarrow> tproxyRule" where
  "jump_rule inst \<equiv> tproxy_rule ''iptables'' ''mangle'' ''PREROUTING'' [''-i'', kIfname inst, ''-j'', tproxy_chain (kId inst)]"

definition guard_rules :: "kernel_instance \<Rightarrow> tproxyRule list" where
  "guard_rules inst = butlast (drop 3 (tproxyRules inst))"

lemma tproxyRules_parts:
  "tproxyRules inst = [return_rule inst, divert_rule inst ''tcp'', divert_rule inst ''udp''] @ guard_rules inst @ [jump_rule inst]"
  by (simp add: guard_rules_def tproxyRules_def Let_def)

lemma join_last: "xs \<noteq> [] \<Longrightarrow> last xs \<noteq> [] \<Longrightarrow> join sep xs \<noteq> [] \<and> last (join sep xs) = last (last xs)"
  by (induction sep xs rule: join.induct) auto

lemma last_mark: "tproxy_mark n \<noteq> []" "last (tproxy_mark n) = CHR ''f''"
  by (simp_all add: tproxy_mark_def)

lemma divert_appended: "\<not> has_suffix ''-j RETURN'' (join '' '' [a, b, c, d, e, f, g, h, i, tproxy_mark n])"
  using has_suffix_last [of "''-j RETURN''" "join '' '' [a, b, c, d, e, f, g, h, i, tproxy_mark n]"]
    join_last [of "[a, b, c, d, e, f, g, h, i, tproxy_mark n]" "'' ''"] last_mark by auto

lemma return_first: "has_suffix ''-j RETURN'' (join '' '' [''-d'', s, ''-j'', ''RETURN''])"
  using has_suffix_append [of "''-j RETURN''" "''-d '' @ s @ '' ''"] by simp

lemma map_nth_guards: "map (\<lambda>i. (''-I'', (xs @ gs @ [y]) ! i)) (rev [length xs..<length xs + length gs]) = map (Pair ''-I'') (rev gs)"
proof -
  have "map (\<lambda>i. (xs @ gs @ [y]) ! i) [length xs..<length xs + length gs] = gs"
    by (rule nth_equalityI) (simp_all add: nth_append)
  then have "map (Pair ''-I'') (rev (map (\<lambda>i. (xs @ gs @ [y]) ! i) [length xs..<length xs + length gs])) = map (Pair ''-I'') (rev gs)"
    by (rule arg_cong)
  then show ?thesis by (simp only: rev_map map_map comp_def)
qed

lemma tproxy_ops_parts:
  "tproxy_ops (tproxyRules inst) = map (Pair ''-I'') (rev (guard_rules inst))
     @ [(''-I'', return_rule inst), (''-A'', divert_rule inst ''tcp''), (''-A'', divert_rule inst ''udp''), (''-I'', jump_rule inst)]"
proof -
  let ?xs = "[return_rule inst, divert_rule inst ''tcp'', divert_rule inst ''udp'']"
  have l: "length (tproxyRules inst) - 1 = length ?xs + length (guard_rules inst)" by (simp add: tproxyRules_parts)
  have "map (\<lambda>i. (''-I'', tproxyRules inst ! i)) (rev [length ?xs..<length (tproxyRules inst) - 1]) = map (Pair ''-I'') (rev (guard_rules inst))"
    unfolding l unfolding tproxyRules_parts by (rule map_nth_guards)
  moreover have "length ?xs = 3" by simp
  ultimately have m: "map (\<lambda>i. (''-I'', tproxyRules inst ! i)) (rev [3..<length (tproxyRules inst) - 1]) = map (Pair ''-I'') (rev (guard_rules inst))"
    by (simp only:)
  have t: "take 3 (tproxyRules inst) = ?xs" "last (tproxyRules inst) = jump_rule inst" by (simp_all add: tproxyRules_parts)
  show ?thesis unfolding tproxy_ops_def m t by (simp add: divert_appended return_first del: join.simps)
qed


lemma specs_at_append [simp]: "specs_at k (xs @ ys) = specs_at k xs @ specs_at k ys"
  by (simp add: specs_at_def)

lemma specs_at_rev: "specs_at k (rev xs) = rev (specs_at k xs)"
  by (simp add: specs_at_def rev_map rev_filter)

lemma ops_of_Pair [simp]:
  "ops_of True (map (Pair ''-I'') xs) = xs" "ops_of False (map (Pair ''-I'') xs) = []" "ops_of f (xs' @ ys) = ops_of f xs' @ ops_of f ys"
  by (simp_all add: ops_of_def comp_def)

lemma guard_rules_explicit:
  "guard_rules inst = [tproxy_rule ''iptables'' ''filter'' ''INPUT'' [''-i'', kIfname inst, ''-m'', ''mark'', ''--mark'', tproxy_mark (kId inst), ''-j'', ''ACCEPT'']]
      @ (if kP2P inst then [tproxy_rule ''iptables'' ''filter'' ''FORWARD'' [''-i'', kIfname inst, ''-o'', kIfname inst, ''-j'', ''ACCEPT'']] else [])
      @ [tproxy_rule ''iptables'' ''filter'' ''FORWARD''
           (if kP2P inst then [''-i'', kIfname inst, ''!'', ''-o'', kIfname inst, ''-j'', ''DROP''] else [''-i'', kIfname inst, ''-j'', ''DROP'']),
         tproxy_rule ''ip6tables'' ''filter'' ''FORWARD'' [''-i'', kIfname inst, ''-j'', ''DROP''],
         tproxy_rule ''ip6tables'' ''filter'' ''INPUT'' [''-i'', kIfname inst, ''-j'', ''DROP'']]"
  by (simp add: guard_rules_def tproxyRules_def Let_def)

lemma guard_chains:
  "br \<in> set (guard_rules inst) \<Longrightarrow> chain_of br \<noteq> chain_of (jump_rule inst) \<and> chain_of br \<noteq> chain_of (return_rule inst)"
  by (auto simp: guard_rules_explicit split: if_splits)

lemma specs_at_none: "(\<And>br. br \<in> set brs \<Longrightarrow> chain_of br \<noteq> k) \<Longrightarrow> specs_at k brs = []"
  by (simp add: specs_at_def filter_empty_conv)

lemma distinct_tproxy: "distinct (map (\<lambda>x. rule_id (snd x)) (tproxy_ops (tproxyRules inst)))"
  by (simp add: tproxy_ops_parts guard_rules_explicit)

lemma tproxy_ops_rules: "set (map snd (tproxy_ops (tproxyRules inst))) = set (tproxyRules inst)"
  unfolding tproxy_ops_parts unfolding tproxyRules_parts by (simp add: image_image)

lemma tproxy_up_at:
  assumes "\<forall>r \<in> set (tproxyRules inst). \<not> has_rule fw r" and "fw (''iptables'', ''mangle'', tproxy_chain (kId inst)) = []"
  shows "run_ops (tproxy_ops (tproxyRules inst)) fw k = specs_at k (tproxyRules inst) @ fw k"
proof -
  let ?ops = "tproxy_ops (tproxyRules inst)"
  have abs: "\<forall>x \<in> set ?ops. \<not> has_rule fw (snd x)" using assms(1) tproxy_ops_rules [of inst] by force
  have o: "ops_of True ?ops = rev (guard_rules inst) @ [return_rule inst, jump_rule inst]"
    "ops_of False ?ops = [divert_rule inst ''tcp'', divert_rule inst ''udp'']"
    unfolding tproxy_ops_parts by simp_all
  have r: "run_ops ?ops fw k = rev (specs_at k (ops_of True ?ops)) @ fw k @ specs_at k (ops_of False ?ops)"
    by (rule run_ops_at [OF distinct_tproxy abs])
  consider (own) "k = chain_of (return_rule inst)" | (jump) "k = chain_of (jump_rule inst)"
    | (other) "k \<noteq> chain_of (return_rule inst)" "k \<noteq> chain_of (jump_rule inst)" by blast
  then show ?thesis
  proof cases
    case own
    then have "specs_at k (guard_rules inst) = []" using guard_chains by (intro specs_at_none) blast
    then show ?thesis using own assms(2) unfolding r unfolding o unfolding tproxyRules_parts by (simp add: specs_at_rev)
  next
    case jump
    then have "specs_at k (guard_rules inst) = []" using guard_chains by (intro specs_at_none) blast
    then show ?thesis using jump unfolding r unfolding o unfolding tproxyRules_parts by (simp add: specs_at_rev)
  next
    case other
    then show ?thesis unfolding r unfolding o unfolding tproxyRules_parts by (simp add: specs_at_rev)
  qed
qed

lemma cleanup_covers:
  assumes "kIfname inst = ifnameFor (kId inst)" "k \<noteq> chain_of (return_rule inst)"
  shows "set (specs_at k (tproxyRules inst)) \<subseteq> set (specs_at k (tproxy_cleanup_rules (kId inst)))"
  using assms unfolding tproxyRules_parts guard_rules_explicit by (auto simp: tproxy_cleanup_rules_def Let_def)


lemma has_rule_run_ops: "has_rule (run_ops ops fw) br \<Longrightarrow> has_rule fw br \<or> rule_id br \<in> (\<lambda>x. rule_id (snd x)) ` set ops"
proof (induction ops arbitrary: fw)
  case (Cons x ops)
  have "run_ops (x # ops) fw = run_ops ops (ensure_op (fst x) (snd x) fw)" by (simp add: run_ops_def)
  then have "has_rule (ensure_op (fst x) (snd x) fw) br \<or> rule_id br \<in> (\<lambda>x. rule_id (snd x)) ` set ops"
    using Cons by simp
  moreover have "has_rule (ensure_op (fst x) (snd x) fw) br \<Longrightarrow> has_rule fw br \<or> rule_id br = rule_id (snd x)"
    by (auto simp: has_rule_def ensure_op_def rule_id_def Let_def split: if_splits)
  ultimately show ?case by auto
qed (simp add: run_ops_def)

lemma jump_comes_last:
  assumes "\<not> has_rule fw (jump_rule inst)" "n < length (tproxy_ops (tproxyRules inst))"
  shows "\<not> has_rule (run_ops (take n (tproxy_ops (tproxyRules inst))) fw) (jump_rule inst)"
proof
  let ?ops = "tproxy_ops (tproxyRules inst)"
  assume "has_rule (run_ops (take n ?ops) fw) (jump_rule inst)"
  then have m: "rule_id (jump_rule inst) \<in> (\<lambda>x. rule_id (snd x)) ` set (take n ?ops)"
    using has_rule_run_ops assms(1) by blast
  have b: "?ops = butlast ?ops @ [(''-I'', jump_rule inst)]" unfolding tproxy_ops_parts by (simp add: butlast_append)
  have "take n ?ops = take n (butlast ?ops)" using assms(2) by (subst b) simp
  then have "set (take n ?ops) \<subseteq> set (butlast ?ops)" using set_take_subset by metis
  moreover have "rule_id (jump_rule inst) \<notin> (\<lambda>x. rule_id (snd x)) ` set (butlast ?ops)"
    using distinct_tproxy [of inst] by (subst (asm) b) (simp del: tproxy_rule_simps)
  ultimately show False using m by blast
qed



definition example_tproxy :: kernel_instance where
  "example_tproxy = example_kernel\<lparr>kRouteThroughXray := True, kXrayRoutingMode := ''tproxy'', kTproxyPort := 12345, kP2P := True\<rparr>"


section \<open>Only harmless words reach the shell\<close>

text \<open>A character that means nothing to a shell.\<close>

definition shell_safe :: "char \<Rightarrow> bool" where
  "shell_safe c \<longleftrightarrow> is_digit c \<or> ascii_letter c \<or> c \<in> set ''._-:/,''"

definition safe_word :: "string \<Rightarrow> bool" where
  "safe_word w \<longleftrightarrow> w \<noteq> [] \<and> list_all shell_safe w"

lemma shell_safe_addr: "addr_char c \<Longrightarrow> shell_safe c"
  by (auto simp: addr_char_def shell_safe_def ascii_letter_simps hex_val_def is_digit_def less_eq_char_def Let_def split: if_splits)

lemma shell_safe_digit: "is_digit c \<or> c = CHR ''-'' \<Longrightarrow> shell_safe c"
  by (auto simp: shell_safe_def)

lemma safe_itoa [simp]: "safe_word (itoa n)"
proof -
  have "itoa n \<noteq> []" by (simp add: itoa_def)
  then show ?thesis using itoa_chars shell_safe_digit by (auto simp: safe_word_def list_all_iff)
qed

lemma safe_append: "safe_word a \<Longrightarrow> list_all shell_safe b \<Longrightarrow> safe_word (a @ b)"
  by (simp add: safe_word_def)

lemma safe_ifname [simp]: "safe_word (ifnameFor n)" "safe_word (tunNameFor n)"
  using safe_itoa [of n] by (simp_all add: ifnameFor_def tunNameFor_def safe_word_def shell_safe_def ascii_letter_simps less_eq_char_def)

lemma safe_iface: "validIptablesIface ext \<Longrightarrow> safe_word ext"
  by (auto simp: validIptablesIface_def safe_word_def shell_safe_def list_all_iff)

lemma safe_subnet: "clientSubnet a \<noteq> [] \<Longrightarrow> safe_word (clientSubnet a)"
proof -
  assume ne: "clientSubnet a \<noteq> []"
  then obtain m b where "clientSubnet a = prefix_String (Masked (m, b), b)" and p: "ParsePrefix (trim_space a) = Some (m, b)"
    by (auto simp: clientSubnet_def Let_def split: if_splits option.splits)
  moreover have "list_all shell_safe (prefix_String (Masked (m, b), b))" if "zoneless (Masked (m, b))"
    using addr_String_chars [OF that] safe_itoa [of "int b"] shell_safe_addr
    by (auto simp: prefix_String_def safe_word_def list_all_iff shell_safe_def [of "CHR ''/''"])
  moreover have "zoneless m" using ParsePrefix_ok [OF p] by blast
  then have "zoneless (Masked (m, b))" by (cases m) (simp_all add: Masked_def zoneless_def)
  ultimately show ?thesis using ne by (simp add: safe_word_def)
qed

definition safe_rule :: "rule \<Rightarrow> bool" where
  "safe_rule r \<longleftrightarrow> safe_word (rTable r) \<and> safe_word (rChain r) \<and> list_all safe_word (rSpec r)"

fun safe_command :: "command \<Rightarrow> bool" where
  "safe_command (Run s) \<longleftrightarrow> list_all (\<lambda>c. shell_safe c \<or> c \<in> set '' >|='') s"
| "safe_command (Ensure r) \<longleftrightarrow> safe_rule r"
| "safe_command (Drop r) \<longleftrightarrow> safe_rule r"


lemma safe_constants [simp]:
  "safe_word ''-i''" "safe_word ''-o''" "safe_word ''-j''" "safe_word ''-s''" "safe_word ''-m''" "safe_word ''-p''"
  "safe_word ''ACCEPT''" "safe_word ''MARK''" "safe_word ''MASQUERADE''" "safe_word ''TCPMSS''" "safe_word ''tcp''"
  "safe_word ''mark''" "safe_word ''--mark''" "safe_word ''--set-mark''" "safe_word ''--tcp-flags''" "safe_word ''SYN,RST''"
  "safe_word ''SYN''" "safe_word ''--clamp-mss-to-pmtu''" "safe_word ''filter''" "safe_word ''nat''" "safe_word ''mangle''"
  "safe_word ''FORWARD''" "safe_word ''PREROUTING''" "safe_word ''POSTROUTING''"
  by code_simp+

lemma safe_rules:
  assumes "safe_word iface" "safe_word tun" "safe_word subnet" "safe_word ext"
  shows "list_all safe_rule (xray_rules iface tun)" "list_all safe_rule (nat_up_rules iface (itoa m) subnet ext)"
    "list_all safe_rule (nat_down_rules iface (itoa m) subnet ext)"
  using assms
  by (simp_all add: xray_rules_def nat_up_rules_def nat_down_rules_def accept_rule_def mss_rule_def mark_rule_def
      masq_subnet_def masq_mark_def rule_make_def safe_rule_def)

lemma safe_texts:
  "safe_command (Run ip_forward_cmd)"
  "safe_word iface \<Longrightarrow> safe_command (Run (''sysctl -qw net.ipv4.conf.'' @ iface @ ''.rp_filter=2''))"
  "safe_word iface \<Longrightarrow> safe_word table \<Longrightarrow>
     safe_command (Run (''ip rule del'' @ '' iif '' @ iface @ '' lookup '' @ table @ '' 2>/dev/null || true''))"
  "safe_word iface \<Longrightarrow> safe_word table \<Longrightarrow> safe_command (Run (''ip rule add'' @ '' iif '' @ iface @ '' lookup '' @ table))"
  "safe_word table \<Longrightarrow> safe_command (Run (''ip route flush table '' @ table @ '' 2>/dev/null || true''))"
proof -
  let ?P = "\<lambda>c. shell_safe c \<or> c \<in> set '' >|=''"
  have c: "list_all ?P ip_forward_cmd" "list_all ?P ''sysctl -qw net.ipv4.conf.''" "list_all ?P ''.rp_filter=2''"
    "list_all ?P ''ip rule del''" "list_all ?P '' iif ''" "list_all ?P '' lookup ''" "list_all ?P '' 2>/dev/null || true''"
    "list_all ?P ''ip rule add''" "list_all ?P ''ip route flush table ''"
    by code_simp+
  have w: "list_all ?P x" if "safe_word x" for x using that by (auto simp: safe_word_def list_all_iff)
  show "safe_command (Run ip_forward_cmd)"
    "safe_word iface \<Longrightarrow> safe_command (Run (''sysctl -qw net.ipv4.conf.'' @ iface @ ''.rp_filter=2''))"
    "safe_word iface \<Longrightarrow> safe_word table \<Longrightarrow>
       safe_command (Run (''ip rule del'' @ '' iif '' @ iface @ '' lookup '' @ table @ '' 2>/dev/null || true''))"
    "safe_word iface \<Longrightarrow> safe_word table \<Longrightarrow> safe_command (Run (''ip rule add'' @ '' iif '' @ iface @ '' lookup '' @ table))"
    "safe_word table \<Longrightarrow> safe_command (Run (''ip route flush table '' @ table @ '' 2>/dev/null || true''))"
    using c w by (simp_all only: safe_command.simps list_all_append simp_thms)
qed

lemma safe_commands_of_rules: "list_all safe_rule rs \<Longrightarrow> list_all safe_command (map Ensure rs) \<and> list_all safe_command (map Drop rs)"
  by (simp add: list_all_iff)




end
