(* ===== verification/Conf_Lines.thy ===== *)
theory Conf_Lines
  imports Awg_Kernel
begin

text \<open>
  The lines of an \<open>awg-quick\<close> configuration file: how the renderers of \<open>internal/awg\<close> write an assignment, how the
  readers of \<open>import_parse.go\<close> and \<open>awg_outbound.go\<close> take a line apart, and the facts that connect the two.
\<close>

section \<open>Writing and reading a line\<close>

definition assign :: "string \<Rightarrow> string \<Rightarrow> string" where
  "assign key val = key @ '' = '' @ val"

datatype conf_line = Blank | Section string | Comment string | Assignment string string | Other

text \<open>\<open>strings.Trim(s, cutset)\<close> and \<open>strings.TrimLeft\<close> for a cutset of ASCII characters.\<close>

definition trim_left_of :: "string \<Rightarrow> string \<Rightarrow> string" where
  "trim_left_of cs s = dropWhile (\<lambda>c. c \<in> set cs) s"

definition trim_of :: "string \<Rightarrow> string \<Rightarrow> string" where
  "trim_of cs s = rev (trim_left_of cs (rev (trim_left_of cs s)))"

definition classify :: "string \<Rightarrow> conf_line" where
  "classify raw =
     (let line = trim_space raw in
      if line = [] then Blank
      else if hd line = CHR ''['' then Section (lower (trim_of ''[]'' line))
      else if hd line = CHR ''#'' \<or> hd line = CHR '';'' then Comment line
      else case cut CHR ''='' line of None \<Rightarrow> Other | Some (key, val) \<Rightarrow> Assignment (trim_space key) (trim_space val))"

section \<open>Trimming around fixed text\<close>

text \<open>\<open>strings.TrimRight\<close> for white space.\<close>

definition rtrim :: "string \<Rightarrow> string" where
  "rtrim v = rev (strip_left (map rev unicode_spaces) (rev v))"

lemma spaces_not_graphic: "w \<in> set unicode_spaces \<Longrightarrow> c \<in> set w \<Longrightarrow> \<not> graphic c"
  and blank_alone: "w \<in> set unicode_spaces \<Longrightarrow> CHR '' '' \<in> set w \<Longrightarrow> w = '' ''"
proof -
  have "list_all (\<lambda>w. list_all (\<lambda>c. \<not> graphic c) w \<and> (CHR '' '' \<in> set w \<longrightarrow> w = '' '')) unicode_spaces" by code_simp
  then show "w \<in> set unicode_spaces \<Longrightarrow> c \<in> set w \<Longrightarrow> \<not> graphic c"
    and "w \<in> set unicode_spaces \<Longrightarrow> CHR '' '' \<in> set w \<Longrightarrow> w = '' ''"
    by (auto simp: list_all_iff)
qed

lemma prefix_until: "c \<notin> set w \<Longrightarrow> prefix w (x @ c # y) \<longleftrightarrow> prefix w x"
  by (auto simp: prefix_append prefix_Cons)

lemma space_prefix_until: "\<forall>w \<in> set ws. c \<notin> set w \<Longrightarrow> space_prefix ws (x @ c # y) = space_prefix ws x"
  by (induction ws) (simp_all add: space_prefix_def prefix_until)

lemma space_prefix_le: "space_prefix ws s \<le> length s"
  by (auto simp: space_prefix_def find_Some_iff prefix_length_le split: option.split)

lemma strip_left_until: "\<forall>w \<in> set ws. c \<notin> set w \<Longrightarrow> strip_left ws (x @ c # y) = strip_left ws x @ c # y"
proof (induction ws x rule: strip_left.induct)
  case (1 ws x)
  note eq = space_prefix_until [OF 1(2), of x y]
  show ?case
  proof (cases "space_prefix ws x = 0 \<or> x = []")
    case True
    moreover have "space_prefix ws [] = 0" using space_prefix_le [of ws "[]"] by simp
    ultimately have "space_prefix ws x = 0" by auto
    then show ?thesis using eq by (simp add: strip_left_stop)
  next
    case False
    then show ?thesis using 1(1) [OF False 1(2)] eq space_prefix_le [of ws x]
      by (subst (1 2) strip_left.simps) simp
  qed
qed

lemma strip_left_suffix: "suffix (strip_left ws s) s"
proof (induction ws s rule: strip_left.induct)
  case (1 ws s)
  show ?case
  proof (cases "space_prefix ws s = 0 \<or> s = []")
    case True
    then show ?thesis by (subst strip_left.simps) simp
  next
    case False
    with 1 have "suffix (strip_left ws (drop (space_prefix ws s) s)) s" by (blast intro: suffix_order.trans suffix_drop)
    with False show ?thesis by (subst strip_left.simps) simp
  qed
qed

lemma suffix_same_length: "suffix a b \<Longrightarrow> length b \<le> length a \<Longrightarrow> a = b"
  by (auto simp: suffix_def)

lemma strip_left_fixed: "strip_left ws s = s \<longleftrightarrow> space_prefix ws s = 0"
proof
  assume e: "strip_left ws s = s"
  show "space_prefix ws s = 0"
  proof (rule ccontr)
    assume ne: "space_prefix ws s \<noteq> 0"
    then have "s \<noteq> []" using space_prefix_le [of ws s] by auto
    with ne have "strip_left ws s = strip_left ws (drop (space_prefix ws s) s)" by (subst strip_left.simps) simp
    with e have "length s \<le> length s - space_prefix ws s"
      using suffix_length_le [OF strip_left_suffix [of ws "drop (space_prefix ws s) s"]] by simp
    with ne \<open>s \<noteq> []\<close> show False by (cases s) simp_all
  qed
qed (rule strip_left_stop)

lemma trim_fixed: "trim_space v = v \<longleftrightarrow> trimmed v"
proof
  assume t: "trim_space v = v"
  let ?l = "strip_left unicode_spaces v" and ?ws = "map rev unicode_spaces"
  have "length v \<le> length ?l"
    using t suffix_length_le [OF strip_left_suffix [of ?ws "rev ?l"]] by (metis length_rev trim_space_def)
  then have l: "?l = v" using suffix_same_length [OF strip_left_suffix] by blast
  with t have "rev (strip_left ?ws (rev v)) = v" by (simp only: trim_space_def)
  then have "strip_left ?ws (rev v) = rev v" by (metis rev_rev_ident)
  then have "space_prefix ?ws (rev v) = 0" by (simp only: strip_left_fixed)
  moreover have "space_prefix unicode_spaces v = 0" using l by (simp only: strip_left_fixed)
  ultimately show "trimmed v" by (simp only: trimmed_def simp_thms)
qed (rule trim_trimmed)

lemma ends_space_free:
  assumes "graphic c"
  shows "\<forall>w \<in> set unicode_spaces. c \<notin> set w" "\<forall>w \<in> set (map rev unicode_spaces). c \<notin> set w"
  using assms spaces_not_graphic by auto

lemma trim_after:
  assumes "a \<noteq> []" "graphic (hd a)" "graphic (last a)"
  shows "trim_space (a @ b) = a @ rtrim b"
proof -
  have "strip_left unicode_spaces (a @ b) = a @ b"
    using assms(1,2) by (cases a) (simp_all add: strip_left_stop space_prefix_graphic)
  moreover have r: "rev a = last a # rev (butlast a)" using assms(1) by (metis append_butlast_last_id rev.simps rev_append rev_rev_ident append_Nil append_Cons)
  have "strip_left (map rev unicode_spaces) (rev b @ rev a) = strip_left (map rev unicode_spaces) (rev b) @ rev a"
    unfolding r by (rule strip_left_until [OF ends_space_free(2) [OF assms(3)]])
  ultimately show ?thesis by (simp add: trim_space_def rtrim_def)
qed

lemma space_prefix_blank:
  assumes "x \<noteq> []" "\<forall>w \<in> set ws. CHR '' '' \<in> set w \<longrightarrow> w = '' ''"
  shows "space_prefix ws (x @ CHR '' '' # y) = space_prefix ws x"
proof -
  have "prefix w (x @ CHR '' '' # y) \<longleftrightarrow> prefix w x" if "w \<in> set ws" for w
    using assms that prefix_until [of "CHR '' ''" w x y] by (cases x) auto
  with assms(2) show ?thesis by (induction ws) (auto simp: space_prefix_def)
qed

lemma blank_alone_rev: "\<forall>w \<in> set (map rev unicode_spaces). CHR '' '' \<in> set w \<longrightarrow> w = '' ''"
  using blank_alone by auto

lemma rtrim_blank: "rtrim '' '' = []"
  by code_simp

lemma rtrim_after_blank: "trimmed v \<Longrightarrow> v \<noteq> [] \<Longrightarrow> rtrim (CHR '' '' # v) = CHR '' '' # v"
  using space_prefix_blank [OF _ blank_alone_rev, of "rev v" "[]"] by (simp add: rtrim_def trimmed_def strip_left_stop)

lemma trim_before_blank: "trim_space (CHR '' '' # v) = trim_space v"
proof -
  have "space_prefix unicode_spaces (CHR '' '' # v) = 1" by (simp add: space_prefix_def unicode_spaces_def)
  then have "strip_left unicode_spaces (CHR '' '' # v) = strip_left unicode_spaces v" by (subst strip_left.simps) simp
  then show ?thesis by (simp add: trim_space_def)
qed

section \<open>An assignment is read as it was written\<close>

definition plain_key :: "string \<Rightarrow> bool" where
  "plain_key key \<longleftrightarrow> key \<noteq> [] \<and> list_all graphic key \<and> CHR ''='' \<notin> set key \<and> hd key \<notin> set ''[#;''"

text \<open>A value the renderers write as it is.\<close>

definition plain :: "string \<Rightarrow> bool" where
  "plain v \<longleftrightarrow> trim_space v = v \<and> confValue v = v"

lemma trim_assign: "plain_key key \<Longrightarrow> trim_space (assign key v) = key @ '' ='' @ rtrim (CHR '' '' # v)"
proof -
  assume k: "plain_key key"
  then have "graphic (hd key)" by (simp add: plain_key_def list_all_iff)
  moreover have "graphic (CHR ''='')" by (simp add: graphic_def less_eq_char_def)
  ultimately show ?thesis using trim_after [of "key @ '' =''" "CHR '' '' # v"] k by (simp add: assign_def plain_key_def)
qed

lemma trim_key: "plain_key key \<Longrightarrow> trim_space (key @ '' '') = key"
  using trim_after [of key "'' ''"] by (simp add: plain_key_def list_all_iff rtrim_blank)

lemma classify_assign_any: "plain_key key \<Longrightarrow> \<exists>val. classify (assign key v) = Assignment key val"
proof -
  assume k: "plain_key key"
  then have "cut CHR ''='' ((key @ '' '') @ CHR ''='' # r) = Some (key @ '' '', r)" for r
    by (intro cut_append) (simp add: plain_key_def)
  with k show ?thesis by (simp add: classify_def trim_assign trim_key Let_def) (simp add: plain_key_def)
qed

lemma classify_assign: "plain_key key \<Longrightarrow> trim_space v = v \<Longrightarrow> classify (assign key v) = Assignment key v"
proof -
  assume k: "plain_key key" and v: "trim_space v = v"
  have c: "cut CHR ''='' ((key @ '' '') @ CHR ''='' # r) = Some (key @ '' '', r)" for r
    using k by (intro cut_append) (simp add: plain_key_def)
  have "trim_space (rtrim (CHR '' '' # v)) = v"
    using v rtrim_after_blank [of v] by (cases "v = []") (simp_all add: rtrim_blank trim_fixed trim_before_blank trim_trimmed)
  with k c [of "rtrim (CHR '' '' # v)"] show ?thesis
    by (simp add: classify_def trim_assign trim_key Let_def) (simp add: plain_key_def)
qed

section \<open>What \<open>confValue\<close> leaves\<close>

lemma utf8_tail_high: "utf8_tail a t \<Longrightarrow> c \<in> set t \<Longrightarrow> CHR 0x80 \<le> c"
  by (auto simp: utf8_tail_def list_all_iff cont_def)

lemma utf8_take: "utf8_len v \<noteq> 0 \<Longrightarrow> \<exists>t. take (utf8_len v) v = hd v # t \<and> (\<forall>c \<in> set t. CHR 0x80 \<le> c)"
  by (auto simp: utf8_len_def Let_def take_Cons split: list.splits if_splits nat.splits dest: utf8_tail_high)

text \<open>No line break and no NUL, whatever the value is.\<close>

lemma confValue_chars: "c \<in> set (confValue v) \<Longrightarrow> c \<notin> {CHR 0x0A, CHR 0x0D, CHR 0x00}"
proof (induction v rule: confValue.induct)
  case (1 v)
  show ?case
  proof (cases "v = [] \<or> utf8_len v = 0")
    case True
    with 1 show ?thesis
      by (subst (asm) (2) confValue.simps) (auto simp: replacement_def less_eq_char_def split: if_splits)
  next
    case False
    then obtain t where t: "take (utf8_len v) v = hd v # t" "\<forall>c \<in> set t. CHR 0x80 \<le> c" using utf8_take by blast
    consider "c \<in> set (confValue (drop (utf8_len v) v))"
      | "c = hd v" "hd v \<notin> {CHR 0x0A, CHR 0x0D, CHR 0x00}" | "CHR 0x80 \<le> c"
      using 1(3) False t by (subst (asm) confValue.simps) (auto split: if_splits)
    then show ?thesis using 1(2) False by cases (auto simp: less_eq_char_def)
  qed
qed

lemma confValue_one_line [simp]: "one_line (confValue v)"
  using confValue_chars [of newline v] by (auto simp: one_line_def)

lemma confValue_Nil [simp]: "confValue [] = []"
  by (simp add: confValue.simps)

lemma confValue_ascii: "list_all (\<lambda>c. CHR 0x20 \<le> c \<and> c \<le> CHR 0x7E) v \<Longrightarrow> confValue v = v"
proof (induction v)
  case (Cons c v)
  then have "utf8_len (c # v) = 1" "c \<noteq> CHR 0x0A" "c \<noteq> CHR 0x0D" "c \<noteq> CHR 0x00"
    by (auto simp: utf8_len_def utf8_need_def utf8_tail_def less_eq_char_def less_char_def)
  with Cons show ?case by (subst confValue.simps) simp
qed simp

text \<open>A text of graphic characters is plain.\<close>

lemma plain_graphic: "list_all graphic v \<Longrightarrow> plain v"
proof -
  assume g: "list_all graphic v"
  then have "list_all (\<lambda>c. CHR 0x20 \<le> c \<and> c \<le> CHR 0x7E) v" by (auto simp: list_all_iff graphic_def less_eq_char_def)
  moreover have "trim_space v = v" using g trim_space_graphic [of v] by (cases "v = []") (simp_all add: list_all_iff)
  ultimately show ?thesis by (simp add: plain_def confValue_ascii)
qed

lemma plain_Nil [simp]: "plain []"
  by (simp add: plain_def)

lemma itoa_all_graphic: "list_all graphic (itoa n)"
proof -
  have "graphic (CHR ''-'')" by code_simp
  then show ?thesis using itoa_chars [of _ n] is_digit_graphic unfolding list_all_iff by metis
qed

lemma plain_itoa [simp]: "plain (itoa n)"
  by (rule plain_graphic) (rule itoa_all_graphic)

lemma assign_one_line [simp]: "one_line (assign key v) \<longleftrightarrow> one_line key \<and> one_line v"
  by (simp add: assign_def)

section \<open>The last assignment of a key\<close>

definition last_of :: "(string \<times> string) list \<Rightarrow> string \<Rightarrow> string option" where
  "last_of kvs key = map_of (rev kvs) key"

lemma last_of_simps [simp]:
  "last_of [] key = None"
  "last_of [(k, v)] key = (if k = key then Some v else None)"
  by (simp_all add: last_of_def)

lemma last_of_append [simp]: "last_of (xs @ ys) key = (case last_of ys key of None \<Rightarrow> last_of xs key | Some v \<Rightarrow> Some v)"
  by (simp add: last_of_def map_add_def split: option.split)

lemma last_of_Cons: "last_of (x # xs) key = (case last_of xs key of None \<Rightarrow> last_of [x] key | Some v \<Rightarrow> Some v)"
  using last_of_append [of "[x]" xs key] by simp

lemma last_of_if: "last_of (if b then xs else ys) key = (if b then last_of xs key else last_of ys key)"
  by simp

text \<open>A block of optional lines, with a key each.\<close>

definition optional :: "(string \<Rightarrow> bool) \<Rightarrow> (string \<times> string) list \<Rightarrow> (string \<times> string) list" where
  "optional ok kvs = filter (\<lambda>(_, v). ok v) kvs"

lemma last_of_optional: "distinct (map fst kvs) \<Longrightarrow>
  last_of (optional ok kvs) key = (case map_of kvs key of None \<Rightarrow> None | Some v \<Rightarrow> if ok v then Some v else None)"
proof (induction kvs)
  case (Cons kv kvs)
  obtain k v where kv: "kv = (k, v)" by (cases kv)
  have "k \<notin> fst ` set kvs" "distinct (map fst kvs)" using Cons.prems kv by auto
  then have "map_of kvs k = None" by (simp add: map_of_eq_None_iff)
  moreover have "last_of (optional ok (kv # kvs)) key
    = (case last_of (optional ok kvs) key of None \<Rightarrow> last_of (if ok v then [(k, v)] else []) key | Some w \<Rightarrow> Some w)"
    using last_of_Cons [of "(k, v)"] by (auto simp: optional_def kv split: option.splits)
  ultimately show ?case using Cons.IH [OF \<open>distinct (map fst kvs)\<close>] by (auto simp: kv split: option.splits)
qed (simp add: optional_def)

text \<open>A component of a record that only one key sets holds what the last assignment of the key gave it.\<close>

lemma fold_last_of:
  assumes "\<And>k v s. get (put k v s) = (if k = key then conv v else get s)"
  shows "get (foldl (\<lambda>s (k, v). put k v s) s kvs) = (case last_of kvs key of None \<Rightarrow> get s | Some v \<Rightarrow> conv v)"
proof (induction kvs arbitrary: s)
  case (Cons kv kvs)
  then show ?case using assms last_of_Cons [of kv kvs] by (cases kv) (simp split: option.splits)
qed simp

end
