(* ===== verification/Awg_Conf.thy ===== *)
theory Awg_Conf
  imports Awg_Nat Conf_Lines
begin

text \<open>
  The configuration files of kernel AmneziaWG interfaces: \<open>renderServerConf\<close> (\<open>internal/awg/manager.go\<close>) and
  \<open>renderClientConf\<close> (\<open>client_conf.go\<close>) write them, \<open>ParseServerConf\<close> (\<open>import_parse.go\<close>) and \<open>ParseConf\<close>
  (\<open>internal/web/service/awg_outbound.go\<close>) read them back. What the host supports, and the name of its outgoing
  interface, are arguments.
\<close>

section \<open>Writing\<close>

definition xuiManagedMarker :: string where
  "xuiManagedMarker = ''# Managed by x-ui - do not edit''"

text \<open>The headers that are not blank, and the timers that are not zero.\<close>

definition header_lines :: "obfuscation31 \<Rightarrow> string list" where
  "header_lines obf = List.map_filter (\<lambda>(key, h). if trim_space h \<noteq> [] then Some (assign key (confValue h)) else None)
     [(''H1'', obH1 obf), (''H2'', obH2 obf), (''H3'', obH3 obf), (''H4'', obH4 obf)]"

definition timer_fields :: "obfuscation31 \<Rightarrow> (string \<times> string) list" where
  "timer_fields obf =
     [(''ContentPaddingAddition'', obContentPaddingAddition obf), (''RekeyAfterTime'', obRekeyAfterTime obf),
      (''RekeyTimeout'', obRekeyTimeout obf), (''RejectAfterTime'', obRejectAfterTime obf),
      (''KeepaliveTimeout'', obKeepaliveTimeout obf), (''MaxHandshakeAttempts'', obMaxHandshakeAttempts obf)]"

definition timer_lines :: "obfuscation31 \<Rightarrow> string list" where
  "timer_lines obf = List.map_filter (\<lambda>(key, t). if \<not> timer_IsZero t then Some (assign key (confValue t)) else None) (timer_fields obf)"

definition key_lines :: "obfuscation31 \<Rightarrow> string list" where
  "key_lines obf = (if trim_space (obHeaderProtectionKey obf) \<noteq> []
     then [assign ''HeaderProtectionKey'' (confValue (obHeaderProtectionKey obf))] else [])"

definition flag_lines :: "obfuscation31 \<Rightarrow> string list" where
  "flag_lines obf = (if obRandomTrailers obf then [''RandomTrailers = on''] else [])
     @ (if obDisableCookies obf then [''DisableCookies = on''] else [])"

definition i_fields :: "obfuscation31 \<Rightarrow> (string \<times> string) list" where
  "i_fields obf = [(''I1'', obI1 obf), (''I2'', obI2 obf), (''I3'', obI3 obf), (''I4'', obI4 obf), (''I5'', obI5 obf)]"

definition i_fit :: "obfuscation31 \<Rightarrow> bool" where
  "i_fit obf \<longleftrightarrow> IBytes (obI1 obf) (obI2 obf) (obI3 obf) (obI4 obf) (obI5 obf)
     \<le> WorstCaseIBytesBudget (trim_space (obHeaderProtectionKey obf) \<noteq> [])"

definition peer_lines :: "kpeer \<Rightarrow> string list" where
  "peer_lines p =
     [[], ''[Peer]'', assign ''PublicKey'' (confValue (kpPublicKey p))]
     @ (let psk = trim_space (kpPSK p) in if psk \<noteq> [] then [assign ''PresharedKey'' (confValue psk)] else [])
     @ (let allowed = trim_space (kpAllowedIPs p) in if allowed \<noteq> [] then [assign ''AllowedIPs'' (confValue allowed)] else [])"

text \<open>What the host supports.\<close>

record host_support =
  hsAwg3 :: bool
  hsAwg31 :: bool
  hsExtIface :: string

definition device_lines :: "host_support \<Rightarrow> kernel_instance \<Rightarrow> string list" where
  "device_lines hs inst =
     (let obf = kObf inst; ver = NormalizeAWGVersion (kAwgVersion inst); awg3ok = (IsAwg3Plus (kAwgVersion inst) \<and> hsAwg3 hs) in
      [xuiManagedMarker, ''[Interface]'', assign ''PrivateKey'' (confValue (kPrivateKey inst)), assign ''ListenPort'' (itoa (kPort inst))]
      @ (if kAddress inst \<noteq> [] then [assign ''Address'' (confValue (kAddress inst))] else [])
      @ [assign ''MTU'' (itoa (kMTU inst)), ''Table = off'', assign ''Jc'' (itoa (obJc obf)), assign ''Jmin'' (itoa (obJmin obf)),
         assign ''Jmax'' (itoa (obJmax obf)), assign ''S1'' (itoa (obS1 obf)), assign ''S2'' (itoa (obS2 obf))]
      @ (if ver \<noteq> ''1.5'' then [assign ''S3'' (itoa (obS3 obf)), assign ''S4'' (itoa (obS4 obf))] else [])
      @ header_lines obf
      @ (if awg3ok then key_lines obf @ timer_lines obf else [])
      @ (if IsAwg31 (kAwgVersion inst) \<and> hsAwg31 hs then flag_lines obf else [])
      @ (if ver \<noteq> ''1.5'' \<and> i_fit obf
         then List.map_filter (\<lambda>(key, v). if trim_space v \<noteq> [] then Some (assign key (confValue v)) else None) (i_fields obf) else [])
      @ (let (postUp, postDown) = natPostUpPostDown (hsExtIface hs) inst in
         if postUp \<noteq> [] then [assign ''PostUp'' postUp, assign ''PostDown'' postDown] else []))"

definition renderServerConf :: "host_support \<Rightarrow> kernel_instance \<Rightarrow> string" where
  "renderServerConf hs inst = unlines (device_lines hs inst @ concat (map peer_lines (kPeers inst)))"

text \<open>\<open>deviceFingerprint\<close> keeps what comes before the first peer.\<close>

function cut_at :: "string \<Rightarrow> string \<Rightarrow> string" where
  "cut_at sep s = (if prefix sep s \<or> s = [] then [] else hd s # cut_at sep (tl s))"
  by pat_completeness auto
termination by (relation "measure (\<lambda>(sep, s). length s)") auto

declare cut_at.simps [simp del]

definition deviceFingerprint :: "string \<Rightarrow> string" where
  "deviceFingerprint conf = cut_at ([newline] @ ''[Peer]'' @ [newline]) conf"

definition peerFingerprint :: "kernel_instance \<Rightarrow> string" where
  "peerFingerprint inst = join ''|'' (concat (map (\<lambda>p. [kpPrivateKey p, kpPublicKey p, kpPSK p, kpAllowedIPs p]) (kPeers inst)))"

definition awgQuickIfaceKeys :: "string list" where
  "awgQuickIfaceKeys = [''address'', ''mtu'', ''dns'', ''table'', ''preup'', ''predown'', ''postup'', ''postdown'', ''saveconfig'']"

definition line_key :: "string \<Rightarrow> string" where
  "line_key line =
     (let keyLine = takeWhile (\<lambda>c. c \<noteq> CHR ''#'') line; key = trim_space keyLine
      in case cut CHR ''='' key of None \<Rightarrow> key | Some (k, _) \<Rightarrow> trim_space k)"

text \<open>\<open>strings.EqualFold\<close> against a text of ASCII letters.\<close>

fun strip_lines :: "bool \<Rightarrow> string list \<Rightarrow> string list" where
  "strip_lines inInterface [] = []"
| "strip_lines inInterface (line # ls) =
     (let key = line_key line in
      if prefix ''['' key then line # strip_lines (lower key = ''[interface]'') ls
      else if inInterface \<and> lower key \<in> set awgQuickIfaceKeys then strip_lines inInterface ls
      else line # strip_lines inInterface ls)"

text \<open>A line break is written before every line but the first of the input, which is always kept.\<close>

definition stripAwgQuick :: "string \<Rightarrow> string" where
  "stripAwgQuick conf = join [newline] (strip_lines False (split_on newline conf))"

section \<open>The client side\<close>

record client_settings =
  csPrivateKey :: string
  csAddress :: string
  csMTU :: int
  csPublicKey :: string
  csPSK :: string
  csEndpoint :: string
  csKeepalive :: string
  csAllowedIPs :: string
  csDNS :: string
  csObf :: obfuscation31
  csAwgVersion :: string

definition junk_lines :: "client_settings \<Rightarrow> string list" where
  "junk_lines s =
     (let obf = csObf s; junk = obJc obf > 0;
          pad = (\<lambda>key v. if junk \<or> v > 0 then [assign key (itoa v)] else []) in
      (if junk then [assign ''Jc'' (itoa (obJc obf)), assign ''Jmin'' (itoa (obJmin obf)), assign ''Jmax'' (itoa (obJmax obf))] else [])
      @ pad ''S1'' (obS1 obf) @ pad ''S2'' (obS2 obf)
      @ (if NormalizeAWGVersion (csAwgVersion s) \<noteq> ''1.5'' then pad ''S3'' (obS3 obf) @ pad ''S4'' (obS4 obf) else []))"

definition client_lines :: "host_support \<Rightarrow> client_settings \<Rightarrow> string list" where
  "client_lines hs s =
     (let obf = csObf s; ver = NormalizeAWGVersion (csAwgVersion s); awg3ok = (IsAwg3Plus (csAwgVersion s) \<and> hsAwg3 hs) in
      [xuiManagedMarker, ''[Interface]'', assign ''PrivateKey'' (confValue (csPrivateKey s)), assign ''Address'' (confValue (csAddress s))]
      @ (if csMTU s > 0 then [assign ''MTU'' (itoa (csMTU s))] else [])
      @ [''Table = off'']
      @ junk_lines s
      @ header_lines obf
      @ (if awg3ok then key_lines obf @ timer_lines obf else [])
      @ (if IsAwg31 (csAwgVersion s) \<and> hsAwg31 hs then flag_lines obf else [])
      @ (if ver \<noteq> ''1.5'' \<and> i_fit obf
         then List.map_filter (\<lambda>(key, v). if trim_space v \<noteq> [] then Some (assign key (confValue (trim_space v))) else None) (i_fields obf)
         else [])
      @ [[], ''[Peer]'', assign ''PublicKey'' (confValue (csPublicKey s))]
      @ (let psk = trim_space (csPSK s) in if psk \<noteq> [] then [assign ''PresharedKey'' (confValue psk)] else [])
      @ [assign ''Endpoint'' (confValue (csEndpoint s)), assign ''AllowedIPs'' (confValue (csAllowedIPs s))]
      @ (if \<not> timer_IsZero (csKeepalive s) then [assign ''PersistentKeepalive'' (confValue (csKeepalive s))] else []))"

definition renderClientConf :: "host_support \<Rightarrow> client_settings \<Rightarrow> string" where
  "renderClientConf hs s = unlines (client_lines hs s)"

section \<open>Reading\<close>

definition parseConfBool :: "string \<Rightarrow> bool" where
  "parseConfBool s \<longleftrightarrow> lower (trim_space s) \<in> set [''true'', ''yes'', ''1'', ''on'']"

text \<open>The keys of the interface section that both readers know, with what they set.\<close>

definition obf_keys :: "(string \<times> (string \<Rightarrow> obfuscation31 \<Rightarrow> obfuscation31)) list" where
  "obf_keys =
     [(''Jc'', \<lambda>v. obJc_update (\<lambda>_. atoi_val v)), (''Jmin'', \<lambda>v. obJmin_update (\<lambda>_. atoi_val v)),
      (''Jmax'', \<lambda>v. obJmax_update (\<lambda>_. atoi_val v)), (''S1'', \<lambda>v. obS1_update (\<lambda>_. atoi_val v)),
      (''S2'', \<lambda>v. obS2_update (\<lambda>_. atoi_val v)), (''S3'', \<lambda>v. obS3_update (\<lambda>_. atoi_val v)),
      (''S4'', \<lambda>v. obS4_update (\<lambda>_. atoi_val v)), (''H1'', \<lambda>v. obH1_update (\<lambda>_. v)), (''H2'', \<lambda>v. obH2_update (\<lambda>_. v)),
      (''H3'', \<lambda>v. obH3_update (\<lambda>_. v)), (''H4'', \<lambda>v. obH4_update (\<lambda>_. v)), (''I1'', \<lambda>v. obI1_update (\<lambda>_. v)),
      (''I2'', \<lambda>v. obI2_update (\<lambda>_. v)), (''I3'', \<lambda>v. obI3_update (\<lambda>_. v)), (''I4'', \<lambda>v. obI4_update (\<lambda>_. v)),
      (''I5'', \<lambda>v. obI5_update (\<lambda>_. v)), (''HeaderProtectionKey'', \<lambda>v. obHeaderProtectionKey_update (\<lambda>_. v)),
      (''ContentPaddingAddition'', \<lambda>v. obContentPaddingAddition_update (\<lambda>_. v)),
      (''RekeyAfterTime'', \<lambda>v. obRekeyAfterTime_update (\<lambda>_. v)), (''RekeyTimeout'', \<lambda>v. obRekeyTimeout_update (\<lambda>_. v)),
      (''RejectAfterTime'', \<lambda>v. obRejectAfterTime_update (\<lambda>_. v)), (''KeepaliveTimeout'', \<lambda>v. obKeepaliveTimeout_update (\<lambda>_. v)),
      (''MaxHandshakeAttempts'', \<lambda>v. obMaxHandshakeAttempts_update (\<lambda>_. v)),
      (''RandomTrailers'', \<lambda>v. obRandomTrailers_update (\<lambda>_. parseConfBool v)),
      (''DisableCookies'', \<lambda>v. obDisableCookies_update (\<lambda>_. parseConfBool v))]"

definition apply_obf :: "string \<Rightarrow> string \<Rightarrow> obfuscation31 \<Rightarrow> obfuscation31" where
  "apply_obf key val obf = (case map_of obf_keys key of None \<Rightarrow> obf | Some f \<Rightarrow> f val obf)"

text \<open>A list of name servers keeps its first.\<close>

definition first_dns :: "string \<Rightarrow> string" where
  "first_dns val = (case cut CHR '','' val of None \<Rightarrow> val | Some (a, _) \<Rightarrow> trim_space a)"

text \<open>The version the fields of a file give away; \<open>hRange\<close> is looked at by one of the two readers only.\<close>

definition detect_version :: "bool \<Rightarrow> obfuscation31 \<Rightarrow> string" where
  "detect_version hRange obf =
     (if obRandomTrailers obf \<or> obDisableCookies obf then ''3.1''
      else if obHeaderProtectionKey obf \<noteq> [] \<or> list_ex (\<lambda>(_, t). \<not> timer_IsZero t) (timer_fields obf) then ''3''
      else if obS3 obf \<noteq> 0 \<or> obS4 obf \<noteq> 0 \<or> list_ex (\<lambda>(_, v). v \<noteq> []) (i_fields obf) \<or> hRange then ''2''
      else ''1.5'')"

definition zero_client_settings :: client_settings where
  "zero_client_settings = \<lparr>csPrivateKey = [], csAddress = [], csMTU = 0, csPublicKey = [], csPSK = [], csEndpoint = [],
     csKeepalive = [], csAllowedIPs = [], csDNS = [], csObf = zero_obfuscation, csAwgVersion = []\<rparr>"

definition client_interface_key :: "string \<Rightarrow> string \<Rightarrow> client_settings \<Rightarrow> client_settings" where
  "client_interface_key key val s =
     (if key = ''PrivateKey'' then s\<lparr>csPrivateKey := val\<rparr>
      else if key = ''Address'' then s\<lparr>csAddress := val\<rparr>
      else if key = ''MTU'' then s\<lparr>csMTU := atoi_val val\<rparr>
      else if key = ''DNS'' then s\<lparr>csDNS := first_dns val\<rparr>
      else s\<lparr>csObf := apply_obf key val (csObf s)\<rparr>)"

definition client_peer_key :: "string \<Rightarrow> string \<Rightarrow> client_settings \<Rightarrow> client_settings" where
  "client_peer_key key val s =
     (if key = ''PublicKey'' then s\<lparr>csPublicKey := val\<rparr>
      else if key = ''PresharedKey'' then s\<lparr>csPSK := val\<rparr>
      else if key = ''Endpoint'' then s\<lparr>csEndpoint := val\<rparr>
      else if key = ''AllowedIPs'' then s\<lparr>csAllowedIPs := val\<rparr>
      else if key = ''PersistentKeepalive'' then s\<lparr>csKeepalive := val\<rparr> else s)"

fun client_step :: "string \<times> client_settings \<Rightarrow> conf_line \<Rightarrow> string \<times> client_settings" where
  "client_step (sec, s) (Section name) = (name, s)"
| "client_step (sec, s) (Assignment key val) =
     (sec, if sec = ''interface'' then client_interface_key key val s
           else if sec = ''peer'' then client_peer_key key val s else s)"
| "client_step (sec, s) _ = (sec, s)"

text \<open>\<open>decode\<close> and \<open>confFrom\<close> are \<open>vpnuri.Decode\<close> and \<open>vpnuri.ConfFromPayload\<close>.\<close>

definition unwrapOutboundConf :: "(string \<Rightarrow> string option) \<Rightarrow> (string \<Rightarrow> string option) \<Rightarrow> string \<Rightarrow> string" where
  "unwrapOutboundConf decode confFrom text_in =
     (let s = trim_space text_in in
      if s = [] then text_in
      else if prefix ''vpn://'' s then
        (case decode s of None \<Rightarrow> text_in | Some payload \<Rightarrow>
           (case confFrom payload of Some conf \<Rightarrow> conf | None \<Rightarrow> text_in))
      else if prefix ''{'' s then (case confFrom s of Some conf \<Rightarrow> conf | None \<Rightarrow> text_in)
      else text_in)"

definition ParseConf :: "(string \<Rightarrow> string option) \<Rightarrow> (string \<Rightarrow> string option) \<Rightarrow> string \<Rightarrow> client_settings" where
  "ParseConf decode confFrom text_in =
     (let s = snd (foldl client_step ([], zero_client_settings) (map classify (split_on newline (unwrapOutboundConf decode confFrom text_in))))
      in s\<lparr>csAwgVersion := detect_version False (csObf s)\<rparr>)"

section \<open>Reading a server's file\<close>

definition suspendIP :: string where
  "suspendIP = ''127.0.0.2''"

record server_peer =
  spName :: string
  spPublicKey :: string
  spPSK :: string
  spAllowedIPs :: string
  spEndpoint :: string
  spKeepalive :: string
  spSuspended :: bool
  spOrigIPs :: string
  spExpiry :: int

record server_conf =
  svPrivateKey :: string
  svAddress :: string
  svListenPort :: int
  svMTU :: int
  svDNS :: string
  svObf :: obfuscation31
  svAwgVersion :: string
  svPeers :: "server_peer list"

definition zero_server_peer :: server_peer where
  "zero_server_peer = \<lparr>spName = [], spPublicKey = [], spPSK = [], spAllowedIPs = [], spEndpoint = [], spKeepalive = [],
     spSuspended = False, spOrigIPs = [], spExpiry = 0\<rparr>"

definition zero_server_conf :: server_conf where
  "zero_server_conf = \<lparr>svPrivateKey = [], svAddress = [], svListenPort = 0, svMTU = 0, svDNS = [], svObf = zero_obfuscation,
     svAwgVersion = [], svPeers = []\<rparr>"

definition applyInterfaceKey :: "string \<Rightarrow> string \<Rightarrow> server_conf \<Rightarrow> server_conf" where
  "applyInterfaceKey key val s =
     (if key = ''PrivateKey'' then s\<lparr>svPrivateKey := val\<rparr>
      else if key = ''Address'' then s\<lparr>svAddress := val\<rparr>
      else if key = ''ListenPort'' then s\<lparr>svListenPort := atoi_val val\<rparr>
      else if key = ''MTU'' then s\<lparr>svMTU := atoi_val val\<rparr>
      else if key = ''DNS'' then s\<lparr>svDNS := first_dns val\<rparr>
      else s\<lparr>svObf := apply_obf key val (svObf s)\<rparr>)"

definition server_peer_key :: "string \<Rightarrow> string \<Rightarrow> server_peer \<Rightarrow> server_peer" where
  "server_peer_key key val p =
     (if key = ''PublicKey'' then p\<lparr>spPublicKey := val\<rparr>
      else if key = ''PresharedKey'' then p\<lparr>spPSK := val\<rparr>
      else if key = ''AllowedIPs'' then p\<lparr>spAllowedIPs := val\<rparr>
      else if key = ''Endpoint'' then p\<lparr>spEndpoint := val\<rparr>
      else if key = ''PersistentKeepalive'' then p\<lparr>spKeepalive := val\<rparr> else p)"

text \<open>\<open>strings.Contains\<close>.\<close>

definition str_contains :: "string \<Rightarrow> string \<Rightarrow> bool" where
  "str_contains s sub \<longleftrightarrow> list_ex (prefix sub) (suffixes s)"

text \<open>What the loop carries: the section, the peer being read, whether it has a name yet, and the file read so far.\<close>

record server_reader =
  srSection :: string
  srPeer :: server_peer
  srNamed :: bool
  srConf :: server_conf

definition flushPeer :: "server_reader \<Rightarrow> server_reader" where
  "flushPeer r =
     (let p = srPeer r;
          p' = (if str_contains (spAllowedIPs p) suspendIP then p\<lparr>spSuspended := True\<rparr> else p);
          conf = (if spPublicKey p = [] then srConf r else (srConf r)\<lparr>svPeers := svPeers (srConf r) @ [p']\<rparr>)
      in r\<lparr>srPeer := zero_server_peer, srNamed := False, srConf := conf\<rparr>)"

text \<open>The comments of a peer.\<close>

definition peer_comment :: "string \<Rightarrow> server_reader \<Rightarrow> server_reader" where
  "peer_comment line r =
     (let comment = trim_space (trim_left_of ''#;'' line) in
      if comment = [] \<or> lower comment = lower (drop 2 xuiManagedMarker) then r
      else if prefix ''expires='' comment then
        (case parse_int64 (drop 8 comment) of Some ts \<Rightarrow> r\<lparr>srPeer := (srPeer r)\<lparr>spExpiry := ts\<rparr>\<rparr> | None \<Rightarrow> r)
      else if prefix ''orig_ips='' comment then r\<lparr>srPeer := (srPeer r)\<lparr>spOrigIPs := trim_space (drop 9 comment)\<rparr>\<rparr>
      else if \<not> srNamed r then r\<lparr>srPeer := (srPeer r)\<lparr>spName := comment\<rparr>, srNamed := True\<rparr>
      else r)"

fun server_step :: "server_reader \<Rightarrow> conf_line \<Rightarrow> server_reader" where
  "server_step r (Section name) = (if srSection r = ''peer'' then flushPeer r else r)\<lparr>srSection := name\<rparr>"
| "server_step r (Comment line) = (if srSection r = ''peer'' then peer_comment line r else r)"
| "server_step r (Assignment key val) =
     (if srSection r = ''interface'' then r\<lparr>srConf := applyInterfaceKey key val (srConf r)\<rparr>
      else if srSection r = ''peer'' then r\<lparr>srPeer := server_peer_key key val (srPeer r)\<rparr> else r)"
| "server_step r _ = r"

definition h_range :: "obfuscation31 \<Rightarrow> bool" where
  "h_range obf \<longleftrightarrow> list_ex (\<lambda>h. CHR ''-'' \<in> set h) [obH1 obf, obH2 obf, obH3 obf, obH4 obf]"

definition detectAwgVersion :: "obfuscation31 \<Rightarrow> string" where
  "detectAwgVersion obf = detect_version (h_range obf) obf"

definition zero_reader :: server_reader where
  "zero_reader = \<lparr>srSection = [], srPeer = zero_server_peer, srNamed = False, srConf = zero_server_conf\<rparr>"

definition ParseServerConf :: "string \<Rightarrow> server_conf" where
  "ParseServerConf text_in =
     (let r = foldl server_step zero_reader (map classify (split_on newline text_in));
          s = srConf (if srSection r = ''peer'' then flushPeer r else r);
          address = (case cut CHR '','' (svAddress s) of None \<Rightarrow> svAddress s | Some (a, _) \<Rightarrow> trim_space a)
      in s\<lparr>svAwgVersion := detectAwgVersion (svObf s), svAddress := address\<rparr>)"

section \<open>The assignments of a file\<close>

text \<open>The lines a renderer writes, taken apart: the assignments of each section.\<close>

abbreviation assigns :: "(string \<times> string) list \<Rightarrow> string list" where
  "assigns kvs \<equiv> map (\<lambda>(k, v). assign k v) kvs"

definition only_if :: "bool \<Rightarrow> 'a list \<Rightarrow> 'a list" where
  "only_if b xs = (if b then xs else [])"

lemma only_if_simps [simp]:
  "map f (only_if b xs) = only_if b (map f xs)" "list_all P (only_if b xs) \<longleftrightarrow> b \<longrightarrow> list_all P xs"
  "last_of (only_if b kvs) key = (if b then last_of kvs key else None)"
  by (simp_all add: only_if_def)

abbreviation filled :: "string \<Rightarrow> bool" where
  "filled v \<equiv> trim_space v \<noteq> []"

abbreviation ticking :: "string \<Rightarrow> bool" where
  "ticking t \<equiv> \<not> timer_IsZero t"

definition header_fields :: "obfuscation31 \<Rightarrow> (string \<times> string) list" where
  "header_fields obf = [(''H1'', obH1 obf), (''H2'', obH2 obf), (''H3'', obH3 obf), (''H4'', obH4 obf)]"

definition awg3_kvs :: "obfuscation31 \<Rightarrow> (string \<times> string) list" where
  "awg3_kvs obf = optional filled [(''HeaderProtectionKey'', obHeaderProtectionKey obf)] @ optional ticking (timer_fields obf)"

definition flag_kvs :: "obfuscation31 \<Rightarrow> (string \<times> string) list" where
  "flag_kvs obf = only_if (obRandomTrailers obf) [(''RandomTrailers'', ''on'')] @ only_if (obDisableCookies obf) [(''DisableCookies'', ''on'')]"

definition obf_text_kvs :: "host_support \<Rightarrow> string \<Rightarrow> obfuscation31 \<Rightarrow> (string \<times> string) list" where
  "obf_text_kvs hs version obf =
     optional filled (header_fields obf)
     @ only_if (IsAwg3Plus version \<and> hsAwg3 hs) (awg3_kvs obf)
     @ only_if (IsAwg31 version \<and> hsAwg31 hs) (flag_kvs obf)
     @ only_if (NormalizeAWGVersion version \<noteq> ''1.5'' \<and> i_fit obf) (optional filled (i_fields obf))"

lemma map_filter_optional:
  "List.map_filter (\<lambda>(key, v). if ok v then Some (assign key (f v)) else None) kvs = map (\<lambda>(k, v). assign k (f v)) (optional ok kvs)"
  by (induction kvs) (auto simp: optional_def)

definition plain_obf :: "obfuscation31 \<Rightarrow> bool" where
  "plain_obf obf \<longleftrightarrow> list_all (\<lambda>(k, v). plain v)
     (header_fields obf @ [(''HeaderProtectionKey'', obHeaderProtectionKey obf)] @ timer_fields obf @ i_fields obf)"

lemma plain_confValue: "plain v \<Longrightarrow> confValue v = v" "plain v \<Longrightarrow> trim_space v = v"
  by (simp_all add: plain_def)

lemma plain_optional:
  assumes "list_all (\<lambda>(k, v). plain v) kvs"
  shows "map (\<lambda>(k, v). assign k (confValue v)) (optional ok kvs) = assigns (optional ok kvs)"
    "map (\<lambda>(k, v). assign k (confValue (trim_space v))) (optional ok kvs) = assigns (optional ok kvs)"
  using assms by (auto simp: optional_def list_all_iff plain_confValue)

lemma obf_text_lines:
  assumes "plain_obf obf" and iv: "iv = confValue \<or> iv = (\<lambda>v. confValue (trim_space v))"
  shows "header_lines obf @ (if IsAwg3Plus version \<and> hsAwg3 hs then key_lines obf @ timer_lines obf else [])
      @ (if IsAwg31 version \<and> hsAwg31 hs then flag_lines obf else [])
      @ (if NormalizeAWGVersion version \<noteq> ''1.5'' \<and> i_fit obf
         then List.map_filter (\<lambda>(key, v). if trim_space v \<noteq> [] then Some (assign key (iv v)) else None) (i_fields obf) else [])
    = assigns (obf_text_kvs hs version obf)"
proof -
  have p: "list_all (\<lambda>(k, v). plain v) (header_fields obf)" "plain (obHeaderProtectionKey obf)"
    "list_all (\<lambda>(k, v). plain v) (timer_fields obf)" "list_all (\<lambda>(k, v). plain v) (i_fields obf)"
    using assms(1) by (simp_all add: plain_obf_def)
  have "header_lines obf = assigns (optional filled (header_fields obf))"
    using plain_optional(1) [OF p(1)] by (simp add: header_lines_def map_filter_optional flip: header_fields_def)
  moreover have "key_lines obf @ timer_lines obf = assigns (awg3_kvs obf)"
    using plain_optional(1) [OF p(3)] p(2)
    by (simp add: key_lines_def timer_lines_def awg3_kvs_def map_filter_optional optional_def plain_confValue)
  moreover have "flag_lines obf = assigns (flag_kvs obf)"
    by (simp add: flag_lines_def flag_kvs_def only_if_def assign_def)
  moreover have "List.map_filter (\<lambda>(key, v). if filled v then Some (assign key (iv v)) else None) (i_fields obf)
      = assigns (optional filled (i_fields obf))"
    using iv plain_optional [OF p(4)] by (elim disjE) (simp_all only: map_filter_optional)
  ultimately show ?thesis by (simp add: obf_text_kvs_def only_if_def)
qed

section \<open>No value makes a line of its own\<close>

lemma plain_keys [simp]:
  "plain_key ''PrivateKey''" "plain_key ''ListenPort''" "plain_key ''Address''" "plain_key ''MTU''" "plain_key ''Table''"
  "plain_key ''Jc''" "plain_key ''Jmin''" "plain_key ''Jmax''" "plain_key ''S1''" "plain_key ''S2''" "plain_key ''S3''"
  "plain_key ''S4''" "plain_key ''H1''" "plain_key ''H2''" "plain_key ''H3''" "plain_key ''H4''" "plain_key ''I1''"
  "plain_key ''I2''" "plain_key ''I3''" "plain_key ''I4''" "plain_key ''I5''" "plain_key ''HeaderProtectionKey''"
  "plain_key ''ContentPaddingAddition''" "plain_key ''RekeyAfterTime''" "plain_key ''RekeyTimeout''"
  "plain_key ''RejectAfterTime''" "plain_key ''KeepaliveTimeout''" "plain_key ''MaxHandshakeAttempts''"
  "plain_key ''RandomTrailers''" "plain_key ''DisableCookies''" "plain_key ''PostUp''" "plain_key ''PostDown''"
  "plain_key ''PublicKey''" "plain_key ''PresharedKey''" "plain_key ''AllowedIPs''" "plain_key ''Endpoint''"
  "plain_key ''PersistentKeepalive''"
  by code_simp+

text \<open>A line that is read as an assignment.\<close>

definition body_line :: "string \<Rightarrow> bool" where
  "body_line l \<longleftrightarrow> one_line l \<and> (\<exists>k v. classify l = Assignment k v)"

lemma body_assign: "plain_key k \<Longrightarrow> one_line v \<Longrightarrow> body_line (assign k v)"
proof -
  assume k: "plain_key k" and v: "one_line v"
  have "\<not> graphic newline" by code_simp
  with k have "one_line k" by (auto simp: plain_key_def one_line_def list_all_iff)
  with k v show ?thesis using classify_assign_any [OF k, of v] by (auto simp: body_line_def)
qed

lemma body_fixed [simp]: "body_line ''Table = off''" "body_line ''RandomTrailers = on''" "body_line ''DisableCookies = on''"
  using body_assign [of "''Table''" "''off''"] body_assign [of "''RandomTrailers''" "''on''"]
    body_assign [of "''DisableCookies''" "''on''"] by (simp_all add: assign_def)

lemma body_optional: "list_all (\<lambda>(k, v). plain_key k) kvs \<Longrightarrow> (\<And>v. one_line (f v)) \<Longrightarrow>
  list_all body_line (List.map_filter (\<lambda>(key, v). if ok v then Some (assign key (f v)) else None) kvs)"
  by (induction kvs) (auto simp: body_assign)

lemma body_obf_lines [simp]:
  "list_all body_line (header_lines obf)" "list_all body_line (key_lines obf)" "list_all body_line (timer_lines obf)"
  "list_all body_line (flag_lines obf)"
  "list_all body_line (List.map_filter (\<lambda>(key, v). if trim_space v \<noteq> [] then Some (assign key (confValue v)) else None) (i_fields obf))"
  "list_all body_line (List.map_filter (\<lambda>(key, v). if trim_space v \<noteq> [] then Some (assign key (confValue (trim_space v))) else None) (i_fields obf))"
proof -
  show "list_all body_line (header_lines obf)" unfolding header_lines_def by (rule body_optional) simp_all
  show "list_all body_line (timer_lines obf)" unfolding timer_lines_def timer_fields_def by (rule body_optional) simp_all
  show "list_all body_line (key_lines obf)" "list_all body_line (flag_lines obf)"
    by (simp_all add: key_lines_def flag_lines_def body_assign)
qed (unfold i_fields_def, (rule body_optional; simp)+)

lemma one_line_join: "one_line sep \<Longrightarrow> (\<And>x. x \<in> set xs \<Longrightarrow> one_line x) \<Longrightarrow> one_line (join sep xs)"
  by (induction sep xs rule: join.induct) auto

lemma one_line_safe: "safe_word w \<Longrightarrow> one_line w"
  by (auto simp: one_line_def safe_word_def list_all_iff shell_safe_def ascii_letter_simps is_digit_def less_eq_char_def)

lemma one_line_names [simp]: "one_line (ifnameFor n)" "one_line (tunNameFor n)" "one_line (tproxy_chain n)"
  "one_line (tproxy_table n)"
  by (simp_all add: ifnameFor_def tunNameFor_def tproxy_chain_def tproxy_table_def)

lemma one_line_subnet [simp]: "one_line (clientSubnet a)"
  using one_line_safe [OF safe_subnet, of a] by (metis one_line_simps(1))

lemma hex_nat_one_line: "one_line (hex_nat n)"
proof (induction n rule: hex_nat.induct)
  case (1 n)
  have d: "hex_digit m \<noteq> newline" if "m < 16" for m
  proof -
    have "list_all (\<lambda>m. hex_digit m \<noteq> newline) [0..<16]" by code_simp
    with that show ?thesis by (simp add: list_all_iff)
  qed
  with 1 show ?case by (subst hex_nat.simps) (simp add: d)
qed

lemma one_line_mark [simp]: "one_line (tproxy_mark n)"
  by (simp add: tproxy_mark_def hex_nat_one_line)

definition one_line_rule :: "tproxyRule \<Rightarrow> bool" where
  "one_line_rule br \<longleftrightarrow> one_line (fst br) \<and> one_line (rTable (snd br)) \<and> one_line (rChain (snd br)) \<and> list_all one_line (rSpec (snd br))"

lemma one_line_tproxy_command: "one_line_rule br \<Longrightarrow> one_line op \<Longrightarrow> one_line (tproxy_command op br)"
  by (auto simp: tproxy_command_def one_line_rule_def list_all_iff intro!: one_line_join)

lemma one_line_tproxy_rules:
  "one_line (kIfname inst) \<Longrightarrow> list_all one_line_rule (tproxyRules inst)" "list_all one_line_rule (tproxy_cleanup_rules n)"
  by (simp_all add: tproxyRules_def tproxy_cleanup_rules_def tproxy_rule_def rule_make_def one_line_rule_def Let_def)

lemma one_line_cleanup: "one_line (tproxyCleanup n)"
  using one_line_tproxy_rules(2) [of n]
  by (auto simp: tproxyCleanup_def Let_def list_all_iff one_line_tproxy_command intro!: one_line_join)

lemma one_line_ensure: "one_line_rule br \<Longrightarrow> one_line op \<Longrightarrow> one_line (tproxy_ensure_text (op, br))"
  by (simp add: tproxy_ensure_text_def one_line_tproxy_command)

lemma one_line_guards: "one_line (kIfname inst) \<Longrightarrow> x \<in> set (tproxy_guards inst) \<Longrightarrow> one_line x"
  by (auto simp: tproxy_guards_def tproxy_selector_def Let_def)

lemma one_line_ops:
  assumes "one_line (kIfname inst)" "x \<in> set (tproxy_ops (tproxyRules inst))"
  shows "one_line (tproxy_ensure_text x)"
proof -
  obtain op br where x: "x = (op, br)" by (cases x)
  have "br \<in> set (tproxyRules inst)" using assms(2) tproxy_ops_rules [of inst] x by (metis image_eqI list.set_map snd_conv)
  then have "one_line_rule br" using one_line_tproxy_rules(1) [OF assms(1)] by (simp add: list_all_iff)
  moreover have "one_line op" using assms(2) x by (auto simp: tproxy_ops_parts)
  ultimately show ?thesis using x one_line_ensure by simp
qed

lemma one_line_tproxy: "one_line (kIfname inst) \<Longrightarrow> one_line (fst (tproxyPostUpPostDown inst)) \<and> one_line (snd (tproxyPostUpPostDown inst))"
  by (auto simp: tproxyPostUpPostDown_def one_line_cleanup intro!: one_line_join dest: one_line_guards one_line_ops)

definition one_line_command :: "command \<Rightarrow> bool" where
  "one_line_command c \<longleftrightarrow> one_line (command_text c)"

lemma one_line_rules: "one_line_rule (''iptables'', r) \<Longrightarrow> one_line_command (Ensure r) \<and> one_line_command (Drop r)"
  by (auto simp: one_line_rule_def one_line_command_def iptables_def list_all_iff intro!: one_line_join)

lemma one_line_script: "list_all one_line_command cs \<Longrightarrow> one_line (script cs)"
  by (auto simp: script_def one_line_command_def list_all_iff intro!: one_line_join)

lemma one_line_nat_rules:
  assumes "one_line iface" "one_line tun" "one_line subnet" "one_line ext" "one_line mark"
  shows "list_all one_line_rule (map (Pair ''iptables'') (xray_rules iface tun @ nat_up_rules iface mark subnet ext @ nat_down_rules iface mark subnet ext))"
  using assms by (simp add: xray_rules_def nat_up_rules_def nat_down_rules_def accept_rule_def mss_rule_def mark_rule_def
      masq_subnet_def masq_mark_def rule_make_def one_line_rule_def)

lemma one_line_of_rules: "list_all one_line_rule (map (Pair ''iptables'') rs) \<Longrightarrow>
  list_all one_line_command (map Ensure rs) \<and> list_all one_line_command (map Drop rs)"
  using one_line_rules by (auto simp: list_all_iff)

lemma one_line_run: "one_line_command (Run s) \<longleftrightarrow> one_line s"
  by (simp add: one_line_command_def)

lemma one_line_nat:
  assumes "one_line (kIfname inst)"
  shows "one_line (fst (natPostUpPostDown ext inst)) \<and> one_line (snd (natPostUpPostDown ext inst))"
proof (cases "UsesTproxy inst")
  case True
  then show ?thesis using one_line_tproxy [OF assms] by (simp add: natPostUpPostDown_def)
next
  case False
  have ext: "one_line ext" if "validIptablesIface ext" using that safe_iface one_line_safe by blast
  have x: "list_all one_line_rule (map (Pair ''iptables'') (xray_rules (kIfname inst) (tunNameFor n)))" for n
    using one_line_nat_rules [OF assms one_line_names(2) _ _ _, of "[]" "[]" "[]"] by simp
  have n: "list_all one_line_rule (map (Pair ''iptables'') (nat_up_rules (kIfname inst) (itoa m) (clientSubnet a) ext))"
    "list_all one_line_rule (map (Pair ''iptables'') (nat_down_rules (kIfname inst) (itoa m) (clientSubnet a) ext))"
    if "validIptablesIface ext" for m a
    using one_line_nat_rules [OF assms assms one_line_subnet ext [OF that] itoa_one_line] by simp_all
  obtain up down where nc: "nat_commands ext inst = (up, down)" by fastforce
  then have "list_all one_line_command up \<and> list_all one_line_command down"
    using assms one_line_of_rules [OF x] one_line_of_rules [OF n(1)] one_line_of_rules [OF n(2)]
    by (auto simp: nat_commands_def Let_def one_line_run ip_forward_cmd_def split: if_splits)
  then show ?thesis using False nc by (simp add: natPostUpPostDown_def one_line_script)
qed

text \<open>The section headers a reader finds in a file.\<close>

definition sections :: "string \<Rightarrow> string list" where
  "sections text_in = List.map_filter (\<lambda>l. case classify l of Section name \<Rightarrow> Some name | _ \<Rightarrow> None) (split_on newline text_in)"

abbreviation header :: "string \<Rightarrow> string option" where
  "header l \<equiv> (case classify l of Section name \<Rightarrow> Some name | _ \<Rightarrow> None)"

lemma map_filter_append [simp]: "List.map_filter f (xs @ ys) = List.map_filter f xs @ List.map_filter f ys"
  by (simp add: List.map_filter_def)

lemma body_headers: "list_all body_line ls \<Longrightarrow> List.map_filter header ls = []"
  by (induction ls) (auto simp: body_line_def)

lemma body_one_line: "list_all body_line ls \<Longrightarrow> list_all one_line ls"
  by (simp add: list_all_iff body_line_def)

lemma classify_fixed [simp]:
  "classify xuiManagedMarker = Comment xuiManagedMarker" "classify ''[Interface]'' = Section ''interface''"
  "classify ''[Peer]'' = Section ''peer''" "classify [] = Blank"
  by code_simp+

lemma one_line_marker [simp]: "one_line xuiManagedMarker"
  by code_simp

lemma device_lines_parts: "\<exists>ls. device_lines hs inst = xuiManagedMarker # ''[Interface]'' # ls
    \<and> (one_line (kIfname inst) \<longrightarrow> list_all body_line ls)"
proof -
  have nat: "one_line (kIfname inst) \<Longrightarrow> list_all body_line (case natPostUpPostDown ext inst of (u, d) \<Rightarrow>
      if u \<noteq> [] then [assign ''PostUp'' u, assign ''PostDown'' d] else [])" for ext
    using one_line_nat [of inst ext] by (auto simp: body_assign split: prod.split)
  then show ?thesis by (simp add: device_lines_def Let_def body_assign list_all_append del: one_line_simps)
qed

lemma peer_lines_parts: "\<exists>ls. peer_lines p = [] # ''[Peer]'' # ls \<and> list_all body_line ls"
  by (simp add: peer_lines_def Let_def body_assign)

lemma peers_lines: "list_all one_line (concat (map peer_lines ps))
  \<and> List.map_filter header (concat (map peer_lines ps)) = replicate (length ps) ''peer''"
proof (induction ps)
  case (Cons p ps)
  obtain ls where "peer_lines p = [] # ''[Peer]'' # ls" "list_all body_line ls" using peer_lines_parts by blast
  then show ?case using Cons body_headers body_one_line by simp
qed simp

text \<open>C20: Whatever is stored in an inbound and its clients - keys, addresses, obfuscation fields with line breaks or
  brackets in them -, the file written for its interface consists of exactly the lines the renderer lays out, none of
  them broken in two, and a reader finds in it one interface section and one section per peer.\<close>
theorem server_file_not_injectable:
  assumes "kIfname inst = ifnameFor (kId inst)"
  shows "split_on newline (renderServerConf hs inst) = device_lines hs inst @ concat (map peer_lines (kPeers inst)) @ [[]] \<and>
    sections (renderServerConf hs inst) = ''interface'' # replicate (length (kPeers inst)) ''peer''"
proof -
  obtain ls where d: "device_lines hs inst = xuiManagedMarker # ''[Interface]'' # ls" and b: "list_all body_line ls"
    using device_lines_parts [of hs inst] assms by auto
  have "list_all one_line (device_lines hs inst @ concat (map peer_lines (kPeers inst)))"
    using d body_one_line [OF b] peers_lines by simp
  from split_unlines [OF this] show ?thesis
    using d body_headers [OF b] peers_lines [of "kPeers inst"] by (simp add: renderServerConf_def sections_def)
qed

definition example_host :: host_support where
  "example_host = \<lparr>hsAwg3 = True, hsAwg31 = True, hsExtIface = ''eth0''\<rparr>"

text \<open>A key that tries to open a peer of its own.\<close>

definition example_injection :: kernel_instance where
  "example_injection = example_kernel\<lparr>kPrivateKey := ''key'' @ [newline] @ ''[Peer]'',
     kPeers := [\<lparr>kpPrivateKey = [], kpPublicKey = ''pub'' @ [newline] @ ''[Interface]'', kpPSK = [], kpKeepalive = [],
       kpAllowedIPs = ''10.8.0.2/32'', kpEmail = [], kpForwardedPorts = []\<rparr>]\<rparr>"

theorem server_file_not_injectable_witness:
  "sections (renderServerConf example_host example_injection) = [''interface'', ''peer'']"
proof -
  have "kIfname example_injection = ifnameFor (kId example_injection)" by code_simp
  from server_file_not_injectable [OF this, of example_host] show ?thesis by (simp add: example_injection_def)
qed

end
