(* ===== verification/Conf_Roundtrip.thy ===== *)
theory Conf_Roundtrip
  imports Awg_Conf
begin

text \<open>
  What the readers of configuration files get from what the renderers wrote.
\<close>

section \<open>Reading back what was written\<close>

text \<open>The obfuscation fields the assignments of a file give.\<close>

definition read_obf :: "(string \<Rightarrow> string option) \<Rightarrow> obfuscation31" where
  "read_obf val =
     (let num = (\<lambda>key. case val key of None \<Rightarrow> 0 | Some v \<Rightarrow> atoi_val v);
          str = (\<lambda>key. case val key of None \<Rightarrow> [] | Some v \<Rightarrow> v);
          flag = (\<lambda>key. case val key of None \<Rightarrow> False | Some v \<Rightarrow> parseConfBool v) in
      \<lparr>obJc = num ''Jc'', obJmin = num ''Jmin'', obJmax = num ''Jmax'', obS1 = num ''S1'', obS2 = num ''S2'', obS3 = num ''S3'',
       obS4 = num ''S4'', obH1 = str ''H1'', obH2 = str ''H2'', obH3 = str ''H3'', obH4 = str ''H4'', obI1 = str ''I1'',
       obI2 = str ''I2'', obI3 = str ''I3'', obI4 = str ''I4'', obI5 = str ''I5'', obHeaderProtectionKey = str ''HeaderProtectionKey'',
       obContentPaddingAddition = str ''ContentPaddingAddition'', obRekeyAfterTime = str ''RekeyAfterTime'',
       obRekeyTimeout = str ''RekeyTimeout'', obRejectAfterTime = str ''RejectAfterTime'', obKeepaliveTimeout = str ''KeepaliveTimeout'',
       obMaxHandshakeAttempts = str ''MaxHandshakeAttempts'', obRandomTrailers = flag ''RandomTrailers'',
       obDisableCookies = flag ''DisableCookies''\<rparr>)"

text \<open>Each key sets one field.\<close>

lemma apply_obf_num:
  "obJc (apply_obf k v s) = (if k = ''Jc'' then atoi_val v else obJc s)"
  "obJmin (apply_obf k v s) = (if k = ''Jmin'' then atoi_val v else obJmin s)"
  "obJmax (apply_obf k v s) = (if k = ''Jmax'' then atoi_val v else obJmax s)"
  "obS1 (apply_obf k v s) = (if k = ''S1'' then atoi_val v else obS1 s)"
  "obS2 (apply_obf k v s) = (if k = ''S2'' then atoi_val v else obS2 s)"
  "obS3 (apply_obf k v s) = (if k = ''S3'' then atoi_val v else obS3 s)"
  "obS4 (apply_obf k v s) = (if k = ''S4'' then atoi_val v else obS4 s)"
  by (simp_all add: apply_obf_def obf_keys_def)

lemma apply_obf_str:
  "obH1 (apply_obf k v s) = (if k = ''H1'' then v else obH1 s)"
  "obH2 (apply_obf k v s) = (if k = ''H2'' then v else obH2 s)"
  "obH3 (apply_obf k v s) = (if k = ''H3'' then v else obH3 s)"
  "obH4 (apply_obf k v s) = (if k = ''H4'' then v else obH4 s)"
  "obI1 (apply_obf k v s) = (if k = ''I1'' then v else obI1 s)"
  "obI2 (apply_obf k v s) = (if k = ''I2'' then v else obI2 s)"
  "obI3 (apply_obf k v s) = (if k = ''I3'' then v else obI3 s)"
  "obI4 (apply_obf k v s) = (if k = ''I4'' then v else obI4 s)"
  "obI5 (apply_obf k v s) = (if k = ''I5'' then v else obI5 s)"
  "obHeaderProtectionKey (apply_obf k v s) = (if k = ''HeaderProtectionKey'' then v else obHeaderProtectionKey s)"
  "obContentPaddingAddition (apply_obf k v s) = (if k = ''ContentPaddingAddition'' then v else obContentPaddingAddition s)"
  "obRekeyAfterTime (apply_obf k v s) = (if k = ''RekeyAfterTime'' then v else obRekeyAfterTime s)"
  "obRekeyTimeout (apply_obf k v s) = (if k = ''RekeyTimeout'' then v else obRekeyTimeout s)"
  "obRejectAfterTime (apply_obf k v s) = (if k = ''RejectAfterTime'' then v else obRejectAfterTime s)"
  "obKeepaliveTimeout (apply_obf k v s) = (if k = ''KeepaliveTimeout'' then v else obKeepaliveTimeout s)"
  "obMaxHandshakeAttempts (apply_obf k v s) = (if k = ''MaxHandshakeAttempts'' then v else obMaxHandshakeAttempts s)"
  "obRandomTrailers (apply_obf k v s) = (if k = ''RandomTrailers'' then parseConfBool v else obRandomTrailers s)"
  "obDisableCookies (apply_obf k v s) = (if k = ''DisableCookies'' then parseConfBool v else obDisableCookies s)"
  by (simp_all add: apply_obf_def obf_keys_def)

lemma read_obf_fold: "foldl (\<lambda>s (k, v). apply_obf k v s) zero_obfuscation kvs = read_obf (last_of kvs)"
  by (rule obfuscation31.equality)
    (simp_all only: apply_obf_num [THEN fold_last_of [of _ apply_obf]] apply_obf_str [THEN fold_last_of [of _ apply_obf]]
      read_obf_def Let_def obfuscation31.select_convs zero_obfuscation_def unit_eq)

section \<open>The client\<close>

definition junk_kvs :: "client_settings \<Rightarrow> (string \<times> string) list" where
  "junk_kvs s =
     (let obf = csObf s; junk = obJc obf > 0 in
      only_if junk [(''Jc'', itoa (obJc obf)), (''Jmin'', itoa (obJmin obf)), (''Jmax'', itoa (obJmax obf))]
      @ only_if (junk \<or> obS1 obf > 0) [(''S1'', itoa (obS1 obf))] @ only_if (junk \<or> obS2 obf > 0) [(''S2'', itoa (obS2 obf))]
      @ only_if (NormalizeAWGVersion (csAwgVersion s) \<noteq> ''1.5'')
          (only_if (junk \<or> obS3 obf > 0) [(''S3'', itoa (obS3 obf))] @ only_if (junk \<or> obS4 obf > 0) [(''S4'', itoa (obS4 obf))]))"

definition client_kvs :: "host_support \<Rightarrow> client_settings \<Rightarrow> (string \<times> string) list" where
  "client_kvs hs s =
     [(''PrivateKey'', csPrivateKey s), (''Address'', csAddress s)]
     @ only_if (csMTU s > 0) [(''MTU'', itoa (csMTU s))] @ [(''Table'', ''off'')] @ junk_kvs s
     @ obf_text_kvs hs (csAwgVersion s) (csObf s)"

definition client_peer_kvs :: "client_settings \<Rightarrow> (string \<times> string) list" where
  "client_peer_kvs s =
     [(''PublicKey'', csPublicKey s)] @ only_if (csPSK s \<noteq> []) [(''PresharedKey'', csPSK s)]
     @ [(''Endpoint'', csEndpoint s), (''AllowedIPs'', csAllowedIPs s)]
     @ only_if (ticking (csKeepalive s)) [(''PersistentKeepalive'', csKeepalive s)]"

definition plain_client :: "client_settings \<Rightarrow> bool" where
  "plain_client s \<longleftrightarrow> plain_obf (csObf s) \<and> list_all plain
     [csPrivateKey s, csAddress s, csPublicKey s, csPSK s, csEndpoint s, csKeepalive s, csAllowedIPs s]"

lemma junk_lines_kvs: "junk_lines s = assigns (junk_kvs s)"
  by (simp add: junk_lines_def junk_kvs_def only_if_def Let_def)

lemma obf_text_then:
  assumes "plain_obf obf" "iv = confValue \<or> iv = (\<lambda>v. confValue (trim_space v))"
  shows "header_lines obf @ (if IsAwg3Plus version \<and> hsAwg3 hs then key_lines obf @ timer_lines obf else [])
      @ (if IsAwg31 version \<and> hsAwg31 hs then flag_lines obf else [])
      @ (if NormalizeAWGVersion version \<noteq> ''1.5'' \<and> i_fit obf
         then List.map_filter (\<lambda>(key, v). if trim_space v \<noteq> [] then Some (assign key (iv v)) else None) (i_fields obf) else [])
      @ rest = assigns (obf_text_kvs hs version obf) @ rest"
  using arg_cong [OF obf_text_lines [OF assms, of version hs], of "\<lambda>x. x @ rest"] by (simp only: append_assoc)

lemma client_lines_kvs:
  assumes "plain_client s"
  shows "client_lines hs s = [xuiManagedMarker, ''[Interface]''] @ assigns (client_kvs hs s) @ [[], ''[Peer]''] @ assigns (client_peer_kvs s)"
proof -
  have p: "plain_obf (csObf s)" "confValue (csPrivateKey s) = csPrivateKey s" "confValue (csAddress s) = csAddress s"
    "confValue (csPublicKey s) = csPublicKey s" "confValue (csPSK s) = csPSK s" "trim_space (csPSK s) = csPSK s"
    "confValue (csEndpoint s) = csEndpoint s" "confValue (csKeepalive s) = csKeepalive s" "confValue (csAllowedIPs s) = csAllowedIPs s"
    using assms by (simp_all add: plain_client_def plain_def)
  have t: "''Table = off'' = assign ''Table'' ''off''" by (simp add: assign_def)
  show ?thesis
    unfolding client_lines_def Let_def junk_lines_kvs t p(2-) obf_text_then [OF p(1) disjI2 [OF refl]]
    by (simp only: client_kvs_def client_peer_kvs_def only_if_simps list.map prod.case map_append append_assoc append.simps)
      (simp only: only_if_def)
qed

text \<open>An \<open>int\<close> of the code.\<close>

definition go_int :: "int \<Rightarrow> bool" where
  "go_int n \<longleftrightarrow> - (2 ^ 63) \<le> n \<and> n < 2 ^ 63"

lemma atoi_go: "go_int n \<Longrightarrow> atoi_val (itoa n) = n"
  by (simp add: go_int_def atoi_itoa)

lemma go_int_zero [simp]: "go_int 0"
  by (simp add: go_int_def)

text \<open>The fields of which something is written, for a protocol version and a host.\<close>

definition text_written :: "host_support \<Rightarrow> string \<Rightarrow> obfuscation31 \<Rightarrow> obfuscation31 \<Rightarrow> obfuscation31" where
  "text_written hs version obf base =
     (let awg3 = (IsAwg3Plus version \<and> hsAwg3 hs); awg31 = (IsAwg31 version \<and> hsAwg31 hs);
          mimic = (NormalizeAWGVersion version \<noteq> ''1.5'' \<and> i_fit obf);
          timer = (\<lambda>t. if awg3 \<and> ticking t then t else []); i = (\<lambda>v. if mimic then v else []) in
      base\<lparr>obH1 := obH1 obf, obH2 := obH2 obf, obH3 := obH3 obf, obH4 := obH4 obf,
        obI1 := i (obI1 obf), obI2 := i (obI2 obf), obI3 := i (obI3 obf), obI4 := i (obI4 obf), obI5 := i (obI5 obf),
        obHeaderProtectionKey := (if awg3 then obHeaderProtectionKey obf else []),
        obContentPaddingAddition := timer (obContentPaddingAddition obf), obRekeyAfterTime := timer (obRekeyAfterTime obf),
        obRekeyTimeout := timer (obRekeyTimeout obf), obRejectAfterTime := timer (obRejectAfterTime obf),
        obKeepaliveTimeout := timer (obKeepaliveTimeout obf), obMaxHandshakeAttempts := timer (obMaxHandshakeAttempts obf),
        obRandomTrailers := (awg31 \<and> obRandomTrailers obf), obDisableCookies := (awg31 \<and> obDisableCookies obf)\<rparr>)"

definition orelse :: "'a option \<Rightarrow> 'a option \<Rightarrow> 'a option" where
  "orelse a b = (case a of None \<Rightarrow> b | Some v \<Rightarrow> Some v)"

lemma orelse_simps [simp]: "orelse None b = b" "orelse (Some v) b = Some v" "orelse a None = a"
  by (simp_all add: orelse_def split: option.split)

lemma last_of_orelse: "last_of (xs @ ys) key = orelse (last_of ys key) (last_of xs key)"
  by (simp add: orelse_def)

declare last_of_append [simp del] last_of_orelse [simp]

lemma last_of_step: "last_of ((k, v) # xs) key = orelse (last_of xs key) (if k = key then Some v else None)"
  using last_of_orelse [of "[(k, v)]" xs] by simp

definition str_of :: "string option \<Rightarrow> string" where
  "str_of x = (case x of None \<Rightarrow> [] | Some v \<Rightarrow> v)"

lemma str_of_if [simp]: "str_of (if b then x else y) = (if b then str_of x else str_of y)" "str_of None = []" "str_of (Some v) = v"
  by (simp_all add: str_of_def)

definition num_of :: "string option \<Rightarrow> int" where
  "num_of x = (case x of None \<Rightarrow> 0 | Some v \<Rightarrow> atoi_val v)"

lemma num_of_if [simp]: "num_of (if b then x else y) = (if b then num_of x else num_of y)" "num_of None = 0" "num_of (Some v) = atoi_val v"
  by (simp_all add: num_of_def)

definition flag_of :: "string option \<Rightarrow> bool" where
  "flag_of x = (case x of None \<Rightarrow> False | Some v \<Rightarrow> parseConfBool v)"

lemma flag_of_if [simp]: "flag_of (if b then x else y) = (if b then flag_of x else flag_of y)" "flag_of None = False"
  "flag_of (Some ''on'') = True"
  by (simp_all add: flag_of_def) code_simp

lemmas blocks = obf_text_kvs_def awg3_kvs_def flag_kvs_def last_of_optional header_fields_def timer_fields_def i_fields_def

text \<open>Only one block of lines knows a key.\<close>

lemma text_headers:
  "last_of (obf_text_kvs hs version obf) ''H1'' = (if filled (obH1 obf) then Some (obH1 obf) else None)"
  "last_of (obf_text_kvs hs version obf) ''H2'' = (if filled (obH2 obf) then Some (obH2 obf) else None)"
  "last_of (obf_text_kvs hs version obf) ''H3'' = (if filled (obH3 obf) then Some (obH3 obf) else None)"
  "last_of (obf_text_kvs hs version obf) ''H4'' = (if filled (obH4 obf) then Some (obH4 obf) else None)"
  by (simp_all add: blocks)

lemma text_i:
  "last_of (obf_text_kvs hs version obf) ''I1'' = (if (NormalizeAWGVersion version \<noteq> ''1.5'' \<and> i_fit obf) \<and> filled (obI1 obf) then Some (obI1 obf) else None)"
  "last_of (obf_text_kvs hs version obf) ''I2'' = (if (NormalizeAWGVersion version \<noteq> ''1.5'' \<and> i_fit obf) \<and> filled (obI2 obf) then Some (obI2 obf) else None)"
  "last_of (obf_text_kvs hs version obf) ''I3'' = (if (NormalizeAWGVersion version \<noteq> ''1.5'' \<and> i_fit obf) \<and> filled (obI3 obf) then Some (obI3 obf) else None)"
  "last_of (obf_text_kvs hs version obf) ''I4'' = (if (NormalizeAWGVersion version \<noteq> ''1.5'' \<and> i_fit obf) \<and> filled (obI4 obf) then Some (obI4 obf) else None)"
  "last_of (obf_text_kvs hs version obf) ''I5'' = (if (NormalizeAWGVersion version \<noteq> ''1.5'' \<and> i_fit obf) \<and> filled (obI5 obf) then Some (obI5 obf) else None)"
  by (simp_all add: blocks)

lemma text_timers:
  "last_of (obf_text_kvs hs version obf) ''HeaderProtectionKey'' = (if (IsAwg3Plus version \<and> hsAwg3 hs) \<and> filled (obHeaderProtectionKey obf) then Some (obHeaderProtectionKey obf) else None)"
  "last_of (obf_text_kvs hs version obf) ''ContentPaddingAddition'' = (if (IsAwg3Plus version \<and> hsAwg3 hs) \<and> ticking (obContentPaddingAddition obf) then Some (obContentPaddingAddition obf) else None)"
  "last_of (obf_text_kvs hs version obf) ''RekeyAfterTime'' = (if (IsAwg3Plus version \<and> hsAwg3 hs) \<and> ticking (obRekeyAfterTime obf) then Some (obRekeyAfterTime obf) else None)"
  "last_of (obf_text_kvs hs version obf) ''RekeyTimeout'' = (if (IsAwg3Plus version \<and> hsAwg3 hs) \<and> ticking (obRekeyTimeout obf) then Some (obRekeyTimeout obf) else None)"
  "last_of (obf_text_kvs hs version obf) ''RejectAfterTime'' = (if (IsAwg3Plus version \<and> hsAwg3 hs) \<and> ticking (obRejectAfterTime obf) then Some (obRejectAfterTime obf) else None)"
  "last_of (obf_text_kvs hs version obf) ''KeepaliveTimeout'' = (if (IsAwg3Plus version \<and> hsAwg3 hs) \<and> ticking (obKeepaliveTimeout obf) then Some (obKeepaliveTimeout obf) else None)"
  "last_of (obf_text_kvs hs version obf) ''MaxHandshakeAttempts'' = (if (IsAwg3Plus version \<and> hsAwg3 hs) \<and> ticking (obMaxHandshakeAttempts obf) then Some (obMaxHandshakeAttempts obf) else None)"
  "last_of (obf_text_kvs hs version obf) ''RandomTrailers'' = (if (IsAwg31 version \<and> hsAwg31 hs) \<and> obRandomTrailers obf then Some ''on'' else None)"
  "last_of (obf_text_kvs hs version obf) ''DisableCookies'' = (if (IsAwg31 version \<and> hsAwg31 hs) \<and> obDisableCookies obf then Some ''on'' else None)"
  by (simp_all add: blocks)

lemma last_of_foreign: "list_all (\<lambda>(k, v). k \<noteq> key) kvs \<Longrightarrow> last_of kvs key = None"
  by (auto simp: last_of_def map_of_eq_None_iff list_all_iff)

lemma optional_all: "list_all (\<lambda>(k, v). P k) kvs \<Longrightarrow> list_all (\<lambda>(k, v). P k) (optional ok kvs)"
  by (auto simp: optional_def list_all_iff)

definition text_keys :: "string list" where
  "text_keys = map fst (header_fields zero_obfuscation) @ [''HeaderProtectionKey''] @ map fst (timer_fields zero_obfuscation)
     @ [''RandomTrailers'', ''DisableCookies''] @ map fst (i_fields zero_obfuscation)"

lemma text_keys_only: "list_all (\<lambda>(k, v). k \<in> set text_keys) (obf_text_kvs hs version obf)"
proof -
  have f: "list_all (\<lambda>(k, v). k \<in> set text_keys) (header_fields obf)" "list_all (\<lambda>(k, v). k \<in> set text_keys) (timer_fields obf)"
    "list_all (\<lambda>(k, v). k \<in> set text_keys) (i_fields obf)" "list_all (\<lambda>(k, v). k \<in> set text_keys) (flag_kvs obf)"
    "list_all (\<lambda>(k, v). k \<in> set text_keys) [(''HeaderProtectionKey'', obHeaderProtectionKey obf)]"
    by (simp_all add: text_keys_def header_fields_def timer_fields_def i_fields_def flag_kvs_def)
  show ?thesis
    by (simp add: obf_text_kvs_def awg3_kvs_def f [THEN optional_all] f list_all_append del: list.pred_inject)
qed

lemma text_foreign: "key \<notin> set text_keys \<Longrightarrow> last_of (obf_text_kvs hs version obf) key = None"
  using text_keys_only [of hs version obf] by (auto intro!: last_of_foreign simp: list_all_iff)

lemma text_no_numbers [simp]:
  "''Jc'' \<notin> set text_keys" "''Jmin'' \<notin> set text_keys" "''Jmax'' \<notin> set text_keys" "''S1'' \<notin> set text_keys"
  "''S2'' \<notin> set text_keys" "''S3'' \<notin> set text_keys" "''S4'' \<notin> set text_keys" "''PrivateKey'' \<notin> set text_keys"
  "''Address'' \<notin> set text_keys" "''MTU'' \<notin> set text_keys" "''DNS'' \<notin> set text_keys" "''ListenPort'' \<notin> set text_keys"
  by code_simp+

lemma plain_blank: "plain v \<Longrightarrow> trim_space v = [] \<longleftrightarrow> v = []"
  by (simp add: plain_def)

lemma plain_obf_fields:
  assumes "plain_obf obf"
  shows "plain (obH1 obf)" "plain (obH2 obf)" "plain (obH3 obf)" "plain (obH4 obf)" "plain (obHeaderProtectionKey obf)"
    "plain (obI1 obf)" "plain (obI2 obf)" "plain (obI3 obf)" "plain (obI4 obf)" "plain (obI5 obf)"
  using assms by (simp_all add: plain_obf_def header_fields_def timer_fields_def i_fields_def)

lemma read_obf_sel:
  "obJc (read_obf val) = num_of (val ''Jc'')"
  "obJmin (read_obf val) = num_of (val ''Jmin'')"
  "obJmax (read_obf val) = num_of (val ''Jmax'')"
  "obS1 (read_obf val) = num_of (val ''S1'')"
  "obS2 (read_obf val) = num_of (val ''S2'')"
  "obS3 (read_obf val) = num_of (val ''S3'')"
  "obS4 (read_obf val) = num_of (val ''S4'')"
  "obH1 (read_obf val) = str_of (val ''H1'')"
  "obH2 (read_obf val) = str_of (val ''H2'')"
  "obH3 (read_obf val) = str_of (val ''H3'')"
  "obH4 (read_obf val) = str_of (val ''H4'')"
  "obI1 (read_obf val) = str_of (val ''I1'')"
  "obI2 (read_obf val) = str_of (val ''I2'')"
  "obI3 (read_obf val) = str_of (val ''I3'')"
  "obI4 (read_obf val) = str_of (val ''I4'')"
  "obI5 (read_obf val) = str_of (val ''I5'')"
  "obHeaderProtectionKey (read_obf val) = str_of (val ''HeaderProtectionKey'')"
  "obContentPaddingAddition (read_obf val) = str_of (val ''ContentPaddingAddition'')"
  "obRekeyAfterTime (read_obf val) = str_of (val ''RekeyAfterTime'')"
  "obRekeyTimeout (read_obf val) = str_of (val ''RekeyTimeout'')"
  "obRejectAfterTime (read_obf val) = str_of (val ''RejectAfterTime'')"
  "obKeepaliveTimeout (read_obf val) = str_of (val ''KeepaliveTimeout'')"
  "obMaxHandshakeAttempts (read_obf val) = str_of (val ''MaxHandshakeAttempts'')"
  "obRandomTrailers (read_obf val) = flag_of (val ''RandomTrailers'')"
  "obDisableCookies (read_obf val) = flag_of (val ''DisableCookies'')"
  by (simp_all only: read_obf_def Let_def obfuscation31.select_convs num_of_def str_of_def flag_of_def)

lemma text_written_sel:
  "obJc (text_written hs version obf base) = obJc base"
  "obJmin (text_written hs version obf base) = obJmin base"
  "obJmax (text_written hs version obf base) = obJmax base"
  "obS1 (text_written hs version obf base) = obS1 base"
  "obS2 (text_written hs version obf base) = obS2 base"
  "obS3 (text_written hs version obf base) = obS3 base"
  "obS4 (text_written hs version obf base) = obS4 base"
  "obH1 (text_written hs version obf base) = obH1 obf"
  "obH2 (text_written hs version obf base) = obH2 obf"
  "obH3 (text_written hs version obf base) = obH3 obf"
  "obH4 (text_written hs version obf base) = obH4 obf"
  "obI1 (text_written hs version obf base) = (if NormalizeAWGVersion version \<noteq> ''1.5'' \<and> i_fit obf then obI1 obf else [])"
  "obI2 (text_written hs version obf base) = (if NormalizeAWGVersion version \<noteq> ''1.5'' \<and> i_fit obf then obI2 obf else [])"
  "obI3 (text_written hs version obf base) = (if NormalizeAWGVersion version \<noteq> ''1.5'' \<and> i_fit obf then obI3 obf else [])"
  "obI4 (text_written hs version obf base) = (if NormalizeAWGVersion version \<noteq> ''1.5'' \<and> i_fit obf then obI4 obf else [])"
  "obI5 (text_written hs version obf base) = (if NormalizeAWGVersion version \<noteq> ''1.5'' \<and> i_fit obf then obI5 obf else [])"
  "obHeaderProtectionKey (text_written hs version obf base) = (if IsAwg3Plus version \<and> hsAwg3 hs then obHeaderProtectionKey obf else [])"
  "obContentPaddingAddition (text_written hs version obf base) = (if (IsAwg3Plus version \<and> hsAwg3 hs) \<and> ticking (obContentPaddingAddition obf) then obContentPaddingAddition obf else [])"
  "obRekeyAfterTime (text_written hs version obf base) = (if (IsAwg3Plus version \<and> hsAwg3 hs) \<and> ticking (obRekeyAfterTime obf) then obRekeyAfterTime obf else [])"
  "obRekeyTimeout (text_written hs version obf base) = (if (IsAwg3Plus version \<and> hsAwg3 hs) \<and> ticking (obRekeyTimeout obf) then obRekeyTimeout obf else [])"
  "obRejectAfterTime (text_written hs version obf base) = (if (IsAwg3Plus version \<and> hsAwg3 hs) \<and> ticking (obRejectAfterTime obf) then obRejectAfterTime obf else [])"
  "obKeepaliveTimeout (text_written hs version obf base) = (if (IsAwg3Plus version \<and> hsAwg3 hs) \<and> ticking (obKeepaliveTimeout obf) then obKeepaliveTimeout obf else [])"
  "obMaxHandshakeAttempts (text_written hs version obf base) = (if (IsAwg3Plus version \<and> hsAwg3 hs) \<and> ticking (obMaxHandshakeAttempts obf) then obMaxHandshakeAttempts obf else [])"
  "obRandomTrailers (text_written hs version obf base) = ((IsAwg31 version \<and> hsAwg31 hs) \<and> obRandomTrailers obf)"
  "obDisableCookies (text_written hs version obf base) = ((IsAwg31 version \<and> hsAwg31 hs) \<and> obDisableCookies obf)"
  by (simp_all add: text_written_def Let_def)

text \<open>What a file says about the texts of the obfuscation, whatever else is in it.\<close>

lemma text_read:
  assumes p: "plain_obf obf" and val: "\<And>key. key \<in> set text_keys \<Longrightarrow> val key = last_of (obf_text_kvs hs version obf) key"
  shows "read_obf val = text_written hs version obf (read_obf val)"
proof -
  have m: "''H1'' \<in> set text_keys" "''H2'' \<in> set text_keys" "''H3'' \<in> set text_keys" "''H4'' \<in> set text_keys"
    "''I1'' \<in> set text_keys" "''I2'' \<in> set text_keys" "''I3'' \<in> set text_keys" "''I4'' \<in> set text_keys" "''I5'' \<in> set text_keys"
    "''HeaderProtectionKey'' \<in> set text_keys" "''ContentPaddingAddition'' \<in> set text_keys" "''RekeyAfterTime'' \<in> set text_keys"
    "''RekeyTimeout'' \<in> set text_keys" "''RejectAfterTime'' \<in> set text_keys" "''KeepaliveTimeout'' \<in> set text_keys"
    "''MaxHandshakeAttempts'' \<in> set text_keys" "''RandomTrailers'' \<in> set text_keys" "''DisableCookies'' \<in> set text_keys"
    by code_simp+
  note k = m [THEN val]
  have z: "(if filled v then v else []) = v" "(if a \<and> filled v then v else []) = (if a then v else [])" if "plain v" for a v
    using that plain_blank by auto
  note f = plain_obf_fields [OF p, THEN z(1)] plain_obf_fields [OF p, THEN z(2)]
  have g: "flag_of (if a \<and> b then Some ''on'' else None) = (a \<and> b)" for a b by simp
  show ?thesis
    by (rule obfuscation31.equality;
      (simp only: read_obf_sel text_written_sel k text_headers text_i text_timers g str_of_if f | simp))
qed

text \<open>Of the numbers, S1 and S2 are written when they are positive or junk packets are on, S3 and S4 likewise unless the
  version is 1.5.\<close>

definition client_written :: "host_support \<Rightarrow> client_settings \<Rightarrow> client_settings" where
  "client_written hs s =
     (let obf = csObf s; junk = obJc obf > 0; v2 = (NormalizeAWGVersion (csAwgVersion s) \<noteq> ''1.5'');
          obf' = text_written hs (csAwgVersion s) obf (zero_obfuscation\<lparr>
            obJc := (if junk then obJc obf else 0), obJmin := (if junk then obJmin obf else 0), obJmax := (if junk then obJmax obf else 0),
            obS1 := (if junk \<or> obS1 obf > 0 then obS1 obf else 0), obS2 := (if junk \<or> obS2 obf > 0 then obS2 obf else 0),
            obS3 := (if v2 \<and> (junk \<or> obS3 obf > 0) then obS3 obf else 0), obS4 := (if v2 \<and> (junk \<or> obS4 obf > 0) then obS4 obf else 0)\<rparr>)
      in s\<lparr>csMTU := (if csMTU s > 0 then csMTU s else 0), csKeepalive := (if ticking (csKeepalive s) then csKeepalive s else []),
           csDNS := [], csObf := obf', csAwgVersion := detect_version False obf'\<rparr>)"

definition int_client :: "client_settings \<Rightarrow> bool" where
  "int_client s \<longleftrightarrow> list_all go_int [csMTU s, obJc (csObf s), obJmin (csObf s), obJmax (csObf s), obS1 (csObf s), obS2 (csObf s),
     obS3 (csObf s), obS4 (csObf s)]"

lemma junk_read:
  "last_of (junk_kvs s) ''Jc'' = (if obJc (csObf s) > 0 then Some (itoa (obJc (csObf s))) else None)"
  "last_of (junk_kvs s) ''Jmin'' = (if obJc (csObf s) > 0 then Some (itoa (obJmin (csObf s))) else None)"
  "last_of (junk_kvs s) ''Jmax'' = (if obJc (csObf s) > 0 then Some (itoa (obJmax (csObf s))) else None)"
  "last_of (junk_kvs s) ''S1'' = (if obJc (csObf s) > 0 \<or> obS1 (csObf s) > 0 then Some (itoa (obS1 (csObf s))) else None)"
  "last_of (junk_kvs s) ''S2'' = (if obJc (csObf s) > 0 \<or> obS2 (csObf s) > 0 then Some (itoa (obS2 (csObf s))) else None)"
  "last_of (junk_kvs s) ''S3'' = (if NormalizeAWGVersion (csAwgVersion s) \<noteq> ''1.5'' \<and> (obJc (csObf s) > 0 \<or> obS3 (csObf s) > 0)
     then Some (itoa (obS3 (csObf s))) else None)"
  "last_of (junk_kvs s) ''S4'' = (if NormalizeAWGVersion (csAwgVersion s) \<noteq> ''1.5'' \<and> (obJc (csObf s) > 0 \<or> obS4 (csObf s) > 0)
     then Some (itoa (obS4 (csObf s))) else None)"
  by (simp_all add: junk_kvs_def Let_def last_of_step)

definition number_keys :: "string list" where
  "number_keys = [''Jc'', ''Jmin'', ''Jmax'', ''S1'', ''S2'', ''S3'', ''S4'']"

lemma junk_keys: "list_all (\<lambda>(k, v). k \<in> set number_keys) (junk_kvs s)"
  by (simp add: junk_kvs_def number_keys_def Let_def)

lemma junk_foreign: "key \<notin> set number_keys \<Longrightarrow> last_of (junk_kvs s) key = None"
  using junk_keys [of s] by (auto intro!: last_of_foreign simp: list_all_iff)

lemma keys_apart: "key \<in> set text_keys \<Longrightarrow> key \<notin> set number_keys \<and> key \<notin> {''PrivateKey'', ''Address'', ''MTU'', ''Table'', ''DNS'', ''ListenPort'', ''PostUp'', ''PostDown''}"
  "\<forall>key \<in> {''PrivateKey'', ''Address'', ''MTU'', ''Table'', ''DNS'', ''ListenPort''}. key \<notin> set number_keys"
proof -
  have "list_all (\<lambda>key. key \<notin> set number_keys \<and> key \<notin> set [''PrivateKey'', ''Address'', ''MTU'', ''Table'', ''DNS'', ''ListenPort'', ''PostUp'', ''PostDown'']) text_keys"
    by code_simp
  then show "key \<in> set text_keys \<Longrightarrow> key \<notin> set number_keys \<and> key \<notin> {''PrivateKey'', ''Address'', ''MTU'', ''Table'', ''DNS'', ''ListenPort'', ''PostUp'', ''PostDown''}"
    by (auto simp: list_all_iff)
  show "\<forall>key \<in> {''PrivateKey'', ''Address'', ''MTU'', ''Table'', ''DNS'', ''ListenPort''}. key \<notin> set number_keys"
    by (simp add: number_keys_def)
qed

lemma client_kvs_keys:
  "key \<in> set text_keys \<Longrightarrow> last_of (client_kvs hs s) key = last_of (obf_text_kvs hs (csAwgVersion s) (csObf s)) key"
  "key \<in> set number_keys \<Longrightarrow> last_of (client_kvs hs s) key = last_of (junk_kvs s) key"
  "last_of (client_kvs hs s) ''PrivateKey'' = Some (csPrivateKey s)"
  "last_of (client_kvs hs s) ''Address'' = Some (csAddress s)"
  "last_of (client_kvs hs s) ''MTU'' = (if csMTU s > 0 then Some (itoa (csMTU s)) else None)"
  "last_of (client_kvs hs s) ''DNS'' = None"
proof -
  show "last_of (client_kvs hs s) key = last_of (obf_text_kvs hs (csAwgVersion s) (csObf s)) key" if "key \<in> set text_keys"
    using keys_apart(1) [OF that] by (auto simp: client_kvs_def junk_foreign last_of_step)
  show "last_of (client_kvs hs s) key = last_of (junk_kvs s) key" if k: "key \<in> set number_keys"
  proof -
    have "key \<notin> set text_keys" using keys_apart(1) [of key] k by blast
    moreover have "key \<notin> {''PrivateKey'', ''Address'', ''MTU'', ''Table''}" using keys_apart(2) k by blast
    ultimately show ?thesis by (auto simp: client_kvs_def text_foreign last_of_step)
  qed
qed (simp_all add: client_kvs_def text_foreign junk_foreign keys_apart(2) [rule_format] last_of_step)

lemma obf_key_known:
  assumes "key \<in> {''PrivateKey'', ''Address'', ''MTU'', ''DNS'', ''ListenPort'', ''Table'', ''PostUp'', ''PostDown''}"
  shows "apply_obf key v obf = obf"
proof -
  have "list_all (\<lambda>key. key \<notin> set (map fst obf_keys)) [''PrivateKey'', ''Address'', ''MTU'', ''DNS'', ''ListenPort'', ''Table'', ''PostUp'', ''PostDown'']"
    by code_simp
  then have "key \<notin> set (map fst obf_keys)" using assms unfolding list_all_iff by (metis empty_set list.simps(15))
  then have "map_of obf_keys key = None" by (simp only: map_of_eq_None_iff set_map not_False_eq_True)
  then show ?thesis by (simp add: apply_obf_def)
qed

lemma client_interface_sel:
  "csPrivateKey (client_interface_key k v s) = (if k = ''PrivateKey'' then v else csPrivateKey s)"
  "csAddress (client_interface_key k v s) = (if k = ''Address'' then v else csAddress s)"
  "csMTU (client_interface_key k v s) = (if k = ''MTU'' then atoi_val v else csMTU s)"
  "csDNS (client_interface_key k v s) = (if k = ''DNS'' then first_dns v else csDNS s)"
  "csObf (client_interface_key k v s) = apply_obf k v (csObf s)"
  by (auto simp: client_interface_key_def obf_key_known)

lemma client_interface_rest:
  "csPublicKey (client_interface_key k v s) = csPublicKey s" "csPSK (client_interface_key k v s) = csPSK s"
  "csEndpoint (client_interface_key k v s) = csEndpoint s" "csKeepalive (client_interface_key k v s) = csKeepalive s"
  "csAllowedIPs (client_interface_key k v s) = csAllowedIPs s" "csAwgVersion (client_interface_key k v s) = csAwgVersion s"
  by (simp_all add: client_interface_key_def)

lemma client_peer_sel:
  "csPublicKey (client_peer_key k v s) = (if k = ''PublicKey'' then v else csPublicKey s)"
  "csPSK (client_peer_key k v s) = (if k = ''PresharedKey'' then v else csPSK s)"
  "csEndpoint (client_peer_key k v s) = (if k = ''Endpoint'' then v else csEndpoint s)"
  "csKeepalive (client_peer_key k v s) = (if k = ''PersistentKeepalive'' then v else csKeepalive s)"
  "csAllowedIPs (client_peer_key k v s) = (if k = ''AllowedIPs'' then v else csAllowedIPs s)"
  by (simp_all add: client_peer_key_def)

lemma client_peer_rest:
  "csPrivateKey (client_peer_key k v s) = csPrivateKey s" "csAddress (client_peer_key k v s) = csAddress s"
  "csMTU (client_peer_key k v s) = csMTU s" "csDNS (client_peer_key k v s) = csDNS s" "csObf (client_peer_key k v s) = csObf s"
  by (simp_all add: client_peer_key_def)

text \<open>Components no step changes, and the obfuscation, through a whole section.\<close>

lemma foldl_keeps: "(\<And>k v s. get (put k v s) = get s) \<Longrightarrow> get (foldl (\<lambda>s (k, v). put k v s) s kvs) = get s"
  by (induction kvs arbitrary: s) auto

lemma foldl_commute: "(\<And>k v s. get (put k v s) = put' k v (get s)) \<Longrightarrow>
  get (foldl (\<lambda>s (k, v). put k v s) s kvs) = foldl (\<lambda>s (k, v). put' k v s) (get s) kvs"
  by (induction kvs arbitrary: s) auto

lemma client_steps:
  "foldl client_step (''interface'', s) (map (\<lambda>(k, v). Assignment k v) kvs) = (''interface'', foldl (\<lambda>s (k, v). client_interface_key k v s) s kvs)"
  "foldl client_step (''peer'', s) (map (\<lambda>(k, v). Assignment k v) kvs) = (''peer'', foldl (\<lambda>s (k, v). client_peer_key k v s) s kvs)"
  by (induction kvs arbitrary: s) auto

definition readable :: "(string \<times> string) list \<Rightarrow> bool" where
  "readable kvs \<longleftrightarrow> list_all (\<lambda>(k, v). plain_key k \<and> plain v) kvs"

lemma readable_simps [simp]:
  "readable []" "readable ((k, v) # kvs) \<longleftrightarrow> plain_key k \<and> plain v \<and> readable kvs"
  "readable (xs @ ys) \<longleftrightarrow> readable xs \<and> readable ys" "readable (only_if b kvs) \<longleftrightarrow> b \<longrightarrow> readable kvs"
  by (simp_all add: readable_def)

lemma readable_optional: "readable kvs \<Longrightarrow> readable (optional ok kvs)"
  by (auto simp: readable_def optional_def list_all_iff)

lemma classify_assigns: "readable kvs \<Longrightarrow> map classify (assigns kvs) = map (\<lambda>(k, v). Assignment k v) kvs"
  by (induction kvs) (auto simp: readable_def classify_assign plain_def)

lemma one_line_assigns: "readable kvs \<Longrightarrow> list_all one_line (assigns kvs)"
proof (induction kvs)
  case (Cons kv kvs)
  obtain k v where kv: "kv = (k, v)" by (cases kv)
  have "one_line (confValue v)" by simp
  moreover have "confValue v = v" using Cons.prems kv by (simp add: plain_def)
  ultimately have "one_line v" by simp
  then have "body_line (assign k v)" using Cons.prems kv by (simp add: body_assign)
  then show ?case using Cons kv by (simp add: body_line_def)
qed simp

lemma plain_obf_lists:
  assumes "plain_obf obf"
  shows "readable (header_fields obf)" "readable [(''HeaderProtectionKey'', obHeaderProtectionKey obf)]" "readable (timer_fields obf)"
    "readable (i_fields obf)"
  using assms by (simp_all add: plain_obf_def header_fields_def timer_fields_def i_fields_def)

lemma readable_text: "plain_obf obf \<Longrightarrow> readable (obf_text_kvs hs version obf)"
  using plain_obf_lists(2) [THEN readable_optional]
  by (simp add: obf_text_kvs_def awg3_kvs_def flag_kvs_def readable_optional plain_obf_lists plain_graphic graphic_def less_eq_char_def)

lemma readable_client:
  assumes "plain_client s"
  shows "readable (client_kvs hs s)" "readable (client_peer_kvs s)"
proof -
  have off: "plain ''off''" by (rule plain_graphic) code_simp
  have "readable (junk_kvs s)" by (simp add: junk_kvs_def Let_def)
  then show "readable (client_kvs hs s)" using assms off by (simp add: client_kvs_def plain_client_def readable_text)
  show "readable (client_peer_kvs s)" using assms by (simp add: client_peer_kvs_def plain_client_def)
qed

lemma marker_start: "trim_space (xuiManagedMarker @ r) = xuiManagedMarker @ rtrim r"
  by (rule trim_after) code_simp+

lemma unwrap_rendered: "unwrapOutboundConf decode confFrom (unlines (xuiManagedMarker # ls)) = unlines (xuiManagedMarker # ls)"
proof -
  have m: "xuiManagedMarker = CHR ''#'' # drop 1 xuiManagedMarker" by code_simp
  have "trim_space (unlines (xuiManagedMarker # ls)) = CHR ''#'' # drop 1 xuiManagedMarker @ rtrim (newline # unlines ls)"
    using marker_start [of "newline # unlines ls"] m by (simp only: unlines_simps) (metis append_Cons)
  then show ?thesis by (simp add: unwrapOutboundConf_def Let_def)
qed

lemma read_client:
  assumes "readable kvs" "readable pkvs"
  shows "foldl client_step ([], zero_client_settings) (map classify (split_on newline
      (unlines ([xuiManagedMarker, ''[Interface]''] @ assigns kvs @ [[], ''[Peer]''] @ assigns pkvs))))
    = (''peer'', foldl (\<lambda>s (k, v). client_peer_key k v s) (foldl (\<lambda>s (k, v). client_interface_key k v s) zero_client_settings kvs) pkvs)"
proof -
  have "list_all one_line ([xuiManagedMarker, ''[Interface]''] @ assigns kvs @ [[], ''[Peer]''] @ assigns pkvs)"
    using one_line_assigns [OF assms(1)] one_line_assigns [OF assms(2)] by (simp add: list_all_append)
  from split_unlines [OF this] show ?thesis
    by (simp add: classify_assigns [OF assms(1)] classify_assigns [OF assms(2)] client_steps del: map_map unlines_simps)
qed

lemma client_peer_kvs_keys:
  "last_of (client_peer_kvs s) ''PublicKey'' = Some (csPublicKey s)"
  "last_of (client_peer_kvs s) ''PresharedKey'' = (if csPSK s \<noteq> [] then Some (csPSK s) else None)"
  "last_of (client_peer_kvs s) ''Endpoint'' = Some (csEndpoint s)"
  "last_of (client_peer_kvs s) ''AllowedIPs'' = Some (csAllowedIPs s)"
  "last_of (client_peer_kvs s) ''PersistentKeepalive'' = (if ticking (csKeepalive s) then Some (csKeepalive s) else None)"
  by (simp_all add: client_peer_kvs_def last_of_step)

lemma number_keys_in: "''Jc'' \<in> set number_keys" "''Jmin'' \<in> set number_keys" "''Jmax'' \<in> set number_keys"
  "''S1'' \<in> set number_keys" "''S2'' \<in> set number_keys" "''S3'' \<in> set number_keys" "''S4'' \<in> set number_keys"
  by (simp_all add: number_keys_def)

lemma obf_numbers_eq:
  assumes "a = text_written hs v obf a" and "b = text_written hs v obf b"
    and "obJc a = obJc b" "obJmin a = obJmin b" "obJmax a = obJmax b" "obS1 a = obS1 b" "obS2 a = obS2 b" "obS3 a = obS3 b" "obS4 a = obS4 b"
  shows "a = b"
proof -
  have "text_written hs v obf a = text_written hs v obf b"
    by (rule obfuscation31.equality) (simp_all only: text_written_sel assms(3-), simp)
  with assms(1,2) show ?thesis by simp
qed

lemma text_written_twice: "text_written hs v obf (text_written hs v obf base) = text_written hs v obf base"
  by (rule obfuscation31.equality) (simp_all only: text_written_sel, simp)

lemma client_obf_read:
  assumes "plain_client s" "int_client s"
  shows "read_obf (last_of (client_kvs hs s)) = csObf (client_written hs s)"
proof (rule obf_numbers_eq)
  show "read_obf (last_of (client_kvs hs s)) = text_written hs (csAwgVersion s) (csObf s) (read_obf (last_of (client_kvs hs s)))"
    using assms(1) by (intro text_read) (simp_all add: plain_client_def client_kvs_keys)
  show "csObf (client_written hs s) = text_written hs (csAwgVersion s) (csObf s) (csObf (client_written hs s))"
    by (simp add: client_written_def Let_def text_written_twice)
qed (use assms(2) in \<open>simp_all add: read_obf_sel client_kvs_keys number_keys_in junk_read client_written_def Let_def text_written_sel
      int_client_def atoi_go\<close>)

text \<open>C31: The panel reads back from the file it wrote for an outbound tunnel everything it wrote: keys, addresses,
  endpoint, junk and padding numbers, headers, timers, flags and imitation packets. What is not written - the name server,
  what the version of the protocol or the host does not know, numbers without effect - reads as zero, and the version is
  the lowest one that has all the fields that are there.\<close>
theorem client_file_roundtrip:
  assumes "plain_client s" and "int_client s"
  shows "ParseConf decode confFrom (renderClientConf hs s) = client_written hs s"
proof -
  let ?i = "foldl (\<lambda>s (k, v). client_interface_key k v s) zero_client_settings (client_kvs hs s)"
  let ?p = "foldl (\<lambda>s (k, v). client_peer_key k v s) ?i (client_peer_kvs s)"
  have r: "renderClientConf hs s = unlines ([xuiManagedMarker, ''[Interface]''] @ assigns (client_kvs hs s) @ [[], ''[Peer]''] @ assigns (client_peer_kvs s))"
    by (simp only: renderClientConf_def client_lines_kvs [OF assms(1)])
  have read: "ParseConf decode confFrom (renderClientConf hs s) = ?p\<lparr>csAwgVersion := detect_version False (csObf ?p)\<rparr>"
    using read_client [OF readable_client [OF assms(1)]] unwrap_rendered [of decode confFrom]
    by (simp add: r ParseConf_def Let_def del: unlines_simps map_append)
  note i = client_interface_sel(1-4) [THEN fold_last_of [of _ client_interface_key]]
  note p = client_peer_sel [THEN fold_last_of [of _ client_peer_key]]
  have obf: "csObf ?p = csObf (client_written hs s)"
    using client_obf_read [OF assms] read_obf_fold [of "client_kvs hs s"]
    by (simp add: foldl_keeps [of csObf client_peer_key, OF client_peer_rest(5)]
        foldl_commute [of csObf client_interface_key, OF client_interface_sel(5)] zero_client_settings_def)
  have "?p\<lparr>csAwgVersion := detect_version False (csObf ?p)\<rparr> = client_written hs s"
    using obf assms(2)
    by (intro client_settings.equality)
      (simp_all add: p client_peer_kvs_keys client_peer_rest [THEN foldl_keeps [of _ client_peer_key]]
        client_interface_rest [THEN foldl_keeps [of _ client_interface_key]] i client_kvs_keys client_written_def Let_def
        zero_client_settings_def int_client_def atoi_go)
  with read show ?thesis by simp
qed

definition example_client :: client_settings where
  "example_client = \<lparr>csPrivateKey = ''cHJpdg=='', csAddress = ''10.9.0.5/32'', csMTU = 1280, csPublicKey = ''cHVi'', csPSK = [],
     csEndpoint = ''203.0.113.7:51820'', csKeepalive = ''25'', csAllowedIPs = ''0.0.0.0/0, ::/0'', csDNS = ''1.1.1.1'',
     csObf = zero_obfuscation\<lparr>obJc := 4, obJmin := 10, obJmax := 50, obS1 := 20, obS2 := 80, obH1 := ''5-900'', obH2 := ''1000-2000'',
       obH3 := ''3000'', obH4 := ''4000''\<rparr>, csAwgVersion = ''2''\<rparr>"

lemma example_client_plain: "plain_client example_client" "int_client example_client"
proof -
  have "plain ''0.0.0.0/0, ::/0''" by code_simp
  then show "plain_client example_client"
    by (simp add: plain_client_def plain_obf_def example_client_def zero_obfuscation_def header_fields_def timer_fields_def i_fields_def
        plain_graphic graphic_def less_eq_char_def)
  show "int_client example_client" by (simp add: int_client_def example_client_def zero_obfuscation_def go_int_def)
qed

theorem client_file_roundtrip_witness:
  "csEndpoint (ParseConf (\<lambda>_. None) (\<lambda>_. None) (renderClientConf example_host example_client)) = ''203.0.113.7:51820''"
  using client_file_roundtrip [OF example_client_plain, of "\<lambda>_. None" "\<lambda>_. None" example_host]
  by (simp add: client_written_def Let_def example_client_def)

section \<open>The server\<close>

definition device_head :: "kernel_instance \<Rightarrow> (string \<times> string) list" where
  "device_head inst =
     (let obf = kObf inst in
      [(''PrivateKey'', kPrivateKey inst), (''ListenPort'', itoa (kPort inst))]
      @ only_if (kAddress inst \<noteq> []) [(''Address'', kAddress inst)]
      @ [(''MTU'', itoa (kMTU inst)), (''Table'', ''off''), (''Jc'', itoa (obJc obf)), (''Jmin'', itoa (obJmin obf)),
         (''Jmax'', itoa (obJmax obf)), (''S1'', itoa (obS1 obf)), (''S2'', itoa (obS2 obf))]
      @ only_if (NormalizeAWGVersion (kAwgVersion inst) \<noteq> ''1.5'') [(''S3'', itoa (obS3 obf)), (''S4'', itoa (obS4 obf))])"

definition device_kvs :: "host_support \<Rightarrow> kernel_instance \<Rightarrow> (string \<times> string) list" where
  "device_kvs hs inst = device_head inst @ obf_text_kvs hs (kAwgVersion inst) (kObf inst)"

definition nat_lines :: "host_support \<Rightarrow> kernel_instance \<Rightarrow> string list" where
  "nat_lines hs inst = (let (postUp, postDown) = natPostUpPostDown (hsExtIface hs) inst in
     if postUp \<noteq> [] then [assign ''PostUp'' postUp, assign ''PostDown'' postDown] else [])"

definition plain_peer :: "kpeer \<Rightarrow> bool" where
  "plain_peer p \<longleftrightarrow> plain (kpPublicKey p) \<and> kpPublicKey p \<noteq> [] \<and> plain (kpPSK p) \<and> plain (kpAllowedIPs p)"

definition plain_server :: "kernel_instance \<Rightarrow> bool" where
  "plain_server inst \<longleftrightarrow> plain (kPrivateKey inst) \<and> plain (kAddress inst) \<and> plain_obf (kObf inst) \<and> list_all plain_peer (kPeers inst)"

definition int_server :: "kernel_instance \<Rightarrow> bool" where
  "int_server inst \<longleftrightarrow> list_all go_int [kPort inst, kMTU inst, obJc (kObf inst), obJmin (kObf inst), obJmax (kObf inst),
     obS1 (kObf inst), obS2 (kObf inst), obS3 (kObf inst), obS4 (kObf inst)]"

definition peer_kvs :: "kpeer \<Rightarrow> (string \<times> string) list" where
  "peer_kvs p = [(''PublicKey'', kpPublicKey p)] @ only_if (kpPSK p \<noteq> []) [(''PresharedKey'', kpPSK p)]
     @ only_if (kpAllowedIPs p \<noteq> []) [(''AllowedIPs'', kpAllowedIPs p)]"

lemma device_lines_kvs:
  assumes "plain_server inst"
  shows "device_lines hs inst = [xuiManagedMarker, ''[Interface]''] @ assigns (device_kvs hs inst) @ nat_lines hs inst"
proof -
  have p: "plain_obf (kObf inst)" "confValue (kPrivateKey inst) = kPrivateKey inst" "confValue (kAddress inst) = kAddress inst"
    using assms by (simp_all add: plain_server_def plain_def)
  have t: "''Table = off'' = assign ''Table'' ''off''" by (simp add: assign_def)
  show ?thesis
    unfolding device_lines_def Let_def t p(2-) obf_text_then [OF p(1) disjI1 [OF refl]]
    by (simp only: device_kvs_def device_head_def Let_def nat_lines_def only_if_simps list.map prod.case map_append append_assoc append.simps)
      (simp only: only_if_def append_assoc append.simps)
qed

lemma peer_lines_kvs: "plain_peer p \<Longrightarrow> peer_lines p = [[], ''[Peer]''] @ assigns (peer_kvs p)"
  by (simp add: peer_lines_def peer_kvs_def plain_peer_def plain_confValue Let_def only_if_def)

lemma readable_server:
  "plain_server inst \<Longrightarrow> readable (device_kvs hs inst)" "plain_peer p \<Longrightarrow> readable (peer_kvs p)"
proof -
  have off: "plain ''off''" by (rule plain_graphic) code_simp
  then show "plain_server inst \<Longrightarrow> readable (device_kvs hs inst)"
    by (simp add: device_kvs_def device_head_def plain_server_def readable_text Let_def)
  show "plain_peer p \<Longrightarrow> readable (peer_kvs p)" by (simp add: peer_kvs_def plain_peer_def)
qed

text \<open>The peer as it is read, and the file read so far together with the peer that is open.\<close>

definition read_peer :: "kpeer \<Rightarrow> server_peer" where
  "read_peer p = zero_server_peer\<lparr>spPublicKey := kpPublicKey p, spPSK := kpPSK p, spAllowedIPs := kpAllowedIPs p,
     spSuspended := str_contains (kpAllowedIPs p) suspendIP\<rparr>"

definition finished :: "server_reader \<Rightarrow> server_conf" where
  "finished r = srConf (if srSection r = ''peer'' then flushPeer r else r)"

definition fresh :: "server_reader \<Rightarrow> bool" where
  "fresh r \<longleftrightarrow> srSection r = ''peer'' \<or> srPeer r = zero_server_peer"

lemma server_steps:
  "srSection r = ''interface'' \<Longrightarrow> foldl server_step r (map (\<lambda>(k, v). Assignment k v) kvs)
     = r\<lparr>srConf := foldl (\<lambda>s (k, v). applyInterfaceKey k v s) (srConf r) kvs\<rparr>"
  "srSection r = ''peer'' \<Longrightarrow> foldl server_step r (map (\<lambda>(k, v). Assignment k v) kvs)
     = r\<lparr>srPeer := foldl (\<lambda>p (k, v). server_peer_key k v p) (srPeer r) kvs\<rparr>"
  by (induction kvs arbitrary: r) auto

lemma server_peer_sel:
  "foldl (\<lambda>p (k, v). server_peer_key k v p) zero_server_peer (peer_kvs p)
   = zero_server_peer\<lparr>spPublicKey := kpPublicKey p, spPSK := kpPSK p, spAllowedIPs := kpAllowedIPs p\<rparr>"
  by (auto simp: peer_kvs_def only_if_def server_peer_key_def zero_server_peer_def)

lemma read_one_peer:
  assumes "plain_peer p" "fresh r"
  shows "finished (foldl server_step r (map classify (peer_lines p))) = (finished r)\<lparr>svPeers := svPeers (finished r) @ [read_peer p]\<rparr>"
    and "srSection (foldl server_step r (map classify (peer_lines p))) = ''peer''"
proof -
  let ?r = "(if srSection r = ''peer'' then flushPeer r else r)\<lparr>srSection := ''peer''\<rparr>"
  have f: "srPeer ?r = zero_server_peer" "srConf ?r = finished r" "srSection ?r = ''peer''"
    using assms(2) by (auto simp: fresh_def flushPeer_def Let_def finished_def)
  have e: "foldl server_step r (map classify (peer_lines p))
      = ?r\<lparr>srPeer := zero_server_peer\<lparr>spPublicKey := kpPublicKey p, spPSK := kpPSK p, spAllowedIPs := kpAllowedIPs p\<rparr>\<rparr>"
    using server_steps(2) [OF f(3), of "peer_kvs p"] f(1)
    by (simp add: peer_lines_kvs [OF assms(1)] classify_assigns [OF readable_server(2) [OF assms(1)]] server_peer_sel del: map_map)
  show "srSection (foldl server_step r (map classify (peer_lines p))) = ''peer''" unfolding e by simp
  show "finished (foldl server_step r (map classify (peer_lines p))) = (finished r)\<lparr>svPeers := svPeers (finished r) @ [read_peer p]\<rparr>"
    unfolding e using assms(1) f
    by (simp add: finished_def [of "_\<lparr>srPeer := _\<rparr>"] flushPeer_def Let_def read_peer_def plain_peer_def zero_server_peer_def)
qed

lemma read_peers:
  assumes "list_all plain_peer ps" "fresh r"
  shows "finished (foldl server_step r (map classify (concat (map peer_lines ps))))
    = (finished r)\<lparr>svPeers := svPeers (finished r) @ map read_peer ps\<rparr>"
  using assms
proof (induction ps arbitrary: r)
  case (Cons p ps)
  let ?r = "foldl server_step r (map classify (peer_lines p))"
  have "fresh ?r" using read_one_peer(2) [of p r] Cons.prems by (simp add: fresh_def)
  with Cons read_one_peer(1) [of p r] show ?case by simp
qed simp

lemma server_interface_sel:
  "svPrivateKey (applyInterfaceKey k v s) = (if k = ''PrivateKey'' then v else svPrivateKey s)"
  "svAddress (applyInterfaceKey k v s) = (if k = ''Address'' then v else svAddress s)"
  "svListenPort (applyInterfaceKey k v s) = (if k = ''ListenPort'' then atoi_val v else svListenPort s)"
  "svMTU (applyInterfaceKey k v s) = (if k = ''MTU'' then atoi_val v else svMTU s)"
  "svDNS (applyInterfaceKey k v s) = (if k = ''DNS'' then first_dns v else svDNS s)"
  "svObf (applyInterfaceKey k v s) = apply_obf k v (svObf s)"
  "svPeers (applyInterfaceKey k v s) = svPeers s" "svAwgVersion (applyInterfaceKey k v s) = svAwgVersion s"
  by (auto simp: applyInterfaceKey_def obf_key_known)

lemma nat_keys_ignored: "k \<in> {''PostUp'', ''PostDown''} \<Longrightarrow> applyInterfaceKey k v s = s"
  using obf_key_known [of k v "svObf s"] by (auto simp: applyInterfaceKey_def)

lemma read_nat_lines:
  assumes "srSection r = ''interface''"
  shows "foldl server_step r (map classify (nat_lines hs inst)) = r"
proof -
  obtain u d where n: "natPostUpPostDown (hsExtIface hs) inst = (u, d)" by fastforce
  obtain vu vd where "classify (assign ''PostUp'' u) = Assignment ''PostUp'' vu" "classify (assign ''PostDown'' d) = Assignment ''PostDown'' vd"
    using classify_assign_any plain_keys by meson
  then show ?thesis using assms by (simp add: nat_lines_def n nat_keys_ignored)
qed

lemma device_kvs_keys:
  "key \<in> set text_keys \<Longrightarrow> last_of (device_kvs hs inst) key = last_of (obf_text_kvs hs (kAwgVersion inst) (kObf inst)) key"
  "last_of (device_kvs hs inst) ''PrivateKey'' = Some (kPrivateKey inst)"
  "last_of (device_kvs hs inst) ''ListenPort'' = Some (itoa (kPort inst))"
  "last_of (device_kvs hs inst) ''Address'' = (if kAddress inst \<noteq> [] then Some (kAddress inst) else None)"
  "last_of (device_kvs hs inst) ''MTU'' = Some (itoa (kMTU inst))"
  "last_of (device_kvs hs inst) ''DNS'' = None"
  "last_of (device_kvs hs inst) ''Jc'' = Some (itoa (obJc (kObf inst)))"
  "last_of (device_kvs hs inst) ''Jmin'' = Some (itoa (obJmin (kObf inst)))"
  "last_of (device_kvs hs inst) ''Jmax'' = Some (itoa (obJmax (kObf inst)))"
  "last_of (device_kvs hs inst) ''S1'' = Some (itoa (obS1 (kObf inst)))"
  "last_of (device_kvs hs inst) ''S2'' = Some (itoa (obS2 (kObf inst)))"
  "last_of (device_kvs hs inst) ''S3'' = (if NormalizeAWGVersion (kAwgVersion inst) \<noteq> ''1.5'' then Some (itoa (obS3 (kObf inst))) else None)"
  "last_of (device_kvs hs inst) ''S4'' = (if NormalizeAWGVersion (kAwgVersion inst) \<noteq> ''1.5'' then Some (itoa (obS4 (kObf inst))) else None)"
proof -
  have "''Table'' \<notin> set text_keys" by code_simp
  then have "list_all (\<lambda>(k, v). k \<notin> set text_keys) (device_head inst)" by (simp add: device_head_def Let_def)
  then have "list_all (\<lambda>(k, v). k \<noteq> key) (device_head inst)" if "key \<in> set text_keys"
    using that by (auto simp: list_all_iff)
  then show "last_of (device_kvs hs inst) key = last_of (obf_text_kvs hs (kAwgVersion inst) (kObf inst)) key" if "key \<in> set text_keys"
    using that last_of_foreign [of key "device_head inst"] by (simp add: device_kvs_def)
qed (simp_all add: device_kvs_def device_head_def Let_def text_foreign last_of_step)

definition server_obf_written :: "host_support \<Rightarrow> kernel_instance \<Rightarrow> obfuscation31" where
  "server_obf_written hs inst =
     (let obf = kObf inst; v2 = (NormalizeAWGVersion (kAwgVersion inst) \<noteq> ''1.5'') in
      text_written hs (kAwgVersion inst) obf (zero_obfuscation\<lparr>obJc := obJc obf, obJmin := obJmin obf, obJmax := obJmax obf,
        obS1 := obS1 obf, obS2 := obS2 obf, obS3 := (if v2 then obS3 obf else 0), obS4 := (if v2 then obS4 obf else 0)\<rparr>))"

text \<open>What the file of an inbound says.\<close>

definition server_written :: "host_support \<Rightarrow> kernel_instance \<Rightarrow> server_conf" where
  "server_written hs inst =
     \<lparr>svPrivateKey = kPrivateKey inst,
      svAddress = (case cut CHR '','' (kAddress inst) of None \<Rightarrow> kAddress inst | Some (a, _) \<Rightarrow> trim_space a),
      svListenPort = kPort inst, svMTU = kMTU inst, svDNS = [], svObf = server_obf_written hs inst,
      svAwgVersion = detectAwgVersion (server_obf_written hs inst), svPeers = map read_peer (kPeers inst)\<rparr>"

lemma server_obf_read:
  assumes "plain_server inst" "int_server inst"
  shows "read_obf (last_of (device_kvs hs inst)) = server_obf_written hs inst"
proof (rule obf_numbers_eq)
  show "read_obf (last_of (device_kvs hs inst)) = text_written hs (kAwgVersion inst) (kObf inst) (read_obf (last_of (device_kvs hs inst)))"
    using assms(1) by (intro text_read) (simp_all add: plain_server_def device_kvs_keys)
  show "server_obf_written hs inst = text_written hs (kAwgVersion inst) (kObf inst) (server_obf_written hs inst)"
    by (simp add: server_obf_written_def Let_def text_written_twice)
qed (use assms(2) in \<open>simp_all add: read_obf_sel device_kvs_keys server_obf_written_def Let_def text_written_sel int_server_def atoi_go\<close>)

lemma server_file_lines:
  assumes "kIfname inst = ifnameFor (kId inst)"
  shows "split_on newline (renderServerConf hs inst) = device_lines hs inst @ concat (map peer_lines (kPeers inst)) @ [[]]"
proof -
  obtain ls where d: "device_lines hs inst = xuiManagedMarker # ''[Interface]'' # ls" and b: "list_all body_line ls"
    using device_lines_parts [of hs inst] assms by auto
  have "list_all one_line (device_lines hs inst)" using body_one_line [OF b] by (simp add: d)
  then have "list_all one_line (device_lines hs inst @ concat (map peer_lines (kPeers inst)))" using peers_lines by simp
  from split_unlines [OF this] show ?thesis by (simp only: renderServerConf_def append_assoc)
qed

lemma read_server:
  assumes "plain_server inst" "kIfname inst = ifnameFor (kId inst)"
  shows "finished (foldl server_step zero_reader (map classify (split_on newline (renderServerConf hs inst))))
    = (foldl (\<lambda>s (k, v). applyInterfaceKey k v s) zero_server_conf (device_kvs hs inst))\<lparr>svPeers := map read_peer (kPeers inst)\<rparr>"
proof -
  define s where "s = foldl (\<lambda>s (k, v). applyInterfaceKey k v s) zero_server_conf (device_kvs hs inst)"
  define i where "i = zero_reader\<lparr>srSection := ''interface''\<rparr>"
  have i: "srSection i = ''interface''" "srConf i = zero_server_conf" "srPeer i = zero_server_peer" by (simp_all add: i_def zero_reader_def)
  note lines = server_file_lines [OF assms(2), of hs]
  have "foldl server_step zero_reader [Comment xuiManagedMarker, Section ''interface''] = i" by (simp add: i_def zero_reader_def)
  moreover have "foldl server_step i (map classify (assigns (device_kvs hs inst))) = i\<lparr>srConf := s\<rparr>"
    unfolding classify_assigns [OF readable_server(1) [OF assms(1)]] server_steps(1) [OF i(1)] by (simp only: s_def i(2))
  moreover have "foldl server_step (i\<lparr>srConf := s\<rparr>) (map classify (nat_lines hs inst)) = i\<lparr>srConf := s\<rparr>"
    by (rule read_nat_lines) (simp add: i)
  ultimately have dev: "foldl server_step zero_reader (map classify (device_lines hs inst)) = i\<lparr>srConf := s\<rparr>"
    unfolding device_lines_kvs [OF assms(1)] map_append foldl_append list.map classify_fixed by (simp only:)
  have p: "svPeers s = []" unfolding s_def foldl_keeps [of svPeers applyInterfaceKey, OF server_interface_sel(7)] by (simp add: zero_server_conf_def)
  have last: "finished (foldl server_step r (map classify [[]])) = finished r" for r by (simp add: finished_def)
  have f: "fresh (i\<lparr>srConf := s\<rparr>)" "finished (i\<lparr>srConf := s\<rparr>) = s" using i by (simp_all add: fresh_def finished_def)
  have "list_all plain_peer (kPeers inst)" using assms(1) by (simp add: plain_server_def)
  from read_peers [OF this f(1)] show ?thesis
    unfolding lines map_append foldl_append dev last f(2) p s_def [symmetric] by simp
qed


definition example_server :: kernel_instance where
  "example_server = example_kernel\<lparr>kPrivateKey := ''cHJpdg=='', kObf := csObf example_client,
     kPeers := [\<lparr>kpPrivateKey = [], kpPublicKey = ''cHVi'', kpPSK = [], kpKeepalive = [], kpAllowedIPs = ''10.8.0.2/32'',
       kpEmail = [], kpForwardedPorts = []\<rparr>]\<rparr>"


end
