(* ===== verification/Conf_Fingerprint.thy ===== *)
theory Conf_Fingerprint
  imports Conf_Roundtrip
begin

text \<open>
  The two fingerprints the manager compares (\<open>internal/awg/instance.go\<close>): the part of a server file before its first
  peer, which only a restart applies, and the joined fields of the peers. Together they determine the file.
\<close>

section \<open>The part before the first peer\<close>

abbreviation peer_mark :: string where
  "peer_mark \<equiv> [newline] @ ''[Peer]'' @ [newline]"

lemma cut_at_stop: "prefix sep s \<Longrightarrow> cut_at sep s = []"
  by (subst cut_at.simps) simp

lemma cut_at_Nil [simp]: "cut_at sep [] = []"
  by (subst cut_at.simps) simp

lemma cut_at_Cons: "\<not> prefix sep (c # s) \<Longrightarrow> cut_at sep (c # s) = c # cut_at sep s"
  by (subst cut_at.simps) simp

lemma cut_at_line: "one_line l \<Longrightarrow> cut_at (newline # sep) (l @ s) = l @ cut_at (newline # sep) s"
  by (induction l) (auto simp: cut_at_Cons prefix_Cons)

lemma starts_with_line: "one_line l \<Longrightarrow> one_line p \<Longrightarrow> prefix (p @ [newline]) (l @ newline # r) \<longleftrightarrow> l = p"
proof (induction l arbitrary: p)
  case Nil
  then show ?case by (cases p) (auto simp: prefix_Cons)
next
  case (Cons c l)
  then show ?case by (cases p) (auto simp: prefix_Cons)
qed

definition no_mark :: "string \<Rightarrow> bool" where
  "no_mark l \<longleftrightarrow> one_line l \<and> l \<noteq> ''[Peer]''"

lemma cut_at_lines:
  assumes "list_all no_mark ls" and "tail = [] \<or> (\<exists>r. tail = peer_mark @ r)"
  shows "cut_at peer_mark (unlines ls @ tail) = unlines ls"
  using assms(1)
proof (induction ls)
  case Nil
  show ?case using assms(2) by (auto simp: cut_at_stop)
next
  case (Cons l ls)
  have "one_line l" using Cons.prems by (simp add: no_mark_def)
  have "\<not> prefix peer_mark (newline # unlines ls @ tail)"
  proof (cases ls)
    case Nil
    then show ?thesis using assms(2) by auto
  next
    case (Cons k ks)
    then have k: "one_line k" "k \<noteq> ''[Peer]''" using Cons.prems by (auto simp: no_mark_def)
    have "one_line ''[Peer]''" by code_simp
    from starts_with_line [OF k(1) this, of "unlines ks @ tail"] k(2) show ?thesis by (simp add: Cons)
  qed
  then have "cut_at peer_mark (newline # unlines ls @ tail) = newline # unlines ls"
    using Cons by (simp add: cut_at_Cons)
  then show ?case using cut_at_line [OF \<open>one_line l\<close>, of "''[Peer]'' @ [newline]" "newline # unlines ls @ tail"] by simp
qed

lemma body_no_mark: "list_all body_line ls \<Longrightarrow> list_all no_mark ls"
proof -
  assume b: "list_all body_line ls"
  have "\<not> body_line ''[Peer]''" by (simp add: body_line_def)
  with b show ?thesis by (auto simp: list_all_iff no_mark_def body_line_def)
qed

lemma deviceFingerprint_render:
  assumes "kIfname inst = ifnameFor (kId inst)"
  shows "deviceFingerprint (renderServerConf hs inst) = unlines (device_lines hs inst)"
proof -
  obtain ls where d: "device_lines hs inst = xuiManagedMarker # ''[Interface]'' # ls" and b: "list_all body_line ls"
    using device_lines_parts [of hs inst] assms by auto
  have "no_mark xuiManagedMarker" "no_mark ''[Interface]''" by code_simp+
  then have n: "list_all no_mark (device_lines hs inst)" using d body_no_mark [OF b] by simp
  have t: "unlines (concat (map peer_lines ps)) = [] \<or> (\<exists>r. unlines (concat (map peer_lines ps)) = peer_mark @ r)" for ps
  proof (cases ps)
    case (Cons p qs)
    obtain ks where "peer_lines p = [] # ''[Peer]'' # ks" using peer_lines_parts by blast
    then show ?thesis by (simp add: Cons)
  qed simp
  from cut_at_lines [OF n t [of "kPeers inst"]] show ?thesis
    by (simp only: deviceFingerprint_def renderServerConf_def unlines_simps)
qed

section \<open>The peers\<close>

definition peer_fields :: "kpeer \<Rightarrow> string list" where
  "peer_fields p = [kpPrivateKey p, kpPublicKey p, kpPSK p, kpAllowedIPs p]"

text \<open>No field has the separator in it.\<close>

definition bar_free :: "kernel_instance \<Rightarrow> bool" where
  "bar_free inst \<longleftrightarrow> list_all (\<lambda>p. list_all (\<lambda>f. CHR ''|'' \<notin> set f) (peer_fields p)) (kPeers inst)"

lemma peer_fields_lines: "peer_fields p = peer_fields q \<Longrightarrow> peer_lines p = peer_lines q"
  by (simp add: peer_fields_def peer_lines_def)

lemma concat_fields_inject: "concat (map peer_fields ps) = concat (map peer_fields qs) \<Longrightarrow> map peer_fields ps = map peer_fields qs"
proof (induction ps arbitrary: qs)
  case Nil
  then show ?case by (cases qs) (simp_all add: peer_fields_def)
next
  case (Cons p ps)
  then obtain q rs where q: "qs = q # rs" by (cases qs) (simp_all add: peer_fields_def)
  then have "peer_fields p @ concat (map peer_fields ps) = peer_fields q @ concat (map peer_fields rs)" using Cons.prems by simp
  moreover have "length (peer_fields p) = length (peer_fields q)" by (simp add: peer_fields_def)
  ultimately have "peer_fields p = peer_fields q" "concat (map peer_fields ps) = concat (map peer_fields rs)" by simp_all
  with Cons.IH q show ?case by simp
qed

lemma join_inject:
  assumes "\<forall>x \<in> set xs. c \<notin> set x" "\<forall>y \<in> set ys. c \<notin> set y" "length xs \<noteq> 1" "length ys \<noteq> 1" "join [c] xs = join [c] ys"
  shows "xs = ys"
proof -
  have ne: "c \<in> set (join [c] (a # b # zs))" for a b zs by simp
  have e: "zs = [] \<longleftrightarrow> join [c] zs = []" if "length zs \<noteq> 1" for zs
    using that ne by (cases zs; cases "tl zs") auto
  show ?thesis
  proof (cases "xs = []")
    case True
    then show ?thesis using e [OF assms(3)] e [OF assms(4)] assms(5) by simp
  next
    case False
    then have "ys \<noteq> []" using e [OF assms(3)] e [OF assms(4)] assms(5) by auto
    with False show ?thesis using split_on_join [of xs c] split_on_join [of ys c] assms by metis
  qed
qed

lemma peerFingerprint_inject:
  assumes "bar_free a" "bar_free b" "peerFingerprint a = peerFingerprint b"
  shows "map peer_fields (kPeers a) = map peer_fields (kPeers b)"
proof (rule concat_fields_inject, rule join_inject)
  show "join [CHR ''|''] (concat (map peer_fields (kPeers a))) = join [CHR ''|''] (concat (map peer_fields (kPeers b)))"
    using assms(3) by (simp add: peerFingerprint_def peer_fields_def [abs_def])
  have "length (concat (map peer_fields ps)) = 4 * length ps" for ps by (induction ps) (simp_all add: peer_fields_def)
  then show "length (concat (map peer_fields (kPeers a))) \<noteq> 1" "length (concat (map peer_fields (kPeers b))) \<noteq> 1" by presburger+
qed (use assms in \<open>auto simp: bar_free_def list_all_iff\<close>)

lemma same_fingerprints_same_file:
  assumes "kIfname a = ifnameFor (kId a)" "kIfname b = ifnameFor (kId b)" "bar_free a" "bar_free b"
    and "deviceFingerprint (renderServerConf hs a) = deviceFingerprint (renderServerConf hs' b)" "peerFingerprint a = peerFingerprint b"
  shows "renderServerConf hs a = renderServerConf hs' b"
proof -
  have "map peer_lines (kPeers a) = map peer_lines (kPeers b)"
    using peerFingerprint_inject [OF assms(3,4,6)] peer_fields_lines
    by (metis (mono_tags, lifting) length_map nth_equalityI nth_map)
  moreover have "unlines (device_lines hs a) = unlines (device_lines hs' b)"
    using assms(5) by (simp only: deviceFingerprint_render [OF assms(1)] deviceFingerprint_render [OF assms(2)])
  ultimately show ?thesis by (simp add: renderServerConf_def)
qed

end
