(* ===== verification/Awg_Manager.thy ===== *)
theory Awg_Manager
  imports Conf_Fingerprint "HOL-Library.AList"
begin

text \<open>
  The manager of kernel AmneziaWG interfaces (\<open>internal/awg/manager.go\<close>, \<open>process.go\<close>): the interfaces it keeps, the
  configuration files and the network interfaces of the host, and the operations that bring them in line with the
  inbounds. What a call of the operating system or of a tool does is fixed here, whether it succeeds is an argument.
  Commands for the firewall and the relays of port forwards are recorded in their order.
\<close>

section \<open>State\<close>

record managed =
  mgTag :: string
  mgFingerprint :: string
  mgPeerFP :: string
  mgIfname :: string
  mgTTL :: int
  mgPeers :: "kpeer list"

datatype external = RoutingRepair int | NatRepair int | P2PRepair int | PortForwards int
  | FlushForwards int | FlushP2P int | TproxyCleanup int

text \<open>Files by their name in the configuration directory, interfaces with the configuration they were given last.\<close>

record world =
  wProcs :: "(int \<times> managed) list"
  wSwept :: bool
  wFiles :: "(string \<times> string) list"
  wBackups :: "(string \<times> string) list"
  wLinks :: "(string \<times> string) list"
  wCalls :: "external list"

text \<open>What succeeds: writing a file, moving one to the backups, \<open>awg-quick up\<close> and \<open>down\<close>, \<open>ip link del\<close> and
  \<open>awg syncconf\<close>. The module is rebuilt while \<open>evPaused\<close>.\<close>

record environment =
  evPaused :: bool
  evWrite :: "string \<Rightarrow> bool"
  evBackup :: "string \<Rightarrow> bool"
  evUp :: "string \<Rightarrow> bool"
  evDown :: "string \<Rightarrow> bool"
  evDel :: "string \<Rightarrow> bool"
  evSync :: "string \<Rightarrow> bool"
  evHost :: host_support

datatype mgr_error = RebuildPaused | BadTproxy tproxy_error | WriteFailed | StartFailed | SyncFailed

section \<open>Files\<close>

definition confName :: "int \<Rightarrow> string" where
  "confName n = ifnameFor n @ ''.conf''"

definition managed_text :: "string \<Rightarrow> bool" where
  "managed_text data \<longleftrightarrow> prefix xuiManagedMarker data"

definition configIsManaged :: "world \<Rightarrow> string \<Rightarrow> bool" where
  "configIsManaged w name \<longleftrightarrow> (case map_of (wFiles w) name of None \<Rightarrow> False | Some data \<Rightarrow> managed_text data)"

definition parseInboundConfName :: "string \<Rightarrow> int option" where
  "parseInboundConfName name =
     (if \<not> prefix ''awg'' name \<or> \<not> has_suffix ''.conf'' name \<or> length name < 8 then None
      else let mid = take (length name - 8) (drop 3 name) in
        if mid = [] \<or> \<not> list_all is_digit mid then None else parse_int64 mid)"

definition isInboundAwgInterface :: "string \<Rightarrow> bool" where
  "isInboundAwgInterface name \<longleftrightarrow> prefix ''awg'' name \<and> (case drop 3 name of [] \<Rightarrow> False | c # _ \<Rightarrow> is_digit c)"

definition call :: "external \<Rightarrow> world \<Rightarrow> world" where
  "call x w = w\<lparr>wCalls := wCalls w @ [x]\<rparr>"

definition cleanupTproxyConfig :: "string \<Rightarrow> world \<Rightarrow> world" where
  "cleanupTproxyConfig name w =
     (case (map_of (wFiles w) name, parseInboundConfName name) of
        (Some data, Some n) \<Rightarrow>
          if managed_text data \<and> str_contains data (''-j '' @ tproxy_chain n @ '' -m comment --comment lucx-awg-tproxy'')
          then call (TproxyCleanup n) w else w
      | _ \<Rightarrow> w)"

text \<open>A file that cannot be written or moved stays as it was.\<close>

definition writeServerConfig :: "environment \<Rightarrow> int \<Rightarrow> string \<Rightarrow> world \<Rightarrow> bool \<times> world" where
  "writeServerConfig env n conf w =
     (if evWrite env (confName n) then (True, w\<lparr>wFiles := AList.update (confName n) conf (wFiles w)\<rparr>) else (False, w))"

definition backupConfigFile :: "environment \<Rightarrow> string \<Rightarrow> world \<Rightarrow> bool \<times> world" where
  "backupConfigFile env name w =
     (case map_of (wFiles w) name of
        Some data \<Rightarrow> if evBackup env name
          then (True, w\<lparr>wFiles := AList.delete name (wFiles w), wBackups := wBackups w @ [(name, data)]\<rparr>) else (False, w)
      | None \<Rightarrow> (False, w))"

text \<open>\<open>Remove\<close>, \<open>Reconcile\<close> and \<open>StopAll\<close> delete a file they cannot move.\<close>

definition discardConfig :: "environment \<Rightarrow> int \<Rightarrow> world \<Rightarrow> world" where
  "discardConfig env n w =
     (if map_of (wFiles w) (confName n) = None then w
      else let (ok, w') = backupConfigFile env (confName n) w in
        if ok then w' else w'\<lparr>wFiles := AList.delete (confName n) (wFiles w')\<rparr>)"

section \<open>Processes\<close>

definition IsRunning :: "string \<Rightarrow> world \<Rightarrow> bool" where
  "IsRunning ifname w \<longleftrightarrow> ifname \<noteq> [] \<and> map_of (wLinks w) ifname \<noteq> None"

definition Start :: "environment \<Rightarrow> int \<Rightarrow> string \<Rightarrow> world \<Rightarrow> bool \<times> world" where
  "Start env n ifname w =
     (if IsRunning ifname w then (False, w)
      else if evUp env ifname then
        (True, w\<lparr>wLinks := AList.update ifname (case map_of (wFiles w) (confName n) of None \<Rightarrow> [] | Some data \<Rightarrow> data) (wLinks w)\<rparr>)
      else (False, cleanupTproxyConfig (confName n) w))"

definition Stop :: "environment \<Rightarrow> int \<Rightarrow> string \<Rightarrow> world \<Rightarrow> world" where
  "Stop env n ifname w = cleanupTproxyConfig (confName n)
     (if IsRunning ifname w \<and> evDown env ifname then w\<lparr>wLinks := AList.delete ifname (wLinks w)\<rparr> else w)"

definition killOne :: "environment \<Rightarrow> string \<Rightarrow> world \<Rightarrow> world" where
  "killOne env name w =
     (if \<not> isInboundAwgInterface name \<or> \<not> configIsManaged w (name @ ''.conf'') then w
      else let w' = cleanupTproxyConfig (name @ ''.conf'') w in
        if evDel env name then w'\<lparr>wLinks := AList.delete name (wLinks w')\<rparr> else w')"

definition killStrayAwgInterfaces :: "environment \<Rightarrow> world \<Rightarrow> world" where
  "killStrayAwgInterfaces env w = fold (killOne env) (map fst (wLinks w)) w"

definition sweepOrphansLocked :: "environment \<Rightarrow> world \<Rightarrow> world" where
  "sweepOrphansLocked env w = (if wSwept w then w else killStrayAwgInterfaces env (w\<lparr>wSwept := True\<rparr>))"

section \<open>One interface\<close>

definition syncPeersLocked :: "environment \<Rightarrow> kernel_instance \<Rightarrow> string \<Rightarrow> world \<Rightarrow> mgr_error option \<times> world" where
  "syncPeersLocked env inst conf w =
     (case writeServerConfig env (kId inst) conf w of
        (False, w) \<Rightarrow> (Some WriteFailed, w)
      | (True, w) \<Rightarrow>
          (case map_of (wProcs w) (kId inst) of None \<Rightarrow> (None, w)
           | Some cur \<Rightarrow>
              if \<not> IsRunning (mgIfname cur) w then (None, w)
              else if evSync env (kIfname inst) then (None, w\<lparr>wLinks := AList.update (kIfname inst) conf (wLinks w)\<rparr>)
              else (Some SyncFailed, w)))"

definition startLocked :: "environment \<Rightarrow> kernel_instance \<Rightarrow> string \<Rightarrow> world \<Rightarrow> mgr_error option \<times> world" where
  "startLocked env inst conf w =
     (case writeServerConfig env (kId inst) conf (cleanupTproxyConfig (confName (kId inst)) w) of
        (False, w) \<Rightarrow> (Some WriteFailed, w)
      | (True, w) \<Rightarrow>
          (case Start env (kId inst) (kIfname inst) w of
             (False, w) \<Rightarrow> (Some StartFailed, w)
           | (True, w) \<Rightarrow>
              (None, w\<lparr>wProcs := AList.update (kId inst)
                 \<lparr>mgTag = kTag inst, mgFingerprint = deviceFingerprint conf, mgPeerFP = peerFingerprint inst,
                  mgIfname = kIfname inst, mgTTL = onlineTTLSeconds inst, mgPeers = kPeers inst\<rparr> (wProcs w)\<rparr>)))"

definition set_proc :: "int \<Rightarrow> managed \<Rightarrow> world \<Rightarrow> world" where
  "set_proc n cur w = w\<lparr>wProcs := AList.update n cur (wProcs w)\<rparr>"

definition keepLocked :: "environment \<Rightarrow> kernel_instance \<Rightarrow> managed \<Rightarrow> string \<Rightarrow> world \<Rightarrow> mgr_error option \<times> world" where
  "keepLocked env inst cur conf w =
     (let cur' = cur\<lparr>mgTag := kTag inst, mgTTL := onlineTTLSeconds inst, mgPeers := kPeers inst\<rparr>;
          w = set_proc (kId inst) cur' w in
      if mgPeerFP cur = peerFingerprint inst then (None, w)
      else (case syncPeersLocked env inst conf w of
          (Some e, w) \<Rightarrow> (Some e, w)
        | (None, w) \<Rightarrow> (None, set_proc (kId inst) (cur'\<lparr>mgPeerFP := peerFingerprint inst\<rparr>) w)))"

definition ensureLocked :: "environment \<Rightarrow> kernel_instance \<Rightarrow> world \<Rightarrow> mgr_error option \<times> world" where
  "ensureLocked env inst w =
     (case (if UsesTproxy inst then validateTproxy inst else None) of
        Some e \<Rightarrow> (Some (BadTproxy e), w)
      | None \<Rightarrow>
        let conf = renderServerConf (evHost env) inst in
        (case map_of (wProcs w) (kId inst) of
           None \<Rightarrow> startLocked env inst conf w
         | Some cur \<Rightarrow>
            if mgFingerprint cur = deviceFingerprint conf \<and> IsRunning (mgIfname cur) w then keepLocked env inst cur conf w
            else startLocked env inst conf
              ((Stop env (kId inst) (mgIfname cur) w)\<lparr>wProcs := AList.delete (kId inst) (wProcs w)\<rparr>)))"

definition repairs :: "kernel_instance \<Rightarrow> world \<Rightarrow> world" where
  "repairs inst w = call (PortForwards (kId inst)) (call (P2PRepair (kId inst)) (call (NatRepair (kId inst)) (call (RoutingRepair (kId inst)) w)))"

section \<open>The operations\<close>

definition mgr_Ensure :: "environment \<Rightarrow> kernel_instance \<Rightarrow> world \<Rightarrow> mgr_error option \<times> world" where
  "mgr_Ensure env inst w =
     (if evPaused env then (Some RebuildPaused, w)
      else case ensureLocked env inst (sweepOrphansLocked env w) of
        (Some e, w) \<Rightarrow> (Some e, w) | (None, w) \<Rightarrow> (None, repairs inst w))"

definition mgr_Remove :: "environment \<Rightarrow> int \<Rightarrow> world \<Rightarrow> world" where
  "mgr_Remove env n w =
     (let w = (case map_of (wProcs w) n of None \<Rightarrow> w
           | Some cur \<Rightarrow> (Stop env n (mgIfname cur) w)\<lparr>wProcs := AList.delete n (wProcs w)\<rparr>)
      in discardConfig env n (call (FlushP2P n) (call (FlushForwards n) (cleanupTproxyConfig (confName n) w))))"

definition dropUnwanted :: "environment \<Rightarrow> int \<times> managed \<Rightarrow> world \<Rightarrow> world" where
  "dropUnwanted env p w =
     discardConfig env (fst p) (call (FlushP2P (fst p)) (call (FlushForwards (fst p))
       ((Stop env (fst p) (mgIfname (snd p)) w)\<lparr>wProcs := AList.delete (fst p) (wProcs w)\<rparr>)))"

definition sweepFile :: "environment \<Rightarrow> int list \<Rightarrow> string \<Rightarrow> world \<Rightarrow> world" where
  "sweepFile env want name w =
     (case parseInboundConfName name of None \<Rightarrow> w
      | Some n \<Rightarrow> if n \<in> set want \<or> \<not> configIsManaged w name then w
          else snd (backupConfigFile env name (cleanupTproxyConfig name w)))"

definition sweepOrphanInboundConfigs :: "environment \<Rightarrow> int list \<Rightarrow> world \<Rightarrow> world" where
  "sweepOrphanInboundConfigs env want w = fold (sweepFile env want) (map fst (wFiles w)) w"

definition markFile :: "environment \<Rightarrow> kernel_instance \<Rightarrow> world \<Rightarrow> world" where
  "markFile env inst w =
     (if map_of (wFiles w) (confName (kId inst)) \<noteq> None \<and> \<not> configIsManaged w (confName (kId inst))
      then snd (writeServerConfig env (kId inst) (renderServerConf (evHost env) inst) w) else w)"

definition ensureOne :: "environment \<Rightarrow> kernel_instance \<Rightarrow> world \<Rightarrow> world" where
  "ensureOne env inst w = (case ensureLocked env inst w of (Some _, w) \<Rightarrow> w | (None, w) \<Rightarrow> repairs inst w)"

definition mgr_Reconcile :: "environment \<Rightarrow> kernel_instance list \<Rightarrow> world \<Rightarrow> world" where
  "mgr_Reconcile env desired w =
     (if evPaused env then w
      else let w = sweepOrphansLocked env w; want = map kId desired;
               w = fold (dropUnwanted env) (filter (\<lambda>p. fst p \<notin> set want) (wProcs w)) w;
               w = sweepOrphanInboundConfigs env want w;
               w = fold (markFile env) desired w
           in fold (ensureOne env) desired w)"

definition mgr_StopAll :: "environment \<Rightarrow> world \<Rightarrow> world" where
  "mgr_StopAll env w = fold (\<lambda>p w. (discardConfig env (fst p) (Stop env (fst p) (mgIfname (snd p)) w))
     \<lparr>wProcs := AList.delete (fst p) (wProcs w)\<rparr>) (wProcs w) w"

section \<open>What a step leaves alone\<close>

lemma call_frame [simp]:
  "wProcs (call x w) = wProcs w" "wFiles (call x w) = wFiles w" "wLinks (call x w) = wLinks w" "wSwept (call x w) = wSwept w" "wBackups (call x w) = wBackups w"
  by (simp_all add: call_def)

lemma cleanup_frame [simp]:
  "wProcs (cleanupTproxyConfig name w) = wProcs w" "wFiles (cleanupTproxyConfig name w) = wFiles w"
  "wLinks (cleanupTproxyConfig name w) = wLinks w" "wBackups (cleanupTproxyConfig name w) = wBackups w" "wSwept (cleanupTproxyConfig name w) = wSwept w"
  by (simp_all add: cleanupTproxyConfig_def split: option.split)

lemma repairs_frame [simp]:
  "wProcs (repairs inst w) = wProcs w" "wFiles (repairs inst w) = wFiles w" "wLinks (repairs inst w) = wLinks w"
  by (simp_all add: repairs_def)

lemma managed_frame [simp]: "configIsManaged (w\<lparr>wProcs := ps\<rparr>) = configIsManaged w" "configIsManaged (w\<lparr>wLinks := ls\<rparr>) = configIsManaged w"
  "configIsManaged (cleanupTproxyConfig n w) = configIsManaged w" "configIsManaged (w\<lparr>wSwept := b\<rparr>) = configIsManaged w"
  by (simp_all add: configIsManaged_def fun_eq_iff)

lemma Stop_frame [simp]: "wProcs (Stop env n i w) = wProcs w" "wFiles (Stop env n i w) = wFiles w" "wBackups (Stop env n i w) = wBackups w"
  by (simp_all add: Stop_def)

lemma Stop_links: "map_of (wLinks (Stop env n i w)) j = (if j = i \<and> evDown env i then (if i = [] then map_of (wLinks w) j else None) else map_of (wLinks w) j)"
  by (auto simp: Stop_def IsRunning_def delete_conv' simp del: not_None_eq)

lemma write_frame: "writeServerConfig env n conf w = (ok, w') \<Longrightarrow> wProcs w' = wProcs w \<and> wLinks w' = wLinks w \<and> wSwept w' = wSwept w
    \<and> map_of (wFiles w') = (if ok then (map_of (wFiles w))(confName n \<mapsto> conf) else map_of (wFiles w))"
  by (auto simp: writeServerConfig_def update_conv' split: if_splits)

lemma backup_frame: "backupConfigFile env name w = (ok, w') \<Longrightarrow> wProcs w' = wProcs w \<and> wLinks w' = wLinks w \<and> wSwept w' = wSwept w
    \<and> map_of (wFiles w') = (if ok then (map_of (wFiles w))(name := None) else map_of (wFiles w))"
  by (auto simp: backupConfigFile_def delete_conv' split: if_splits option.splits)

lemma discard_frame [simp]: "wProcs (discardConfig env n w) = wProcs w" "wLinks (discardConfig env n w) = wLinks w"
  "wSwept (discardConfig env n w) = wSwept w" "map_of (wFiles (discardConfig env n w)) = (map_of (wFiles w))(confName n := None)"
proof -
  obtain ok w' where b: "backupConfigFile env (confName n) w = (ok, w')" by fastforce
  show "wProcs (discardConfig env n w) = wProcs w" "wLinks (discardConfig env n w) = wLinks w" "wSwept (discardConfig env n w) = wSwept w"
    using backup_frame [OF b] by (simp_all add: discardConfig_def b)
  show "map_of (wFiles (discardConfig env n w)) = (map_of (wFiles w))(confName n := None)"
    using backup_frame [OF b] by (auto simp: discardConfig_def b delete_conv' fun_upd_idem)
qed

lemma Start_frame: "Start env n i w = (ok, w') \<Longrightarrow> wProcs w' = wProcs w \<and> wFiles w' = wFiles w
    \<and> map_of (wLinks w') = (if ok then (map_of (wLinks w))(i \<mapsto> (case map_of (wFiles w) (confName n) of None \<Rightarrow> [] | Some d \<Rightarrow> d)) else map_of (wLinks w))"
  by (auto simp: Start_def update_conv' split: if_splits)

lemma sync_frame: "syncPeersLocked env inst conf w = (e, w') \<Longrightarrow> wProcs w' = wProcs w
    \<and> (\<forall>name. name \<noteq> confName (kId inst) \<longrightarrow> map_of (wFiles w') name = map_of (wFiles w) name)
    \<and> (\<forall>i. i \<noteq> kIfname inst \<longrightarrow> map_of (wLinks w') i = map_of (wLinks w) i)"
  by (auto simp: syncPeersLocked_def update_conv' dest!: write_frame split: prod.splits bool.splits option.splits if_splits)

lemma start_frame: "startLocked env inst conf w = (e, w') \<Longrightarrow>
    (\<forall>name. name \<noteq> confName (kId inst) \<longrightarrow> map_of (wFiles w') name = map_of (wFiles w) name)
    \<and> (\<forall>i. i \<noteq> kIfname inst \<longrightarrow> map_of (wLinks w') i = map_of (wLinks w) i)
    \<and> (\<forall>n. n \<noteq> kId inst \<longrightarrow> map_of (wProcs w') n = map_of (wProcs w) n)"
  by (auto simp: startLocked_def update_conv' dest!: write_frame Start_frame split: prod.splits bool.splits)

lemma set_proc_frame [simp]: "wFiles (set_proc n cur w) = wFiles w" "wLinks (set_proc n cur w) = wLinks w"
  "map_of (wProcs (set_proc n cur w)) = (map_of (wProcs w))(n \<mapsto> cur)"
  by (simp_all add: set_proc_def update_conv')

lemma keep_frame: "keepLocked env inst cur conf w = (e, w') \<Longrightarrow>
    (name \<noteq> confName (kId inst) \<longrightarrow> map_of (wFiles w') name = map_of (wFiles w) name)
    \<and> (i \<noteq> kIfname inst \<longrightarrow> map_of (wLinks w') i = map_of (wLinks w) i)
    \<and> (n \<noteq> kId inst \<longrightarrow> map_of (wProcs w') n = map_of (wProcs w) n)"
  by (auto simp: keepLocked_def Let_def dest!: sync_frame split: option.splits if_splits prod.splits)

text \<open>The three ways through \<open>ensureLocked\<close>.\<close>

lemma ensure_cases:
  assumes "ensureLocked env inst w = (e, w')"
  obtains (bad) x where "w' = w" "e = Some (BadTproxy x)"
    | (start) "map_of (wProcs w) (kId inst) = None" "startLocked env inst (renderServerConf (evHost env) inst) w = (e, w')"
    | (restart) cur where "map_of (wProcs w) (kId inst) = Some cur"
        "startLocked env inst (renderServerConf (evHost env) inst)
          ((Stop env (kId inst) (mgIfname cur) w)\<lparr>wProcs := AList.delete (kId inst) (wProcs w)\<rparr>) = (e, w')"
    | (keep) cur where "map_of (wProcs w) (kId inst) = Some cur" "mgFingerprint cur = deviceFingerprint (renderServerConf (evHost env) inst)"
        "IsRunning (mgIfname cur) w" "keepLocked env inst cur (renderServerConf (evHost env) inst) w = (e, w')"
  using assms unfolding ensureLocked_def Let_def by (auto split: option.splits if_splits)

text \<open>One interface is one file, one link and one entry.\<close>

lemma ensure_frame:
  assumes "ensureLocked env inst w = (e, w')"
    and "\<And>cur. map_of (wProcs w) (kId inst) = Some cur \<Longrightarrow> mgIfname cur = kIfname inst"
  shows "(name \<noteq> confName (kId inst) \<longrightarrow> map_of (wFiles w') name = map_of (wFiles w) name)
    \<and> (i \<noteq> kIfname inst \<longrightarrow> map_of (wLinks w') i = map_of (wLinks w) i)
    \<and> (n \<noteq> kId inst \<longrightarrow> map_of (wProcs w') n = map_of (wProcs w) n)"
  using assms(1)
proof (cases rule: ensure_cases)
  case (restart cur)
  from start_frame [OF restart(2)] assms(2) [OF restart(1)] show ?thesis by (auto simp: Stop_links delete_conv')
next
  case start
  from start_frame [OF start(2)] show ?thesis by blast
next
  case (keep cur)
  from keep_frame [OF keep(4)] show ?thesis by blast
qed simp

text \<open>Facts about a loop: what every step keeps, the loop keeps.\<close>

lemma fold_keeps: "P w \<Longrightarrow> (\<And>x w. x \<in> set xs \<Longrightarrow> P w \<Longrightarrow> P (f x w)) \<Longrightarrow> P (fold f xs w)"
  by (induction xs arbitrary: w) auto

lemma managed_cong: "wFiles v = wFiles w \<Longrightarrow> configIsManaged v = configIsManaged w"
  by (simp add: configIsManaged_def fun_eq_iff)

lemma kill_one_frame: "wProcs (killOne env name w) = wProcs w" "wFiles (killOne env name w) = wFiles w"
  "map_of (wLinks (killOne env name w)) i = (if i = name \<and> isInboundAwgInterface name \<and> configIsManaged w (name @ ''.conf'') \<and> evDel env name
     then None else map_of (wLinks w) i)"
  by (auto simp: killOne_def Let_def delete_conv')

lemma sweep_orphans_frame: "wProcs (sweepOrphansLocked env w) = wProcs w" "wFiles (sweepOrphansLocked env w) = wFiles w"
  "map_of (wLinks (sweepOrphansLocked env w)) i = map_of (wLinks w) i
   \<or> configIsManaged w (i @ ''.conf'') \<and> map_of (wLinks (sweepOrphansLocked env w)) i = None"
proof -
  let ?P = "\<lambda>v :: world. wProcs v = wProcs w \<and> wFiles v = wFiles w
    \<and> (map_of (wLinks v) i = map_of (wLinks w) i \<or> configIsManaged w (i @ ''.conf'') \<and> map_of (wLinks v) i = None)"
  have "?P (fold (killOne env) (map fst (wLinks w)) (w\<lparr>wSwept := True\<rparr>))"
  proof (rule fold_keeps)
    fix name v assume v: "?P v"
    then have f: "wProcs v = wProcs w" "wFiles v = wFiles w" by blast+
    show "?P (killOne env name v)" unfolding kill_one_frame managed_cong [OF f(2)] f using v by (simp split: if_split) blast?
  qed simp
  then have "?P (sweepOrphansLocked env w)" by (simp add: sweepOrphansLocked_def killStrayAwgInterfaces_def)
  then show "wProcs (sweepOrphansLocked env w) = wProcs w" "wFiles (sweepOrphansLocked env w) = wFiles w"
    "map_of (wLinks (sweepOrphansLocked env w)) i = map_of (wLinks w) i
     \<or> configIsManaged w (i @ ''.conf'') \<and> map_of (wLinks (sweepOrphansLocked env w)) i = None" by blast+
qed

lemma sweep_file_frame:
  "wProcs (sweepFile env want name w) = wProcs w" "wLinks (sweepFile env want name w) = wLinks w"
  "map_of (wFiles (sweepFile env want name w)) k = Some c \<Longrightarrow> map_of (wFiles w) k = Some c"
  "map_of (wFiles w) k = Some c \<Longrightarrow> \<not> managed_text c \<or> (\<forall>n. parseInboundConfName k = Some n \<longrightarrow> n \<in> set want) \<Longrightarrow>
    map_of (wFiles (sweepFile env want name w)) k = Some c"
proof -
  obtain ok w' where b: "backupConfigFile env name (cleanupTproxyConfig name w) = (ok, w')" by fastforce
  note f = backup_frame [OF b]
  show "wProcs (sweepFile env want name w) = wProcs w" "wLinks (sweepFile env want name w) = wLinks w"
    "map_of (wFiles (sweepFile env want name w)) k = Some c \<Longrightarrow> map_of (wFiles w) k = Some c"
    using f by (auto simp: sweepFile_def b split: option.splits if_splits)
  assume k: "map_of (wFiles w) k = Some c" and u: "\<not> managed_text c \<or> (\<forall>n. parseInboundConfName k = Some n \<longrightarrow> n \<in> set want)"
  show "map_of (wFiles (sweepFile env want name w)) k = Some c"
  proof (cases "name = k")
    case True
    with k u show ?thesis by (auto simp: sweepFile_def configIsManaged_def split: option.splits)
  next
    case False
    with k f show ?thesis by (auto simp: sweepFile_def b split: option.splits)
  qed
qed

lemma mark_frame: "wProcs (markFile env inst w) = wProcs w \<and> wLinks (markFile env inst w) = wLinks w
    \<and> (name \<noteq> confName (kId inst) \<or> configIsManaged w name \<longrightarrow> map_of (wFiles (markFile env inst w)) name = map_of (wFiles w) name)"
proof -
  obtain ok w' where b: "writeServerConfig env (kId inst) (renderServerConf (evHost env) inst) w = (ok, w')" by fastforce
  show ?thesis using write_frame [OF b] by (auto simp: markFile_def b)
qed

lemma drop_frame:
  "wProcs (dropUnwanted env p w) = AList.delete (fst p) (wProcs w)"
  "map_of (wFiles (dropUnwanted env p w)) = (map_of (wFiles w))(confName (fst p) := None)"
  "i \<noteq> mgIfname (snd p) \<Longrightarrow> map_of (wLinks (dropUnwanted env p w)) i = map_of (wLinks w) i"
  "map_of (wLinks (dropUnwanted env p w)) i = Some c \<Longrightarrow> map_of (wLinks w) i = Some c"
  by (auto simp: dropUnwanted_def Stop_links split: if_splits)

lemma ensure_one_frame:
  assumes "\<And>cur. map_of (wProcs w) (kId inst) = Some cur \<Longrightarrow> mgIfname cur = kIfname inst"
  shows "(name \<noteq> confName (kId inst) \<longrightarrow> map_of (wFiles (ensureOne env inst w)) name = map_of (wFiles w) name)
    \<and> (i \<noteq> kIfname inst \<longrightarrow> map_of (wLinks (ensureOne env inst w)) i = map_of (wLinks w) i)
    \<and> (n \<noteq> kId inst \<longrightarrow> map_of (wProcs (ensureOne env inst w)) n = map_of (wProcs w) n)"
proof -
  obtain e w' where l: "ensureLocked env inst w = (e, w')" by fastforce
  from ensure_frame [OF l assms] show ?thesis by (auto simp: ensureOne_def l split: option.split)
qed

section \<open>Names\<close>

lemma itoa_inject: "itoa a = itoa b \<Longrightarrow> a = b"
proof -
  assume e: "itoa a = itoa b"
  have neg: "hd (itoa n) = CHR ''-'' \<longleftrightarrow> n < 0" for n
    using itoa_nat_hd [of "nat n"] by (auto simp: itoa_def is_digit_def)
  then have s: "a < 0 \<longleftrightarrow> b < 0" using e by metis
  have v: "num_of_digits (if n < 0 then tl (itoa n) else itoa n) = nat \<bar>n\<bar>" for n by (simp add: itoa_def)
  have "nat \<bar>a\<bar> = nat \<bar>b\<bar>" using v [of a] v [of b] unfolding e s by (rule trans [OF sym])
  then show "a = b" using s by (cases "a < 0") (simp_all add: abs_if eq_nat_nat_iff)
qed

lemma ifname_inject [simp]: "ifnameFor a = ifnameFor b \<longleftrightarrow> a = b"
  by (auto simp: ifnameFor_def dest: itoa_inject)

lemma confName_inject [simp]: "confName a = confName b \<longleftrightarrow> a = b"
  by (simp add: confName_def)

lemma confName_iface: "confName n = i @ ''.conf'' \<longleftrightarrow> i = ifnameFor n"
  by (auto simp: confName_def)

lemma ifname_ne [simp]: "ifnameFor n \<noteq> []"
  by (simp add: ifnameFor_def)

lemma digits_itoa: "list_all is_digit (itoa n) \<Longrightarrow> 0 \<le> n"
proof (rule ccontr)
  assume "list_all is_digit (itoa n)" "\<not> 0 \<le> n"
  then have "is_digit CHR ''-''" by (simp add: itoa_def)
  then show False by code_simp
qed

lemma parse_confName: "parseInboundConfName (confName n) = Some m \<Longrightarrow> m = n"
proof -
  assume p: "parseInboundConfName (confName n) = Some m"
  have mid: "take (length (confName n) - 8) (drop 3 (confName n)) = itoa n"
    by (simp add: confName_def ifnameFor_def)
  from p have d: "list_all is_digit (itoa n)" "parse_int64 (itoa n) = Some m"
    by (simp_all add: parseInboundConfName_def mid Let_def split: if_splits)
  then have n: "0 \<le> n" using digits_itoa by simp
  then have num: "num_of_digits (itoa n) = nat n" by (simp add: itoa_def)
  obtain c r where c: "itoa n = c # r" by (cases "itoa n") (simp_all add: itoa_def split: if_splits)
  with d have "is_digit c" by simp
  then have "c \<noteq> CHR ''-''" "c \<noteq> CHR ''+''" using is_digit_graphic by blast+
  with d c num have "int (nat n) = m"
    by (auto simp: parse_int64_def parse_nat_def Let_def split: if_splits)
  with n show "m = n" by simp
qed

section \<open>The invariant\<close>

text \<open>The instances the manager is given, and what a running interface was configured with.\<close>

definition wf_instance :: "kernel_instance \<Rightarrow> bool" where
  "wf_instance inst \<longleftrightarrow> kIfname inst = ifnameFor (kId inst) \<and> bar_free inst"

definition runs :: "int \<Rightarrow> managed \<Rightarrow> string \<Rightarrow> bool" where
  "runs n cur conf \<longleftrightarrow> (\<exists>hs inst. wf_instance inst \<and> kId inst = n \<and> conf = renderServerConf hs inst
     \<and> mgFingerprint cur = deviceFingerprint conf \<and> mgPeerFP cur = peerFingerprint inst)"

definition proc_ok :: "world \<Rightarrow> int \<Rightarrow> managed \<Rightarrow> bool" where
  "proc_ok w n cur \<longleftrightarrow> mgIfname cur = ifnameFor n
     \<and> (\<exists>data. map_of (wFiles w) (confName n) = Some data \<and> managed_text data \<and> deviceFingerprint data = mgFingerprint cur)
     \<and> (\<forall>conf. map_of (wLinks w) (ifnameFor n) = Some conf \<longrightarrow> runs n cur conf)"

definition mgr_inv :: "world \<Rightarrow> bool" where
  "mgr_inv w \<longleftrightarrow> (\<forall>n cur. map_of (wProcs w) n = Some cur \<longrightarrow> proc_ok w n cur)"

lemma rendered_managed: "managed_text (renderServerConf hs inst)"
  by (simp add: managed_text_def renderServerConf_def device_lines_def Let_def)

lemma proc_ok_cong: "map_of (wFiles v) (confName n) = map_of (wFiles w) (confName n) \<Longrightarrow>
    map_of (wLinks v) (ifnameFor n) = map_of (wLinks w) (ifnameFor n) \<or> map_of (wLinks v) (ifnameFor n) = None \<Longrightarrow>
    proc_ok w n cur \<Longrightarrow> proc_ok v n cur"
  by (auto simp: proc_ok_def)

lemma invD: "mgr_inv w \<Longrightarrow> map_of (wProcs w) n = Some cur \<Longrightarrow> proc_ok w n cur"
  by (simp add: mgr_inv_def)

lemma inv_ifname: "mgr_inv w \<Longrightarrow> map_of (wProcs w) n = Some cur \<Longrightarrow> mgIfname cur = ifnameFor n"
  by (simp add: mgr_inv_def proc_ok_def)

text \<open>A step that touches one interface only has to be looked at there.\<close>

lemma inv_one:
  assumes "mgr_inv w"
    and "\<And>k. k \<noteq> n \<Longrightarrow> map_of (wProcs v) k = map_of (wProcs w) k"
    and "\<And>k. k \<noteq> n \<Longrightarrow> map_of (wFiles v) (confName k) = map_of (wFiles w) (confName k)"
    and "\<And>k. k \<noteq> n \<Longrightarrow> map_of (wLinks v) (ifnameFor k) = map_of (wLinks w) (ifnameFor k)"
    and "\<And>cur. map_of (wProcs v) n = Some cur \<Longrightarrow> proc_ok v n cur"
  shows "mgr_inv v"
  unfolding mgr_inv_def
proof (intro allI impI)
  fix k cur assume "map_of (wProcs v) k = Some cur"
  then show "proc_ok v k cur" using assms by (cases "k = n") (metis invD proc_ok_cong)+
qed

lemma inv_links: "mgr_inv w \<Longrightarrow> wProcs v = wProcs w \<Longrightarrow> (\<And>n. map_of (wFiles v) (confName n) = map_of (wFiles w) (confName n)) \<Longrightarrow>
    (\<And>n. map_of (wLinks v) (ifnameFor n) = map_of (wLinks w) (ifnameFor n) \<or> map_of (wLinks v) (ifnameFor n) = None) \<Longrightarrow> mgr_inv v"
  unfolding mgr_inv_def by (metis proc_ok_cong)

lemma sweep_orphans_inv: "mgr_inv w \<Longrightarrow> mgr_inv (sweepOrphansLocked env w)"
proof (rule inv_links [of w])
  fix n
  show "map_of (wLinks (sweepOrphansLocked env w)) (ifnameFor n) = map_of (wLinks w) (ifnameFor n)
      \<or> map_of (wLinks (sweepOrphansLocked env w)) (ifnameFor n) = None"
    by (rule disj_forward [OF sweep_orphans_frame(3)]) (assumption, erule conjunct2)
qed (simp_all add: sweep_orphans_frame(1,2))

lemma remove_inv: "mgr_inv w \<Longrightarrow> mgr_inv (mgr_Remove env n w)"
proof -
  assume i: "mgr_inv w"
  have nm: "mgIfname cur = ifnameFor n" if "map_of (wProcs w) n = Some cur" for cur using inv_ifname [OF i that] .
  show ?thesis
    by (rule inv_one [OF i, of n])
      (auto simp: mgr_Remove_def Let_def delete_conv' Stop_links nm split: option.split)
qed

lemma drop_inv: "mgr_inv w \<Longrightarrow> mgIfname (snd p) = ifnameFor (fst p) \<Longrightarrow> mgr_inv (dropUnwanted env p w)"
  by (rule inv_one [of w "fst p"]) (auto simp: drop_frame(1-3) delete_conv')

lemma startLocked_result:
  assumes "startLocked env inst conf w = (e, w')" "wf_instance inst" "map_of (wProcs w) (kId inst) = None"
    and "conf = renderServerConf hs inst"
  shows "map_of (wProcs w') (kId inst) = Some cur \<Longrightarrow> proc_ok w' (kId inst) cur"
    and "e = None \<Longrightarrow> map_of (wProcs w') (kId inst) \<noteq> None \<and> map_of (wLinks w') (kIfname inst) = Some conf"
proof -
  obtain ok1 w1 where w1: "writeServerConfig env (kId inst) conf (cleanupTproxyConfig (confName (kId inst)) w) = (ok1, w1)" by fastforce
  obtain ok2 w2 where w2: "Start env (kId inst) (kIfname inst) w1 = (ok2, w2)" by fastforce
  note f1 = write_frame [OF w1] and f2 = Start_frame [OF w2]
  have ifn: "kIfname inst = ifnameFor (kId inst)" using assms(2) by (simp add: wf_instance_def)
  show "proc_ok w' (kId inst) cur" if "map_of (wProcs w') (kId inst) = Some cur"
  proof (cases "ok1 \<and> ok2")
    case True
    then have w': "w' = w2\<lparr>wProcs := AList.update (kId inst)
        \<lparr>mgTag = kTag inst, mgFingerprint = deviceFingerprint conf, mgPeerFP = peerFingerprint inst,
         mgIfname = kIfname inst, mgTTL = onlineTTLSeconds inst, mgPeers = kPeers inst\<rparr> (wProcs w2)\<rparr>"
      using assms(1) by (simp add: startLocked_def w1 w2)
    then have cur: "cur = \<lparr>mgTag = kTag inst, mgFingerprint = deviceFingerprint conf, mgPeerFP = peerFingerprint inst,
         mgIfname = kIfname inst, mgTTL = onlineTTLSeconds inst, mgPeers = kPeers inst\<rparr>"
      using that by (simp add: update_conv')
    have files: "map_of (wFiles w') (confName (kId inst)) = Some conf" "map_of (wLinks w') (ifnameFor (kId inst)) = Some conf"
      using f1 f2 True w' ifn by auto
    show ?thesis unfolding proc_ok_def runs_def files using assms(2,4) rendered_managed cur ifn by auto
  next
    case False
    then have "wProcs w' = wProcs w" using assms(1) f1 f2 by (auto simp: startLocked_def w1 w2 split: bool.splits)
    with that assms(3) show ?thesis by simp
  qed
  show "map_of (wProcs w') (kId inst) \<noteq> None \<and> map_of (wLinks w') (kIfname inst) = Some conf" if "e = None"
    using assms(1) that f1 f2 by (auto simp: startLocked_def w1 w2 update_conv' split: bool.splits)
qed

lemma keep_result:
  assumes "keepLocked env inst cur0 (renderServerConf hs inst) w = (e, w')" "proc_ok w (kId inst) cur0" and wf: "wf_instance inst"
    and fp: "mgFingerprint cur0 = deviceFingerprint (renderServerConf hs inst)" and up: "IsRunning (mgIfname cur0) w"
  shows "map_of (wProcs w') (kId inst) = Some cur \<Longrightarrow> proc_ok w' (kId inst) cur"
    and "e = None \<Longrightarrow> map_of (wProcs w') (kId inst) \<noteq> None \<and> map_of (wLinks w') (kIfname inst) = Some (renderServerConf hs inst)"
proof -
  let ?n = "kId inst" and ?conf = "renderServerConf hs inst"
  let ?cur = "cur0\<lparr>mgTag := kTag inst, mgTTL := onlineTTLSeconds inst, mgPeers := kPeers inst\<rparr>"
  have ifn: "kIfname inst = ifnameFor ?n" "mgIfname cur0 = ifnameFor ?n" using wf assms(2) by (simp_all add: wf_instance_def proc_ok_def)
  obtain old where old: "map_of (wLinks w) (ifnameFor ?n) = Some old" using up ifn by (auto simp: IsRunning_def)
  then have r: "runs ?n cur0 old" using assms(2) by (simp add: proc_ok_def)
  have ok: "proc_ok (set_proc ?n ?cur w) ?n ?cur" using assms(2) by (simp add: proc_ok_def runs_def)
  have "(map_of (wProcs w') ?n = Some cur \<longrightarrow> proc_ok w' ?n cur)
    \<and> (e = None \<longrightarrow> map_of (wProcs w') ?n \<noteq> None \<and> map_of (wLinks w') (kIfname inst) = Some ?conf)"
  proof (cases "mgPeerFP cur0 = peerFingerprint inst")
    case True
    then have w': "w' = set_proc ?n ?cur w" using assms(1) by (simp add: keepLocked_def Let_def)
    obtain hs0 i0 where "wf_instance i0" "old = renderServerConf hs0 i0" "mgFingerprint cur0 = deviceFingerprint old" "mgPeerFP cur0 = peerFingerprint i0"
      using r by (auto simp: runs_def)
    then have "old = ?conf" using wf fp True same_fingerprints_same_file [of i0 inst hs0 hs] by (simp add: wf_instance_def)
    then show ?thesis using ok old ifn unfolding w' by auto
  next
    case False
    obtain e1 w1 where s: "syncPeersLocked env inst ?conf (set_proc ?n ?cur w) = (e1, w1)" by fastforce
    obtain ok1 w2 where w2: "writeServerConfig env ?n ?conf (set_proc ?n ?cur w) = (ok1, w2)" by fastforce
    note f = write_frame [OF w2]
    have run: "IsRunning (ifnameFor ?n) w2" using f old by (simp add: IsRunning_def)
    have p2: "map_of (wProcs w2) ?n = Some ?cur" using f by simp
    have ok2: "proc_ok w2 ?n ?cur"
      using ok f fp rendered_managed by (auto simp: proc_ok_def split: if_splits)
    show ?thesis
    proof (cases "ok1 \<and> evSync env (kIfname inst)")
      case True
      then have s': "e1 = None" "w1 = w2\<lparr>wLinks := AList.update (kIfname inst) ?conf (wLinks w2)\<rparr>"
        using s p2 run ifn by (auto simp: syncPeersLocked_def w2)
      then have w': "e = None" "w' = set_proc ?n (?cur\<lparr>mgPeerFP := peerFingerprint inst\<rparr>) w1"
        using assms(1) False s by (simp_all add: keepLocked_def Let_def)
      have "proc_ok w' ?n (?cur\<lparr>mgPeerFP := peerFingerprint inst\<rparr>)"
        using ok2 wf fp ifn unfolding w' s' proc_ok_def runs_def by (auto simp: update_conv')
      then show ?thesis using w' s' ifn by (auto simp: update_conv')
    next
      case False
      then have s': "e1 \<noteq> None" "w1 = w2"
        using s p2 run ifn by (auto simp: syncPeersLocked_def w2 split: bool.splits)
      then have "e \<noteq> None" "w' = w2" using assms(1) \<open>mgPeerFP cur0 \<noteq> peerFingerprint inst\<close> s by (auto simp: keepLocked_def Let_def)
      then show ?thesis using ok2 p2 by auto
    qed
  qed
  then show "map_of (wProcs w') ?n = Some cur \<Longrightarrow> proc_ok w' ?n cur"
    and "e = None \<Longrightarrow> map_of (wProcs w') ?n \<noteq> None \<and> map_of (wLinks w') (kIfname inst) = Some ?conf" by blast+
qed

lemma ensure_result:
  assumes l: "ensureLocked env inst w = (e, w')" and i: "mgr_inv w" and wf: "wf_instance inst"
  shows "map_of (wProcs w') (kId inst) = Some cur \<Longrightarrow> proc_ok w' (kId inst) cur"
    and "e = None \<Longrightarrow> map_of (wProcs w') (kId inst) \<noteq> None \<and> map_of (wLinks w') (kIfname inst) = Some (renderServerConf (evHost env) inst)"
proof -
  let ?n = "kId inst" and ?conf = "renderServerConf (evHost env) inst"
  have ifn: "kIfname inst = ifnameFor ?n" using wf by (simp add: wf_instance_def)
  have "(map_of (wProcs w') ?n = Some cur \<longrightarrow> proc_ok w' ?n cur)
    \<and> (e = None \<longrightarrow> map_of (wProcs w') ?n \<noteq> None \<and> map_of (wLinks w') (kIfname inst) = Some ?conf)"
    using l
  proof (cases rule: ensure_cases)
    case bad
    then show ?thesis using invD [OF i] by simp
  next
    case start
    then show ?thesis using startLocked_result [OF start(2) wf start(1) refl] by blast
  next
    case (restart cur0)
    have "map_of (wProcs ((Stop env ?n (mgIfname cur0) w)\<lparr>wProcs := AList.delete ?n (wProcs w)\<rparr>)) ?n = None" by (simp add: delete_conv')
    then show ?thesis using startLocked_result [OF restart(2) wf _ refl] by blast
  next
    case (keep cur0)
    then show ?thesis using keep_result [OF keep(4) invD [OF i keep(1)] wf keep(2,3)] by blast
  qed
  then show "map_of (wProcs w') ?n = Some cur \<Longrightarrow> proc_ok w' ?n cur"
    and "e = None \<Longrightarrow> map_of (wProcs w') ?n \<noteq> None \<and> map_of (wLinks w') (kIfname inst) = Some ?conf" by blast+
qed

lemma ensureLocked_inv:
  assumes "mgr_inv w" "wf_instance inst" "ensureLocked env inst w = (e, w')"
  shows "mgr_inv w'"
proof (rule inv_one [OF assms(1), of "kId inst"])
  have ifn: "kIfname inst = ifnameFor (kId inst)" using assms(2) by (simp add: wf_instance_def)
  note f = ensure_frame [OF assms(3)]
  have nm: "\<And>cur. map_of (wProcs w) (kId inst) = Some cur \<Longrightarrow> mgIfname cur = kIfname inst" using inv_ifname [OF assms(1)] ifn by simp
  fix k assume k: "k \<noteq> kId inst"
  show "map_of (wProcs w') k = map_of (wProcs w) k" "map_of (wFiles w') (confName k) = map_of (wFiles w) (confName k)"
    "map_of (wLinks w') (ifnameFor k) = map_of (wLinks w) (ifnameFor k)"
    using f [OF nm, of "confName k" "ifnameFor k" k] k ifn by simp_all
next
  fix cur assume "map_of (wProcs w') (kId inst) = Some cur"
  then show "proc_ok w' (kId inst) cur" by (rule ensure_result(1) [OF assms(3,1,2)])
qed

lemma repairs_inv: "mgr_inv w \<Longrightarrow> mgr_inv (repairs inst w)"
  by (rule inv_links [of w]) simp_all

lemma ensureOne_inv: "mgr_inv w \<Longrightarrow> wf_instance inst \<Longrightarrow> mgr_inv (ensureOne env inst w)"
proof -
  assume i: "mgr_inv w" "wf_instance inst"
  obtain e w' where l: "ensureLocked env inst w = (e, w')" by fastforce
  show ?thesis using ensureLocked_inv [OF i l] repairs_inv by (simp add: ensureOne_def l split: option.split)
qed

lemma Ensure_inv: "mgr_inv w \<Longrightarrow> wf_instance inst \<Longrightarrow> mgr_inv (snd (mgr_Ensure env inst w))"
proof -
  assume i: "mgr_inv w" "wf_instance inst"
  obtain e w' where l: "ensureLocked env inst (sweepOrphansLocked env w) = (e, w')" by fastforce
  show ?thesis using ensureLocked_inv [OF sweep_orphans_inv [OF i(1)] i(2) l] repairs_inv i(1)
    by (simp add: mgr_Ensure_def l split: option.split)
qed

text \<open>After the unwanted interfaces are gone, no file the sweep takes belongs to one that is left.\<close>

lemma sweep_files_inv:
  assumes "mgr_inv w" "\<And>n cur. map_of (wProcs w) n = Some cur \<Longrightarrow> n \<in> set want"
  shows "mgr_inv (sweepOrphanInboundConfigs env want w) \<and> wProcs (sweepOrphanInboundConfigs env want w) = wProcs w
    \<and> wLinks (sweepOrphanInboundConfigs env want w) = wLinks w"
  unfolding sweepOrphanInboundConfigs_def
proof (rule fold_keeps)
  fix name v assume v: "mgr_inv v \<and> wProcs v = wProcs w \<and> wLinks v = wLinks w"
  let ?v = "sweepFile env want name v"
  have "mgr_inv ?v" unfolding mgr_inv_def
  proof (intro allI impI)
    fix n cur assume "map_of (wProcs ?v) n = Some cur"
    then have p: "map_of (wProcs v) n = Some cur" by (simp add: sweep_file_frame)
    then have ok: "proc_ok v n cur" using v invD by blast
    then obtain data where d: "map_of (wFiles v) (confName n) = Some data" by (auto simp: proc_ok_def)
    have "m \<in> set want" if "parseInboundConfName (confName n) = Some m" for m
      using parse_confName [OF that] assms(2) [of n cur] p v by simp
    then have "map_of (wFiles ?v) (confName n) = Some data" using sweep_file_frame(4) [OF d] by blast
    with d show "proc_ok ?v n cur" by (intro proc_ok_cong [OF _ _ ok]) (simp_all add: sweep_file_frame(2))
  qed
  with v show "mgr_inv ?v \<and> wProcs ?v = wProcs w \<and> wLinks ?v = wLinks w" by (simp add: sweep_file_frame)
qed (use assms(1) in simp)

lemma mark_inv: "mgr_inv w \<Longrightarrow> mgr_inv (markFile env inst w)"
proof -
  assume i: "mgr_inv w"
  show ?thesis unfolding mgr_inv_def
  proof (intro allI impI)
    fix n cur assume "map_of (wProcs (markFile env inst w)) n = Some cur"
    then have ok: "proc_ok w n cur" using i mark_frame invD by metis
    then have "configIsManaged w (confName n)" by (auto simp: proc_ok_def configIsManaged_def)
    then show "proc_ok (markFile env inst w) n cur" using mark_frame [of env inst w "confName n"]
      by (intro proc_ok_cong [OF _ _ ok]) simp_all
  qed
qed

end
