(* ===== verification/Awg_Reconcile.thy ===== *)
theory Awg_Reconcile
  imports Awg_Manager
begin

text \<open>
  What the operations of the manager achieve: the states it can reach and what holds in all of them, which files and
  interfaces of others \<open>Reconcile\<close> leaves alone, and that it reaches the desired interfaces when the host lets it.
\<close>

section \<open>Entries are unique\<close>

definition mgr_ok :: "world \<Rightarrow> bool" where
  "mgr_ok w \<longleftrightarrow> distinct (map fst (wProcs w)) \<and> mgr_inv w"

lemma start_distinct: "distinct (map fst (wProcs w)) \<Longrightarrow> startLocked env inst conf w = (e, w') \<Longrightarrow> distinct (map fst (wProcs w'))"
  by (auto simp: startLocked_def distinct_update dest!: write_frame Start_frame split: prod.splits bool.splits)

lemma keep_distinct: "distinct (map fst (wProcs w)) \<Longrightarrow> keepLocked env inst cur conf w = (e, w') \<Longrightarrow> distinct (map fst (wProcs w'))"
  by (auto simp: keepLocked_def Let_def set_proc_def distinct_update dest!: sync_frame split: option.splits if_splits prod.splits)

lemma ensure_distinct: "distinct (map fst (wProcs w)) \<Longrightarrow> ensureLocked env inst w = (e, w') \<Longrightarrow> distinct (map fst (wProcs w'))"
  by (erule ensure_cases) (auto dest: start_distinct keep_distinct intro: start_distinct [rotated] simp: distinct_delete)

lemma ok_entry: "mgr_ok w \<Longrightarrow> p \<in> set (wProcs w) \<Longrightarrow> mgIfname (snd p) = ifnameFor (fst p)"
  by (cases p) (auto simp: mgr_ok_def intro: inv_ifname map_of_is_SomeI)

lemma ensure_ok: "mgr_ok w \<Longrightarrow> wf_instance inst \<Longrightarrow> ensureLocked env inst w = (e, w') \<Longrightarrow> mgr_ok w'"
  by (auto simp: mgr_ok_def dest: ensure_distinct ensureLocked_inv)

lemma repairs_ok: "mgr_ok w \<Longrightarrow> mgr_ok (repairs inst w)"
  by (simp add: mgr_ok_def repairs_inv)

lemma ensureOne_ok: "mgr_ok w \<Longrightarrow> wf_instance inst \<Longrightarrow> mgr_ok (ensureOne env inst w)"
proof -
  assume i: "mgr_ok w" "wf_instance inst"
  obtain e w' where l: "ensureLocked env inst w = (e, w')" by fastforce
  show ?thesis using ensure_ok [OF i l] repairs_ok by (simp add: ensureOne_def l split: option.split)
qed

lemma sweep_ok: "mgr_ok w \<Longrightarrow> mgr_ok (sweepOrphansLocked env w)"
  by (simp add: mgr_ok_def sweep_orphans_inv sweep_orphans_frame)

lemma Ensure_ok: "mgr_ok w \<Longrightarrow> wf_instance inst \<Longrightarrow> mgr_ok (snd (mgr_Ensure env inst w))"
proof -
  assume i: "mgr_ok w" "wf_instance inst"
  obtain e w' where l: "ensureLocked env inst (sweepOrphansLocked env w) = (e, w')" by fastforce
  show ?thesis using ensure_ok [OF sweep_ok [OF i(1)] i(2) l] repairs_ok i(1)
    by (simp add: mgr_Ensure_def l split: option.split)
qed

lemma Remove_ok: "mgr_ok w \<Longrightarrow> mgr_ok (mgr_Remove env n w)"
  by (auto simp: mgr_ok_def remove_inv) (auto simp: mgr_Remove_def Let_def distinct_delete split: option.split)

text \<open>The entries that are dropped are those of the state the loop starts in.\<close>

definition drop_all :: "environment \<Rightarrow> (int \<times> managed) list \<Rightarrow> world \<Rightarrow> world" where
  "drop_all env ps w = fold (dropUnwanted env) ps w"

lemma drop_all_ok: "mgr_ok w \<Longrightarrow> (\<And>p. p \<in> set ps \<Longrightarrow> mgIfname (snd p) = ifnameFor (fst p)) \<Longrightarrow> mgr_ok (drop_all env ps w)"
proof -
  assume w: "mgr_ok w" and n: "\<And>p. p \<in> set ps \<Longrightarrow> mgIfname (snd p) = ifnameFor (fst p)"
  show ?thesis unfolding drop_all_def
  proof (rule fold_keeps [where P = mgr_ok])
    fix p v assume p: "p \<in> set ps" and v: "mgr_ok v"
    from v drop_inv [OF _ n [OF p], of v env] show "mgr_ok (dropUnwanted env p v)"
      by (simp add: mgr_ok_def drop_frame(1) distinct_delete)
  qed (fact w)
qed

lemma drop_all_procs: "map_of (wProcs (drop_all env ps w)) n = (if n \<in> fst ` set ps then None else map_of (wProcs w) n)"
  by (induction ps arbitrary: w) (auto simp: drop_all_def drop_frame delete_conv')

lemma drop_all_files: "map_of (wFiles (drop_all env ps w)) k = (if \<exists>n \<in> fst ` set ps. k = confName n then None else map_of (wFiles w) k)"
  by (induction ps arbitrary: w) (auto simp: drop_all_def drop_frame)

lemma drop_all_links: "(\<And>p. p \<in> set ps \<Longrightarrow> mgIfname (snd p) \<noteq> i) \<Longrightarrow> map_of (wLinks (drop_all env ps w)) i = map_of (wLinks w) i"
proof (induction ps arbitrary: w)
  case (Cons p ps)
  have "mgIfname (snd p) \<noteq> i" by (rule Cons.prems) simp
  from drop_frame(3) [OF this [symmetric], of env w] Cons.IH [of "dropUnwanted env p w"] Cons.prems
  show ?case by (simp add: drop_all_def)
qed (simp add: drop_all_def)

lemma drop_all_shrinks: "map_of (wLinks (drop_all env ps w)) i = Some c \<Longrightarrow> map_of (wLinks w) i = Some c"
proof (induction ps arbitrary: w)
  case (Cons p ps)
  then show ?case using drop_frame(4) [of env p w i c] by (simp add: drop_all_def)
qed (simp add: drop_all_def)

definition before_ensure :: "environment \<Rightarrow> kernel_instance list \<Rightarrow> world \<Rightarrow> world" where
  "before_ensure env desired w =
     (let w = sweepOrphansLocked env w; want = map kId desired
      in fold (markFile env) desired (sweepOrphanInboundConfigs env want (drop_all env (filter (\<lambda>p. fst p \<notin> set want) (wProcs w)) w)))"

lemma Reconcile_phases: "mgr_Reconcile env desired w = (if evPaused env then w else fold (ensureOne env) desired (before_ensure env desired w))"
  by (simp add: mgr_Reconcile_def before_ensure_def drop_all_def Let_def)

lemma sweep_files_frame: "wProcs (sweepOrphanInboundConfigs env want w) = wProcs w \<and> wLinks (sweepOrphanInboundConfigs env want w) = wLinks w"
  unfolding sweepOrphanInboundConfigs_def by (rule fold_keeps) (simp_all add: sweep_file_frame)

lemma mark_all_frame: "wProcs (fold (markFile env) xs w) = wProcs w \<and> wLinks (fold (markFile env) xs w) = wLinks w"
  by (rule fold_keeps) (simp_all add: mark_frame)

text \<open>Before the desired interfaces are brought up, the entries are those that are wanted.\<close>

lemma before_ok:
  assumes "mgr_ok w"
  shows "mgr_ok (before_ensure env desired w)"
    and "map_of (wProcs (before_ensure env desired w)) n = (if n \<in> kId ` set desired then map_of (wProcs w) n else None)"
proof -
  let ?w = "sweepOrphansLocked env w" and ?ps = "filter (\<lambda>p. fst p \<notin> kId ` set desired) (wProcs (sweepOrphansLocked env w))"
  let ?d = "drop_all env ?ps ?w" and ?want = "map kId desired"
  have d: "mgr_ok ?d" by (rule drop_all_ok) (use sweep_ok [OF assms] ok_entry [OF assms] in \<open>simp_all add: sweep_orphans_frame\<close>)
  have p: "map_of (wProcs ?d) n = (if n \<in> kId ` set desired then map_of (wProcs w) n else None)" for n
    by (auto simp: drop_all_procs sweep_orphans_frame map_of_eq_None_iff image_iff)
  have "mgr_inv (sweepOrphanInboundConfigs env ?want ?d)"
    by (rule conjunct1, rule sweep_files_inv) (use d p in \<open>auto simp: mgr_ok_def split: if_splits\<close>)
  then have s: "mgr_ok (sweepOrphanInboundConfigs env ?want ?d)" using d by (simp add: mgr_ok_def sweep_files_frame)
  have "mgr_ok (fold (markFile env) desired (sweepOrphanInboundConfigs env ?want ?d))"
    by (rule fold_keeps [where P = mgr_ok]) (use s in \<open>simp_all add: mgr_ok_def mark_frame mark_inv\<close>)
  then show "mgr_ok (before_ensure env desired w)" by (simp add: before_ensure_def Let_def)
  show "map_of (wProcs (before_ensure env desired w)) n = (if n \<in> kId ` set desired then map_of (wProcs w) n else None)"
    using p by (simp add: before_ensure_def Let_def mark_all_frame sweep_files_frame)
qed

lemma Reconcile_ok: "mgr_ok w \<Longrightarrow> (\<And>inst. inst \<in> set desired \<Longrightarrow> wf_instance inst) \<Longrightarrow> mgr_ok (mgr_Reconcile env desired w)"
proof -
  assume w: "mgr_ok w" and d: "\<And>inst. inst \<in> set desired \<Longrightarrow> wf_instance inst"
  have "mgr_ok (fold (ensureOne env) desired (before_ensure env desired w))"
    by (rule fold_keeps [where P = mgr_ok]) (rule before_ok(1) [OF w] ensureOne_ok [OF _ d], assumption?)+
  with w show ?thesis by (simp add: Reconcile_phases)
qed

lemma StopAll_ok:
  assumes "mgr_ok w"
  shows "mgr_ok (mgr_StopAll env w)"
proof -
  show ?thesis unfolding mgr_StopAll_def
  proof (rule fold_keeps [where P = mgr_ok])
    fix p v assume p: "p \<in> set (wProcs w)" and v: "mgr_ok v"
    have nm: "mgIfname (snd p) = ifnameFor (fst p)" by (rule ok_entry [OF assms p])
    show "mgr_ok ((discardConfig env (fst p) (Stop env (fst p) (mgIfname (snd p)) v))\<lparr>wProcs := AList.delete (fst p) (wProcs v)\<rparr>)"
      using v by (auto simp: mgr_ok_def distinct_delete delete_conv' Stop_links nm intro!: inv_one [of v "fst p"])
  qed (fact assms)
qed

section \<open>The states the manager can reach\<close>

text \<open>
  A panel starts without entries on a host with any files and interfaces. Its operations run with any outcome of their
  calls; an interface may go down at any moment, and others may write and remove files and interfaces, but not those of
  an entry.
\<close>

inductive mgr_reach :: "world \<Rightarrow> bool" where
  start: "wProcs w = [] \<Longrightarrow> mgr_reach w"
| Ensure: "mgr_reach w \<Longrightarrow> wf_instance inst \<Longrightarrow> mgr_reach (snd (mgr_Ensure env inst w))"
| Remove: "mgr_reach w \<Longrightarrow> mgr_reach (mgr_Remove env n w)"
| Reconcile: "mgr_reach w \<Longrightarrow> list_all wf_instance desired \<Longrightarrow> mgr_reach (mgr_Reconcile env desired w)"
| StopAll: "mgr_reach w \<Longrightarrow> mgr_reach (mgr_StopAll env w)"
| link_lost: "mgr_reach w \<Longrightarrow> mgr_reach (w\<lparr>wLinks := AList.delete i (wLinks w)\<rparr>)"
| others: "mgr_reach w \<Longrightarrow> list_all (\<lambda>(n, _). map_of fs (confName n) = map_of (wFiles w) (confName n)
      \<and> map_of ls (ifnameFor n) = map_of (wLinks w) (ifnameFor n)) (wProcs w) \<Longrightarrow> mgr_reach (w\<lparr>wFiles := fs, wLinks := ls\<rparr>)"

inductive_cases mgr_reachE: "mgr_reach w"

lemma reach_ok: "mgr_reach w \<Longrightarrow> mgr_ok w"
proof (induction rule: mgr_reach.induct)
  case (Reconcile w desired env)
  then show ?case by (intro Reconcile_ok) (simp_all add: list_all_iff)
next
  case (link_lost w i)
  then show ?case by (auto simp: mgr_ok_def delete_conv' intro!: inv_links [of w] split: if_splits)
next
  case (others w fs ls)
  show ?case unfolding mgr_ok_def mgr_inv_def
  proof (intro conjI allI impI)
    fix n cur assume p: "map_of (wProcs (w\<lparr>wFiles := fs, wLinks := ls\<rparr>)) n = Some cur"
    then have "proc_ok w n cur" using others.IH by (simp add: mgr_ok_def mgr_inv_def)
    moreover have "map_of fs (confName n) = map_of (wFiles w) (confName n)" "map_of ls (ifnameFor n) = map_of (wLinks w) (ifnameFor n)"
      using p others.hyps(2) by (auto simp: list_all_iff dest!: map_of_SomeD)
    ultimately show "proc_ok (w\<lparr>wFiles := fs, wLinks := ls\<rparr>) n cur" by (simp add: proc_ok_def)
  qed (use others.IH in \<open>simp add: mgr_ok_def\<close>)
qed (simp_all add: Ensure_ok Remove_ok StopAll_ok, simp add: mgr_ok_def mgr_inv_def)

section \<open>What the loops leave alone\<close>

lemma ensure_all_frame:
  assumes "mgr_ok w" "\<And>inst. inst \<in> set desired \<Longrightarrow> wf_instance inst"
  shows "(k \<notin> confName ` kId ` set desired \<longrightarrow> map_of (wFiles (fold (ensureOne env) desired w)) k = map_of (wFiles w) k)
    \<and> (i \<notin> ifnameFor ` kId ` set desired \<longrightarrow> map_of (wLinks (fold (ensureOne env) desired w)) i = map_of (wLinks w) i)
    \<and> (n \<notin> kId ` set desired \<longrightarrow> map_of (wProcs (fold (ensureOne env) desired w)) n = map_of (wProcs w) n)"
  using assms
proof (induction desired arbitrary: w)
  case (Cons inst desired)
  have wf: "kIfname inst = ifnameFor (kId inst)" using Cons.prems(2) [of inst] by (simp add: wf_instance_def)
  have "\<And>cur. map_of (wProcs w) (kId inst) = Some cur \<Longrightarrow> mgIfname cur = kIfname inst"
    using Cons.prems(1) wf by (auto simp: mgr_ok_def dest: inv_ifname)
  from ensure_one_frame [OF this, where name = k and i = i and n = n and env = env]
    Cons.IH [OF ensureOne_ok [OF Cons.prems(1)], of inst env] Cons.prems(2) wf
  show ?case by simp
qed simp

lemma sweep_files_keeps:
  assumes "map_of (wFiles w) k = Some c" "\<not> managed_text c \<or> (\<forall>n. parseInboundConfName k = Some n \<longrightarrow> n \<in> set want)"
  shows "map_of (wFiles (sweepOrphanInboundConfigs env want w)) k = Some c"
  unfolding sweepOrphanInboundConfigs_def
  by (rule fold_keeps [where P = "\<lambda>w. map_of (wFiles w) k = Some c"]) (use assms sweep_file_frame(4) in blast)+

lemma mark_all_files: "k \<notin> confName ` kId ` set xs \<Longrightarrow> map_of (wFiles (fold (markFile env) xs w)) k = map_of (wFiles w) k"
proof (induction xs arbitrary: w)
  case (Cons inst xs)
  then show ?case using mark_frame [of env inst w k] by simp
qed simp

lemma before_files:
  assumes "map_of (wFiles w) k = Some c" "\<not> managed_text c" "\<And>n. k = confName n \<Longrightarrow> n \<notin> kId ` set desired \<and> map_of (wProcs w) n = None"
  shows "map_of (wFiles (before_ensure env desired w)) k = Some c"
proof -
  let ?w = "sweepOrphansLocked env w" and ?ps = "filter (\<lambda>p. fst p \<notin> kId ` set desired) (wProcs (sweepOrphansLocked env w))"
  have "n \<notin> fst ` set ?ps" if "k = confName n" for n
    using assms(3) [OF that] by (auto simp: sweep_orphans_frame map_of_eq_None_iff)
  then have "\<not> (\<exists>n \<in> fst ` set ?ps. k = confName n)" by blast
  then have "map_of (wFiles (drop_all env ?ps ?w)) k = Some c"
    using assms(1) unfolding drop_all_files by (simp only: if_False sweep_orphans_frame)
  from sweep_files_keeps [OF this, of "map kId desired" env] assms(2)
  have "map_of (wFiles (sweepOrphanInboundConfigs env (map kId desired) (drop_all env ?ps ?w))) k = Some c" by blast
  moreover have "k \<notin> confName ` kId ` set desired" using assms(3) by auto
  ultimately show ?thesis by (simp add: before_ensure_def Let_def mark_all_files)
qed

lemma before_links: "wLinks (before_ensure env desired w) =
    wLinks (drop_all env (filter (\<lambda>p. fst p \<notin> kId ` set desired) (wProcs w)) (sweepOrphansLocked env w))"
  by (simp add: before_ensure_def Let_def mark_all_frame sweep_files_frame sweep_orphans_frame)

lemma before_shrinks: "map_of (wLinks w) i = None \<Longrightarrow> map_of (wLinks (before_ensure env desired w)) i = None"
  using sweep_orphans_frame(3) [of env w i] drop_all_shrinks unfolding before_links by (metis not_None_eq)

lemma before_keeps_link:
  assumes "mgr_ok w" "\<not> configIsManaged w (i @ ''.conf'')" "\<And>n. i = ifnameFor n \<Longrightarrow> map_of (wProcs w) n = None"
  shows "map_of (wLinks (before_ensure env desired w)) i = map_of (wLinks w) i"
proof -
  have "mgIfname (snd p) \<noteq> i" if "p \<in> set (filter (\<lambda>p. fst p \<notin> kId ` set desired) (wProcs w))" for p
    using that ok_entry [OF assms(1), of p] assms(3) [of "fst p"] by (auto simp: map_of_eq_None_iff)
  from drop_all_links [OF this, of _ env "sweepOrphansLocked env w"] show ?thesis
    using sweep_orphans_frame(3) [of env w i] assms(2) unfolding before_links by metis
qed

section \<open>Bringing the interfaces up\<close>

text \<open>Every call of the host succeeds.\<close>

definition willing :: "environment \<Rightarrow> bool" where
  "willing env \<longleftrightarrow> \<not> evPaused env \<and> (\<forall>x. evWrite env x \<and> evBackup env x \<and> evUp env x \<and> evDown env x \<and> evDel env x \<and> evSync env x)"

lemma start_succeeds: "willing env \<Longrightarrow> kIfname inst = ifnameFor (kId inst) \<Longrightarrow> map_of (wLinks w) (kIfname inst) = None \<Longrightarrow>
    fst (startLocked env inst conf w) = None"
  by (simp add: willing_def startLocked_def writeServerConfig_def Start_def IsRunning_def)

lemma ensure_succeeds:
  assumes "willing env" "mgr_ok w" "wf_instance inst" "UsesTproxy inst \<Longrightarrow> validateTproxy inst = None"
    and "map_of (wProcs w) (kId inst) = None \<Longrightarrow> map_of (wLinks w) (kIfname inst) = None"
  shows "fst (ensureLocked env inst w) = None"
proof -
  have wf: "kIfname inst = ifnameFor (kId inst)" using assms(3) by (simp add: wf_instance_def)
  show ?thesis
  proof (cases "map_of (wProcs w) (kId inst)")
    case None
    then show ?thesis using assms(4,5) start_succeeds [OF assms(1) wf] by (simp add: ensureLocked_def Let_def)
  next
    case (Some cur)
    then have nm: "mgIfname cur = kIfname inst" using assms(2) wf by (auto simp: mgr_ok_def dest: inv_ifname)
    have "map_of (wLinks ((Stop env (kId inst) (mgIfname cur) w)\<lparr>wProcs := AList.delete (kId inst) (wProcs w)\<rparr>)) (kIfname inst) = None"
      using assms(1) wf by (simp add: Stop_links nm willing_def)
    note stopped = start_succeeds [OF assms(1) wf this]
    have "fst (keepLocked env inst cur conf w) = None" for conf
      using assms(1) by (auto simp: keepLocked_def syncPeersLocked_def writeServerConfig_def willing_def Let_def split: option.split)
    then show ?thesis using assms(4) stopped Some by (simp add: ensureLocked_def Let_def)
  qed
qed

lemma ensure_one_up:
  assumes "willing env" "mgr_ok w" "wf_instance inst" "UsesTproxy inst \<Longrightarrow> validateTproxy inst = None"
    and "map_of (wProcs w) (kId inst) = None \<Longrightarrow> map_of (wLinks w) (kIfname inst) = None"
  shows "map_of (wProcs (ensureOne env inst w)) (kId inst) \<noteq> None
    \<and> map_of (wLinks (ensureOne env inst w)) (kIfname inst) = Some (renderServerConf (evHost env) inst)"
proof -
  obtain e w' where l: "ensureLocked env inst w = (e, w')" by fastforce
  have e: "e = None" using ensure_succeeds [OF assms] l by simp
  have "mgr_inv w" using assms(2) by (simp add: mgr_ok_def)
  from ensure_result(2) [OF l this assms(3) e] show ?thesis by (simp add: ensureOne_def l e)
qed

definition desirable :: "kernel_instance list \<Rightarrow> bool" where
  "desirable desired \<longleftrightarrow> distinct (map kId desired)
     \<and> list_all (\<lambda>inst. wf_instance inst \<and> (UsesTproxy inst \<longrightarrow> validateTproxy inst = None)) desired"

lemma ensure_all_up:
  assumes "willing env" "mgr_ok w" "desirable desired"
    and "\<And>inst. inst \<in> set desired \<Longrightarrow> map_of (wProcs w) (kId inst) = None \<Longrightarrow> map_of (wLinks w) (kIfname inst) = None"
    and "inst \<in> set desired"
  shows "map_of (wProcs (fold (ensureOne env) desired w)) (kId inst) \<noteq> None
    \<and> map_of (wLinks (fold (ensureOne env) desired w)) (kIfname inst) = Some (renderServerConf (evHost env) inst)"
  using assms(2-)
proof (induction desired arbitrary: w)
  case (Cons d ds)
  have wf: "wf_instance d" "\<And>j. j \<in> set ds \<Longrightarrow> wf_instance j" "desirable ds"
    and t: "UsesTproxy d \<Longrightarrow> validateTproxy d = None" and dist: "kId d \<notin> kId ` set ds"
    using Cons.prems(2) by (auto simp: desirable_def list_all_iff)
  have ifn: "\<And>j. j \<in> set (d # ds) \<Longrightarrow> kIfname j = ifnameFor (kId j)" using wf by (auto simp: wf_instance_def)
  have ok: "mgr_ok (ensureOne env d w)" by (rule ensureOne_ok [OF Cons.prems(1) wf(1)])
  have nm: "\<And>cur. map_of (wProcs w) (kId d) = Some cur \<Longrightarrow> mgIfname cur = kIfname d"
    using Cons.prems(1) ifn [of d] by (auto simp: mgr_ok_def dest: inv_ifname)
  have up: "map_of (wProcs (ensureOne env d w)) (kId d) \<noteq> None
      \<and> map_of (wLinks (ensureOne env d w)) (kIfname d) = Some (renderServerConf (evHost env) d)"
    by (rule ensure_one_up [OF assms(1) Cons.prems(1) wf(1) t Cons.prems(3) [of d]]) simp_all
  show ?case
  proof (cases "inst = d")
    case True
    have "ifnameFor (kId d) \<notin> ifnameFor ` kId ` set ds" using dist by auto
    then show ?thesis using True up ensure_all_frame [OF ok wf(2), of ds "[]" env "kIfname d" "kId d"] dist ifn [of d] by simp
  next
    case False
    then have i: "inst \<in> set ds" using Cons.prems(4) by simp
    have "map_of (wLinks (ensureOne env d w)) (kIfname j) = None" if j: "j \<in> set ds" "map_of (wProcs (ensureOne env d w)) (kId j) = None" for j
    proof -
      have "kId j \<noteq> kId d" using j(1) dist by (metis imageI)
      then have ne: "kIfname j \<noteq> kIfname d" using ifn j(1) by simp
      have "map_of (wProcs w) (kId j) = None"
        using j(2) ensure_one_frame [OF nm, where env = env and n = "kId j"] \<open>kId j \<noteq> kId d\<close> by simp
      then have "map_of (wLinks w) (kIfname j) = None" by (rule Cons.prems(3) [rotated]) (simp add: j(1))
      then show ?thesis using ne ensure_one_frame [OF nm, where env = env and i = "kIfname j"] by simp
    qed
    then show ?thesis using Cons.IH [OF ok wf(3) _ i] by simp
  qed
qed simp

text \<open>An interface that no entry stands for is down, or a marked file shows that an earlier run of the panel left it.\<close>

definition startable :: "world \<Rightarrow> kernel_instance \<Rightarrow> bool" where
  "startable w inst \<longleftrightarrow> map_of (wProcs w) (kId inst) \<noteq> None \<or> map_of (wLinks w) (kIfname inst) = None
     \<or> \<not> wSwept w \<and> 0 \<le> kId inst \<and> configIsManaged w (confName (kId inst))"

lemma stray_killed:
  assumes "isInboundAwgInterface name" "configIsManaged w (name @ ''.conf'')" "evDel env name" "name \<in> set names"
  shows "map_of (wLinks (fold (killOne env) names w)) name = None"
  using assms(2,4)
proof (induction names arbitrary: w)
  case (Cons m ms)
  have m: "configIsManaged (killOne env m w) (name @ ''.conf'')"
    using Cons.prems(1) kill_one_frame(2) [of env m w] by (simp add: configIsManaged_def)
  show ?case
  proof (cases "name \<in> set ms")
    case True
    then show ?thesis using Cons.IH [OF m] by simp
  next
    case False
    then have "name = m" using Cons.prems(2) by simp
    have "map_of (wLinks (fold (killOne env) ms v)) name = None" if "map_of (wLinks v) name = None" for v
      by (rule fold_keeps [where P = "\<lambda>v. map_of (wLinks v) name = None"]) (use that in \<open>simp_all add: kill_one_frame(3)\<close>)
    then show ?thesis using assms(1,3) Cons.prems(1) \<open>name = m\<close> by (simp add: kill_one_frame(3))
  qed
qed simp

lemma inbound_ifname: "0 \<le> n \<Longrightarrow> isInboundAwgInterface (ifnameFor n)"
proof -
  assume n: "0 \<le> n"
  have "list_all is_digit (itoa n)" "itoa n \<noteq> []" using n itoa_nat_digits [of "nat n"] by (simp_all add: itoa_def)
  then show ?thesis by (cases "itoa n") (simp_all add: isInboundAwgInterface_def ifnameFor_def)
qed

lemma startable_swept:
  assumes "willing env" "wf_instance inst" "startable w inst" "map_of (wProcs w) (kId inst) = None"
  shows "map_of (wLinks (sweepOrphansLocked env w)) (kIfname inst) = None"
proof (cases "map_of (wLinks w) (kIfname inst) = None")
  case True
  then show ?thesis using sweep_orphans_frame(3) [of env w "kIfname inst"] by auto
next
  case False
  have ifn: "kIfname inst = ifnameFor (kId inst)" using assms(2) by (simp add: wf_instance_def)
  have f: "\<not> wSwept w" "0 \<le> kId inst" "configIsManaged w (confName (kId inst))"
    using assms(3,4) False unfolding startable_def by metis+
  have "map_of (wLinks (fold (killOne env) (map fst (wLinks w)) (w\<lparr>wSwept := True\<rparr>))) (ifnameFor (kId inst)) = None"
  proof (rule stray_killed)
    show "configIsManaged (w\<lparr>wSwept := True\<rparr>) (ifnameFor (kId inst) @ ''.conf'')" using f by (simp add: confName_def)
    show "ifnameFor (kId inst) \<in> set (map fst (wLinks w))" using False ifn by (simp add: map_of_eq_None_iff)
  qed (use f inbound_ifname assms(1) in \<open>simp_all add: willing_def\<close>)
  then show ?thesis using f ifn by (simp add: sweepOrphansLocked_def killStrayAwgInterfaces_def)
qed

lemma startable_before:
  assumes "willing env" "wf_instance inst" "inst \<in> set desired" "startable w inst" "map_of (wProcs (before_ensure env desired w)) (kId inst) = None"
    and "mgr_ok w"
  shows "map_of (wLinks (before_ensure env desired w)) (kIfname inst) = None"
proof -
  have "map_of (wProcs w) (kId inst) = None" using assms(3,5) before_ok(2) [OF assms(6), of env desired "kId inst"] by auto
  from startable_swept [OF assms(1,2,4) this] show ?thesis unfolding before_links using drop_all_shrinks by (metis not_None_eq)
qed

lemma drop_all_down:
  assumes "willing env" "p \<in> set ps" "\<And>p. p \<in> set ps \<Longrightarrow> mgIfname (snd p) = ifnameFor (fst p)"
  shows "map_of (wLinks (drop_all env ps w)) (ifnameFor (fst p)) = None"
  using assms(2,3)
proof (induction ps arbitrary: w)
  case (Cons q ps)
  have q: "mgIfname (snd q) = ifnameFor (fst q)" by (rule Cons.prems(2)) simp
  show ?case
  proof (cases "p \<in> set ps")
    case True
    then show ?thesis using Cons.IH Cons.prems(2) by (simp add: drop_all_def)
  next
    case False
    then have "map_of (wLinks (dropUnwanted env q w)) (ifnameFor (fst p)) = None"
      using Cons.prems(1) q assms(1) by (simp add: dropUnwanted_def Stop_links willing_def)
    then show ?thesis using drop_all_shrinks [of env ps "dropUnwanted env q w" "ifnameFor (fst p)"]
      by (cases "map_of (wLinks (drop_all env ps (dropUnwanted env q w))) (ifnameFor (fst p))") (simp_all add: drop_all_def)
  qed
qed simp

lemma before_down:
  assumes "willing env" "mgr_ok w" "map_of (wProcs w) n = Some cur" "n \<notin> kId ` set desired"
  shows "map_of (wLinks (before_ensure env desired w)) (ifnameFor n) = None"
  unfolding before_links
  by (rule drop_all_down [OF assms(1), where p = "(n, cur)", simplified])
    (use assms(3,4) ok_entry [OF assms(2)] in \<open>auto dest: map_of_SomeD\<close>)

lemma Reconcile_reaches:
  assumes "mgr_reach w" "desirable desired" "willing env" "list_all (startable w) desired"
  shows "(map_of (wProcs (mgr_Reconcile env desired w)) n \<noteq> None \<longleftrightarrow> n \<in> kId ` set desired)
    \<and> (\<forall>inst \<in> set desired. map_of (wLinks (mgr_Reconcile env desired w)) (kIfname inst) = Some (renderServerConf (evHost env) inst))
    \<and> (map_of (wProcs w) n \<noteq> None \<and> n \<notin> kId ` set desired \<longrightarrow> map_of (wLinks (mgr_Reconcile env desired w)) (ifnameFor n) = None)"
proof -
  let ?b = "before_ensure env desired w"
  have ok: "mgr_ok w" by (rule reach_ok [OF assms(1)])
  have wf: "\<And>inst. inst \<in> set desired \<Longrightarrow> wf_instance inst" using assms(2) by (auto simp: desirable_def list_all_iff)
  have r: "mgr_Reconcile env desired w = fold (ensureOne env) desired ?b" using assms(3) by (simp add: Reconcile_phases willing_def)
  note f = ensure_all_frame [OF before_ok(1) [OF ok, of env desired] wf, of desired "[]" env "ifnameFor n" n]
  have up: "map_of (wProcs (fold (ensureOne env) desired ?b)) (kId inst) \<noteq> None
      \<and> map_of (wLinks (fold (ensureOne env) desired ?b)) (kIfname inst) = Some (renderServerConf (evHost env) inst)"
    if "inst \<in> set desired" for inst
    by (rule ensure_all_up [OF assms(3) before_ok(1) [OF ok] assms(2) _ that], rule startable_before [OF assms(3) wf _ _ _ ok])
      (use assms(4) in \<open>auto simp: list_all_iff\<close>)
  have down: "map_of (wLinks ?b) (ifnameFor n) = None" if "map_of (wProcs w) n \<noteq> None" "n \<notin> kId ` set desired"
    using that before_down [OF assms(3) ok] by auto
  show ?thesis unfolding r using f up down before_ok(2) [OF ok, of env desired n] by auto
qed

section \<open>An example host\<close>

text \<open>The host has a file and an interface of another tool, and the interface of an earlier run of the panel.\<close>

definition obliging :: environment where
  "obliging = \<lparr>evPaused = False, evWrite = \<lambda>_. True, evBackup = \<lambda>_. True, evUp = \<lambda>_. True, evDown = \<lambda>_. True,
     evDel = \<lambda>_. True, evSync = \<lambda>_. True, evHost = example_host\<rparr>"

definition example_world :: world where
  "example_world = \<lparr>wProcs = [], wSwept = False,
     wFiles = [(''awg9.conf'', ''[Interface]''), (''awg3.conf'', xuiManagedMarker)], wBackups = [],
     wLinks = [(''awg9'', ''[Interface]''), (''awg3'', ''old'')], wCalls = []\<rparr>"

lemma example_reach: "mgr_reach example_world"
  by (rule mgr_reach.start) (simp add: example_world_def)

lemma example_server_wf: "wf_instance example_server" "kId example_server = 3" "kIfname example_server = ''awg3''" "\<not> UsesTproxy example_server"
proof -
  have "ifnameFor 3 = ''awg3''" by code_simp
  then show "wf_instance example_server"
    by (simp add: wf_instance_def bar_free_def peer_fields_def example_server_def example_kernel_def)
qed (simp_all add: example_server_def example_kernel_def UsesTproxy_def)

lemma example_names: "ifnameFor 3 = ''awg3''" "confName 3 = ''awg3.conf''" "(''awg9'' = ifnameFor n) = (n = 9)"
proof -
  have "ifnameFor 9 = ''awg9''" by code_simp
  then show "(''awg9'' = ifnameFor n) = (n = 9)" by (metis ifname_inject)
qed (code_simp, code_simp)

lemma example_ready: "desirable [example_server]" "willing obliging" "list_all (startable example_world) [example_server]"
  using example_server_wf
  by (simp_all add: desirable_def willing_def obliging_def startable_def example_world_def configIsManaged_def managed_text_def example_names)

definition reconciled :: world where
  "reconciled = mgr_Reconcile obliging [example_server] example_world"

lemma reconciled_reach: "mgr_reach reconciled"
  unfolding reconciled_def by (rule mgr_reach.Reconcile [OF example_reach]) (simp add: example_server_wf)

lemma reconciled_entry: "\<exists>cur. map_of (wProcs reconciled) 3 = Some cur"
proof -
  have "map_of (wProcs (fold (ensureOne obliging) [example_server] (before_ensure obliging [example_server] example_world))) (kId example_server) \<noteq> None"
    by (rule conjunct1, rule ensure_all_up [OF example_ready(2) before_ok(1) [OF reach_ok [OF example_reach]] example_ready(1)],
        rule startable_before [OF example_ready(2) _ _ _ _ reach_ok [OF example_reach]])
      (use example_server_wf example_ready in auto)
  then show ?thesis by (auto simp: reconciled_def Reconcile_phases obliging_def example_server_wf)
qed

section \<open>Properties\<close>





text \<open>When the calls of the host succeed, \<open>Reconcile\<close> reaches the desired interfaces, also after a restart of the panel
  that left the old ones running: the entries are those of the desired inbounds, each desired interface runs the file
  rendered for it, and an interface that is no longer desired is down.\<close>

theorem kernel_Reconcile_converges:
  assumes "mgr_reach w" "desirable desired" "willing env" "list_all (startable w) desired"
  shows "(map_of (wProcs (mgr_Reconcile env desired w)) n \<noteq> None \<longleftrightarrow> n \<in> kId ` set desired)
    \<and> (\<forall>inst \<in> set desired. map_of (wLinks (mgr_Reconcile env desired w)) (kIfname inst) = Some (renderServerConf (evHost env) inst))
    \<and> (map_of (wProcs w) n \<noteq> None \<and> n \<notin> kId ` set desired \<longrightarrow> map_of (wLinks (mgr_Reconcile env desired w)) (ifnameFor n) = None)"
  by (rule Reconcile_reaches [OF assms])

theorem kernel_Reconcile_converges_witness:
  "map_of (wLinks (mgr_Reconcile obliging [example_server] example_world)) ''awg3'' = Some (renderServerConf example_host example_server)"
  using kernel_Reconcile_converges [OF example_reach example_ready, of 3] by (simp add: example_server_wf obliging_def)

text \<open>\<open>Remove\<close> leaves no entry, no file and, when \<open>awg-quick down\<close> succeeds, no interface of the inbound, and nothing else
  changes; the content of the file is in the backups unless it could not be moved. It does not look at the marker.\<close>

theorem Remove_complete:
  assumes "mgr_reach w"
  shows "map_of (wProcs (mgr_Remove env n w)) = (map_of (wProcs w))(n := None)
    \<and> map_of (wFiles (mgr_Remove env n w)) = (map_of (wFiles w))(confName n := None)
    \<and> map_of (wLinks (mgr_Remove env n w)) i = (if i = ifnameFor n \<and> map_of (wProcs w) n \<noteq> None \<and> evDown env i then None else map_of (wLinks w) i)
    \<and> wBackups (mgr_Remove env n w) = wBackups w @ (case map_of (wFiles w) (confName n) of
           Some c \<Rightarrow> if evBackup env (confName n) then [(confName n, c)] else [] | None \<Rightarrow> [])"
proof -
  have nm: "mgIfname cur = ifnameFor n" if "map_of (wProcs w) n = Some cur" for cur
    using reach_ok [OF assms] that by (auto simp: mgr_ok_def dest: inv_ifname)
  let ?v = "case map_of (wProcs w) n of None \<Rightarrow> w | Some cur \<Rightarrow> (Stop env n (mgIfname cur) w)\<lparr>wProcs := AList.delete n (wProcs w)\<rparr>"
  have v: "map_of (wProcs ?v) = (map_of (wProcs w))(n := None)" "wFiles ?v = wFiles w" "wBackups ?v = wBackups w"
    "map_of (wLinks ?v) i = (if i = ifnameFor n \<and> map_of (wProcs w) n \<noteq> None \<and> evDown env i then None else map_of (wLinks w) i)"
    using nm by (auto simp: delete_conv' Stop_links fun_eq_iff split: option.split)
  have b: "wBackups (discardConfig env n u) = wBackups u @ (case map_of (wFiles u) (confName n) of
      Some c \<Rightarrow> if evBackup env (confName n) then [(confName n, c)] else [] | None \<Rightarrow> [])" for u
    by (auto simp: discardConfig_def backupConfigFile_def split: option.split)
  show ?thesis unfolding mgr_Remove_def Let_def using v b by simp
qed

text \<open>The file of another tool that has the name is taken away.\<close>

theorem Remove_complete_witness:
  "map_of (wFiles example_world) ''awg9.conf'' = Some ''[Interface]'' \<and> \<not> configIsManaged example_world ''awg9.conf''
   \<and> map_of (wFiles (mgr_Remove obliging 9 example_world)) ''awg9.conf'' = None"
proof -
  have "confName 9 = ''awg9.conf''" "\<not> configIsManaged example_world ''awg9.conf''" by code_simp+
  then show ?thesis using Remove_complete [OF example_reach, of obliging 9 "[]"] by (simp add: example_world_def)
qed

end
