(* ===== verification/Awg_Job.thy ===== *)
theory Awg_Job
  imports Awg_Reconcile
begin

text \<open>
  From the stored inbounds to the kernel interfaces: what an instance derived from an inbound is, the periodic job
  (\<open>internal/web/job/awg_job.go\<close>, \<open>Run\<close>) that hands the enabled inbounds of this host to \<open>Reconcile\<close>, and the change of
  an inbound (\<open>internal/web/runtime/local.go\<close>, \<open>AddInbound\<close>, \<open>DelInbound\<close>, \<open>updateAwgInbound\<close>) as far as it concerns
  kernel AmneziaWG. Inbounds of other protocols are handed to their managers, whose outcome is an argument.
\<close>

section \<open>What an instance is\<close>

definition typed_peer :: "kpeer \<Rightarrow> bool" where
  "typed_peer p \<longleftrightarrow> kpPublicKey p \<noteq> [] \<and> trim_space (kpPublicKey p) = kpPublicKey p \<and> kpAllowedIPs p \<noteq> []"

definition typed_instance :: "inbound \<Rightarrow> kernel_instance \<Rightarrow> bool" where
  "typed_instance ib inst \<longleftrightarrow> inProtocol ib = ''awg'' \<and> kId inst = inId ib \<and> kIfname inst = ifnameFor (kId inst)
     \<and> kPrivateKey inst \<noteq> [] \<and> kMTU inst \<noteq> 0 \<and> kAwgVersion inst \<in> {''1.5'', ''2'', ''3'', ''3.1''}
     \<and> list_all typed_peer (kPeers inst)"

lemma space_prefix_strip: "space_prefix ws (strip_left ws s) = 0 \<or> strip_left ws s = []"
  by (induction ws s rule: strip_left.induct) (subst (1 2) strip_left.simps, simp)

lemma space_prefix_0: "[] \<notin> set ws \<Longrightarrow> space_prefix ws s = 0 \<longleftrightarrow> (\<forall>w \<in> set ws. \<not> prefix w s)"
proof (cases "find (\<lambda>w. prefix w s) ws")
  case None
  then show ?thesis using find_None_iff [of "\<lambda>w. prefix w s" ws] by (simp add: space_prefix_def)
next
  case (Some w)
  assume ne: "[] \<notin> set ws"
  have w: "w \<in> set ws" "prefix w s" using Some by (auto simp: find_Some_iff)
  then have "length w \<noteq> 0" using ne by auto
  with Some w show ?thesis by (auto simp: space_prefix_def)
qed

lemma trim_space_idem [simp]: "trim_space (trim_space v) = trim_space v"
proof -
  let ?l = "strip_left unicode_spaces v" and ?sp = "map rev unicode_spaces"
  let ?r = "strip_left ?sp (rev ?l)"
  have ne: "[] \<notin> set unicode_spaces" "[] \<notin> set ?sp" by (simp_all add: unicode_spaces_def)
  obtain a where "rev ?l = a @ ?r" using strip_left_suffix [of ?sp "rev ?l"] unfolding suffix_def by blast
  then have l: "?l = rev ?r @ rev a" by (metis rev_append rev_rev_ident)
  have left: "strip_left unicode_spaces (rev ?r) = rev ?r"
  proof (cases "?l = []")
    case False
    then have "\<forall>w \<in> set unicode_spaces. \<not> prefix w ?l" using space_prefix_strip ne(1) space_prefix_0 by blast
    then have "\<forall>w \<in> set unicode_spaces. \<not> prefix w (rev ?r)" using l by (metis prefix_prefix)
    then show ?thesis using ne(1) by (subst strip_left.simps) (simp add: space_prefix_0)
  next
    case True
    then have "?r = []" by (subst strip_left.simps) simp
    then show ?thesis by (subst strip_left.simps) simp
  qed
  have right: "strip_left ?sp ?r = ?r"
    using space_prefix_strip [of ?sp "rev ?l"] by (subst strip_left.simps) auto
  show ?thesis unfolding trim_space_def left rev_rev_ident right ..
qed

lemma join_ne: "xs \<noteq> [] \<Longrightarrow> hd xs \<noteq> [] \<Longrightarrow> join sep xs \<noteq> []"
  by (cases "(sep, xs)" rule: join.cases) auto

lemma kernel_peer_typed: "kernel_peer c = Some p \<Longrightarrow> typed_peer p"
proof -
  assume k: "kernel_peer c = Some p"
  have "hd (kcAllowedIPs c) \<noteq> []" if "trim_space (hd (kcAllowedIPs c)) \<noteq> []" using that by auto
  then show ?thesis using k join_ne [of "kcAllowedIPs c" "'', ''"]
    by (auto simp: kernel_peer_def typed_peer_def Let_def split: if_splits)
qed

lemma normal_version: "NormalizeAWGVersion v \<in> {''1.5'', ''2'', ''3'', ''3.1''}"
  by (simp add: NormalizeAWGVersion_def)

lemma instance_typed: "KernelInstanceFromInbound ib = Some inst \<Longrightarrow> typed_instance ib inst"
proof -
  assume k: "KernelInstanceFromInbound ib = Some inst"
  obtain ok s where u: "Unmarshal (s_struct ksettings_fields) zero_ksettings (inSettings ib) = (ok, s)" by fastforce
  have peers: "list_all typed_peer (List.map_filter kernel_peer cs)" for cs
    using kernel_peer_typed by (fastforce simp: list_all_iff List.map_filter_def)
  have mtu: "orDefault v kernel_DefaultMTU \<noteq> 0" for v by (simp add: orDefault_def kernel_DefaultMTU_def)
  show ?thesis using k peers [of "ksClients s"] mtu [of "ksMTU s"] normal_version [of "ksAwgVersion s"]
    unfolding KernelInstanceFromInbound_def u by (auto simp: typed_instance_def split: if_splits)
qed

text \<open>C37: The instance derived from a stored inbound has the name of its interface, a key, an MTU, a version the code
  knows, and peers with a key without surrounding space and an address; no other inbound gives an instance.\<close>

theorem kernel_instance_typed: "KernelInstanceFromInbound ib = Some inst \<Longrightarrow> typed_instance ib inst"
  by (rule instance_typed)

definition example_inbound :: inbound where
  "example_inbound = \<lparr>inId = 3, inRemark = [], inEnable = True, inListen = [], inPort = 51820, inProtocol = ''awg'',
     inSettings = ''{\"privateKey\":\"k\",\"clients\":[{\"publicKey\":\" p \",\"allowedIPs\":[\"10.8.0.2/32\"]},{\"publicKey\":\"q\",\"enable\":false}]}'',
     inStreamSettings = [], inTag = ''t'', inNodeID = None\<rparr>"

lemma example_inbound_parses: "map_option (\<lambda>i. (map kpPublicKey (kPeers i), bar_free i, UsesTproxy i)) (KernelInstanceFromInbound example_inbound)
    = Some ([''p''], True, False)"
  by code_simp

theorem kernel_instance_typed_witness:
  "\<exists>inst. KernelInstanceFromInbound example_inbound = Some inst \<and> typed_instance example_inbound inst \<and> map kpPublicKey (kPeers inst) = [''p'']"
  using example_inbound_parses kernel_instance_typed by auto

section \<open>The job\<close>

definition local_awg :: "inbound \<Rightarrow> bool" where
  "local_awg ib \<longleftrightarrow> inProtocol ib = ''awg'' \<and> inEnable ib \<and> inNodeID ib = None"

definition desired_instances :: "inbound list \<Rightarrow> kernel_instance list" where
  "desired_instances ibs = List.map_filter KernelInstanceFromInbound (filter local_awg ibs)"

text \<open>Up to the traffic it collects; a failed read of the database is \<open>None\<close>.\<close>

definition AwgJob_Run :: "environment \<Rightarrow> bool \<Rightarrow> bool \<Rightarrow> inbound list option \<Rightarrow> world \<Rightarrow> world" where
  "AwgJob_Run env rebuilding kernelAvailable stored w =
     (if rebuilding then w else if \<not> kernelAvailable then mgr_Reconcile env [] w
      else case stored of None \<Rightarrow> w | Some ibs \<Rightarrow> mgr_Reconcile env (desired_instances ibs) w)"

section \<open>Changes of an inbound\<close>

datatype update_error = Manager mgr_error | Elsewhere string

definition AddInbound :: "environment \<Rightarrow> (inbound \<Rightarrow> string option) \<Rightarrow> inbound \<Rightarrow> world \<Rightarrow> update_error option \<times> world" where
  "AddInbound env other ib w =
     (if inProtocol ib = ''awg'' then
        (case KernelInstanceFromInbound ib of None \<Rightarrow> (None, w)
         | Some inst \<Rightarrow> map_prod (map_option Manager) (\<lambda>w. w) (mgr_Ensure env inst w))
      else (map_option Elsewhere (other ib), w))"

definition DelInbound :: "environment \<Rightarrow> inbound \<Rightarrow> world \<Rightarrow> world" where
  "DelInbound env ib w = (if inProtocol ib = ''awg'' then mgr_Remove env (inId ib) w else w)"

definition updateAwgInbound :: "environment \<Rightarrow> (inbound \<Rightarrow> string option) \<Rightarrow> inbound \<Rightarrow> inbound \<Rightarrow> world \<Rightarrow> update_error option \<times> world" where
  "updateAwgInbound env other oldIb newIb w =
     (if inProtocol oldIb = ''awg'' \<and> inProtocol newIb \<noteq> ''awg'' then
        let w = mgr_Remove env (inId oldIb) w in if \<not> inEnable newIb then (None, w) else AddInbound env other newIb w
      else let w = (if inProtocol oldIb \<noteq> ''awg'' then DelInbound env oldIb w else w) in
        if \<not> inEnable newIb then (None, mgr_Remove env (inId newIb) w)
        else case KernelInstanceFromInbound newIb of None \<Rightarrow> (None, mgr_Remove env (inId newIb) w)
          | Some inst \<Rightarrow> map_prod (map_option Manager) (\<lambda>w. w) (mgr_Ensure env inst w))"

lemma desired_iff: "inst \<in> set (desired_instances ibs) \<longleftrightarrow> (\<exists>ib \<in> set ibs. local_awg ib \<and> KernelInstanceFromInbound ib = Some inst)"
  by (induction ibs) (auto simp: desired_instances_def split: option.split)

lemma desired_ids: "map kId (desired_instances ibs) = map inId (filter (\<lambda>ib. local_awg ib \<and> KernelInstanceFromInbound ib \<noteq> None) ibs)"
  by (induction ibs) (auto simp: desired_instances_def typed_instance_def split: option.split dest!: instance_typed)

text \<open>The inbounds whose interfaces the job is asked for, and what they need: identifiers are primary keys, no peer holds the
  separator of the fingerprints, transparent proxying passes its check.\<close>

definition well_stored :: "inbound list \<Rightarrow> bool" where
  "well_stored ibs \<longleftrightarrow> distinct (map inId ibs)
     \<and> list_all (\<lambda>inst. bar_free inst \<and> (UsesTproxy inst \<longrightarrow> validateTproxy inst = None)) (desired_instances ibs)"

lemma stored_desirable: "well_stored ibs \<Longrightarrow> desirable (desired_instances ibs)"
proof -
  assume w: "well_stored ibs"
  then have "distinct (map kId (desired_instances ibs))" unfolding desired_ids well_stored_def
    by (simp add: distinct_map_filter)
  moreover have "wf_instance inst \<and> (UsesTproxy inst \<longrightarrow> validateTproxy inst = None)" if "inst \<in> set (desired_instances ibs)" for inst
    using w that by (auto simp: well_stored_def list_all_iff desired_iff wf_instance_def typed_instance_def dest!: instance_typed)
  ultimately show ?thesis by (simp add: desirable_def list_all_iff)
qed


lemma example_instance:
  obtains inst where "KernelInstanceFromInbound example_inbound = Some inst" "wf_instance inst" "kId inst = 3" "kIfname inst = ''awg3''"
    "bar_free inst" "\<not> UsesTproxy inst" "startable example_world inst"
proof -
  obtain inst where i: "KernelInstanceFromInbound example_inbound = Some inst" "bar_free inst" "\<not> UsesTproxy inst"
    using example_inbound_parses by auto
  from instance_typed [OF i(1)] have t: "kId inst = 3" "kIfname inst = ifnameFor 3"
    by (simp_all add: typed_instance_def example_inbound_def)
  show thesis using t i
    by (intro that [of inst]) (simp_all add: wf_instance_def example_names startable_def example_world_def configIsManaged_def managed_text_def)
qed


section \<open>What a change of an inbound does\<close>

lemma Ensure_reaches:
  assumes "mgr_ok w" "wf_instance inst" "willing env" "UsesTproxy inst \<Longrightarrow> validateTproxy inst = None" "startable w inst"
  shows "fst (mgr_Ensure env inst w) = None \<and> map_of (wProcs (snd (mgr_Ensure env inst w))) (kId inst) \<noteq> None
    \<and> map_of (wLinks (snd (mgr_Ensure env inst w))) (kIfname inst) = Some (renderServerConf (evHost env) inst)"
proof -
  let ?s = "sweepOrphansLocked env w"
  have ifn: "kIfname inst = ifnameFor (kId inst)" using assms(2) by (simp add: wf_instance_def)
  have "map_of (wLinks ?s) (kIfname inst) = None" if "map_of (wProcs ?s) (kId inst) = None"
    by (rule startable_swept [OF assms(3,2,5)]) (use that in \<open>simp add: sweep_orphans_frame\<close>)
  from ensure_succeeds [OF assms(3) sweep_ok [OF assms(1)] assms(2,4) this]
  obtain w' where l: "ensureLocked env inst ?s = (None, w')" by (cases "ensureLocked env inst ?s") auto
  have "mgr_inv ?s" using sweep_ok [OF assms(1)] by (simp add: mgr_ok_def)
  from ensure_result(2) [OF l this assms(2) refl] show ?thesis using assms(3) by (simp add: mgr_Ensure_def l willing_def)
qed

lemma Ensure_frame:
  assumes "mgr_ok w" "wf_instance inst" "k \<noteq> kId inst"
  shows "map_of (wProcs (snd (mgr_Ensure env inst w))) k = map_of (wProcs w) k
    \<and> map_of (wFiles (snd (mgr_Ensure env inst w))) (confName k) = map_of (wFiles w) (confName k)"
proof -
  let ?s = "sweepOrphansLocked env w"
  obtain e w' where l: "ensureLocked env inst ?s = (e, w')" by fastforce
  have "mgIfname cur = kIfname inst" if "map_of (wProcs ?s) (kId inst) = Some cur" for cur
    using inv_ifname [of w] assms(1,2) that by (simp add: sweep_orphans_frame mgr_ok_def wf_instance_def)
  from ensure_frame [OF l this, of "confName k" "[]" k] show ?thesis
    using assms(3) by (auto simp: mgr_Ensure_def l sweep_orphans_frame split: option.split)
qed

lemma Remove_frame: "map_of (wProcs (mgr_Remove env n w)) k = (if k = n then None else map_of (wProcs w) k)"
  "map_of (wFiles (mgr_Remove env n w)) (confName k) = (if k = n then None else map_of (wFiles w) (confName k))"
  by (auto simp: mgr_Remove_def Let_def delete_conv' split: option.split)

definition wanted_instance :: "inbound \<Rightarrow> kernel_instance option" where
  "wanted_instance ib = (if inEnable ib then KernelInstanceFromInbound ib else None)"



end
