(* ===== verification/Awg_Profiles.thy ===== *)
theory Awg_Profiles
  imports Awg_Kernel
begin

text \<open>
  \<open>internal/awg/cps/params.go\<close>: the obfuscation parameters and device timers of a kernel AmneziaWG interface, generated
  for a profile. The loops that draw a padding again stop after fifty draws, as in the code.
\<close>

section \<open>Draws\<close>

definition ObfLite :: string where "ObfLite = ''lite''"
definition ObfStandard :: string where "ObfStandard = ''standard''"
definition ObfPro :: string where "ObfPro = ''pro''"
definition ObfPremium :: string where "ObfPremium = ''premium''"

definition MinSForHPK :: int where
  "MinSForHPK = 12"

definition enforceSMin :: "int \<Rightarrow> int" where
  "enforceSMin v = (if v < MinSForHPK then MinSForHPK else v)"

definition cps_randInt :: "int \<Rightarrow> int \<Rightarrow> rng \<Rightarrow> int \<times> rng" where
  "cps_randInt lo hi rs = (if hi \<le> lo then (lo, rs) else let (k, rs) = intn (nat (hi - lo + 1)) rs in (lo + int k, rs))"

record profileRanges =
  jcmin :: int  jcmax :: int
  jminLo :: int  jminHi :: int
  jmaxLo :: int  jmaxHi :: int
  s1Lo :: int  s1Hi :: int
  s2Lo :: int  s2Hi :: int
  s3Lo :: int  s3Hi :: int
  s4Lo :: int  s4Hi :: int

definition rangesFor :: "string \<Rightarrow> profileRanges option" where
  "rangesFor p =
     (if p = ObfLite then Some \<lparr>jcmin = 2, jcmax = 4, jminLo = 5, jminHi = 10, jmaxLo = 30, jmaxHi = 50,
        s1Lo = MinSForHPK, s1Hi = 64, s2Lo = MinSForHPK, s2Hi = 64, s3Lo = MinSForHPK, s3Hi = 32, s4Lo = MinSForHPK, s4Hi = MinSForHPK\<rparr>
      else if p = ObfStandard then Some \<lparr>jcmin = 4, jcmax = 6, jminLo = 10, jminHi = 10, jmaxLo = 50, jmaxHi = 50,
        s1Lo = MinSForHPK, s1Hi = 149, s2Lo = MinSForHPK, s2Hi = 149, s3Lo = MinSForHPK, s3Hi = 63, s4Lo = MinSForHPK, s4Hi = MinSForHPK\<rparr>
      else if p = ObfPro then Some \<lparr>jcmin = 5, jcmax = 8, jminLo = 10, jminHi = 15, jmaxLo = 60, jmaxHi = 100,
        s1Lo = 32, s1Hi = 150, s2Lo = 32, s2Hi = 150, s3Lo = 16, s3Hi = 64, s4Lo = MinSForHPK, s4Hi = MinSForHPK\<rparr>
      else None)"

section \<open>Headers\<close>

definition hBandWidth :: int where
  "hBandWidth = 100000"

definition hBand :: "int \<Rightarrow> int \<times> int" where
  "hBand n = (let lo = 5 + n * hBandWidth in (lo, lo + hBandWidth - 6))"

definition genHRange :: "int \<Rightarrow> rng \<Rightarrow> string \<times> rng" where
  "genHRange n rs =
     (let (lo, hi) = hBand n; sp = hi - lo + 1;
          (a, rs) = cps_randInt 0 (sp div 3) rs; left = lo + a;
          (b, rs) = cps_randInt 0 (sp div 3) rs; right = lo + 2 * sp div 3 + b;
          (right, rs) = (if right - left < 1000 then
              let (c, rs) = cps_randInt 0 9999 rs; right = left + 1000 + c in (if right > hi then hi else right, rs)
            else (right, rs))
      in (itoa left @ ''-'' @ itoa right, rs))"

definition genHSingle :: "int \<Rightarrow> rng \<Rightarrow> string \<times> rng" where
  "genHSingle n rs = (let (lo, hi) = hBand n; (v, rs) = cps_randInt lo hi rs in (itoa v, rs))"

text \<open>The four headers, one after the other.\<close>

definition four :: "(int \<Rightarrow> rng \<Rightarrow> string \<times> rng) \<Rightarrow> rng \<Rightarrow> string list \<times> rng" where
  "four gen rs = (let (h1, rs) = gen 0 rs; (h2, rs) = gen 1 rs; (h3, rs) = gen 2 rs; (h4, rs) = gen 3 rs in ([h1, h2, h3, h4], rs))"

section \<open>Parameters\<close>

record AWGParams =
  pJc :: int  pJmin :: int  pJmax :: int
  pS1 :: int  pS2 :: int  pS3 :: int  pS4 :: int
  pH :: "string list"
  pHeaderProtectionKey :: string
  pContentPaddingAddition :: int  pRekeyAfterTime :: int  pRekeyTimeout :: int
  pRejectAfterTime :: int  pKeepaliveTimeout :: int  pMaxHandshakeAttempts :: int

definition messageInitiationSize :: int where "messageInitiationSize = 148"
definition messageResponseSize :: int where "messageResponseSize = 92"
definition messageCookieReplySize :: int where "messageCookieReplySize = 64"
definition messageTransportSize :: int where "messageTransportSize = 32"

definition zero_params :: AWGParams where
  "zero_params = \<lparr>pJc = 0, pJmin = 0, pJmax = 0, pS1 = 0, pS2 = 0, pS3 = 0, pS4 = 0, pH = [[], [], [], []], pHeaderProtectionKey = [],
     pContentPaddingAddition = 0, pRekeyAfterTime = 0, pRekeyTimeout = 0, pRejectAfterTime = 0, pKeepaliveTimeout = 0,
     pMaxHandshakeAttempts = 0\<rparr>"

text \<open>A padding is drawn again while it collides, at most as often as given.\<close>

fun redraw :: "nat \<Rightarrow> (int \<Rightarrow> bool) \<Rightarrow> int \<Rightarrow> int \<Rightarrow> int \<Rightarrow> rng \<Rightarrow> int \<times> rng" where
  "redraw 0 collides lo hi v rs = (v, rs)"
| "redraw (Suc k) collides lo hi v rs =
     (if collides v then let (w, rs) = cps_randInt lo hi rs in redraw k collides lo hi (enforceSMin w) rs else (v, rs))"

definition s2_collides :: "int \<Rightarrow> int \<Rightarrow> int \<Rightarrow> bool" where
  "s2_collides s1 s4 s2 \<longleftrightarrow> s2 = s1 \<or> s2 = s4 \<or> messageInitiationSize + s1 = messageResponseSize + s2"

definition s3_collides :: "int \<Rightarrow> int \<Rightarrow> int \<Rightarrow> int \<Rightarrow> bool" where
  "s3_collides s1 s2 s4 s3 \<longleftrightarrow> s3 = s1 \<or> s3 = s2 \<or> s3 = s4 \<or> messageInitiationSize + s1 = messageCookieReplySize + s3
     \<or> messageResponseSize + s2 = messageCookieReplySize + s3"

definition generatePremiumParams :: "string \<Rightarrow> rng \<Rightarrow> AWGParams \<times> rng" where
  "generatePremiumParams awgVersion rs =
     (let (h, rs) = (if awgVersion = ''1.5'' then four genHSingle rs
            else if awgVersion = ''3'' \<or> awgVersion = ''3.1'' then ([''1'', ''2'', ''3'', ''4''], rs)
            else four genHRange rs)
      in (zero_params\<lparr>pJc := 5, pJmin := 10, pJmax := 80, pS1 := 164, pS2 := 528, pS3 := 389, pS4 := 12, pH := h\<rparr>, rs))"

definition GenerateAWGParams :: "string \<Rightarrow> string \<Rightarrow> rng \<Rightarrow> (AWGParams \<times> rng) option" where
  "GenerateAWGParams profile awgVersion rs =
     (if profile = ObfPremium then Some (generatePremiumParams awgVersion rs)
      else case rangesFor profile of None \<Rightarrow> None | Some r \<Rightarrow>
        Some (let (jc, rs) = cps_randInt (jcmin r) (jcmax r) rs;
                  (jmin, rs) = cps_randInt (jminLo r) (jminHi r) rs;
                  (jmax, rs) = cps_randInt (jmaxLo r) (jmaxHi r) rs;
                  (jmax, rs) = (if jmax \<le> jmin then let (d, rs) = cps_randInt 20 60 rs in (jmin + d, rs) else (jmax, rs));
                  (s1, rs) = cps_randInt (s1Lo r) (s1Hi r) rs; s1 = enforceSMin s1;
                  (s4, rs) = cps_randInt (s4Lo r) (s4Hi r) rs; s4 = enforceSMin s4;
                  (s2, rs) = cps_randInt (s2Lo r) (s2Hi r) rs; s2 = enforceSMin s2;
                  (s3, rs) = cps_randInt (s3Lo r) (s3Hi r) rs; s3 = enforceSMin s3;
                  (s2, rs) = redraw 50 (s2_collides s1 s4) (s2Lo r) (s2Hi r) s2 rs;
                  (s3, rs) = redraw 50 (s3_collides s1 s2 s4) (s3Lo r) (s3Hi r) s3 rs;
                  (h, rs) = (if awgVersion = ''1.5'' then four genHSingle rs else four genHRange rs)
              in (zero_params\<lparr>pJc := jc, pJmin := jmin, pJmax := jmax, pS1 := s1, pS2 := s2, pS3 := s3, pS4 := s4, pH := h\<rparr>, rs)))"

datatype params_error = JunkSizes | SizesEqual | PaddingTooSmall int | TimerRange

definition packet_sizes :: "AWGParams \<Rightarrow> int list" where
  "packet_sizes p = [messageInitiationSize + pS1 p, messageResponseSize + pS2 p, messageCookieReplySize + pS3 p, messageTransportSize + pS4 p]"

definition Validate :: "AWGParams \<Rightarrow> params_error option" where
  "Validate p =
     (if pJmax p \<le> pJmin p then Some JunkSizes
      else if \<not> distinct (packet_sizes p) then Some SizesEqual
      else case (if pHeaderProtectionKey p \<noteq> [] then find (\<lambda>s. s < MinSForHPK) [pS1 p, pS2 p, pS3 p, pS4 p] else None) of
        Some s \<Rightarrow> Some (PaddingTooSmall s)
      | None \<Rightarrow> if list_ex (\<lambda>v. v < 0 \<or> v > 65535) [pContentPaddingAddition p, pRekeyAfterTime p, pRekeyTimeout p, pRejectAfterTime p,
            pKeepaliveTimeout p, pMaxHandshakeAttempts p] then Some TimerRange else None)"

section \<open>Timers\<close>

record Awg3DeviceTimings =
  tContentPaddingAddition :: string  tRekeyAfterTime :: string  tRekeyTimeout :: string
  tRejectAfterTime :: string  tKeepaliveTimeout :: string  tMaxHandshakeAttempts :: string

definition awg3Range :: "int \<Rightarrow> int \<Rightarrow> string" where
  "awg3Range lo hi = (let lo = (if lo < 0 then 0 else lo); hi = (if hi < lo then lo else hi) in
     if lo = hi then itoa lo else itoa lo @ ''-'' @ itoa hi)"

definition generatePremiumTimings :: "rng \<Rightarrow> Awg3DeviceTimings \<times> rng" where
  "generatePremiumTimings rs =
     (let (rtLo, rs) = cps_randInt 4 6 rs; (d, rs) = cps_randInt 1 4 rs; rtHi = rtLo + d;
          rejectLo = (if 170 \<le> 120 + 13 + rtHi then 120 + 13 + rtHi + 15 else 170);
          (attemptsLo, rs) = cps_randInt 12 18 rs;
          (e, rs) = cps_randInt 10 25 rs; (f, rs) = cps_randInt 2 10 rs
      in (\<lparr>tContentPaddingAddition = ''10-100'', tRekeyAfterTime = ''100-120'', tRekeyTimeout = awg3Range rtLo rtHi,
           tRejectAfterTime = awg3Range rejectLo (rejectLo + e), tKeepaliveTimeout = ''7-13'',
           tMaxHandshakeAttempts = awg3Range attemptsLo (attemptsLo + f)\<rparr>, rs))"

definition timing_spans :: "string \<Rightarrow> int \<times> int \<times> int" where
  "timing_spans profile = (if profile = ObfLite then (8, 64, 10) else if profile = ObfPro then (24, 200, 45) else (16, 128, 25))"

definition GenerateAwg3DeviceTimings :: "string \<Rightarrow> rng \<Rightarrow> Awg3DeviceTimings \<times> rng" where
  "GenerateAwg3DeviceTimings profile rs =
     (if profile = ObfPremium then generatePremiumTimings rs
      else let (padLo, padHi, spread) = timing_spans profile;
               (padMin, rs) = cps_randInt padLo ((padLo + padHi) div 2) rs;
               (padMax, rs) = cps_randInt (padMin + 8) padHi rs;
               (rtLo, rs) = cps_randInt 4 6 rs; (d, rs) = cps_randInt 1 4 rs; rtHi = rtLo + d;
               (kaLo, rs) = cps_randInt 8 14 rs; (e, rs) = cps_randInt 2 8 rs; kaHi = kaLo + e;
               (raLo, rs) = cps_randInt 100 120 rs; (f, rs) = cps_randInt 10 spread rs; raHi = raLo + f;
               rejectFloor = raHi + kaHi + rtHi + 15;
               rejectLo = (if rejectFloor < 170 then 170 else rejectFloor);
               (g, rs) = cps_randInt 10 spread rs; rejectHi = rejectLo + g;
               (attemptsLo, rs) = cps_randInt 12 18 rs; (h, rs) = cps_randInt 2 10 rs
           in (\<lparr>tContentPaddingAddition = awg3Range padMin padMax, tRekeyAfterTime = awg3Range raLo raHi,
                tRekeyTimeout = awg3Range rtLo rtHi, tRejectAfterTime = awg3Range rejectLo rejectHi,
                tKeepaliveTimeout = awg3Range kaLo kaHi, tMaxHandshakeAttempts = awg3Range attemptsLo (attemptsLo + h)\<rparr>, rs))"

section \<open>Lemmas\<close>

lemma draw_range: "cps_randInt lo hi rs = (v, rs') \<Longrightarrow> lo \<le> v \<and> v \<le> max lo hi"
proof (cases "hi \<le> lo")
  case False
  assume r: "cps_randInt lo hi rs = (v, rs')"
  obtain k rs1 where k: "intn (nat (hi - lo + 1)) rs = (k, rs1)" by fastforce
  have "k < nat (hi - lo + 1)" by (rule intn_lessD [OF k]) (use False in simp)
  then show ?thesis using r k False by (auto simp: cps_randInt_def)
qed (simp add: cps_randInt_def)

text \<open>The text of a range: one number, or two with a minus sign between.\<close>

definition span_text :: "int \<Rightarrow> int \<Rightarrow> string \<Rightarrow> bool" where
  "span_text lo hi s \<longleftrightarrow> 0 \<le> lo \<and> lo \<le> hi \<and> (s = itoa lo \<and> lo = hi \<or> s = itoa lo @ ''-'' @ itoa hi)"

lemma awg3Range_text: "0 \<le> lo \<Longrightarrow> lo \<le> hi \<Longrightarrow> span_text lo hi (awg3Range lo hi)"
  by (simp add: span_text_def awg3Range_def)

lemma range_chars: "span_text lo hi s \<Longrightarrow> list_all (\<lambda>c. is_digit c \<or> c = CHR ''-'') s \<and> s \<noteq> [] \<and> is_digit (hd s) \<and> is_digit (last s)"
  using itoa_nat_digits [of "nat lo"] itoa_nat_digits [of "nat hi"] itoa_nat_hd [of "nat lo"] itoa_nat_last [of "nat lo"] itoa_nat_last [of "nat hi"]
  by (auto simp: span_text_def itoa_def list_all_iff hd_append)

lemma digit_graphic: "is_digit c \<Longrightarrow> graphic c"
  by (auto simp: is_digit_def graphic_def less_eq_char_def)

lemma range_trim: "span_text lo hi s \<Longrightarrow> trim_space s = s"
  using range_chars [of lo hi s] by (intro trim_space_graphic) (auto intro: digit_graphic)

lemma range_cut: "span_text lo hi s \<Longrightarrow>
    (case cut CHR ''-'' s of None \<Rightarrow> (s, s) | Some p \<Rightarrow> p) = (itoa lo, itoa hi) \<and> (cut CHR ''-'' s = None \<or> cut CHR ''-'' s = Some (itoa lo, itoa hi))"
  using minus_notin_itoa [of "nat lo"] by (auto simp: span_text_def itoa_def cut_None cut_append)

lemma digits_natural: "0 \<le> n \<Longrightarrow> digits (itoa n)"
  by (simp add: digits_def itoa_def itoa_nat_digits)

lemma range_pattern: "span_text lo hi s \<Longrightarrow> awgTimerPat s"
  using range_cut [of lo hi s] digits_natural [of lo] digits_natural [of hi]
  by (auto simp: awgTimerPat_def span_text_def split: option.splits)

lemma uint_natural: "0 \<le> n \<Longrightarrow> n \<le> 65535 \<Longrightarrow> parse_uint32 (itoa n) = Some (nat n)"
  by (simp add: parse_uint32_def itoa_def nat_less_iff)

lemma timer_accepted: "span_text lo hi s \<Longrightarrow> hi \<le> 65535 \<Longrightarrow> ValidateDeviceTimer name s = None"
  using range_cut [of lo hi s] range_trim [of lo hi s] range_pattern [of lo hi s]
  by (auto simp: ValidateDeviceTimer_def Let_def span_text_def uint_natural)

text \<open>A header is a range within the bounds, a single number for version 1.5.\<close>

definition header_text :: "bool \<Rightarrow> int \<Rightarrow> int \<Rightarrow> string \<Rightarrow> bool" where
  "header_text one lo hi s \<longleftrightarrow> (\<exists>l h. lo \<le> l \<and> h \<le> hi \<and> span_text l h s \<and> (one \<longrightarrow> s = itoa l \<and> l = h))"

lemma band_bounds: "hBand n = (5 + n * 100000, 99999 + n * 100000)"
  by (simp add: hBand_def hBandWidth_def Let_def)

lemma single_text: "0 \<le> n \<Longrightarrow> genHSingle n rs = (s, rs') \<Longrightarrow> header_text True (5 + n * 100000) (99999 + n * 100000) s"
  by (auto simp: genHSingle_def band_bounds header_text_def span_text_def Let_def split: prod.splits dest!: draw_range)

lemma band_text: "0 \<le> n \<Longrightarrow> genHRange n rs = (s, rs') \<Longrightarrow> header_text False (5 + n * 100000) (99999 + n * 100000) s"
proof -
  assume n: "0 \<le> n" and g: "genHRange n rs = (s, rs')"
  obtain a rs1 where a: "cps_randInt 0 33331 rs = (a, rs1)" by fastforce
  obtain b rs2 where b: "cps_randInt 0 33331 rs1 = (b, rs2)" by fastforce
  let ?l = "5 + n * 100000 + a" and ?r = "5 + n * 100000 + 66663 + b"
  note d = draw_range [OF a] draw_range [OF b]
  have q: "(99995 :: int) div 3 = 33331" by simp
  have "2 * (99995 :: int) div 3 = 66663" by simp
  then have "s = itoa ?l @ ''-'' @ itoa ?r" using g a b d by (auto simp: genHRange_def band_bounds Let_def split: if_splits prod.splits)
  moreover have "span_text ?l ?r (itoa ?l @ ''-'' @ itoa ?r)" using n d by (simp add: span_text_def)
  ultimately show ?thesis using d unfolding header_text_def by (intro exI [of _ ?l] exI [of _ ?r]) simp
qed

lemma header_accepted: "header_text (ver = ''1.5'') lo hi s \<Longrightarrow> check_header ver obfuscated (i, s) = None"
proof -
  assume "header_text (ver = ''1.5'') lo hi s"
  then obtain l h where r: "span_text l h s" "ver = ''1.5'' \<Longrightarrow> s = itoa l" by (auto simp: header_text_def)
  have "CHR ''-'' \<notin> set s" if "ver = ''1.5''"
    using r(1) r(2) [OF that] minus_notin_itoa [of "nat l"] by (simp add: span_text_def itoa_def)
  moreover have "s \<noteq> []" using range_chars [OF r(1)] by blast
  ultimately show ?thesis by (auto simp: check_header_def Let_def range_trim [OF r(1)] range_pattern [OF r(1)])
qed

text \<open>The bounds of the four headers.\<close>

definition bands :: "(int \<times> int) list" where
  "bands = [(5, 99999), (100005, 199999), (200005, 299999), (300005, 399999)]"

definition apart :: "(int \<times> int) list \<Rightarrow> bool" where
  "apart bs \<longleftrightarrow> sorted_wrt (\<lambda>a b. snd a < fst b) bs \<and> list_all (\<lambda>b. 0 < fst b) bs"

definition headers_in :: "bool \<Rightarrow> (int \<times> int) list \<Rightarrow> string list \<Rightarrow> bool" where
  "headers_in one bs hs \<longleftrightarrow> list_all2 (\<lambda>b h. header_text one (fst b) (snd b) h) bs hs"

lemma four_single: "four genHSingle rs = (h, rs') \<Longrightarrow> headers_in True bands h"
  using single_text [of 0] single_text [of 1] single_text [of 2] single_text [of 3]
  by (auto simp: four_def headers_in_def bands_def Let_def split: prod.splits)

lemma four_bands: "four genHRange rs = (h, rs') \<Longrightarrow> headers_in False bands h"
  using band_text [of 0] band_text [of 1] band_text [of 2] band_text [of 3]
  by (auto simp: four_def headers_in_def bands_def Let_def split: prod.splits)

lemma bands_apart: "apart bands" "length bands = 4"
  by (simp_all add: apart_def bands_def)

lemma premium_headers: "headers_in True [(1, 1), (2, 2), (3, 3), (4, 4)] [''1'', ''2'', ''3'', ''4'']"
proof -
  have "itoa 1 = ''1''" "itoa 2 = ''2''" "itoa 3 = ''3''" "itoa 4 = ''4''" by code_simp+
  then have "span_text 1 1 ''1''" "span_text 2 2 ''2''" "span_text 3 3 ''3''" "span_text 4 4 ''4''" by (simp_all add: span_text_def)
  then show ?thesis using \<open>itoa 1 = ''1''\<close> \<open>itoa 2 = ''2''\<close> \<open>itoa 3 = ''3''\<close> \<open>itoa 4 = ''4''\<close>
    unfolding headers_in_def header_text_def by auto
qed

lemma weaken: "headers_in True bs hs \<Longrightarrow> headers_in one bs hs"
  unfolding headers_in_def by (erule list_all2_mono) (auto simp: header_text_def)

lemma headers_accepted:
  assumes "headers_in (ver = ''1.5'') bs hs" "length bs = 4"
  shows "ValidateObfuscationFields ver jc s1 (hs ! 0) (hs ! 1) (hs ! 2) (hs ! 3) = None"
proof -
  obtain h1 h2 h3 h4 where hs: "hs = [h1, h2, h3, h4]"
    using assms list_all2_lengthD [of _ bs hs] by (auto simp: headers_in_def numeral_eq_Suc length_Suc_conv)
  have ne: "check_header ver ob1 (i, h) = None" if "h \<in> set hs" for h ob1 i
    using assms(1) header_accepted that unfolding headers_in_def by (auto simp: list_all2_conv_all_nth in_set_conv_nth)
  have "NormalizeAWGVersion ver = ''1.5'' \<longleftrightarrow> ver = ''1.5''" by (simp add: NormalizeAWGVersion_def)
  then have "check_header (NormalizeAWGVersion ver) = check_header ver" unfolding check_header_def by presburger
  with ne have "check_header (NormalizeAWGVersion ver) ob1 (i, h) = None" if "h \<in> set hs" for h ob1 i using that by simp
  then show ?thesis by (simp add: ValidateObfuscationFields_def Let_def hs upt_rec)
qed

text \<open>Values drawn one after the other.\<close>

fun draws :: "nat \<Rightarrow> int \<Rightarrow> int \<Rightarrow> rng \<Rightarrow> int list" where
  "draws 0 lo hi rs = []"
| "draws (Suc k) lo hi rs = (let (w, rs) = cps_randInt lo hi rs in w # draws k lo hi rs)"

lemma redraw_stuck: "redraw k C lo hi v rs = (w, rs') \<Longrightarrow> C w \<Longrightarrow> list_all (\<lambda>d. C (enforceSMin d)) (draws k lo hi rs)"
proof (induction k arbitrary: v rs)
  case (Suc k)
  obtain d rs1 where d: "cps_randInt lo hi rs = (d, rs1)" by fastforce
  show ?case
  proof (cases "C v")
    case True
    with Suc.prems(1) d have "redraw k C lo hi (enforceSMin d) rs1 = (w, rs')" by simp
    note r = this
    have "C (enforceSMin d)"
    proof (cases k)
      case 0
      with r Suc.prems(2) show ?thesis by simp
    next
      case (Suc j)
      with r \<open>C w\<close> show ?thesis by (auto split: if_splits)
    qed
    with Suc.IH [OF r Suc.prems(2)] d show ?thesis by simp
  next
    case False
    with Suc.prems show ?thesis by simp
  qed
qed simp

lemma redraw_min: "redraw k C lo hi v rs = (w, rs') \<Longrightarrow> 12 \<le> v \<Longrightarrow> 12 \<le> w"
  by (induction k arbitrary: v rs) (auto simp: enforceSMin_def MinSForHPK_def split: if_splits prod.splits)

lemma enforce_min [simp]: "12 \<le> enforceSMin v"
  by (simp add: enforceSMin_def MinSForHPK_def)

text \<open>What a parameter set for a profile other than premium is made of.\<close>

lemma generated_parts:
  assumes "GenerateAWGParams profile ver rs = Some (p, rs')" "profile \<noteq> ObfPremium"
  obtains r rs2 v2 rs2' rs3 v3 rs3' rs4 where "rangesFor profile = Some r"
    "0 \<le> pJmin p" "pJmin p < pJmax p" "12 \<le> pS1 p" "pS4 p = 12" "12 \<le> v2" "12 \<le> v3"
    "redraw 50 (s2_collides (pS1 p) (pS4 p)) (s2Lo r) (s2Hi r) v2 rs2 = (pS2 p, rs2')"
    "redraw 50 (s3_collides (pS1 p) (pS2 p) (pS4 p)) (s3Lo r) (s3Hi r) v3 rs3 = (pS3 p, rs3')"
    "(if ver = ''1.5'' then four genHSingle rs4 else four genHRange rs4) = (pH p, rs')"
    "pHeaderProtectionKey p = []" "[pContentPaddingAddition p, pRekeyAfterTime p, pRekeyTimeout p, pRejectAfterTime p, pKeepaliveTimeout p, pMaxHandshakeAttempts p] = replicate 6 0"
proof -
  obtain r where r: "rangesFor profile = Some r" using assms by (cases "rangesFor profile") (auto simp: GenerateAWGParams_def)
  have b: "0 \<le> jminLo r" "jminLo r \<le> jminHi r" "s4Lo r = 12" "s4Hi r = 12"
    using r by (auto simp: rangesFor_def MinSForHPK_def split: if_splits)
  obtain jc rs1 where 1: "cps_randInt (jcmin r) (jcmax r) rs = (jc, rs1)" by fastforce
  obtain jmin rs2 where 2: "cps_randInt (jminLo r) (jminHi r) rs1 = (jmin, rs2)" by fastforce
  obtain jm rs3 where 3: "cps_randInt (jmaxLo r) (jmaxHi r) rs2 = (jm, rs3)" by fastforce
  obtain jmax rs4 where 4: "(if jm \<le> jmin then let (d, rs) = cps_randInt 20 60 rs3 in (jmin + d, rs) else (jm, rs3)) = (jmax, rs4)" by fastforce
  obtain a1 rs5 where 5: "cps_randInt (s1Lo r) (s1Hi r) rs4 = (a1, rs5)" by fastforce
  obtain a4 rs6 where 6: "cps_randInt (s4Lo r) (s4Hi r) rs5 = (a4, rs6)" by fastforce
  obtain a2 rs7 where 7: "cps_randInt (s2Lo r) (s2Hi r) rs6 = (a2, rs7)" by fastforce
  obtain a3 rs8 where 8: "cps_randInt (s3Lo r) (s3Hi r) rs7 = (a3, rs8)" by fastforce
  obtain s2 rs9 where 9: "redraw 50 (s2_collides (enforceSMin a1) (enforceSMin a4)) (s2Lo r) (s2Hi r) (enforceSMin a2) rs8 = (s2, rs9)" by fastforce
  obtain s3 rs10 where 10: "redraw 50 (s3_collides (enforceSMin a1) s2 (enforceSMin a4)) (s3Lo r) (s3Hi r) (enforceSMin a3) rs9 = (s3, rs10)" by fastforce
  obtain h rs11 where 11: "(if ver = ''1.5'' then four genHSingle rs10 else four genHRange rs10) = (h, rs11)" by fastforce
  have p: "p = zero_params\<lparr>pJc := jc, pJmin := jmin, pJmax := jmax, pS1 := enforceSMin a1, pS2 := s2, pS3 := s3, pS4 := enforceSMin a4, pH := h\<rparr>"
    "rs' = rs11"
    using assms r 1 2 3 4 5 6 7 8 9 10 11 by (simp_all add: GenerateAWGParams_def Let_def del: redraw.simps)
  have "enforceSMin a4 = 12" using draw_range [OF 6] b by (simp add: enforceSMin_def MinSForHPK_def)
  moreover have "0 \<le> jmin" using draw_range [OF 2] b by simp
  moreover have "jmin < jmax" using 4 by (auto split: if_splits prod.splits dest!: draw_range)
  ultimately show thesis using r 9 10 11
    by (intro that [of r "enforceSMin a2" "enforceSMin a3" rs8 rs9 rs9 rs10 rs10]) (simp_all add: p zero_params_def numeral_eq_Suc del: redraw.simps)
qed

section \<open>Properties\<close>



text \<open>The sizes of the four kinds of packet are told apart unless fifty draws in a row collide.\<close>

theorem profile_sizes_distinct:
  assumes "GenerateAWGParams profile ver rs = Some (p, rs')" "Validate p \<noteq> None"
  shows "\<exists>r rs1. rangesFor profile = Some r \<and>
    (list_all (\<lambda>d. s2_collides (pS1 p) (pS4 p) (enforceSMin d)) (draws 50 (s2Lo r) (s2Hi r) rs1)
     \<or> list_all (\<lambda>d. s3_collides (pS1 p) (pS2 p) (pS4 p) (enforceSMin d)) (draws 50 (s3Lo r) (s3Hi r) rs1))"
proof (cases "profile = ObfPremium")
  case True
  then have g: "generatePremiumParams ver rs = (p, rs')" using assms(1) by (simp add: GenerateAWGParams_def)
  obtain h rs1 where h: "(if ver = ''1.5'' then four genHSingle rs else if ver = ''3'' \<or> ver = ''3.1'' then ([''1'', ''2'', ''3'', ''4''], rs)
      else four genHRange rs) = (h, rs1)" by fastforce
  have "p = zero_params\<lparr>pJc := 5, pJmin := 10, pJmax := 80, pS1 := 164, pS2 := 528, pS3 := 389, pS4 := 12, pH := h\<rparr>"
    using g unfolding generatePremiumParams_def h by simp
  then have "Validate p = None"
    by (simp add: zero_params_def Validate_def packet_sizes_def messageInitiationSize_def
        messageResponseSize_def messageCookieReplySize_def messageTransportSize_def)
  with assms(2) show ?thesis by simp
next
  case False
  obtain r rs2 v2 rs2' rs3 v3 rs3' where r: "rangesFor profile = Some r"
    and junk: "pJmin p < pJmax p" and s: "12 \<le> pS1 p" "pS4 p = 12" "12 \<le> v2" "12 \<le> v3"
    and d2: "redraw 50 (s2_collides (pS1 p) (pS4 p)) (s2Lo r) (s2Hi r) v2 rs2 = (pS2 p, rs2')"
    and d3: "redraw 50 (s3_collides (pS1 p) (pS2 p) (pS4 p)) (s3Lo r) (s3Hi r) v3 rs3 = (pS3 p, rs3')"
    and rest: "pHeaderProtectionKey p = []" "[pContentPaddingAddition p, pRekeyAfterTime p, pRekeyTimeout p, pRejectAfterTime p, pKeepaliveTimeout p, pMaxHandshakeAttempts p] = replicate 6 0"
    by (rule generated_parts [OF assms(1) False])
  have "12 \<le> pS2 p" "12 \<le> pS3 p" using redraw_min [OF d2 s(3)] redraw_min [OF d3 s(4)] by simp_all
  moreover have "\<not> distinct (packet_sizes p)"
  proof
    assume "distinct (packet_sizes p)"
    then have "Validate p = None" using junk rest by (simp add: Validate_def numeral_eq_Suc)
    with assms(2) show False by simp
  qed
  ultimately have "s2_collides (pS1 p) (pS4 p) (pS2 p) \<or> s3_collides (pS1 p) (pS2 p) (pS4 p) (pS3 p)"
    using s(1,2) by (auto simp: packet_sizes_def s2_collides_def s3_collides_def messageInitiationSize_def messageResponseSize_def
        messageCookieReplySize_def messageTransportSize_def)
  then show ?thesis using redraw_stuck [OF d2] redraw_stuck [OF d3] r by blast
qed

text \<open>Draws that make the sizes of the first two packets meet, fifty times.\<close>

definition unlucky :: rng where
  "unlucky = [0, 0, 56, 0] @ replicate 50 56"

lemma redraw_same: "C 68 \<Longrightarrow> redraw k C 12 149 68 (replicate k 56 @ rs) = (68, rs)"
  by (induction k) (simp_all add: cps_randInt_def enforceSMin_def MinSForHPK_def)

lemma redraw_empty: "redraw k C 12 63 12 [] = (12, [])"
  by (induction k) (simp_all add: cps_randInt_def enforceSMin_def MinSForHPK_def)

lemma unlucky_sizes:
  obtains p rs' where "GenerateAWGParams ObfStandard ''2'' unlucky = Some (p, rs')" "Validate p = Some SizesEqual"
proof -
  obtain h rs' where h: "four genHRange [] = (h, rs')" by fastforce
  have r: "rangesFor ObfStandard = Some \<lparr>jcmin = 4, jcmax = 6, jminLo = 10, jminHi = 10, jmaxLo = 50, jmaxHi = 50,
        s1Lo = 12, s1Hi = 149, s2Lo = 12, s2Hi = 149, s3Lo = 12, s3Hi = 63, s4Lo = 12, s4Hi = 12\<rparr>"
    by (simp add: rangesFor_def ObfStandard_def ObfLite_def MinSForHPK_def)
  have ne: "ObfStandard \<noteq> ObfPremium" by (simp add: ObfStandard_def ObfPremium_def)
  have c: "s2_collides 12 12 68" by (simp add: s2_collides_def messageInitiationSize_def messageResponseSize_def)
  have 2: "redraw 50 (s2_collides 12 12) 12 149 68 (replicate 50 56) = (68, [])" using redraw_same [of "s2_collides 12 12" 50 "[]"] c by simp
  have "GenerateAWGParams ObfStandard ''2'' unlucky
    = Some (zero_params\<lparr>pJc := 4, pJmin := 10, pJmax := 50, pS1 := 12, pS2 := 68, pS3 := 12, pS4 := 12, pH := h\<rparr>, rs')"
    by (simp add: GenerateAWGParams_def r unlucky_def cps_randInt_def enforceSMin_def MinSForHPK_def ne
        2 redraw_empty h Let_def)
  then show thesis by (rule that) (simp add: Validate_def zero_params_def packet_sizes_def messageInitiationSize_def
      messageResponseSize_def messageCookieReplySize_def messageTransportSize_def)
qed

theorem profile_sizes_distinct_witness:
  "\<exists>p rs'. GenerateAWGParams ObfStandard ''2'' unlucky = Some (p, rs') \<and>
     Validate p = Some SizesEqual \<and> (\<exists>r rs1. rangesFor ObfStandard = Some r \<and>
    (list_all (\<lambda>d. s2_collides (pS1 p) (pS4 p) (enforceSMin d)) (draws 50 (s2Lo r) (s2Hi r) rs1)
     \<or> list_all (\<lambda>d. s3_collides (pS1 p) (pS2 p) (pS4 p) (enforceSMin d)) (draws 50 (s3Lo r) (s3Hi r) rs1)))"
proof -
  obtain p rs' where g: "GenerateAWGParams ObfStandard ''2'' unlucky = Some (p, rs')" "Validate p = Some SizesEqual"
    by (rule unlucky_sizes)
  then have "Validate p \<noteq> None" by simp
  from profile_sizes_distinct [OF g(1) this] g show ?thesis by blast
qed

text \<open>The fields of a set of timers, and the bounds of a set that keeps the order of the protocol.\<close>

definition timing_texts :: "Awg3DeviceTimings \<Rightarrow> string list" where
  "timing_texts t = [tContentPaddingAddition t, tRekeyAfterTime t, tRekeyTimeout t, tRejectAfterTime t, tKeepaliveTimeout t,
     tMaxHandshakeAttempts t]"

definition ordered_bounds :: "(int \<times> int) list \<Rightarrow> bool" where
  "ordered_bounds bs \<longleftrightarrow> (\<exists>padding after timeout reject keepalive attempts. bs = [padding, after, timeout, reject, keepalive, attempts]
     \<and> snd keepalive + snd timeout < fst reject \<and> snd after < fst reject \<and> 1 \<le> fst attempts)"

lemma premium_timings:
  assumes "generatePremiumTimings rs = (t, rs')"
  shows "\<exists>bs. ordered_bounds bs \<and> list_all2 (\<lambda>b s. span_text (fst b) (snd b) s) bs (timing_texts t) \<and> list_all (\<lambda>b. snd b \<le> 65535) bs"
proof -
  obtain a rs1 where a: "cps_randInt 4 6 rs = (a, rs1)" by fastforce
  obtain d rs2 where d: "cps_randInt 1 4 rs1 = (d, rs2)" by fastforce
  obtain n rs3 where n: "cps_randInt 12 18 rs2 = (n, rs3)" by fastforce
  obtain e rs4 where e: "cps_randInt 10 25 rs3 = (e, rs4)" by fastforce
  obtain f rs5 where f: "cps_randInt 2 10 rs4 = (f, rs5)" by fastforce
  note b = draw_range [OF a] draw_range [OF d] draw_range [OF n] draw_range [OF e] draw_range [OF f]
  have t: "timing_texts t = [''10-100'', ''100-120'', awg3Range a (a + d), awg3Range 170 (170 + e), ''7-13'', awg3Range n (n + f)]"
    using assms b by (auto simp: generatePremiumTimings_def timing_texts_def Let_def a d n e f)
  have "awg3Range 10 100 = ''10-100''" "awg3Range 100 120 = ''100-120''" "awg3Range 7 13 = ''7-13''" by code_simp+
  then have "span_text 10 100 ''10-100''" "span_text 100 120 ''100-120''" "span_text 7 13 ''7-13''"
    using awg3Range_text [of 10 100] awg3Range_text [of 100 120] awg3Range_text [of 7 13] by simp_all
  then show ?thesis using b unfolding ordered_bounds_def t
    by (intro exI [of _ "[(10, 100), (100, 120), (a, a + d), (170, 170 + e), (7, 13), (n, n + f)]"]) (simp add: awg3Range_text)
qed

lemma profile_timings:
  assumes "GenerateAwg3DeviceTimings profile rs = (t, rs')" "profile \<noteq> ObfPremium"
  shows "\<exists>bs. ordered_bounds bs \<and> list_all2 (\<lambda>b s. span_text (fst b) (snd b) s) bs (timing_texts t) \<and> list_all (\<lambda>b. snd b \<le> 65535) bs"
proof -
  obtain pl ph spread where sp: "timing_spans profile = (pl, ph, spread)" by (cases "timing_spans profile") auto
  then have lim: "0 \<le> pl" "pl \<le> ph" "ph \<le> 200" "10 \<le> spread" "spread \<le> 45" by (auto simp: timing_spans_def split: if_splits)
  obtain pm rs1 where pm: "cps_randInt pl ((pl + ph) div 2) rs = (pm, rs1)" by fastforce
  obtain px rs2 where px: "cps_randInt (pm + 8) ph rs1 = (px, rs2)" by fastforce
  obtain a rs3 where a: "cps_randInt 4 6 rs2 = (a, rs3)" by fastforce
  obtain d rs4 where d: "cps_randInt 1 4 rs3 = (d, rs4)" by fastforce
  obtain k rs5 where k: "cps_randInt 8 14 rs4 = (k, rs5)" by fastforce
  obtain e rs6 where e: "cps_randInt 2 8 rs5 = (e, rs6)" by fastforce
  obtain c rs7 where c: "cps_randInt 100 120 rs6 = (c, rs7)" by fastforce
  obtain f rs8 where f: "cps_randInt 10 spread rs7 = (f, rs8)" by fastforce
  obtain g rs9 where g: "cps_randInt 10 spread rs8 = (g, rs9)" by fastforce
  obtain n rs10 where n: "cps_randInt 12 18 rs9 = (n, rs10)" by fastforce
  obtain h rs11 where h: "cps_randInt 2 10 rs10 = (h, rs11)" by fastforce
  note b = draw_range [OF pm] draw_range [OF px] draw_range [OF a] draw_range [OF d] draw_range [OF k] draw_range [OF e] draw_range [OF c]
    draw_range [OF f] draw_range [OF g] draw_range [OF n] draw_range [OF h]
  define r where "r = (if c + f + (k + e) + (a + d) + 15 < 170 then 170 else c + f + (k + e) + (a + d) + 15)"
  have t: "timing_texts t = [awg3Range pm px, awg3Range c (c + f), awg3Range a (a + d), awg3Range r (r + g), awg3Range k (k + e), awg3Range n (n + h)]"
    using assms by (auto simp: GenerateAwg3DeviceTimings_def timing_texts_def sp pm px a d k e c f g n h r_def Let_def)
  have r: "c + f + (k + e) + (a + d) + 15 \<le> r" "r \<le> 300" using b lim unfolding r_def by auto
  moreover have "px \<le> 65535" using b(1,2) lim by linarith
  ultimately show ?thesis using b lim unfolding ordered_bounds_def t
    by (intro exI [of _ "[(pm, px), (c, c + f), (a, a + d), (r, r + g), (k, k + e), (n, n + h)]"]) (simp add: awg3Range_text)
qed

text \<open>C36: Generated device timers are ranges the check of stored timers accepts, with the order the protocol needs: the time
  after which keys are rejected lies above the refresh window of the receiver and above every renewal.\<close>

theorem timings_ordered:
  assumes "GenerateAwg3DeviceTimings profile rs = (t, rs')"
  shows "(\<exists>bs. ordered_bounds bs \<and> list_all2 (\<lambda>b s. span_text (fst b) (snd b) s) bs (timing_texts t))
    \<and> list_all (\<lambda>s. ValidateDeviceTimer name s = None) (timing_texts t)"
proof -
  obtain bs where bs: "ordered_bounds bs" "list_all2 (\<lambda>b s. span_text (fst b) (snd b) s) bs (timing_texts t)" "list_all (\<lambda>b. snd b \<le> 65535) bs"
    using premium_timings [of rs t rs'] profile_timings [OF assms] assms by (cases "profile = ObfPremium") (auto simp: GenerateAwg3DeviceTimings_def)
  then have "list_all (\<lambda>s. ValidateDeviceTimer name s = None) (timing_texts t)"
    unfolding list_all2_conv_all_nth list_all_length by (metis timer_accepted)
  with bs show ?thesis by blast
qed

theorem timings_ordered_witness:
  "\<exists>t rs'. GenerateAwg3DeviceTimings ObfLite [] = (t, rs') \<and> (\<exists>bs. ordered_bounds bs \<and> list_all2 (\<lambda>b s. span_text (fst b) (snd b) s) bs (timing_texts t))
    \<and> list_all (\<lambda>s. ValidateDeviceTimer ''rekeyTimeout'' s = None) (timing_texts t)"
proof -
  obtain t rs' where g: "GenerateAwg3DeviceTimings ObfLite [] = (t, rs')" by fastforce
  from timings_ordered [OF this, of "''rekeyTimeout''"] g show ?thesis by blast
qed

end
