(* ===== verification/Ip_Table.thy ===== *)
theory Ip_Table
  imports Go_Json "HOL-Library.AList" "HOL-Library.Multiset"
begin

text \<open>
  \<open>internal/web/service/inbound_client_ips.go\<close>, \<open>inbound_node_ips.go\<close>: the addresses a client was seen at, merged from the
  scans of this panel and from the reports of other nodes, and the attribution of addresses to nodes. A table is the list
  of its rows by their unique key; whether a statement of a merge succeeds is an argument, and a failed one undoes
  the transaction it belongs to; the single statements that prune, rename and delete rows are taken to succeed.
\<close>

section \<open>Observations\<close>

record ip_entry =
  ieIP :: string
  ieTime :: int

text \<open>The text of a row by what decoding it leaves: nothing is stored, a list, or the list an error leaves behind (an element
  that is not an object is the zero entry). What is encoded decodes to itself.\<close>

datatype blob = NoIps | Decodes "ip_entry list" | Fails "ip_entry list"

fun decoded :: "blob \<Rightarrow> ip_entry list" where
  "decoded NoIps = []"
| "decoded (Decodes es) = es"
| "decoded (Fails es) = es"

definition set_entry :: "ip_entry \<Rightarrow> (string \<times> int) list \<Rightarrow> (string \<times> int) list" where
  "set_entry e m = AList.update (ieIP e) (ieTime e) m"

definition keep_newer :: "ip_entry \<Rightarrow> (string \<times> int) list \<Rightarrow> (string \<times> int) list" where
  "keep_newer e m = (case map_of m (ieIP e) of
     Some cur \<Rightarrow> if ieTime e > cur then AList.update (ieIP e) (ieTime e) m else m
   | None \<Rightarrow> AList.update (ieIP e) (ieTime e) m)"

definition entries_of :: "(string \<times> int) list \<Rightarrow> ip_entry list" where
  "entries_of m = map (\<lambda>(ip, t). \<lparr>ieIP = ip, ieTime = t\<rparr>) m"

definition merge_map :: "(ip_entry \<Rightarrow> bool) \<Rightarrow> (ip_entry \<Rightarrow> bool) \<Rightarrow> ip_entry list \<Rightarrow> ip_entry list \<Rightarrow> (string \<times> int) list" where
  "merge_map keepOld keepNew old new = fold keep_newer (filter keepNew new) (fold set_entry (filter keepOld old) [])"

definition newest_first :: "ip_entry list \<Rightarrow> ip_entry list" where
  "newest_first = sort_key (\<lambda>e. - ieTime e)"

definition mergeClientIpEntries :: "ip_entry list \<Rightarrow> ip_entry list \<Rightarrow> int \<Rightarrow> ip_entry list" where
  "mergeClientIpEntries old incoming cutoff =
     newest_first (entries_of (merge_map (\<lambda>e. cutoff \<le> ieTime e) (\<lambda>e. cutoff \<le> ieTime e) old incoming))"

definition mergeModelClientIpEntries :: "ip_entry list \<Rightarrow> ip_entry list \<Rightarrow> int \<Rightarrow> ip_entry list" where
  "mergeModelClientIpEntries old incoming cutoff =
     newest_first (entries_of (merge_map (\<lambda>e. ieIP e \<noteq> [] \<and> cutoff \<le> ieTime e) (\<lambda>e. ieIP e \<noteq> [] \<and> cutoff \<le> ieTime e) old incoming))"

definition clientIpStaleAfterSeconds :: int where
  "clientIpStaleAfterSeconds = 30 * 60"

section \<open>The table of a cluster\<close>

type_synonym ip_table = "(string \<times> blob) list"

definition MergeInboundClientIps :: "(string \<Rightarrow> bool) \<Rightarrow> bool \<Rightarrow> int \<Rightarrow> ip_table \<Rightarrow> ip_table \<Rightarrow> bool \<times> ip_table" where
  "MergeInboundClientIps writes commits now incoming T =
     (let cutoff = now - clientIpStaleAfterSeconds;
          step = (\<lambda>(email, ips) t. case t of None \<Rightarrow> None | Some T' \<Rightarrow>
            if email = [] \<or> ips = NoIps then Some T'
            else case map_of T email of
              None \<Rightarrow>
                (let fresh = mergeClientIpEntries [] (decoded ips) cutoff in
                 if fresh = [] then Some T' else if \<not> writes email then None
                 else if map_of T' email = None then Some (AList.update email (Decodes fresh) T') else Some T')
            | Some cur \<Rightarrow>
                (let merged = mergeClientIpEntries (decoded cur) (decoded ips) cutoff in
                 if cur = Decodes merged then Some T' else if \<not> writes email then None
                 else Some (AList.update email (Decodes merged) T')))
      in case fold step (sort_key fst incoming) (Some T) of
           None \<Rightarrow> (False, T) | Some T' \<Rightarrow> if commits then (True, T') else (False, T))"

definition UpdateClientIPs :: "string \<Rightarrow> string \<Rightarrow> ip_table \<Rightarrow> ip_table" where
  "UpdateClientIPs old new T =
     (let T = (if old \<noteq> new then AList.delete new T else T) in map (\<lambda>(e, b). (if e = old then new else e, b)) T)"

definition delClientIPsByEmails :: "string list \<Rightarrow> ip_table \<Rightarrow> ip_table" where
  "delClientIPsByEmails emails T = filter (\<lambda>(e, _). e \<notin> set emails) T"

definition ClearClientIps :: "string \<Rightarrow> ip_table \<Rightarrow> ip_table" where
  "ClearClientIps email T = map (\<lambda>(e, b). (e, if e = email then NoIps else b)) T"

text \<open>One row of \<open>PruneStaleClientIps\<close> and \<open>pruneStaleNodeClientIps\<close>: a text that does not decode is left alone.\<close>

definition pruned :: "(ip_entry list \<Rightarrow> ip_entry list) \<Rightarrow> blob \<Rightarrow> blob option" where
  "pruned merge b = (case b of
     Fails _ \<Rightarrow> Some b
   | _ \<Rightarrow> let kept = merge (decoded b) in
       if kept = [] then None else if length kept = length (decoded b) then Some b else Some (Decodes kept))"

definition prune_rows :: "(ip_entry list \<Rightarrow> ip_entry list) \<Rightarrow> ('a \<times> blob) list \<Rightarrow> ('a \<times> blob) list" where
  "prune_rows merge T = List.map_filter (\<lambda>(k, b). map_option (Pair k) (pruned merge b)) T"

section \<open>Which node an address is at\<close>

type_synonym node_table = "((string \<times> string) \<times> blob) list"

definition PruneStaleClientIps :: "int \<Rightarrow> ip_table \<Rightarrow> node_table \<Rightarrow> ip_table \<times> node_table" where
  "PruneStaleClientIps now T N =
     (let cutoff = now - clientIpStaleAfterSeconds
      in (prune_rows (\<lambda>es. mergeClientIpEntries [] es cutoff) T, prune_rows (\<lambda>es. mergeModelClientIpEntries [] es cutoff) N))"

definition upsertNodeClientIps :: "(string \<Rightarrow> bool) \<Rightarrow> bool \<Rightarrow> int \<Rightarrow> string \<Rightarrow> (string \<times> ip_entry list) list \<Rightarrow> node_table \<Rightarrow> bool \<times> node_table" where
  "upsertNodeClientIps writes commits now guid perEmail N =
     (if guid = [] \<or> perEmail = [] then (True, N)
      else let cutoff = now - clientIpStaleAfterSeconds;
          step = (\<lambda>email t. case t of None \<Rightarrow> None | Some N' \<Rightarrow>
            (let old = (case map_of N (guid, email) of None \<Rightarrow> [] | Some b \<Rightarrow> decoded b);
                 incoming = (case map_of perEmail email of None \<Rightarrow> [] | Some es \<Rightarrow> es);
                 merged = mergeModelClientIpEntries old incoming cutoff in
             if merged = [] \<and> map_of N (guid, email) = None then Some N'
             else if \<not> writes email then None
             else if merged = [] then Some (AList.delete (guid, email) N')
             else Some (AList.update (guid, email) (Decodes merged) N')))
        in case fold step (sort (filter (\<lambda>e. e \<noteq> []) (map fst perEmail))) (Some N) of
             None \<Rightarrow> (False, N) | Some N' \<Rightarrow> if commits then (True, N') else (False, N))"

text \<open>The report of a node is a tree by guid; the node is given with its guid and the key it has among all nodes.\<close>

type_synonym report = "(string \<times> (string \<times> ip_entry list) list) list"

definition add_emails :: "(string \<times> ip_entry list) list \<Rightarrow> (string \<times> ip_entry list) list \<Rightarrow> (string \<times> ip_entry list) list" where
  "add_emails sub existing =
     fold (\<lambda>(email, ips) m. AList.update email ((case map_of m email of None \<Rightarrow> [] | Some es \<Rightarrow> es) @ ips) m) sub existing"

definition remap :: "(string \<times> string) option \<Rightarrow> report \<Rightarrow> report" where
  "remap node trees = (case node of
     Some (guid, eff) \<Rightarrow>
       (if guid = [] \<or> eff = guid then trees
        else case map_of trees guid of
          None \<Rightarrow> trees
        | Some sub \<Rightarrow>
            (let rest = AList.delete guid trees in
             case map_of rest eff of
               Some existing \<Rightarrow> AList.update eff (add_emails sub existing) rest
             | None \<Rightarrow> AList.update eff sub rest))
   | None \<Rightarrow> trees)"

fun upsert_all :: "(string \<Rightarrow> string \<Rightarrow> bool) \<Rightarrow> (string \<Rightarrow> bool) \<Rightarrow> int \<Rightarrow> report \<Rightarrow> node_table \<Rightarrow> bool \<times> node_table" where
  "upsert_all writes commits now [] N = (True, N)"
| "upsert_all writes commits now ((guid, perEmail) # trees) N =
     (case upsertNodeClientIps (writes guid) (commits guid) now guid perEmail N of
        (False, N) \<Rightarrow> (False, N) | (True, N) \<Rightarrow> upsert_all writes commits now trees N)"

definition MergeClientIpsByGuid :: "(string \<Rightarrow> string \<Rightarrow> bool) \<Rightarrow> (string \<Rightarrow> bool) \<Rightarrow> int \<Rightarrow> (string \<times> string) option \<Rightarrow> report \<Rightarrow> node_table \<Rightarrow> bool \<times> node_table" where
  "MergeClientIpsByGuid writes commits now node trees N = upsert_all writes commits now (remap node trees) N"

definition GetClientIpsByGuid :: "int \<Rightarrow> node_table \<Rightarrow> ((string \<times> string) \<times> ip_entry list) list" where
  "GetClientIpsByGuid now N = List.map_filter (\<lambda>((guid, email), b). case b of
       Decodes es \<Rightarrow>
         (let fresh = mergeModelClientIpEntries [] es (now - clientIpStaleAfterSeconds) in
          if guid = [] \<or> email = [] \<or> fresh = [] then None else Some ((guid, email), fresh))
     | _ \<Rightarrow> None) N"

definition attribute :: "string \<Rightarrow> int \<Rightarrow> ip_entry \<Rightarrow> (string \<times> int \<times> string) list \<Rightarrow> (string \<times> int \<times> string) list" where
  "attribute guid cutoff e m =
     (if ieIP e = [] \<or> ieTime e < cutoff then m
      else case map_of m (ieIP e) of
        Some (cur, _) \<Rightarrow> if ieTime e > cur then AList.update (ieIP e) (ieTime e, guid) m else m
      | None \<Rightarrow> AList.update (ieIP e) (ieTime e, guid) m)"

definition GetClientIpNodeAttribution :: "int \<Rightarrow> string \<Rightarrow> node_table \<Rightarrow> (string \<times> string) list" where
  "GetClientIpNodeAttribution now email N =
     (let cutoff = now - clientIpStaleAfterSeconds;
          m = fold (\<lambda>((guid, e), b). if e \<noteq> email \<or> guid = [] then (\<lambda>m. m)
                else case b of Decodes es \<Rightarrow> fold (attribute guid cutoff) es | _ \<Rightarrow> (\<lambda>m. m)) N []
      in map (\<lambda>(ip, _, guid). (ip, guid)) m)"

definition DeleteNodeClientIpsByGuid :: "string \<Rightarrow> node_table \<Rightarrow> node_table" where
  "DeleteNodeClientIpsByGuid guid N = (if guid = [] then N else filter (\<lambda>((g, _), _). g \<noteq> guid) N)"

section \<open>The newest time an address was seen\<close>

text \<open>A list of observations stands for the newest time of each address; merging is the join of these.\<close>

definition join_times :: "(string \<Rightarrow> int option) \<Rightarrow> (string \<Rightarrow> int option) \<Rightarrow> string \<Rightarrow> int option" where
  "join_times f g = (\<lambda>ip. combine_options max (f ip) (g ip))"

fun seen :: "ip_entry list \<Rightarrow> string \<Rightarrow> int option" where
  "seen [] = (\<lambda>_. None)"
| "seen (e # es) = join_times [ieIP e \<mapsto> ieTime e] (seen es)"

definition since :: "int \<Rightarrow> (string \<Rightarrow> int option) \<Rightarrow> string \<Rightarrow> int option" where
  "since c f = (\<lambda>ip. case f ip of Some t \<Rightarrow> if c \<le> t then Some t else None | None \<Rightarrow> None)"

lemma join_times_laws: "join_times f g = join_times g f" "join_times (join_times f g) h = join_times f (join_times g h)"
  "join_times f (join_times g h) = join_times g (join_times f h)" "join_times f f = f"
  "join_times (\<lambda>_. None) f = f" "join_times f (\<lambda>_. None) = f"
  by (auto simp: join_times_def fun_eq_iff max.commute max.assoc max.left_commute combine_options_def split: option.splits)

lemma since_join: "since c (join_times f g) = join_times (since c f) (since c g)"
  by (auto simp: since_def join_times_def fun_eq_iff combine_options_def split: option.splits)

lemma since_idem: "since c (since c f) = since c f"
  by (auto simp: since_def fun_eq_iff split: option.splits)

lemma seen_append: "seen (es @ es') = join_times (seen es) (seen es')"
  by (induction es) (simp_all add: join_times_laws)

lemma seen_None: "seen es ip = None \<longleftrightarrow> ip \<notin> ieIP ` set es"
  by (induction es) (auto simp: join_times_def combine_options_def split: option.splits)

lemma seen_filter: "seen (filter (\<lambda>e. c \<le> ieTime e) es) = since c (seen es)"
proof (induction es)
  case (Cons e es)
  have "since c [ieIP e \<mapsto> ieTime e] = (if c \<le> ieTime e then [ieIP e \<mapsto> ieTime e] else (\<lambda>_. None))"
    by (auto simp: since_def fun_eq_iff)
  with Cons show ?case by (simp add: since_join join_times_laws)
qed (simp add: since_def fun_eq_iff)

lemma keep_newer_map: "map_of (keep_newer e m) = join_times (map_of m) [ieIP e \<mapsto> ieTime e]"
  by (auto simp: keep_newer_def join_times_def fun_eq_iff update_conv' split: option.split)

lemma keep_newer_fold: "map_of (fold keep_newer es m) = join_times (map_of m) (seen es)"
  by (induction es arbitrary: m) (simp_all add: keep_newer_map join_times_laws)

lemma keep_newer_distinct: "distinct (map fst m) \<Longrightarrow> distinct (map fst (fold keep_newer es m))"
  by (induction es arbitrary: m) (auto simp: keep_newer_def distinct_update split: option.split)

lemma set_entry_distinct: "distinct (map fst m) \<Longrightarrow> distinct (map fst (fold set_entry es m))"
  by (induction es arbitrary: m) (auto simp: set_entry_def distinct_update)

lemma set_entry_fold: "distinct (map ieIP es) \<Longrightarrow> ieIP ` set es \<inter> dom (map_of m) = {} \<Longrightarrow>
    map_of (fold set_entry es m) = join_times (map_of m) (seen es)"
proof (induction es arbitrary: m)
  case (Cons e es)
  have "map_of (set_entry e m) = join_times (map_of m) [ieIP e \<mapsto> ieTime e]"
    using Cons.prems(2) by (auto simp: set_entry_def update_conv' join_times_def fun_eq_iff)
  moreover have "ieIP ` set es \<inter> dom (map_of (set_entry e m)) = {}" using Cons.prems by (auto simp: set_entry_def update_conv')
  ultimately show ?case using Cons.IH [of "set_entry e m"] Cons.prems by (simp add: join_times_laws)
qed (simp add: join_times_laws)

lemma seen_entries: "distinct (map fst m) \<Longrightarrow> seen (entries_of m) = map_of m"
proof (induction m)
  case (Cons p m)
  then show ?case by (cases p) (auto simp: entries_of_def join_times_def fun_eq_iff combine_options_def map_of_eq_None_iff rev_image_eqI split: option.split)
qed (simp add: entries_of_def)

lemma seen_mset: "mset es = mset es' \<Longrightarrow> seen es = seen es'"
proof (induction es arbitrary: es')
  case (Cons e es)
  then have "e \<in> set es'" by (metis list.set_intros(1) mset_eq_setD)
  then obtain a b where es': "es' = a @ e # b" by (meson split_list)
  then have "seen es = seen (a @ b)" using Cons by simp
  then show ?case by (simp add: es' seen_append join_times_laws)
qed simp


lemma seen_newest_first [simp]: "seen (newest_first es) = seen es"
  by (rule seen_mset) (simp add: newest_first_def)

lemma merge_map_seen:
  assumes "distinct (map ieIP old)"
  shows "distinct (map fst (merge_map keepOld keepNew old new))"
    and "map_of (merge_map keepOld keepNew old new) = join_times (seen (filter keepOld old)) (seen (filter keepNew new))"
proof -
  have "distinct (map ieIP (filter keepOld old))" using assms by (rule distinct_map_filter)
  then have o: "map_of (fold set_entry (filter keepOld old) []) = seen (filter keepOld old)"
    by (subst set_entry_fold) (simp_all add: join_times_laws)
  show "distinct (map fst (merge_map keepOld keepNew old new))"
    by (simp add: merge_map_def keep_newer_distinct set_entry_distinct)
  show "map_of (merge_map keepOld keepNew old new) = join_times (seen (filter keepOld old)) (seen (filter keepNew new))"
    by (simp add: merge_map_def keep_newer_fold o)
qed

lemma entries_ips [simp]: "map ieIP (entries_of m) = map fst m"
  by (auto simp: entries_of_def)

lemma newest_first_ips [simp]: "distinct (map ieIP (newest_first es)) = distinct (map ieIP es)"
  by (rule mset_eq_imp_distinct_iff) (simp add: newest_first_def)

lemma merged_seen: "distinct (map ieIP old) \<Longrightarrow>
    seen (mergeClientIpEntries old incoming c) = since c (join_times (seen old) (seen incoming))"
  by (simp add: mergeClientIpEntries_def seen_entries merge_map_seen seen_filter since_join)

lemma merged_distinct: "distinct (map ieIP old) \<Longrightarrow> distinct (map ieIP (mergeClientIpEntries old incoming c))"
  by (simp add: mergeClientIpEntries_def merge_map_seen)

lemma merged_fresh: "distinct (map ieIP old) \<Longrightarrow> e \<in> set (mergeClientIpEntries old incoming c) \<Longrightarrow> c \<le> ieTime e"
proof -
  assume d: "distinct (map ieIP old)" and e: "e \<in> set (mergeClientIpEntries old incoming c)"
  have "(ieIP e, ieTime e) \<in> set (merge_map (\<lambda>e. c \<le> ieTime e) (\<lambda>e. c \<le> ieTime e) old incoming)"
    using e by (auto simp: mergeClientIpEntries_def newest_first_def entries_of_def)
  then have "map_of (merge_map (\<lambda>e. c \<le> ieTime e) (\<lambda>e. c \<le> ieTime e) old incoming) (ieIP e) = Some (ieTime e)"
    by (rule map_of_is_SomeI [OF merge_map_seen(1) [OF d]])
  then have "since c (join_times (seen old) (seen incoming)) (ieIP e) = Some (ieTime e)"
    by (simp add: merge_map_seen(2) [OF d] since_join seen_filter)
  then show ?thesis by (auto simp: since_def split: option.splits if_splits)
qed

lemma seen_empty: "es = [] \<longleftrightarrow> seen es = (\<lambda>_. None)"
proof (cases es)
  case (Cons e es')
  then have "seen es (ieIP e) \<noteq> None" by (metis image_eqI list.set_intros(1) seen_None)
  then show ?thesis using Cons by auto
qed simp

section \<open>What a table says\<close>

definition seen_at :: "ip_table \<Rightarrow> string \<Rightarrow> string \<Rightarrow> int option" where
  "seen_at T email = (case map_of T email of None \<Rightarrow> (\<lambda>_. None) | Some b \<Rightarrow> seen (decoded b))"

definition table_ok :: "ip_table \<Rightarrow> bool" where
  "table_ok T \<longleftrightarrow> distinct (map fst T) \<and> list_all (\<lambda>(_, b). distinct (map ieIP (decoded b))) T"

lemma table_row: "table_ok T \<Longrightarrow> map_of T email = Some b \<Longrightarrow> distinct (map ieIP (decoded b))"
  by (auto simp: table_ok_def list_all_iff dest!: map_of_SomeD)

lemma table_ok_iff: "table_ok T \<longleftrightarrow> distinct (map fst T) \<and> (\<forall>e b. map_of T e = Some b \<longrightarrow> distinct (map ieIP (decoded b)))"
  by (auto simp: table_ok_def list_all_iff dest: map_of_SomeD) (metis map_of_eq_Some_iff)?

text \<open>The row of a client after a merge.\<close>

definition merged_row :: "int \<Rightarrow> blob option \<Rightarrow> blob \<Rightarrow> blob option" where
  "merged_row c row ips = (case row of
     None \<Rightarrow> let fresh = mergeClientIpEntries [] (decoded ips) c in if fresh = [] then None else Some (Decodes fresh)
   | Some cur \<Rightarrow> Some (Decodes (mergeClientIpEntries (decoded cur) (decoded ips) c)))"

definition merge_step :: "int \<Rightarrow> ip_table \<Rightarrow> (string \<Rightarrow> bool) \<Rightarrow> string \<times> blob \<Rightarrow> ip_table option \<Rightarrow> ip_table option" where
  "merge_step cutoff T writes = (\<lambda>(email, ips) t. case t of None \<Rightarrow> None | Some T' \<Rightarrow>
            if email = [] \<or> ips = NoIps then Some T'
            else case map_of T email of
              None \<Rightarrow>
                (let fresh = mergeClientIpEntries [] (decoded ips) cutoff in
                 if fresh = [] then Some T' else if \<not> writes email then None
                 else if map_of T' email = None then Some (AList.update email (Decodes fresh) T') else Some T')
            | Some cur \<Rightarrow>
                (let merged = mergeClientIpEntries (decoded cur) (decoded ips) cutoff in
                 if cur = Decodes merged then Some T' else if \<not> writes email then None
                 else Some (AList.update email (Decodes merged) T')))"

lemma Merge_step: "MergeInboundClientIps writes commits now incoming T =
    (case fold (merge_step (now - clientIpStaleAfterSeconds) T writes) (sort_key fst incoming) (Some T) of
       None \<Rightarrow> (False, T) | Some T' \<Rightarrow> if commits then (True, T') else (False, T))"
  by (simp add: MergeInboundClientIps_def merge_step_def Let_def)

lemma merge_one:
  assumes A: "map_of A email = map_of T email"
  shows "\<exists>A'. merge_step c T (\<lambda>_. True) (email, ips) (Some A) = Some A' \<and> (distinct (map fst A) \<longrightarrow> distinct (map fst A'))
    \<and> map_of A' = (map_of A)(email := if email = [] \<or> ips = NoIps then map_of A email else merged_row c (map_of T email) ips)"
proof (cases "email = [] \<or> ips = NoIps")
  case True
  then show ?thesis by (auto simp: merge_step_def)
next
  case False
  show ?thesis
  proof (cases "map_of T email")
    case None
    then show ?thesis using False A by (auto simp: merge_step_def merged_row_def Let_def update_conv' distinct_update fun_upd_idem)
  next
    case (Some cur)
    then show ?thesis using False A by (auto simp: merge_step_def merged_row_def Let_def update_conv' distinct_update fun_upd_idem)
  qed
qed

lemma merge_fold:
  assumes "distinct (map fst rows)" "\<And>e. e \<in> fst ` set rows \<Longrightarrow> map_of A e = map_of T e"
  shows "\<exists>A'. fold (merge_step c T (\<lambda>_. True)) rows (Some A) = Some A' \<and> (distinct (map fst A) \<longrightarrow> distinct (map fst A'))
    \<and> (\<forall>e. map_of A' e = (case map_of rows e of None \<Rightarrow> map_of A e
          | Some ips \<Rightarrow> if e = [] \<or> ips = NoIps then map_of A e else merged_row c (map_of T e) ips))"
  using assms
proof (induction rows arbitrary: A)
  case (Cons row rows)
  obtain email ips where row: "row = (email, ips)" by (cases row)
  have "map_of A email = map_of T email" using Cons.prems(2) row by simp
  from merge_one [OF this, of c ips] obtain B where
    B: "merge_step c T (\<lambda>_. True) (email, ips) (Some A) = Some B" "distinct (map fst A) \<longrightarrow> distinct (map fst B)"
      "map_of B = (map_of A)(email := if email = [] \<or> ips = NoIps then map_of A email else merged_row c (map_of T email) ips)" by blast
  have "map_of B e = map_of T e" if "e \<in> fst ` set rows" for e
    using that Cons.prems row B(3) by auto
  from Cons.IH [OF _ this] obtain A' where
    A': "fold (merge_step c T (\<lambda>_. True)) rows (Some B) = Some A'" "distinct (map fst B) \<longrightarrow> distinct (map fst A')"
      "\<forall>e. map_of A' e = (case map_of rows e of None \<Rightarrow> map_of B e
          | Some ips \<Rightarrow> if e = [] \<or> ips = NoIps then map_of B e else merged_row c (map_of T e) ips)"
    using Cons.prems(1) by auto
  have "map_of rows email = None" using Cons.prems(1) row by (simp add: map_of_eq_None_iff)
  then show ?case using A' B row by (intro exI [of _ A']) (auto split: option.split)
qed simp

lemma merged_row_seen: "(\<And>b. row = Some b \<Longrightarrow> distinct (map ieIP (decoded b))) \<Longrightarrow>
    (case merged_row c row ips of None \<Rightarrow> (\<lambda>_. None) | Some b \<Rightarrow> seen (decoded b))
    = since c (join_times (case row of None \<Rightarrow> (\<lambda>_. None) | Some b \<Rightarrow> seen (decoded b)) (seen (decoded ips)))"
  by (cases row) (auto simp: merged_row_def Let_def merged_seen join_times_laws seen_empty)

lemma map_of_sorted: "distinct (map fst xs) \<Longrightarrow> map_of (sort_key f xs) = map_of xs"
proof (rule ext)
  assume d: "distinct (map fst xs)"
  have d': "distinct (map fst (sort_key f xs))" by (rule mset_eq_imp_distinct_iff [THEN iffD2, OF _ d]) simp
  fix k
  show "map_of (sort_key f xs) k = map_of xs k"
  proof (cases "map_of xs k")
    case None
    then have "k \<notin> fst ` set xs" by (simp add: map_of_eq_None_iff)
    then have "map_of (sort_key f xs) k = None" by (simp add: map_of_eq_None_iff)
    with None show ?thesis by simp
  next
    case (Some v)
    then have "(k, v) \<in> set (sort_key f xs)" using map_of_SomeD by fastforce
    then have "map_of (sort_key f xs) k = Some v" by (rule map_of_is_SomeI [OF d'])
    with Some show ?thesis by simp
  qed
qed

text \<open>A statement that fails only ever ends the merge.\<close>

lemma merge_step_mono: "merge_step c T writes row t = Some B \<Longrightarrow> merge_step c T (\<lambda>_. True) row t = Some B"
  by (cases row; cases t) (auto simp: merge_step_def Let_def split: option.splits if_splits)

lemma merge_step_None: "fold (merge_step c T writes) rows None = None"
  by (induction rows) (auto simp: merge_step_def)

lemma merge_fold_mono: "fold (merge_step c T writes) rows t = Some B \<Longrightarrow> fold (merge_step c T (\<lambda>_. True)) rows t = Some B"
proof (induction rows arbitrary: t)
  case (Cons row rows)
  then obtain t' where "merge_step c T writes row t = Some t'" by (cases "merge_step c T writes row t") (simp_all add: merge_step_None)
  with Cons merge_step_mono [OF this] show ?case by simp
qed simp

lemma Merge_join:
  assumes "table_ok T" "distinct (map fst incoming)" "MergeInboundClientIps writes commits now incoming T = (ok, T')"
  shows "(if ok then table_ok T' \<and> (\<forall>email. seen_at T' email =
        (case map_of incoming email of
           None \<Rightarrow> seen_at T email
         | Some ips \<Rightarrow> if email = [] \<or> ips = NoIps then seen_at T email
             else since (now - clientIpStaleAfterSeconds) (join_times (seen_at T email) (seen (decoded ips)))))
     else T' = T)"
proof (cases ok)
  case False
  then show ?thesis using assms(3) by (auto simp: Merge_step split: option.splits if_splits)
next
  case True
  let ?c = "now - clientIpStaleAfterSeconds" and ?rows = "sort_key fst incoming"
  have f: "fold (merge_step ?c T writes) ?rows (Some T) = Some T'"
    using assms(3) True by (auto simp: Merge_step split: option.splits if_splits)
  have d: "distinct (map fst ?rows)" by (rule mset_eq_imp_distinct_iff [THEN iffD2, OF _ assms(2)]) simp
  from merge_fold [OF d, of T T ?c] merge_fold_mono [OF f] map_of_sorted [OF assms(2), of fst]
  have r: "distinct (map fst T')" "\<And>e. map_of T' e = (case map_of incoming e of None \<Rightarrow> map_of T e
      | Some ips \<Rightarrow> if e = [] \<or> ips = NoIps then map_of T e else merged_row ?c (map_of T e) ips)"
    using assms(1) by (auto simp: table_ok_def)
  have row: "\<And>e b. map_of T e = Some b \<Longrightarrow> distinct (map ieIP (decoded b))" by (rule table_row [OF assms(1)])
  have "distinct (map ieIP (decoded b))" if "merged_row ?c (map_of T e) ips = Some b" for e ips b
    using that row [of e] by (auto simp: merged_row_def Let_def merged_distinct split: option.splits if_splits)
  then have "table_ok T'" using r row by (auto simp: table_ok_iff split: option.splits if_splits)
  moreover have "seen_at T' email = (case map_of incoming email of None \<Rightarrow> seen_at T email
         | Some ips \<Rightarrow> if email = [] \<or> ips = NoIps then seen_at T email
             else since ?c (join_times (seen_at T email) (seen (decoded ips))))" for email
    using merged_row_seen [of "map_of T email" ?c, OF row] by (simp add: seen_at_def r(2) split: option.split)
  ultimately show ?thesis using True by simp
qed

section \<open>Removing what is stale\<close>

lemma keep_newer_length: "length (fold keep_newer es m) \<le> length m + length es"
proof (induction es arbitrary: m)
  case (Cons e es)
  have "length (AList.update (ieIP e) (ieTime e) m) \<le> Suc (length m)" by (induction m) auto
  then have "length (keep_newer e m) \<le> Suc (length m)" by (simp add: keep_newer_def split: option.split)
  with Cons [of "keep_newer e m"] show ?case by simp
qed simp

lemma merged_length: "length (mergeClientIpEntries [] es c) \<le> length (filter (\<lambda>e. c \<le> ieTime e) es)"
  using keep_newer_length [of "filter (\<lambda>e. c \<le> ieTime e) es" "[]"]
  by (simp add: mergeClientIpEntries_def merge_map_def newest_first_def entries_of_def)

lemma merged_all: "length (mergeClientIpEntries [] es c) = length es \<Longrightarrow> since c (seen es) = seen es"
proof -
  assume l: "length (mergeClientIpEntries [] es c) = length es"
  have "length es \<le> length (filter (\<lambda>e. c \<le> ieTime e) es)" using merged_length [of es c] l by simp
  then have "filter (\<lambda>e. c \<le> ieTime e) es = es" by (metis filter_id_conv length_filter_less not_less)
  then show ?thesis by (metis seen_filter)
qed

lemma pruned_seen: "b = NoIps \<or> b = Decodes es \<Longrightarrow>
    (case pruned (\<lambda>es. mergeClientIpEntries [] es c) b of None \<Rightarrow> (\<lambda>_. None) | Some b' \<Rightarrow> seen (decoded b')) = since c (seen (decoded b))"
proof -
  assume b: "b = NoIps \<or> b = Decodes es"
  let ?k = "mergeClientIpEntries [] (decoded b) c"
  have "seen ?k = since c (seen (decoded b))" by (simp add: merged_seen join_times_laws)
  moreover have "?k = [] \<Longrightarrow> since c (seen (decoded b)) = (\<lambda>_. None)" using calculation by simp
  moreover have "length ?k = length (decoded b) \<Longrightarrow> since c (seen (decoded b)) = seen (decoded b)" by (rule merged_all)
  ultimately show ?thesis using b by (auto simp: pruned_def Let_def)
qed

lemma prune_rows_map: "distinct (map fst T) \<Longrightarrow>
    map_of (prune_rows merge T) k = (case map_of T k of None \<Rightarrow> None | Some b \<Rightarrow> pruned merge b)"
proof (induction T)
  case (Cons row T)
  have "map_of T (fst row) = None" using Cons.prems by (simp add: map_of_eq_None_iff)
  with Cons show ?case by (cases row) (auto simp: prune_rows_def split: option.split)
qed (simp add: prune_rows_def)

section \<open>The node that saw an address last\<close>

text \<open>An observation of an address of the client by a node.\<close>

definition observed :: "node_table \<Rightarrow> string \<Rightarrow> string \<Rightarrow> string \<Rightarrow> int \<Rightarrow> bool" where
  "observed N email guid ip t \<longleftrightarrow> guid \<noteq> [] \<and> ip \<noteq> [] \<and> (\<exists>es. ((guid, email), Decodes es) \<in> set N \<and> \<lparr>ieIP = ip, ieTime = t\<rparr> \<in> set es)"

text \<open>What is recorded for the observations made so far: for each address one that is fresh and as new as any.\<close>

definition newest_of :: "int \<Rightarrow> (string \<Rightarrow> string \<Rightarrow> int \<Rightarrow> bool) \<Rightarrow> (string \<times> int \<times> string) list \<Rightarrow> bool" where
  "newest_of c obs m \<longleftrightarrow> (\<forall>ip. case map_of m ip of None \<Rightarrow> \<forall>g t. obs g ip t \<longrightarrow> t < c
     | Some (t, g) \<Rightarrow> obs g ip t \<and> c \<le> t \<and> (\<forall>g' t'. obs g' ip t' \<longrightarrow> t' \<le> t))"

lemma attribute_newest:
  assumes "newest_of c obs m"
  shows "newest_of c (\<lambda>g ip t. obs g ip t \<or> g = guid \<and> ip = ieIP e \<and> t = ieTime e \<and> ip \<noteq> []) (attribute guid c e m)"
  unfolding newest_of_def
proof
  fix ip
  have old: "case map_of m ip of None \<Rightarrow> \<forall>g t. obs g ip t \<longrightarrow> t < c
     | Some (t, g) \<Rightarrow> obs g ip t \<and> c \<le> t \<and> (\<forall>g' t'. obs g' ip t' \<longrightarrow> t' \<le> t)" using assms by (simp add: newest_of_def)
  show "case map_of (attribute guid c e m) ip of
      None \<Rightarrow> \<forall>g t. obs g ip t \<or> g = guid \<and> ip = ieIP e \<and> t = ieTime e \<and> ip \<noteq> [] \<longrightarrow> t < c
    | Some (t, g) \<Rightarrow> (obs g ip t \<or> g = guid \<and> ip = ieIP e \<and> t = ieTime e \<and> ip \<noteq> []) \<and> c \<le> t
        \<and> (\<forall>g' t'. obs g' ip t' \<or> g' = guid \<and> ip = ieIP e \<and> t' = ieTime e \<and> ip \<noteq> [] \<longrightarrow> t' \<le> t)"
  proof (cases "ip = ieIP e")
    case False
    then have "map_of (attribute guid c e m) ip = map_of m ip" by (simp add: attribute_def update_conv' split: option.split)
    then show ?thesis using old False by (cases "map_of m ip") auto
  next
    case True
    show ?thesis
    proof (cases "map_of m ip")
      case None
      then have "\<And>g t. obs g ip t \<Longrightarrow> \<not> ieTime e < c \<Longrightarrow> t \<le> ieTime e" using old by force
      with None show ?thesis using old True by (auto simp: attribute_def update_conv')
    next
      case (Some p)
      obtain cur g where p: "p = (cur, g)" by (cases p)
      have o: "obs g ip cur" "c \<le> cur" "\<And>g' t'. obs g' ip t' \<Longrightarrow> t' \<le> cur" using old Some p by auto
      then have "\<And>g' t'. obs g' ip t' \<Longrightarrow> cur < ieTime e \<Longrightarrow> t' \<le> ieTime e" by force
      with o Some p True show ?thesis by (auto simp: attribute_def update_conv')
    qed
  qed
qed

lemma attribute_all:
  assumes "newest_of c obs m"
  shows "newest_of c (\<lambda>g ip t. obs g ip t \<or> g = guid \<and> ip \<noteq> [] \<and> \<lparr>ieIP = ip, ieTime = t\<rparr> \<in> set es) (fold (attribute guid c) es m)"
  using assms
proof (induction es arbitrary: obs m)
  case (Cons e es)
  have "(\<lambda>g ip t. (obs g ip t \<or> g = guid \<and> ip = ieIP e \<and> t = ieTime e \<and> ip \<noteq> []) \<or> g = guid \<and> ip \<noteq> [] \<and> \<lparr>ieIP = ip, ieTime = t\<rparr> \<in> set es)
      = (\<lambda>g ip t. obs g ip t \<or> g = guid \<and> ip \<noteq> [] \<and> \<lparr>ieIP = ip, ieTime = t\<rparr> \<in> set (e # es))"
    by (intro ext) (cases e; auto)
  with Cons.IH [OF attribute_newest [OF Cons.prems, of guid e]] show ?case by simp
qed simp

definition attribution :: "int \<Rightarrow> string \<Rightarrow> node_table \<Rightarrow> (string \<times> int \<times> string) list \<Rightarrow> (string \<times> int \<times> string) list" where
  "attribution c email N m = fold (\<lambda>((guid, e), b). if e \<noteq> email \<or> guid = [] then (\<lambda>m. m)
                else case b of Decodes es \<Rightarrow> fold (attribute guid c) es | _ \<Rightarrow> (\<lambda>m. m)) N m"

lemma attribution_newest:
  assumes "newest_of c obs m"
  shows "newest_of c (\<lambda>g ip t. obs g ip t \<or> observed N email g ip t) (attribution c email N m)"
  using assms
proof (induction N arbitrary: obs m)
  case (Cons row N)
  obtain guid e b where row: "row = ((guid, e), b)" by (cases row) auto
  show ?case
  proof (cases "\<exists>es. b = Decodes es \<and> e = email \<and> guid \<noteq> []")
    case True
    then obtain es where es: "b = Decodes es" "e = email" "guid \<noteq> []" by blast
    have "(\<lambda>g ip t. (obs g ip t \<or> g = guid \<and> ip \<noteq> [] \<and> \<lparr>ieIP = ip, ieTime = t\<rparr> \<in> set es) \<or> observed N email g ip t)
        = (\<lambda>g ip t. obs g ip t \<or> observed (row # N) email g ip t)"
      using row es by (intro ext) (auto simp: observed_def)
    with Cons.IH [OF attribute_all [OF Cons.prems, of guid es]] show ?thesis using row es by (simp add: attribution_def)
  next
    case False
    then have "observed (row # N) email = observed N email" "attribution c email (row # N) m = attribution c email N m"
      using row by (intro ext, auto simp: observed_def attribution_def split: blob.split)
    with Cons.IH [OF Cons.prems] show ?thesis by simp
  qed
qed (simp add: attribution_def observed_def)

section \<open>Properties\<close>

text \<open>C24: A report of a node is folded into the table as the join of what both saw, less what is stale; clients the report does
  not name keep their rows, and a failed statement leaves the table as it was.\<close>

theorem MergeInboundClientIps_join:
  assumes "table_ok T" "distinct (map fst incoming)" "MergeInboundClientIps writes commits now incoming T = (ok, T')"
  shows "(if ok then table_ok T' \<and> (\<forall>email. seen_at T' email =
        (case map_of incoming email of
           None \<Rightarrow> seen_at T email
         | Some ips \<Rightarrow> if email = [] \<or> ips = NoIps then seen_at T email
             else since (now - clientIpStaleAfterSeconds) (join_times (seen_at T email) (seen (decoded ips)))))
     else T' = T)"
  by (rule Merge_join [OF assms])

text \<open>C35: Reports of several nodes may arrive in any order: merging two of them gives the same table of newest times either way.\<close>

theorem merge_order_irrelevant:
  assumes "table_ok T" "distinct (map fst A)" "distinct (map fst B)"
    and "MergeInboundClientIps writes True now A T = (True, TA)" "MergeInboundClientIps writes True now B TA = (True, TAB)"
    and "MergeInboundClientIps writes True now B T = (True, TB)" "MergeInboundClientIps writes True now A TB = (True, TBA)"
  shows "seen_at TAB = seen_at TBA"
proof -
  note a = Merge_join [OF assms(1,2,4)] and b = Merge_join [OF assms(1,3,6)]
  have ab: "table_ok TA" "table_ok TB" using a b by simp_all
  note a' = Merge_join [OF ab(1) assms(3,5)] and b' = Merge_join [OF ab(2) assms(2,7)]
  show ?thesis using a b a' b'
    by (intro ext) (auto simp: since_join since_idem join_times_laws split: option.splits if_splits)
qed

text \<open>Two rows and the reports of two nodes, one of them with a stale address.\<close>

definition example_table :: ip_table where
  "example_table = [(''a'', Decodes [\<lparr>ieIP = ''1.1.1.1'', ieTime = 9000\<rparr>]), (''b'', Decodes [\<lparr>ieIP = ''2.2.2.2'', ieTime = 100\<rparr>])]"

definition example_report :: "int \<Rightarrow> ip_table" where
  "example_report t = [(''a'', Decodes [\<lparr>ieIP = ''3.3.3.3'', ieTime = t\<rparr>, \<lparr>ieIP = ''1.1.1.1'', ieTime = t + 50\<rparr>])]"

theorem MergeInboundClientIps_join_witness:
  "seen_at (snd (MergeInboundClientIps (\<lambda>_. True) True 10000 (example_report 9950) example_table)) ''a'' ''1.1.1.1'' = Some 10000"
proof -
  have h: "table_ok example_table" "distinct (map fst (example_report 9950))"
    by (simp_all add: table_ok_def example_table_def example_report_def)
  obtain ok T' where m: "MergeInboundClientIps (\<lambda>_. True) True 10000 (example_report 9950) example_table = (ok, T')" by fastforce
  have "fst (MergeInboundClientIps (\<lambda>_. True) True 10000 (example_report 9950) example_table)" by code_simp
  then show ?thesis using MergeInboundClientIps_join [OF h m] m
    by (simp add: example_table_def example_report_def seen_at_def since_def join_times_def clientIpStaleAfterSeconds_def)
qed

definition example_merge :: "int \<Rightarrow> ip_table \<Rightarrow> ip_table" where
  "example_merge t T = snd (MergeInboundClientIps (\<lambda>_. True) True 10000 (example_report t) T)"

theorem merge_order_irrelevant_witness:
  "seen_at (example_merge 9950 (example_merge 9000 example_table)) = seen_at (example_merge 9000 (example_merge 9950 example_table))
   \<and> seen_at (example_merge 9950 (example_merge 9000 example_table)) ''a'' ''1.1.1.1'' = Some 10000"
proof -
  let ?M = "\<lambda>t. MergeInboundClientIps (\<lambda>_. True) True 10000 (example_report t)"
  have h: "table_ok example_table" "distinct (map fst (example_report t))" for t
    by (simp_all add: table_ok_def example_table_def example_report_def)
  have "fst (?M 9000 example_table) \<and> fst (?M 9950 (example_merge 9000 example_table)) \<and> fst (?M 9950 example_table)
      \<and> fst (?M 9000 (example_merge 9950 example_table))" by code_simp
  then have m: "?M 9000 example_table = (True, example_merge 9000 example_table)"
    "?M 9950 (example_merge 9000 example_table) = (True, example_merge 9950 (example_merge 9000 example_table))"
    "?M 9950 example_table = (True, example_merge 9950 example_table)"
    "?M 9000 (example_merge 9950 example_table) = (True, example_merge 9000 (example_merge 9950 example_table))"
    by (simp_all add: example_merge_def prod_eq_iff)
  have "seen_at (example_merge 9950 (example_merge 9000 example_table)) ''a'' ''1.1.1.1'' = Some 10000" by code_simp
  then show ?thesis using merge_order_irrelevant [OF h(1) h(2) h(2) m] by simp
qed

text \<open>Pruning leaves of every row that decodes exactly the fresh observations, and no row without one.\<close>

theorem PruneStaleClientIps_fresh:
  assumes "distinct (map fst T)" "map_of T email = Some b" "\<not> (\<exists>es. b = Fails es)"
  shows "let T' = fst (PruneStaleClientIps now T N) in
    seen_at T' email = since (now - clientIpStaleAfterSeconds) (seen_at T email)
    \<and> (map_of T' email = None \<longleftrightarrow> (\<forall>ip. seen_at T' email ip = None))"
proof -
  let ?c = "now - clientIpStaleAfterSeconds"
  obtain es where b: "b = NoIps \<or> b = Decodes es" using assms(3) by (cases b) auto
  let ?m = "\<lambda>es. mergeClientIpEntries [] es ?c"
  have row: "map_of (fst (PruneStaleClientIps now T N)) email = pruned ?m b"
    using assms(1,2) by (simp add: PruneStaleClientIps_def Let_def prune_rows_map)
  have ne: "pruned ?m b = Some b' \<Longrightarrow> seen (decoded b') \<noteq> (\<lambda>_. None)" for b'
    using b unfolding seen_empty [symmetric] by (auto simp: pruned_def Let_def split: if_splits)
  have at: "seen_at (fst (PruneStaleClientIps now T N)) email = (case pruned ?m b of None \<Rightarrow> (\<lambda>_. None) | Some b' \<Rightarrow> seen (decoded b'))"
    by (simp add: seen_at_def row)
  have old: "seen_at T email = seen (decoded b)" by (simp add: seen_at_def assms(2))
  show ?thesis using pruned_seen [OF b, of ?c] ne unfolding at row Let_def old
    by (cases "pruned ?m b") (simp_all add: fun_eq_iff)
qed

theorem PruneStaleClientIps_fresh_witness:
  "map_of (fst (PruneStaleClientIps 10000 example_table [])) ''b'' = None"
  using PruneStaleClientIps_fresh [of example_table "''b''" "Decodes [\<lparr>ieIP = ''2.2.2.2'', ieTime = 100\<rparr>]" 10000 "[]"]
  by (simp add: Let_def example_table_def seen_at_def since_def join_times_def clientIpStaleAfterSeconds_def)

text \<open>An address of a client is attributed to a node exactly when some node saw it recently, and to one that saw it last.\<close>

theorem attribution_newest_node:
  "let m = map_of (GetClientIpNodeAttribution now email N); c = now - clientIpStaleAfterSeconds in
    (m ip = None \<longleftrightarrow> (\<forall>g t. observed N email g ip t \<longrightarrow> t < c))
    \<and> (m ip = Some g \<longrightarrow> (\<exists>t. observed N email g ip t \<and> c \<le> t \<and> (\<forall>g' t'. observed N email g' ip t' \<longrightarrow> t' \<le> t)))"
proof -
  let ?c = "now - clientIpStaleAfterSeconds"
  have n: "newest_of ?c (\<lambda>g ip t. False \<or> observed N email g ip t) (attribution ?c email N [])"
    by (rule attribution_newest) (simp add: newest_of_def)
  have m: "map_of (GetClientIpNodeAttribution now email N) ip = map_option snd (map_of (attribution ?c email N []) ip)" for ip
  proof -
    have "map_of (map (\<lambda>(ip, _, guid). (ip, guid)) xs) ip = map_option snd (map_of xs ip)" for xs :: "(string \<times> int \<times> string) list"
      by (induction xs) auto
    then show ?thesis by (simp add: GetClientIpNodeAttribution_def attribution_def Let_def)
  qed
  have "case map_of (attribution ?c email N []) ip of None \<Rightarrow> \<forall>g t. observed N email g ip t \<longrightarrow> t < ?c
     | Some (t, g) \<Rightarrow> observed N email g ip t \<and> ?c \<le> t \<and> (\<forall>g' t'. observed N email g' ip t' \<longrightarrow> t' \<le> t)"
    using n by (simp add: newest_of_def)
  then show ?thesis by (cases "map_of (attribution ?c email N []) ip") (auto simp: m Let_def not_less)
qed

definition example_nodes :: node_table where
  "example_nodes = [((''n1'', ''a''), Decodes [\<lparr>ieIP = ''1.1.1.1'', ieTime = 9000\<rparr>]), ((''n2'', ''a''), Decodes [\<lparr>ieIP = ''1.1.1.1'', ieTime = 9500\<rparr>])]"

theorem attribution_newest_node_witness:
  "map_of (GetClientIpNodeAttribution 10000 ''a'' example_nodes) ''1.1.1.1'' = Some ''n2'' \<and> \<not> observed example_nodes ''a'' ''n1'' ''1.1.1.1'' 9600"
proof -
  have m: "map_of (GetClientIpNodeAttribution 10000 ''a'' example_nodes) ''1.1.1.1'' = Some ''n2''" by code_simp
  then obtain t where t: "\<And>g' t'. observed example_nodes ''a'' g' ''1.1.1.1'' t' \<Longrightarrow> t' \<le> t" "observed example_nodes ''a'' ''n2'' ''1.1.1.1'' t"
    using attribution_newest_node [of 10000 "''a''" example_nodes "''1.1.1.1''" "''n2''"] by (auto simp: Let_def)
  have "t = 9500" using t(2) by (auto simp: observed_def example_nodes_def)
  with m t(1) show ?thesis by fastforce
qed

end
