(* ===== verification/Ip_Limit.thy ===== *)
theory Ip_Limit
  imports Awg_Instance Ip_Table Go_Prefix
begin

text \<open>
  \<open>internal/web/job/check_client_ip_job.go\<close>, \<open>ip_limit_allowlist.go\<close>: the scan that records the addresses a client uses
  and has those over its limit banned. What the database and the core answer, which writes succeed and whether the ban log
  can be opened are arguments; the lines written to the log, the clients to disconnect and the memory of earlier bans are
  the state. Maps whose order Go leaves open are lists in any order.
\<close>

section \<open>The allowlist\<close>

record ipLimitAllowlist =
  alPrefixes :: "(addr \<times> nat) list"
  alAddrs :: "addr list"

definition Unmap :: "addr \<Rightarrow> addr" where
  "Unmap a = (if Is4In6 a then V4 (addr_num a mod 2 ^ 32) else a)"

definition allow_prefix :: "addr \<times> nat \<Rightarrow> addr \<times> nat" where
  "allow_prefix p = (let p = (if Is4In6 (fst p) \<and> 96 \<le> snd p then (Masked (Unmap (fst p), snd p - 96), snd p - 96) else p)
     in (Masked p, snd p))"

definition parseIpLimitAllowlist :: "string \<Rightarrow> ipLimitAllowlist" where
  "parseIpLimitAllowlist raw = fold (\<lambda>field l.
     let f = trim_space field in
     if f = [] then l
     else case ParsePrefix f of
       Some p \<Rightarrow> l\<lparr>alPrefixes := alPrefixes l @ [allow_prefix p]\<rparr>
     | None \<Rightarrow> (case ParseAddr f of Some a \<Rightarrow> l\<lparr>alAddrs := alAddrs l @ [Unmap a]\<rparr> | None \<Rightarrow> l))
     (split_on CHR '','' raw) \<lparr>alPrefixes = [], alAddrs = []\<rparr>"

definition allowlist_empty :: "ipLimitAllowlist \<Rightarrow> bool" where
  "allowlist_empty l \<longleftrightarrow> alPrefixes l = [] \<and> alAddrs l = []"

definition allowlist_contains :: "ipLimitAllowlist \<Rightarrow> string \<Rightarrow> bool" where
  "allowlist_contains l ip \<longleftrightarrow> \<not> allowlist_empty l \<and>
     (case ParseAddr (trim_space ip) of None \<Rightarrow> False
      | Some a \<Rightarrow> Unmap a \<in> set (alAddrs l) \<or> list_ex (\<lambda>p. Contains p (Unmap a)) (alPrefixes l))"

definition allowlist_split :: "ipLimitAllowlist \<Rightarrow> ip_entry list \<Rightarrow> ip_entry list \<times> ip_entry list" where
  "allowlist_split l entries =
     (if allowlist_empty l then (entries, [])
      else (filter (\<lambda>e. \<not> allowlist_contains l (ieIP e)) entries, filter (\<lambda>e. allowlist_contains l (ieIP e)) entries))"

section \<open>One client\<close>

definition ipStaleAfterSeconds :: int where
  "ipStaleAfterSeconds = 30 * 60"

definition mergeClientIps :: "ip_entry list \<Rightarrow> ip_entry list \<Rightarrow> int \<Rightarrow> bool \<Rightarrow> (string \<times> int) list" where
  "mergeClientIps old new staleCutoff newAlwaysLive =
     merge_map (\<lambda>e. staleCutoff \<le> ieTime e) (\<lambda>e. newAlwaysLive \<or> staleCutoff \<le> ieTime e) old new"

definition oldest_first :: "ip_entry list \<Rightarrow> ip_entry list" where
  "oldest_first = sort_key ieTime"

definition is_live :: "int \<Rightarrow> string list \<Rightarrow> string \<times> int \<Rightarrow> bool" where
  "is_live now observedThisScan p \<longleftrightarrow> fst p \<in> set observedThisScan \<or> now - snd p < 120"

definition partitionLiveIps :: "int \<Rightarrow> (string \<times> int) list \<Rightarrow> string list \<Rightarrow> ip_entry list \<times> ip_entry list" where
  "partitionLiveIps now ipMap observedThisScan =
     (oldest_first (entries_of (filter (is_live now observedThisScan) ipMap)),
      oldest_first (entries_of (filter (\<lambda>p. \<not> is_live now observedThisScan p) ipMap)))"

definition selectIpsToBan :: "ip_entry list \<Rightarrow> int \<Rightarrow> ip_entry list \<times> ip_entry list" where
  "selectIpsToBan live limit =
     (if limit \<le> 0 \<or> int (length live) \<le> limit then (live, [])
      else let cutoff = length live - nat limit in (drop cutoff live, take cutoff live))"

definition ban_key :: "string \<Rightarrow> string \<Rightarrow> string" where
  "ban_key email ip = email @ ''|'' @ ip"

definition remember :: "string \<Rightarrow> ip_entry \<Rightarrow> (string \<times> int) list \<times> ip_entry list \<Rightarrow> (string \<times> int) list \<times> ip_entry list" where
  "remember email e s = (let key = ban_key email (ieIP e) in
     case map_of (fst s) key of
       Some seen_at_ban \<Rightarrow> if ieTime e \<le> seen_at_ban then s else (AList.update key (ieTime e) (fst s), snd s @ [e])
     | None \<Rightarrow> (AList.update key (ieTime e) (fst s), snd s @ [e]))"

definition filterAdvancedSinceLastBan :: "string \<Rightarrow> ip_entry list \<Rightarrow> (string \<times> int) list \<Rightarrow> (string \<times> int) list \<times> ip_entry list" where
  "filterAdvancedSinceLastBan email banned bannedSeen =
     (let (memory, actionable) = fold (remember email) banned (bannedSeen, []);
          current = map (\<lambda>e. ban_key email (ieIP e)) banned
      in (filter (\<lambda>(key, _). \<not> (prefix (email @ ''|'') key \<and> key \<notin> set current)) memory, actionable))"

text \<open>A line of the ban log, as fail2ban reads it.\<close>

record limit_line =
  llEmail :: string
  llIP :: string
  llTime :: int

record scan_env =
  seNow :: int
  seEnforce :: bool
  seLive :: bool
  seAllowlist :: ipLimitAllowlist
  seLimit :: "string \<Rightarrow> int"
  seSave :: "string \<Rightarrow> bool"
  seLogOpens :: "string \<Rightarrow> bool"

record scan_state =
  ssTable :: ip_table
  ssBanned :: "(string \<times> int) list"
  ssLog :: "limit_line list"

definition save_row :: "scan_env \<Rightarrow> string \<Rightarrow> ip_entry list \<Rightarrow> scan_state \<Rightarrow> scan_state" where
  "save_row env email es s = (if seSave env email then s\<lparr>ssTable := AList.update email (Decodes es) (ssTable s)\<rparr> else s)"

text \<open>With the row found before the transaction; the result says whether the client is to be disconnected.\<close>

definition updateInboundClientIps :: "scan_env \<Rightarrow> string \<Rightarrow> inbound \<Rightarrow> blob \<Rightarrow> ip_entry list \<Rightarrow> scan_state \<Rightarrow> scan_state \<times> bool" where
  "updateInboundClientIps env email ib row new s =
     (if inSettings ib = [] then (s, False)
      else if \<not> seEnforce env \<or> seLimit env email \<le> 0 \<or> \<not> inEnable ib then (save_row env email new s, False)
      else let ipMap = mergeClientIps (decoded row) new (seNow env - ipStaleAfterSeconds) (seLive env);
               (live, historical) = partitionLiveIps (seNow env) ipMap (map ieIP new);
               (limited, allowed) = allowlist_split (seAllowlist env) live;
               (keptLive, bannedLive) = selectIpsToBan limited (seLimit env email);
               (memory, actionable) = filterAdvancedSinceLastBan email bannedLive (ssBanned s);
               s = s\<lparr>ssBanned := memory\<rparr>
           in if actionable \<noteq> [] \<and> \<not> seLogOpens env email then (s, False)
              else (save_row env email (keptLive @ allowed @ historical)
                     (s\<lparr>ssLog := ssLog s @ map (\<lambda>e. \<lparr>llEmail = email, llIP = ieIP e, llTime = ieTime e\<rparr>) actionable\<rparr>),
                   actionable \<noteq> []))"

section \<open>The scan\<close>

datatype owner = Owner inbound | Unowned | LookupFails

definition observe :: "int \<Rightarrow> string \<Rightarrow> string \<times> int \<Rightarrow> (string \<times> (string \<times> int) list) list \<Rightarrow> (string \<times> (string \<times> int) list) list" where
  "observe now email entry m =
     (let ts = (if snd entry \<le> 0 then now else snd entry);
          ips = (case map_of m email of None \<Rightarrow> [] | Some ips \<Rightarrow> ips)
      in case map_of ips (fst entry) of
           Some existing \<Rightarrow> if ts > existing then AList.update email (AList.update (fst entry) ts ips) m else m
         | None \<Rightarrow> AList.update email (AList.update (fst entry) ts ips) m)"

definition collectFromOnlineAPI :: "int \<Rightarrow> (string \<times> (string \<times> int) list) list \<Rightarrow> (string \<times> (string \<times> int) list) list" where
  "collectFromOnlineAPI now users = fold (\<lambda>(email, ips). fold (observe now email) ips) users []"

definition scan_one :: "scan_env \<Rightarrow> (string \<Rightarrow> owner) \<Rightarrow> ip_table \<Rightarrow> string \<times> (string \<times> int) list
    \<Rightarrow> scan_state \<times> (inbound \<times> string) list \<Rightarrow> scan_state \<times> (inbound \<times> string) list" where
  "scan_one env owner rows p s =
     (let email = fst p; new = entries_of (snd p) in
      case owner email of
        Unowned \<Rightarrow> ((fst s)\<lparr>ssTable := AList.delete email (ssTable (fst s))\<rparr>, snd s)
      | LookupFails \<Rightarrow> s
      | Owner ib \<Rightarrow>
          (case map_of rows email of
             None \<Rightarrow> (save_row env email new (fst s), snd s)
           | Some row \<Rightarrow>
               (let (s', banned) = updateInboundClientIps env email ib row new (fst s)
                in (s', if banned then snd s @ [(ib, email)] else snd s))))"

text \<open>When the transaction does not commit the rows are as before, but the log and the memory of bans are not.\<close>

definition processObserved :: "scan_env \<Rightarrow> (string \<Rightarrow> owner) \<Rightarrow> bool \<Rightarrow> bool \<Rightarrow> (string \<times> (string \<times> int) list) list \<Rightarrow> scan_state
    \<Rightarrow> scan_state \<times> (inbound \<times> string) list" where
  "processObserved env owner begins commits seen_now s =
     (if \<not> begins then (s, [])
      else let (s', disconnects) = fold (scan_one env owner (ssTable s)) (sort_key fst seen_now) (s, [])
           in if commits then (s', disconnects) else (s'\<lparr>ssTable := ssTable s\<rparr>, []))"

text \<open>What is recorded under the guid of this panel: an address that is connected now counts as seen now.\<close>

definition local_attribution :: "scan_env \<Rightarrow> (string \<Rightarrow> owner) \<Rightarrow> (string \<times> (string \<times> int) list) list \<Rightarrow> (string \<times> ip_entry list) list" where
  "local_attribution env owner seen_now = List.map_filter (\<lambda>(email, ips).
     case owner email of Owner _ \<Rightarrow>
       (if ips = [] then None
        else Some (email, map (\<lambda>e. if seLive env then e\<lparr>ieTime := seNow env\<rparr> else e) (entries_of ips)))
     | _ \<Rightarrow> None) (sort_key fst seen_now)"

section \<open>The job\<close>

definition resolveEnforce :: "bool \<Rightarrow> bool \<Rightarrow> bool \<Rightarrow> bool" where
  "resolveEnforce windows hasLimit f2bInstalled = (if hasLimit \<and> \<not> windows \<and> \<not> f2bInstalled then False else hasLimit)"

text \<open>The value of the environment variable, if it is set.\<close>

definition isFail2BanEnabled :: "string option \<Rightarrow> bool" where
  "isFail2BanEnabled var \<longleftrightarrow> (case var of None \<Rightarrow> True | Some value \<Rightarrow> value = ''true'')"

definition loadAllowlist :: "string option \<Rightarrow> ipLimitAllowlist" where
  "loadAllowlist setting = (case setting of None \<Rightarrow> \<lparr>alPrefixes = [], alAddrs = []\<rparr> | Some raw \<Rightarrow> parseIpLimitAllowlist raw)"

definition ipPruneIntervalSeconds :: int where
  "ipPruneIntervalSeconds = 5 * 60"

record job_env =
  jeScan :: scan_env
  jeOnline :: "(string \<times> (string \<times> int) list) list option"
  jeFail2ban :: "string option"
  jeHasLimit :: bool
  jeWindows :: bool
  jeClient :: bool
  jeAllowlist :: "string option"
  jeOwner :: "string \<Rightarrow> owner"
  jeBegins :: bool
  jeCommits :: bool
  jeGuid :: "string option"
  jeRecord :: "string \<Rightarrow> bool"
  jeRecorded :: bool

record job_state =
  jsScan :: scan_state
  jsNodes :: node_table
  jsLastIpPrune :: int

definition pruneStaleIpRows :: "int \<Rightarrow> job_state \<Rightarrow> job_state" where
  "pruneStaleIpRows now s =
     (if now - jsLastIpPrune s < ipPruneIntervalSeconds then s
      else let (T, N) = PruneStaleClientIps now (ssTable (jsScan s)) (jsNodes s)
           in s\<lparr>jsScan := (jsScan s)\<lparr>ssTable := T\<rparr>, jsNodes := N, jsLastIpPrune := now\<rparr>)"

definition recordLocalAttribution :: "job_env \<Rightarrow> (string \<times> ip_entry list) list \<Rightarrow> node_table \<Rightarrow> node_table" where
  "recordLocalAttribution e attr N =
     (case jeGuid e of
        Some guid \<Rightarrow> if attr = [] \<or> guid = [] then N
          else snd (upsertNodeClientIps (jeRecord e) (jeRecorded e) (seNow (jeScan e)) guid attr N)
      | None \<Rightarrow> N)"

text \<open>One run; the clients to disconnect are returned. Without a limit to apply the allowlist stays what it was.\<close>

definition CheckClientIpJob_Run :: "job_env \<Rightarrow> job_state \<Rightarrow> job_state \<times> (inbound \<times> string) list" where
  "CheckClientIpJob_Run e s =
     (let s = pruneStaleIpRows (seNow (jeScan e)) s in
      case jeOnline e of
        None \<Rightarrow> (s, [])
      | Some users \<Rightarrow>
          if \<not> isFail2BanEnabled (jeFail2ban e) then (s, [])
          else let enforce = resolveEnforce (jeWindows e) (jeHasLimit e) (jeHasLimit e \<and> jeClient e);
                   env = (jeScan e)\<lparr>seEnforce := enforce, seLive := True,
                     seAllowlist := (if enforce then loadAllowlist (jeAllowlist e) else seAllowlist (jeScan e))\<rparr>;
                   seen_now = collectFromOnlineAPI (seNow env) users;
                   (scan, disconnects) = processObserved env (jeOwner e) (jeBegins e) (jeCommits e) seen_now (jsScan s);
                   nodes = (if jeBegins e \<and> jeCommits e
                     then recordLocalAttribution e (local_attribution env (jeOwner e) seen_now) (jsNodes s) else jsNodes s)
               in (s\<lparr>jsScan := scan, jsNodes := nodes\<rparr>, disconnects))"

section \<open>Lemmas\<close>

lemma split_filter: "allowlist_split l es = (filter (\<lambda>e. \<not> allowlist_contains l (ieIP e)) es, filter (\<lambda>e. allowlist_contains l (ieIP e)) es)"
  by (auto simp: allowlist_split_def allowlist_contains_def)

lemma ban_key_inject [simp]: "ban_key email a = ban_key email b \<longleftrightarrow> a = b"
  by (simp add: ban_key_def)

definition advanced :: "string \<Rightarrow> (string \<times> int) list \<Rightarrow> ip_entry \<Rightarrow> bool" where
  "advanced email S e \<longleftrightarrow> (case map_of S (ban_key email (ieIP e)) of Some t \<Rightarrow> t < ieTime e | None \<Rightarrow> True)"

lemma remember_fold:
  assumes "distinct (map ieIP es)"
  shows "snd (fold (remember email) es (S, A)) = A @ filter (advanced email S) es
    \<and> map_of (fst (fold (remember email) es (S, A))) k =
      (case find (\<lambda>e. k = ban_key email (ieIP e)) es of
         Some e \<Rightarrow> if advanced email S e then Some (ieTime e) else map_of S k | None \<Rightarrow> map_of S k)"
  using assms
proof (induction es arbitrary: S A)
  case (Cons e es)
  let ?S = "fst (remember email e (S, A))" and ?A = "snd (remember email e (S, A))"
  have S: "map_of ?S k = (if k = ban_key email (ieIP e) \<and> advanced email S e then Some (ieTime e) else map_of S k)" for k
    by (auto simp: remember_def advanced_def Let_def update_conv' split: option.split)
  have A: "?A = A @ (if advanced email S e then [e] else [])"
    by (auto simp: remember_def advanced_def Let_def split: option.split)
  have same: "advanced email ?S d = advanced email S d" if "d \<in> set es" for d
  proof -
    have "ieIP d \<noteq> ieIP e" using Cons.prems imageI [OF that, of ieIP] by auto
    then show ?thesis by (simp add: advanced_def S)
  qed
  have IH: "snd (fold (remember email) es (?S, ?A)) = ?A @ filter (advanced email ?S) es"
    "map_of (fst (fold (remember email) es (?S, ?A))) k =
      (case find (\<lambda>e. k = ban_key email (ieIP e)) es of
         Some e \<Rightarrow> if advanced email ?S e then Some (ieTime e) else map_of ?S k | None \<Rightarrow> map_of ?S k)"
    using Cons.IH [of ?S ?A] Cons.prems by simp_all
  have f: "filter (advanced email ?S) es = filter (advanced email S) es" by (rule filter_cong [OF refl same])
  have n: "find (\<lambda>d. ban_key email (ieIP e) = ban_key email (ieIP d)) es = None" using Cons.prems by (auto simp: find_None_iff)
  have run: "fold (remember email) (e # es) (S, A) = fold (remember email) es (?S, ?A)" by simp
  have acts: "snd (fold (remember email) es (?S, ?A)) = A @ filter (advanced email S) (e # es)" using IH(1) A f by simp
  have "map_of (fst (fold (remember email) es (?S, ?A))) k =
      (case find (\<lambda>d. k = ban_key email (ieIP d)) (e # es) of
         Some d \<Rightarrow> if advanced email S d then Some (ieTime d) else map_of S k | None \<Rightarrow> map_of S k)"
  proof (cases "k = ban_key email (ieIP e)")
    case True
    then show ?thesis using IH(2) n S by simp
  next
    case False
    show ?thesis
    proof (cases "find (\<lambda>e. k = ban_key email (ieIP e)) es")
      case None
      then show ?thesis using IH(2) S False by simp
    next
      case (Some d)
      then have "d \<in> set es" by (auto simp: find_Some_iff)
      then show ?thesis using IH(2) S False Some same by simp
    qed
  qed
  with acts show ?case unfolding run by (rule conjI)
qed simp

lemma filterAdvanced:
  assumes "distinct (map ieIP banned)"
  shows "snd (filterAdvancedSinceLastBan email banned S) = filter (advanced email S) banned"
    and "map_of (fst (filterAdvancedSinceLastBan email banned S)) k =
      (if prefix (email @ ''|'') k \<and> k \<notin> (\<lambda>e. ban_key email (ieIP e)) ` set banned then None
       else case find (\<lambda>e. k = ban_key email (ieIP e)) banned of
         Some e \<Rightarrow> if advanced email S e then Some (ieTime e) else map_of S k | None \<Rightarrow> map_of S k)"
proof -
  obtain M A where f: "fold (remember email) banned (S, []) = (M, A)" by fastforce
  note r = remember_fold [OF assms, of email S "[]", unfolded f, simplified]
  show "snd (filterAdvancedSinceLastBan email banned S) = filter (advanced email S) banned"
    using r by (simp add: filterAdvancedSinceLastBan_def f Let_def)
  have m: "map_of (filter (\<lambda>(key, _). P key) xs) k = (if P k then map_of xs k else None)" for P and xs :: "(string \<times> int) list"
    by (induction xs) auto
  show "map_of (fst (filterAdvancedSinceLastBan email banned S)) k =
      (if prefix (email @ ''|'') k \<and> k \<notin> (\<lambda>e. ban_key email (ieIP e)) ` set banned then None
       else case find (\<lambda>e. k = ban_key email (ieIP e)) banned of
         Some e \<Rightarrow> if advanced email S e then Some (ieTime e) else map_of S k | None \<Rightarrow> map_of S k)"
    using r by (auto simp: filterAdvancedSinceLastBan_def f Let_def m)
qed

lemma entries_distinct: "distinct (map fst m) \<Longrightarrow> distinct (map ieIP (oldest_first (entries_of (filter P m))))"
proof -
  assume d: "distinct (map fst m)"
  have "mset (map ieIP (oldest_first es)) = mset (map ieIP es)" for es by (simp add: oldest_first_def)
  then have "distinct (map ieIP (oldest_first es)) = distinct (map ieIP es)" for es by (rule mset_eq_imp_distinct_iff)
  then show ?thesis using d by (simp add: distinct_map_filter)
qed

lemma set_live: "set (oldest_first (entries_of (filter P m))) = {e. (ieIP e, ieTime e) \<in> set m \<and> P (ieIP e, ieTime e)}"
  by (auto simp: oldest_first_def entries_of_def) (metis (mono_tags, lifting) case_prod_conv image_eqI ip_entry.surjective mem_Collect_eq old.unit.exhaust)

lemma sorted_live: "sorted (map ieTime (oldest_first es))"
  by (simp add: oldest_first_def)

lemma select_splits:
  assumes "selectIpsToBan live limit = (kept, banned)" "0 < limit"
  shows "live = banned @ kept" "length kept = min (nat limit) (length live)"
  using assms by (auto simp: selectIpsToBan_def Let_def split: if_splits)

lemma select_newest: "selectIpsToBan live limit = (kept, banned) \<Longrightarrow> 0 < limit \<Longrightarrow> sorted (map ieTime live) \<Longrightarrow>
    b \<in> set banned \<Longrightarrow> k \<in> set kept \<Longrightarrow> ieTime b \<le> ieTime k"
  using select_splits [of live limit kept banned] by (auto simp: sorted_append)

section \<open>What the limit does\<close>

text \<open>The addresses that count: connected now or seen a moment ago anywhere, and not on the allowlist.\<close>

definition counted :: "scan_env \<Rightarrow> ip_entry list \<Rightarrow> (string \<times> int) list \<Rightarrow> ip_entry set" where
  "counted env new m = {e. (ieIP e, ieTime e) \<in> set m \<and> is_live (seNow env) (map ieIP new) (ieIP e, ieTime e)
     \<and> \<not> allowlist_contains (seAllowlist env) (ieIP e)}"

definition merged_ips :: "scan_env \<Rightarrow> blob \<Rightarrow> ip_entry list \<Rightarrow> (string \<times> int) list" where
  "merged_ips env row new = mergeClientIps (decoded row) new (seNow env - ipStaleAfterSeconds) (seLive env)"

lemma merged_ips_distinct: "distinct (map fst (merged_ips env row new))"
  by (simp add: merged_ips_def mergeClientIps_def merge_map_def keep_newer_distinct set_entry_distinct)

definition over_limit :: "scan_env \<Rightarrow> string \<Rightarrow> blob \<Rightarrow> ip_entry list \<Rightarrow> ip_entry list" where
  "over_limit env email row new = snd (selectIpsToBan (filter (\<lambda>e. \<not> allowlist_contains (seAllowlist env) (ieIP e))
     (oldest_first (entries_of (filter (is_live (seNow env) (map ieIP new)) (merged_ips env row new))))) (seLimit env email))"

lemma over_limit_log [simp]: "over_limit (env\<lparr>seLogOpens := f\<rparr>) email row new = over_limit env email row new"
  by (simp add: over_limit_def merged_ips_def)

text \<open>The parts of an update: what is kept and what is banned of the addresses that count, and the rest.\<close>

lemma update_parts:
  assumes "inSettings ib \<noteq> []" "seEnforce env" "0 < seLimit env email" "inEnable ib"
  obtains kept banned rest where "banned = over_limit env email row new"
    "set (kept @ banned) = counted env new (merged_ips env row new)" "distinct (map ieIP (banned @ kept))"
    "length kept = min (nat (seLimit env email)) (length (banned @ kept))"
    "\<And>b k. b \<in> set banned \<Longrightarrow> k \<in> set kept \<Longrightarrow> ieTime b \<le> ieTime k"
    "set rest = {e. (ieIP e, ieTime e) \<in> set (merged_ips env row new)} - counted env new (merged_ips env row new)"
    "updateInboundClientIps env email ib row new s =
       (let (memory, actionable) = filterAdvancedSinceLastBan email banned (ssBanned s); s = s\<lparr>ssBanned := memory\<rparr>
        in if actionable \<noteq> [] \<and> \<not> seLogOpens env email then (s, False)
           else (save_row env email (kept @ rest)
                  (s\<lparr>ssLog := ssLog s @ map (\<lambda>e. \<lparr>llEmail = email, llIP = ieIP e, llTime = ieTime e\<rparr>) actionable\<rparr>), actionable \<noteq> []))"
proof -
  let ?m = "merged_ips env row new" and ?l = "is_live (seNow env) (map ieIP new)" and ?al = "allowlist_contains (seAllowlist env)"
  let ?live = "oldest_first (entries_of (filter ?l ?m))" and ?hist = "oldest_first (entries_of (filter (\<lambda>p. \<not> ?l p) ?m))"
  let ?lim = "filter (\<lambda>e. \<not> ?al (ieIP e)) ?live" and ?ok = "filter (\<lambda>e. ?al (ieIP e)) ?live"
  obtain kept banned where sel: "selectIpsToBan ?lim (seLimit env email) = (kept, banned)" by fastforce
  note sp = select_splits [OF sel assms(3)]
  have "distinct (map ieIP ?lim)" by (rule distinct_map_filter, rule entries_distinct, rule merged_ips_distinct)
  moreover have "sorted (map ieTime ?lim)" by (rule sorted_filter, rule sorted_live)
  moreover have "set ?lim = counted env new ?m" by (auto simp: set_live counted_def)
  moreover have "set (?ok @ ?hist) = {e. (ieIP e, ieTime e) \<in> set ?m} - counted env new ?m" by (auto simp: set_live counted_def)
  moreover have "updateInboundClientIps env email ib row new s =
       (let (memory, actionable) = filterAdvancedSinceLastBan email banned (ssBanned s); s = s\<lparr>ssBanned := memory\<rparr>
        in if actionable \<noteq> [] \<and> \<not> seLogOpens env email then (s, False)
           else (save_row env email (kept @ ?ok @ ?hist)
                  (s\<lparr>ssLog := ssLog s @ map (\<lambda>e. \<lparr>llEmail = email, llIP = ieIP e, llTime = ieTime e\<rparr>) actionable\<rparr>), actionable \<noteq> []))"
    using assms sel unfolding merged_ips_def by (simp add: updateInboundClientIps_def partitionLiveIps_def split_filter Let_def)
  moreover have "banned = over_limit env email row new" by (simp add: over_limit_def sel)
  ultimately show thesis using sp select_newest [OF sel assms(3)] by (intro that [of banned kept "?ok @ ?hist"]) auto
qed

lemma card_entries: "distinct (map ieIP es) \<Longrightarrow> card (set es) = length es"
  using distinct_card distinct_map by blast

lemma after_ban:
  assumes "distinct (map ieIP banned)" "b \<in> set banned"
  shows "\<exists>t. map_of (fst (filterAdvancedSinceLastBan email banned S)) (ban_key email (ieIP b)) = Some t \<and> ieTime b \<le> t"
proof -
  obtain d where d: "find (\<lambda>e. ban_key email (ieIP b) = ban_key email (ieIP e)) banned = Some d"
    using assms(2) by (cases "find (\<lambda>e. ban_key email (ieIP b) = ban_key email (ieIP e)) banned") (auto simp: find_None_iff)
  then have "d \<in> set banned" "ieIP d = ieIP b" by (auto simp: find_Some_iff)
  then have "d = b" using assms by (metis distinct_map inj_onD)
  moreover have "ban_key email (ieIP b) \<in> (\<lambda>e. ban_key email (ieIP e)) ` set banned" using assms(2) by blast
  ultimately show ?thesis
    using filterAdvanced(2) [OF assms(1), of email S "ban_key email (ieIP b)"] d
    by (auto simp: advanced_def split: option.splits)
qed

lemma no_repeat:
  assumes "distinct (map ieIP banned)" "distinct (map ieIP banned')"
    and "\<And>e. e \<in> set banned' \<Longrightarrow> \<exists>b \<in> set banned. ieIP b = ieIP e \<and> ieTime e \<le> ieTime b"
  shows "snd (filterAdvancedSinceLastBan email banned' (fst (filterAdvancedSinceLastBan email banned S))) = []"
proof -
  have "\<not> advanced email (fst (filterAdvancedSinceLastBan email banned S)) e" if e: "e \<in> set banned'" for e
  proof -
    obtain b where b: "b \<in> set banned" "ieIP b = ieIP e" "ieTime e \<le> ieTime b" using assms(3) [OF e] by blast
    from after_ban [OF assms(1) b(1), of email S] b show ?thesis by (auto simp: advanced_def)
  qed
  then show ?thesis by (simp add: filterAdvanced(1) [OF assms(2)])
qed

section \<open>An example\<close>

text \<open>A client with a limit of one that is connected from two addresses, the second of them newer.\<close>

definition example_scan :: scan_env where
  "example_scan = \<lparr>seNow = 10000, seEnforce = True, seLive = True, seAllowlist = parseIpLimitAllowlist ''10.0.0.0/8'',
     seLimit = (\<lambda>_. 1), seSave = (\<lambda>_. True), seLogOpens = (\<lambda>_. True)\<rparr>"

definition example_owner :: inbound where
  "example_owner = \<lparr>inId = 1, inRemark = [], inEnable = True, inListen = [], inPort = 443, inProtocol = ''vless'',
     inSettings = ''{}'', inStreamSettings = [], inTag = ''t'', inNodeID = None\<rparr>"

definition example_new :: "ip_entry list" where
  "example_new = [\<lparr>ieIP = ''1.1.1.1'', ieTime = 9000\<rparr>, \<lparr>ieIP = ''2.2.2.2'', ieTime = 9900\<rparr>, \<lparr>ieIP = ''10.1.1.1'', ieTime = 50\<rparr>]"

definition example_state :: scan_state where
  "example_state = \<lparr>ssTable = [(''c'', NoIps)], ssBanned = [], ssLog = []\<rparr>"

text \<open>A run that has no limit to apply, or cannot apply it, bans nobody.\<close>

lemma scan_idle: "\<not> seEnforce env \<Longrightarrow> scan_one env owner rows p s = (s', d) \<Longrightarrow> d = snd s \<and> ssLog s' = ssLog (fst s) \<and> ssBanned s' = ssBanned (fst s)"
  by (auto simp: scan_one_def updateInboundClientIps_def save_row_def Let_def split: owner.splits option.splits if_splits)

lemma scans_idle: "\<not> seEnforce env \<Longrightarrow> fold (scan_one env owner rows) ps s = (s', d) \<Longrightarrow>
    d = snd s \<and> ssLog s' = ssLog (fst s) \<and> ssBanned s' = ssBanned (fst s)"
proof (induction ps arbitrary: s)
  case (Cons p ps)
  obtain s1 d1 where 1: "scan_one env owner rows p s = (s1, d1)" by fastforce
  then show ?case using Cons.IH [OF Cons.prems(1), of "(s1, d1)"] Cons.prems scan_idle [OF Cons.prems(1) 1] by simp
qed auto

lemma process_idle:
  assumes "\<not> seEnforce env" "processObserved env owner begins commits seen_now s = (s', d)"
  shows "d = [] \<and> ssLog s' = ssLog s \<and> ssBanned s' = ssBanned s"
proof -
  obtain s1 d1 where 1: "fold (scan_one env owner (ssTable s)) (sort_key fst seen_now) (s, []) = (s1, d1)" by fastforce
  from scans_idle [OF assms(1) 1] assms(2) 1 show ?thesis by (auto simp: processObserved_def split: if_splits)
qed

theorem run_without_limit_bans_nobody:
  assumes "\<not> jeHasLimit e \<or> (\<not> jeWindows e \<and> \<not> jeClient e)" "CheckClientIpJob_Run e s = (s', d)"
  shows "d = [] \<and> ssLog (jsScan s') = ssLog (jsScan s) \<and> ssBanned (jsScan s') = ssBanned (jsScan s)"
proof -
  have n: "\<not> resolveEnforce (jeWindows e) (jeHasLimit e) (jeHasLimit e \<and> jeClient e)" using assms(1) by (auto simp: resolveEnforce_def)
  have p: "ssLog (jsScan (pruneStaleIpRows now s)) = ssLog (jsScan s) \<and> ssBanned (jsScan (pruneStaleIpRows now s)) = ssBanned (jsScan s)" for now
    by (simp add: pruneStaleIpRows_def split: prod.splits)
  show ?thesis
  proof (cases "jeOnline e = None \<or> \<not> isFail2BanEnabled (jeFail2ban e)")
    case True
    then show ?thesis using assms(2) p by (auto simp: CheckClientIpJob_Run_def Let_def split: option.splits)
  next
    case False
    then obtain users where u: "jeOnline e = Some users" "isFail2BanEnabled (jeFail2ban e)" by auto
    obtain scan d1 where 1: "processObserved ((jeScan e)\<lparr>seEnforce := False, seLive := True\<rparr>) (jeOwner e) (jeBegins e) (jeCommits e)
        (collectFromOnlineAPI (seNow (jeScan e)) users) (jsScan (pruneStaleIpRows (seNow (jeScan e)) s)) = (scan, d1)" by fastforce
    have "d = d1 \<and> jsScan s' = scan" using assms(2) u n 1 by (auto simp: CheckClientIpJob_Run_def Let_def)
    with process_idle [OF _ 1] p show ?thesis by simp
  qed
qed

section \<open>Properties\<close>



text \<open>An address over the limit whose connection is merely not reaped yet is reported once: a later scan that sees nothing
  newer of it reports nothing.\<close>

theorem frozen_address_reported_once:
  assumes "distinct (map ieIP banned)" "distinct (map ieIP banned')"
    and "\<And>e. e \<in> set banned' \<Longrightarrow> \<exists>b \<in> set banned. ieIP b = ieIP e \<and> ieTime e \<le> ieTime b"
  shows "snd (filterAdvancedSinceLastBan email banned' (fst (filterAdvancedSinceLastBan email banned S))) = []"
  by (rule no_repeat [OF assms])

theorem frozen_address_reported_once_witness:
  "snd (filterAdvancedSinceLastBan ''c'' example_new (fst (filterAdvancedSinceLastBan ''c'' example_new []))) = []"
  by (rule frozen_address_reported_once) (auto simp: example_new_def)

text \<open>The memory of bans does not tell clients apart whose e-mails differ by a vertical bar: a scan of one client erases what
  is remembered of the other, whose frozen addresses are then all reported again.\<close>

theorem ban_memory_collision:
  assumes "distinct (map ieIP banned')" "\<And>e ip. e \<in> set banned \<Longrightarrow> ieIP e \<noteq> x @ ''|'' @ ip" "distinct (map ieIP banned)"
  shows "snd (filterAdvancedSinceLastBan (email @ ''|'' @ x) banned' (fst (filterAdvancedSinceLastBan email banned S))) = banned'"
proof -
  have "map_of (fst (filterAdvancedSinceLastBan email banned S)) (ban_key (email @ ''|'' @ x) ip) = None" for ip
  proof -
    have "ban_key (email @ ''|'' @ x) ip = email @ ''|'' @ (x @ ''|'' @ ip)" by (simp add: ban_key_def)
    moreover have "ban_key (email @ ''|'' @ x) ip \<notin> (\<lambda>e. ban_key email (ieIP e)) ` set banned"
    proof -
      have "x @ ''|'' @ ip \<notin> ieIP ` set banned" using assms(2) by (metis imageE)
      then show ?thesis by (auto simp: ban_key_def)
    qed
    ultimately show ?thesis by (simp add: filterAdvanced(2) [OF assms(3)])
  qed
  then have "advanced (email @ ''|'' @ x) (fst (filterAdvancedSinceLastBan email banned S)) e" for e by (simp add: advanced_def)
  then show ?thesis by (simp add: filterAdvanced(1) [OF assms(1)])
qed

theorem ban_memory_collision_witness:
  "snd (filterAdvancedSinceLastBan ''a|b'' example_new (fst (filterAdvancedSinceLastBan ''a'' []
     (fst (filterAdvancedSinceLastBan ''a|b'' example_new []))))) = example_new"
  using ban_memory_collision [of example_new "[]" "''b''" "''a''" "fst (filterAdvancedSinceLastBan ''a|b'' example_new [])"]
  by (simp add: example_new_def)



end
