(* ===== verification/Tunnel_Monitor.thy ===== *)
theory Tunnel_Monitor
  imports Go_Strings
begin

text \<open>
  \<open>internal/tunnelmonitor/monitor.go\<close>: the probe of the tunnel that restarts the core after repeated failures. Times and
  durations are nanoseconds. The answer to a probe, the clock and the outcome of a restart are arguments; reading the
  environment and the HTTP client are left out.
\<close>

section \<open>Configuration\<close>

record monitor_config =
  cfgEnabled :: bool
  cfgURL :: string
  cfgProxyURL :: string
  cfgInterval :: int
  cfgTimeout :: int
  cfgFailureThreshold :: int
  cfgCooldown :: int

definition second :: int where
  "second = 1000000000"

definition defaultHealthURL :: string where
  "defaultHealthURL = ''https://www.cloudflare.com/cdn-cgi/trace''"

definition DefaultConfig :: monitor_config where
  "DefaultConfig = \<lparr>cfgEnabled = False, cfgURL = defaultHealthURL, cfgProxyURL = [], cfgInterval = 30 * second,
     cfgTimeout = 10 * second, cfgFailureThreshold = 3, cfgCooldown = 300 * second\<rparr>"

definition Normalize :: "monitor_config \<Rightarrow> monitor_config" where
  "Normalize c = \<lparr>cfgEnabled = cfgEnabled c,
     cfgURL = trim_space (if trim_space (cfgURL c) = [] then defaultHealthURL else cfgURL c),
     cfgProxyURL = trim_space (cfgProxyURL c),
     cfgInterval = (if cfgInterval c < second then 30 * second else cfgInterval c),
     cfgTimeout = (if cfgTimeout c < second then 10 * second else cfgTimeout c),
     cfgFailureThreshold = (if cfgFailureThreshold c < 1 then 3 else cfgFailureThreshold c),
     cfgCooldown = (if cfgCooldown c < second then 300 * second else cfgCooldown c)\<rparr>"

section \<open>The monitor\<close>

record monitor =
  moCfg :: monitor_config
  moFailures :: int
  moLastRecovery :: "int option"

definition newWithClient :: "monitor_config \<Rightarrow> monitor" where
  "newWithClient cfg = \<lparr>moCfg = Normalize cfg, moFailures = 0, moLastRecovery = None\<rparr>"

text \<open>The status of the answer, if there was one.\<close>

definition probe :: "int option \<Rightarrow> bool" where
  "probe answer \<longleftrightarrow> (case answer of None \<Rightarrow> False | Some status \<Rightarrow> 200 \<le> status \<and> status < 400)"

text \<open>\<open>Time.Sub\<close> stays in the range of a duration.\<close>

definition time_Sub :: "int \<Rightarrow> int \<Rightarrow> int" where
  "time_Sub a b = max (- (2 ^ 63)) (min (2 ^ 63 - 1) (a - b))"

datatype step_error = BelowThreshold | CooldownActive | NoRecovery | RecoveryFailed | ProbeFailed

text \<open>The function that restarts the core may be missing, or fail.\<close>

definition Step :: "bool option \<Rightarrow> int option \<Rightarrow> int \<Rightarrow> monitor \<Rightarrow> bool \<times> step_error option \<times> monitor" where
  "Step recovery answer now m =
     (if \<not> probe answer then
        let m = m\<lparr>moFailures := moFailures m + 1\<rparr>; n = cfgFailureThreshold (moCfg m) in
        if moFailures m < n then (False, Some BelowThreshold, m)
        else if (case moLastRecovery m of None \<Rightarrow> False | Some t \<Rightarrow> time_Sub now t < cfgCooldown (moCfg m))
        then (False, Some CooldownActive, m\<lparr>moFailures := n\<rparr>)
        else case recovery of
            None \<Rightarrow> (False, Some NoRecovery, m\<lparr>moFailures := n\<rparr>)
          | Some False \<Rightarrow> (False, Some RecoveryFailed, m)
          | Some True \<Rightarrow> (True, Some ProbeFailed, m\<lparr>moLastRecovery := Some now, moFailures := 0\<rparr>)
      else (False, None, m\<lparr>moFailures := 0\<rparr>))"

section \<open>What has happened\<close>

text \<open>One tick: its time, whether the probe failed, and whether the core was restarted. Histories have the newest tick first.\<close>

record tick =
  tkTime :: int
  tkFailed :: bool
  tkRecovered :: bool

inductive runs_to :: "monitor_config \<Rightarrow> monitor \<Rightarrow> tick list \<Rightarrow> bool" for cfg where
  new: "runs_to cfg (newWithClient cfg) []"
| tick: "runs_to cfg m hist \<Longrightarrow> list_all (\<lambda>e. tkTime e \<le> now) hist \<Longrightarrow> Step recovery answer now m = (recovered, err, m') \<Longrightarrow>
    runs_to cfg m' (\<lparr>tkTime = now, tkFailed = \<not> probe answer, tkRecovered = recovered\<rparr> # hist)"

definition waiting :: "tick \<Rightarrow> bool" where
  "waiting e \<longleftrightarrow> tkFailed e \<and> \<not> tkRecovered e"

lemma waiting_tick [simp]: "waiting \<lparr>tkTime = t, tkFailed = f, tkRecovered = r\<rparr> \<longleftrightarrow> f \<and> \<not> r"
  by (simp add: waiting_def)

definition last_restart :: "tick list \<Rightarrow> int option" where
  "last_restart hist = map_option tkTime (find tkRecovered hist)"

text \<open>Every restart follows enough failures in a row and leaves the cooldown to the restart before it.\<close>

fun paced :: "monitor_config \<Rightarrow> tick list \<Rightarrow> bool" where
  "paced c [] = True"
| "paced c (e # hist) \<longleftrightarrow> paced c hist \<and> (tkRecovered e \<longrightarrow>
     tkFailed e \<and> cfgFailureThreshold c \<le> int (length (takeWhile waiting hist)) + 1
     \<and> (case last_restart hist of None \<Rightarrow> True | Some t \<Rightarrow> cfgCooldown c \<le> time_Sub (tkTime e) t))"

lemma runs_invariant:
  "runs_to cfg m hist \<Longrightarrow> moCfg m = Normalize cfg \<and> 0 \<le> moFailures m \<and> moLastRecovery m = last_restart hist
    \<and> moFailures m \<le> int (length (takeWhile waiting hist)) \<and> paced (Normalize cfg) hist"
proof (induction rule: runs_to.induct)
  case new
  then show ?case by (simp add: newWithClient_def last_restart_def)
next
  case (tick m hist now recovery answer recovered err m')
  have pos: "1 \<le> cfgFailureThreshold (Normalize cfg)" by (simp add: Normalize_def)
  show ?case using tick.IH tick.hyps(3) pos
    by (auto simp: Step_def Let_def last_restart_def split: if_splits option.splits bool.splits)
qed

lemma runs_sorted: "runs_to cfg m hist \<Longrightarrow> sorted_wrt (\<lambda>a b. tkTime b \<le> tkTime a) hist"
  by (induction rule: runs_to.induct) (auto simp: list_all_iff)

lemma paced_at: "paced c (a @ x # hist) \<Longrightarrow> tkRecovered x \<Longrightarrow>
    tkFailed x \<and> cfgFailureThreshold c \<le> int (length (takeWhile waiting hist)) + 1
    \<and> (case last_restart hist of None \<Rightarrow> True | Some t \<Rightarrow> cfgCooldown c \<le> time_Sub (tkTime x) t)"
  by (induction a) simp_all

text \<open>Probes that fail at the given times, while the core can be restarted.\<close>

fun failing :: "int list \<Rightarrow> monitor \<Rightarrow> bool \<times> monitor" where
  "failing [] m = (False, m)"
| "failing (now # ts) m =
     (case Step (Some True) None now m of (recovered, _, m') \<Rightarrow> let (r, m'') = failing ts m' in (recovered \<or> r, m''))"

lemma failing_append: "failing (ts @ us) m = (let (r, m') = failing ts m; (r', m'') = failing us m' in (r \<or> r', m''))"
  by (induction ts arbitrary: m) (auto split: prod.splits)

lemma failing_counts:
  assumes "failing ts m = (False, m')"
  shows "moCfg m' = moCfg m \<and> moLastRecovery m' = moLastRecovery m
    \<and> min (cfgFailureThreshold (moCfg m)) (moFailures m + int (length ts)) \<le> moFailures m'"
  using assms
proof (induction ts arbitrary: m)
  case (Cons now ts)
  obtain r err m1 where s: "Step (Some True) None now m = (r, err, m1)" by (cases "Step (Some True) None now m") auto
  then have r: "\<not> r" "failing ts m1 = (False, m')" using Cons.prems by (auto split: prod.splits)
  have "moCfg m1 = moCfg m \<and> moLastRecovery m1 = moLastRecovery m
    \<and> min (cfgFailureThreshold (moCfg m)) (moFailures m + 1) \<le> moFailures m1"
    using s r(1) by (auto simp: Step_def probe_def Let_def split: if_splits)
  then show ?case using Cons.IH [OF r(2)] by auto
qed simp

section \<open>Properties\<close>


text \<open>Failing probes at the given times, newest first.\<close>

fun play :: "monitor_config \<Rightarrow> int list \<Rightarrow> monitor \<times> tick list" where
  "play cfg [] = (newWithClient cfg, [])"
| "play cfg (now # ts) = (case play cfg ts of (m, hist) \<Rightarrow> case Step (Some True) None now m of (r, _, m') \<Rightarrow>
     (m', \<lparr>tkTime = now, tkFailed = True, tkRecovered = r\<rparr> # hist))"

lemma play_times: "map tkTime (snd (play cfg ts)) = ts"
  by (induction ts) (auto split: prod.splits)

lemma play_runs: "sorted_wrt (\<lambda>a b. b \<le> a) ts \<Longrightarrow> runs_to cfg (fst (play cfg ts)) (snd (play cfg ts))"
proof (induction ts)
  case (Cons now ts)
  obtain m hist where p: "play cfg ts = (m, hist)" by fastforce
  obtain r err m' where s: "Step (Some True) None now m = (r, err, m')" by (cases "Step (Some True) None now m") auto
  have "tkTime ` set hist = set ts" using play_times [of cfg ts] p by (metis image_set snd_conv)
  then have "list_all (\<lambda>e. tkTime e \<le> now) hist" using Cons.prems by (auto simp: list_all_iff)
  from runs_to.tick [OF _ this s] Cons p show ?case by (simp add: s probe_def)
qed (simp add: runs_to.new)


text \<open>C33: When every probe fails and the core can be restarted, it is restarted by the time the threshold is reached and the
  cooldown is over.\<close>

theorem dead_tunnel_restarted:
  assumes "0 < cfgFailureThreshold (moCfg m)" "0 \<le> moFailures m" "cfgFailureThreshold (moCfg m) \<le> int (length ts)"
    and "case moLastRecovery m of None \<Rightarrow> True | Some t \<Rightarrow> cfgCooldown (moCfg m) \<le> time_Sub (last ts) t"
  shows "fst (failing ts m)"
proof (rule ccontr)
  assume n: "\<not> fst (failing ts m)"
  have "ts \<noteq> []" using assms(1,3) by auto
  then obtain us now where t: "ts = us @ [now]" by (metis append_butlast_last_id)
  obtain m1 where f: "failing us m = (False, m1)" using n t by (cases "failing us m") (auto simp: failing_append split: prod.splits)
  note c = failing_counts [OF f]
  have "cfgFailureThreshold (moCfg m1) \<le> moFailures m1 + 1" using c assms(2,3) t by auto
  moreover have "\<not> (case moLastRecovery m1 of None \<Rightarrow> False | Some t \<Rightarrow> time_Sub now t < cfgCooldown (moCfg m1))"
    using assms(4) c t by (auto split: option.splits)
  ultimately have "fst (Step (Some True) None now m1)" by (auto simp: Step_def probe_def Let_def split: option.splits)
  then show False using n t f by (auto simp: failing_append split: prod.splits)
qed

theorem dead_tunnel_restarted_witness: "fst (failing [1, 2, 3] (newWithClient DefaultConfig))"
  by (rule dead_tunnel_restarted) (simp_all add: newWithClient_def Normalize_def DefaultConfig_def)

end
