(* ===== verification/Spec2Isabelle.thy ===== *)
theory Spec2Isabelle
  imports Cps_Session Hot_Apply Port_Conflict Wg_Clients Awg_Params Awg_Job Awg_Profiles Ip_Limit Tunnel_Monitor
begin

text \<open>
  The LucX panel (a fork of 3x-ui) stores inbounds, clients and outbounds in a database, generates from them the
  configuration of an Xray core, of AmneziaWG interfaces and of side tunnels, and applies it. This development
  models the parts of the Go code where a mistake cuts users off, opens a port to the wrong peer or gives away the
  tunnel: the change of a running core, the ports and addresses that are handed out, the AmneziaWG parameters, and
  the packets that imitate other protocols.

  \<^bold>\<open>The Go library.\<close> A Go string is a list of bytes (\<open>string\<close>), a byte is an 8-bit word, an \<open>int\<close> is an \<open>int\<close>
  with the 64-bit range written out where a value is read from text. A function that returns an error is a sum or an
  option. Random draws come from a finite list of numbers that continues with zeros (\<open>rng\<close>), so a loop that draws
  until a value fits ends in the model when the list does. Theory Go_Prelude holds the vocabulary, Go_Strings what is
  used of \<open>strings\<close>, \<open>strconv\<close> and \<open>encoding/hex\<close>, Go_Json the syntax tree, parser and canonical printer of
  \<open>encoding/json\<close>, Go_Struct decoding into structs, Go_Netip and Go_Prefix \<open>net/netip\<close>, Go_Base64
  \<open>encoding/base64\<close>. What is printed there is read back (addresses, prefixes, base64, hexadecimal, decimal, JSON).

  \<^bold>\<open>Imitated packets\<close> (\<open>internal/awg/cps\<close>, \<open>internal/awg/signature\<close>). Cps_Hello models the TLS ClientHello
  builders of \<open>cps.go\<close>, Cps_Descriptor the language of junk packets and the netlink budget
  (\<open>descriptor.go\<close>, \<open>cps_budget.go\<close>, \<open>idescriptor.go\<close>), Quic_Initial the QUIC Initial packet and the capture of a
  signature (\<open>capture.go\<close>; AES, SHA-256 and the network are parameters), Cps_Session the sessions for TLS,
  QUIC, DNS and SIP and the generator that fits them to the budget. The lemmas parse what is built: every ClientHello
  is a well-formed handshake message, every Initial opens to it, every generated descriptor fits.

  \<^bold>\<open>Reconfiguration of the core\<close> (\<open>internal/xray/hot_diff.go\<close>, \<open>internal/web/service/xray.go\<close>). Hot_Diff computes
  the difference of two configurations, Hot_Apply applies it to an abstract core whose handler table each gRPC call
  changes. The main theorem is a refinement: after an apply without error the core runs the new configuration.
  Others say which clients are cut off and that the API inbound is never touched.

  \<^bold>\<open>Ports\<close>. Awg_Ports models the list of forwarded ports (\<open>internal/amneziawg/portfwd.go\<close>), Awg_Instance the
  reading of a stored AmneziaWG inbound (\<open>internal/amneziawg\<close>, \<open>internal/database/model\<close>), Awg_Forward the supervisor
  that opens and closes the listeners (\<open>internal/amneziawgnet/portfwd.go\<close>; sockets are an abstract host, the supervisor
  is a state machine whose invariant is that no listener outlives its client), Port_Conflict the check of a new
  inbound against all others and the inbound tags (\<open>internal/web/service/port_conflict.go\<close>; the database is the list of
  rows or an error).

  \<^bold>\<open>Tunnel clients\<close> (\<open>internal/web/service/client_wireguard.go\<close>, \<open>client_amneziawg.go\<close>, \<open>client_awg.go\<close>,
  \<open>internal/util/wireguard\<close>). Wg_Keys models the keys (the curve is a parameter), Wg_Alloc the allocation and
  normalisation of addresses, Wg_Clients the three functions that fill in new clients. They share the contract of
  the locales \<open>tunnel_settle\<close> and \<open>tunnel_settle_strict\<close>: what one client is given does not collide with what is in
  use, from which the disjointness of all clients of a request follows once for the three of them.

  \<^bold>\<open>AmneziaWG parameters\<close> (\<open>internal/amneziawg/params.go\<close>). Awg_Params generates and validates the obfuscation
  parameters; what is generated is always accepted, and what is accepted keeps the promises made to the engine.
  Awg_Profiles generates those of a kernel interface for a profile, with the device timers (\<open>internal/awg/cps/params.go\<close>):
  they are accepted too, and the draws for which two kinds of packet get the same size are described.

  \<^bold>\<open>Kernel interfaces\<close> (\<open>internal/awg\<close>). Awg_Kernel reads the configuration of a kernel AmneziaWG interface out of an
  inbound (\<open>instance.go\<close>), Awg_Nat models the shell commands that route its clients, directly, through a TUN device or
  through TPROXY (\<open>manager.go\<close>, \<open>tproxy.go\<close>), with an interpreter for the rules they set: taking an interface down
  restores the firewall, TPROXY lets nothing past Xray, and nothing stored reaches the shell but harmless words.
  Conf_Lines and Awg_Conf model the configuration files, written (\<open>manager.go\<close>, \<open>client_conf.go\<close>) and read
  (\<open>import_parse.go\<close>, \<open>internal/web/service/awg_outbound.go\<close>), and show that no stored value adds a line to a file;
  Conf_Roundtrip says what is read back from what was written. What the host supports is an argument. Conf_Fingerprint
  shows that the two fingerprints of an interface determine its file. Awg_Manager models the manager of the interfaces
  (\<open>manager.go\<close>, \<open>process.go\<close>): its entries, the configuration files with their ownership marker and the interfaces of
  the host are the state; what a tool does is fixed, whether it succeeds is an argument. Awg_Reconcile defines the
  states it can reach and shows that an interface that is taken for up to date runs exactly its file, that files and
  interfaces of others are spared, and that the desired interfaces are reached. Awg_Job connects this with the stored
  inbounds: the periodic job and the change of one inbound (\<open>internal/web/job/awg_job.go\<close>,
  \<open>internal/web/runtime/local.go\<close>).

  \<^bold>\<open>Address limits\<close>. A client may use a number of addresses at a time. Ip_Table models the tables of the addresses
  each client was seen at, on all nodes and per node (\<open>internal/web/service/inbound_client_ips.go\<close>,
  \<open>inbound_node_ips.go\<close>): merging the report of a node is a join of sightings, so the order in which nodes report does not
  matter. Ip_Limit models the job that enforces the limit (\<open>internal/web/job/check_client_ip_job.go\<close>,
  \<open>ip_limit_allowlist.go\<close>); the files, the database and the clock are in \<open>scan_env\<close>, what it writes and remembers in
  \<open>scan_state\<close>. The lemmas say which addresses stay and which are banned, that a connection that is merely not reaped is not
  reported again, that a run without a limit bans nobody, and two ways in which the memory of bans goes wrong.

  \<^bold>\<open>Tunnel monitor\<close>. Tunnel_Monitor models the probe that restarts the core (\<open>internal/tunnelmonitor/monitor.go\<close>) as a
  step relation whose histories record each probe: restarts keep threshold and cooldown, and a dead tunnel is restarted.

  \<^bold>\<open>Bounds and fuel.\<close> No fuel is used: loops are structural or have a measure. Two loops of the code draw until
  a value fits and have no bound. The Chrome hello draws its second GREASE value again: its builder is \<open>None\<close> when
  the draws run out, and a theorem says for exactly which draws it returns. The generator of AmneziaWG parameters
  draws S2 again: it is a partial function, and a theorem says that it returns. The generator for kernel interfaces draws
  a padding again at most fifty times; the number is that of the code.

  \<^bold>\<open>Not modelled.\<close> The web front end, the HTTP controllers, the session and the settings pages, the subscription
  formats, the database layer with its migrations, the Telegram, Discord and e-mail bots, the node synchronisation,
  the managers of external processes other than kernel AmneziaWG, the adoption of foreign interfaces, the user-space network stack and its relays, and the
  traffic statistics: they are input and output around third-party libraries, or text rendering without a contract
  of its own. Logging and error texts are left out everywhere; an error is the value that tells which check failed.
\<close>

end
